(* ===== verification/Kernel_Prelude.thy ===== *)
theory Kernel_Prelude
  imports Main "HOL-Library.Word" "HOL-Library.Monad_Syntax"
begin

text \<open>
  Shared vocabulary of the kernel development: the fixed-width integer types of
  \<open>src/common.h\<close>, the reading of \<open>ASSERT\<close> and \<open>PANIC\<close>, the byte-addressed
  memory with its little-endian 32-bit accesses, page arithmetic, and the list and
  word lemmas that several components need.

  A kernel function that can reach \<open>panic()\<close> has a result in \<open>option\<close>: \<open>panic\<close> and
  \<open>panic_assert\<close> end in \<open>for(;;);\<close>, so control never comes back to the caller, and
  \<open>None\<close> is exactly "the call never returns". \<open>Some\<close> carries the returned value
  together with the state the call leaves.
\<close>

unbundle bit_operations_syntax

section \<open>Integer types of \<open>common.h\<close>\<close>

type_synonym u8int = "8 word"
type_synonym u16int = "16 word"
type_synonym u32int = "32 word"

named_theorems mem_simps "reads after writes of the byte memory"
named_theorems page_simps "page masks and page rounding, read as arithmetic on nat"

section \<open>Assertions\<close>

definition ASSERT :: "bool \<Rightarrow> unit option" where
  "ASSERT b = (if b then Some () else None)"

definition PANIC :: "'a option" where
  "PANIC = None"

lemma ASSERT_bind [simp]: "(ASSERT b \<bind> f) = (if b then f () else None)"
  by (simp add: ASSERT_def)

lemma ASSERT_eq_Some [simp]: "ASSERT b = Some u \<longleftrightarrow> b"
  by (simp add: ASSERT_def)

lemma bind_Some_iff:
  "(m \<bind> f) = Some y \<longleftrightarrow> (\<exists>x. m = Some x \<and> f x = Some y)"
  by (cases m) auto

section \<open>Words as numbers\<close>

lemma unat_lt_2_32 [simp]: "unat (a :: u32int) < 4294967296"
  using unsigned_less [of a, where ?'a = nat] by simp

lemma unat_le_max32 [simp]: "unat (a :: u32int) \<le> 4294967295"
  using unat_lt_2_32 [of a] by linarith

lemma unat_of_nat32:
  "n < 4294967296 \<Longrightarrow> unat (of_nat n :: u32int) = n"
  by (simp add: unsigned_of_nat take_bit_nat_eq_self_iff)

lemma unat_add32:
  "unat a + unat b < 4294967296 \<Longrightarrow> unat (a + b :: u32int) = unat a + unat b"
  by (rule unat_add_lem [THEN iffD1]) simp

lemma unat_sub32:
  "unat b \<le> unat a \<Longrightarrow> unat (a - b :: u32int) = unat a - unat b"
  by (simp add: unat_sub word_le_nat_alt)

lemma word32_eq_iff_unat: "(a :: u32int) = b \<longleftrightarrow> unat a = unat b"
  by (simp add: word_unat_eq_iff)

lemma of_nat32_eq_iff:
  "\<lbrakk>a < 4294967296; b < 4294967296\<rbrakk> \<Longrightarrow> (of_nat a :: u32int) = of_nat b \<longleftrightarrow> a = b"
  by (metis unat_of_nat32)

text \<open>Words read as signed integers.\<close>

lemma sint_nonneg:
  assumes "0 \<le> sint (w :: u32int)" shows "sint w = int (unat w)" "unat w < 2147483648"
proof -
  have s: "sint w = signed_take_bit 31 (uint w)" by (simp add: sint_uint)
  have u: "uint w < 4294967296" "0 \<le> uint w" using uint_lt2p [of w] by simp_all
  have "\<not> bit (uint w) 31"
  proof
    assume "bit (uint w) 31"
    then have "sint w < 0" unfolding s by (simp add: signed_take_bit_negative_iff)
    then show False using assms by simp
  qed
  then have t: "sint w = take_bit 31 (uint w)" unfolding s by (simp add: signed_take_bit_eq_if_positive)
  have "uint w = take_bit 32 (uint w)" using u by (intro take_bit_int_eq_self [symmetric]) simp_all
  also have "\<dots> = take_bit 31 (uint w)"
    using \<open>\<not> bit (uint w) 31\<close> by (simp add: take_bit_Suc_from_most [of 31, simplified])
  finally have e: "uint w = take_bit 31 (uint w)" .
  then show "sint w = int (unat w)" using t by simp
  have "take_bit 31 (uint w) < 2147483648" by (simp add: take_bit_eq_mod)
  moreover have "uint w = int (unat w)" by simp
  ultimately show "unat w < 2147483648" using e by linarith
qed

lemma sint_of_small: "unat (w :: u32int) < 2147483648 \<Longrightarrow> sint w = int (unat w)"
proof -
  assume "unat w < 2147483648"
  moreover have "uint w = int (unat w)" by simp
  ultimately have "uint w < 2147483648" by linarith
  then have "take_bit 31 (uint w) = uint w" by (intro take_bit_int_eq_self) simp_all
  moreover have "sint w = signed_take_bit 31 (uint w)" by (simp add: sint_uint)
  moreover have "\<not> bit (uint w) 31" using \<open>take_bit 31 (uint w) = uint w\<close> by (metis bit_take_bit_iff less_irrefl)
  ultimately show ?thesis by (simp add: signed_take_bit_eq_if_positive)
qed

lemma sint_neg: "sint (w :: u32int) < 0 \<Longrightarrow> sint w = - int (unat (0 - w))"
proof -
  assume neg: "sint w < 0"
  have u: "0 \<le> uint w" "uint w < 4294967296" using uint_lt2p [of w] by simp_all
  have "sint w = signed_take_bit 31 (uint w)" by (simp add: sint_uint)
  also have "\<dots> = take_bit 32 (uint w) - 4294967296 * of_bool (bit (uint w) 31)" by (subst signed_take_bit_eq_take_bit_minus) simp
  also have "take_bit 32 (uint w) = uint w" using u by (intro take_bit_int_eq_self) simp_all
  finally have e: "sint w = uint w - 4294967296 * of_bool (bit (uint w) 31)" .
  then have "bit (uint w) 31" using neg u by (cases "bit (uint w) 31") simp_all
  then have s: "sint w = int (unat w) - 4294967296" using e by simp
  have "w \<noteq> 0" using neg by auto
  then have "0 < unat w" by (simp add: unat_gt_0)
  then have "unat (0 - w) = 4294967296 - unat w" using unat_sub_if' [of 0 w] by simp
  then show ?thesis using s unat_lt_2_32 [of w] by linarith
qed

section \<open>Byte-addressed memory\<close>

type_synonym memory = "u32int \<Rightarrow> u8int"

definition load32 :: "memory \<Rightarrow> u32int \<Rightarrow> u32int" where
  "load32 m a = ucast (m a) OR push_bit 8 (ucast (m (a + 1)))
     OR push_bit 16 (ucast (m (a + 2))) OR push_bit 24 (ucast (m (a + 3)))"

definition store32 :: "memory \<Rightarrow> u32int \<Rightarrow> u32int \<Rightarrow> memory" where
  "store32 m a v = m(a := ucast v, a + 1 := ucast (drop_bit 8 v),
     a + 2 := ucast (drop_bit 16 v), a + 3 := ucast (drop_bit 24 v))"

definition store8 :: "memory \<Rightarrow> u32int \<Rightarrow> u8int \<Rightarrow> memory" where
  "store8 m a v = m(a := v)"

lemma bytes_of_word32:
  "(ucast (ucast v :: u8int) :: u32int) OR push_bit 8 (ucast (ucast (drop_bit 8 v) :: u8int))
     OR push_bit 16 (ucast (ucast (drop_bit 16 v) :: u8int))
     OR push_bit 24 (ucast (ucast (drop_bit 24 v) :: u8int)) = v"
proof (rule bit_word_eqI)
  fix n assume "n < LENGTH(32)"
  then have "n < 32" by simp
  then show "bit ((ucast (ucast v :: u8int) :: u32int)
      OR push_bit 8 (ucast (ucast (drop_bit 8 v) :: u8int))
      OR push_bit 16 (ucast (ucast (drop_bit 16 v) :: u8int))
      OR push_bit 24 (ucast (ucast (drop_bit 24 v) :: u8int))) n = bit v n"
    by (cases "n < 8"; cases "n < 16"; cases "n < 24") (auto simp: bit_simps)
qed

lemma load32_store32_same [simp, mem_simps]: "load32 (store32 m a v) a = v"
  by (simp add: load32_def store32_def bytes_of_word32)

lemma store32_byte_other:
  assumes "unat (b - a) \<ge> 4"
  shows "store32 m a v b = m b"
proof -
  have "b \<noteq> a" "b \<noteq> a + 1" "b \<noteq> a + 2" "b \<noteq> a + 3"
    using assms by auto
  then show ?thesis by (simp add: store32_def)
qed

text \<open>
  Proofs about address ranges are carried out on \<open>nat\<close>: an address is \<open>of_nat n\<close> with
  \<open>n\<close> below \<open>2 ^ 32\<close>, and ranges that do not wrap are compared as intervals.
\<close>

lemma unat_diff_ge:
  assumes "x < 4294967296" "n + k \<le> 4294967296" "x < n \<or> n + k \<le> x" "0 < k"
  shows "k \<le> unat (of_nat x - of_nat n :: u32int)"
proof -
  have n: "n < 4294967296" using assms by linarith
  have "unat (of_nat x - of_nat n :: u32int) = (if n \<le> x then x - n else x + 4294967296 - n)"
    using assms(1) n by (simp add: unat_sub_if' unat_of_nat32)
  then show ?thesis using assms by (auto split: if_splits)
qed

lemma store32_byte_frame:
  assumes "n + 4 \<le> 4294967296" "x < 4294967296" "x < n \<or> n + 4 \<le> x"
  shows "store32 m (of_nat n) v (of_nat x) = m (of_nat x)"
  by (rule store32_byte_other) (use unat_diff_ge [of x n 4] assms in simp)

lemma load32_cong:
  assumes "\<And>i. i < 4 \<Longrightarrow> m (a + of_nat i) = m' (a + of_nat i)"
  shows "load32 m a = load32 m' a"
  using assms [of 0] assms [of 1] assms [of 2] assms [of 3] by (simp add: load32_def)

lemma load32_store32_frame:
  assumes "n + 4 \<le> 4294967296" "k + 4 \<le> 4294967296" "k + 4 \<le> n \<or> n + 4 \<le> k"
  shows "load32 (store32 m (of_nat n) v) (of_nat k) = load32 m (of_nat k)"
proof (rule load32_cong)
  fix i :: nat assume "i < 4"
  then have "store32 m (of_nat n) v (of_nat (k + i)) = m (of_nat (k + i))"
    using assms by (intro store32_byte_frame) auto
  then show "store32 m (of_nat n) v (of_nat k + of_nat i) = m (of_nat k + of_nat i)"
    by simp
qed

lemma load32_store8_frame:
  assumes "n < 4294967296" "k + 4 \<le> 4294967296" "k + 4 \<le> n \<or> n < k"
  shows "load32 (store8 m (of_nat n) v) (of_nat k) = load32 m (of_nat k)"
proof (rule load32_cong)
  fix i :: nat assume "i < 4"
  then have "(of_nat (k + i) :: u32int) \<noteq> of_nat n"
    using assms of_nat32_eq_iff [of "k + i" n] by auto
  then show "store8 m (of_nat n) v (of_nat k + of_nat i) = m (of_nat k + of_nat i)"
    by (simp add: store8_def)
qed

lemma store8_same [simp, mem_simps]: "store8 m a v a = v"
  by (simp add: store8_def)

lemma store8_byte_frame:
  assumes "n < 4294967296" "k < 4294967296" "n \<noteq> k"
  shows "store8 m (of_nat n) v (of_nat k) = m (of_nat k)"
  using assms by (simp add: store8_def of_nat32_eq_iff)

section \<open>Page arithmetic\<close>

lemma mask12: "(0xFFF :: u32int) = mask 12"
  by (simp add: mask_eq_exp_minus_1)

lemma and_FFF_take_bit: "(x AND 0xFFF :: u32int) = take_bit 12 x"
  by (simp only: mask12 take_bit_eq_mask)

lemma unat_and_FFF [page_simps]: "unat (x AND 0xFFF :: u32int) = unat x mod 4096"
  by (simp only: and_FFF_take_bit unsigned_take_bit_eq) (simp add: take_bit_eq_mod)

lemma unat_and_not_mask:
  "unat (x AND NOT (mask n) :: 'a :: len word) = unat x - unat x mod 2 ^ n"
proof -
  have d: "x AND NOT (mask n) = push_bit n (drop_bit n x)" by (rule bit_word_eqI) (auto simp: bit_simps)
  have "(x AND NOT (mask n)) + take_bit n x = x" unfolding d by (rule bits_ident)
  then have eq: "x AND NOT (mask n) = x - take_bit n x" by (metis add_diff_cancel_right')
  have t: "unat (take_bit n x) = unat x mod 2 ^ n" by (simp only: unsigned_take_bit_eq) (simp add: take_bit_eq_mod)
  then have "take_bit n x \<le> x" by (simp add: word_le_nat_alt)
  then show ?thesis by (simp only: eq unat_sub t)
qed

lemma unat_and_F000 [page_simps]:
  "unat (x AND 0xFFFFF000 :: u32int) = unat x - unat x mod 4096"
proof -
  have "(0xFFFFF000 :: u32int) = NOT (mask 12)" by (simp add: mask_eq_exp_minus_1)
  then show ?thesis using unat_and_not_mask [of x 12] by simp
qed

end
