(* ===== verification/Ordered_Array.thy ===== *)
theory Ordered_Array
  imports Kernel_Prelude "HOL-Library.Multiset"
begin

text \<open>
  The insertion-sorted pointer array of \<open>src/ordered_array.c\<close>, which the heap uses as
  its size-ordered index of free holes.

  The structure is \<open>ordered_array_t\<close>: \<open>array\<close> is the address of the backing memory,
  \<open>slots\<close> the words stored there (all \<open>max_size\<close> of them, used or not), \<open>oa_size\<close> the
  field \<open>size\<close>. The callback \<open>less_than\<close> gets the memory it dereferences as an extra
  argument; \<open>None\<close> is the null function pointer. Sizes and positions are \<open>nat\<close>: the
  assertion \<open>max_size <= 0xFFFFFFFF / sizeof(type_t)\<close> keeps every one of them, and four
  times every one of them, below \<open>2 ^ 32\<close>.

  The loops are modelled slot by slot and then shown to compute the list operations of
  the interface \<open>ordered_index\<close>, the contract the heap relies on.
\<close>

section \<open>The structure and its operations\<close>

type_synonym less_than_t = "memory \<Rightarrow> u32int \<Rightarrow> u32int \<Rightarrow> bool"

record ordered_array_t =
  array :: u32int
  slots :: "u32int list"
  oa_size :: nat
  max_size :: nat
  less_than :: "less_than_t option"
  owns_storage :: bool

definition standard_lessthan_predicate :: less_than_t where
  "standard_lessthan_predicate m a b = (a < b)"

definition create_ordered_array ::
  "(u32int \<Rightarrow> 's \<Rightarrow> (u32int \<times> 's) option) \<Rightarrow> nat \<Rightarrow> less_than_t option \<Rightarrow> 's
     \<Rightarrow> (ordered_array_t \<times> 's) option" where
  "create_ordered_array kmalloc n lt s = do {
     ASSERT (n > 0);
     ASSERT (n \<le> 0xFFFFFFFF div 4);
     ASSERT (lt \<noteq> None);
     (addr, s') \<leftarrow> kmalloc (of_nat n * 4) s;
     Some (\<lparr>array = addr, slots = replicate n 0, oa_size = 0, max_size = n,
            less_than = lt, owns_storage = True\<rparr>, s')
   }"

definition place_ordered_array ::
  "u32int \<Rightarrow> nat \<Rightarrow> less_than_t option \<Rightarrow> ordered_array_t option" where
  "place_ordered_array addr n lt = do {
     ASSERT (addr \<noteq> 0);
     ASSERT (n > 0);
     ASSERT (n \<le> 0xFFFFFFFF div 4);
     ASSERT (lt \<noteq> None);
     Some \<lparr>array = addr, slots = replicate n 0, oa_size = 0, max_size = n,
           less_than = lt, owns_storage = False\<rparr>
   }"

definition destroy_ordered_array ::
  "(u32int \<Rightarrow> 's \<Rightarrow> 's option) \<Rightarrow> ordered_array_t \<Rightarrow> 's \<Rightarrow> (ordered_array_t \<times> 's) option" where
  "destroy_ordered_array kfree a s = do {
     s' \<leftarrow> (if owns_storage a \<and> array a \<noteq> 0 then kfree (array a) s else Some s);
     Some (a\<lparr>array := 0, slots := [], oa_size := 0, max_size := 0, owns_storage := False\<rparr>, s')
   }"

function insert_position ::
  "(u32int \<Rightarrow> u32int \<Rightarrow> bool) \<Rightarrow> u32int \<Rightarrow> u32int list \<Rightarrow> nat \<Rightarrow> nat \<Rightarrow> nat" where
  "insert_position lt item sl n it =
     (if it < n \<and> lt (sl ! it) item then insert_position lt item sl n (it + 1) else it)"
  by pat_completeness auto
termination
  by (relation "measure (\<lambda>(lt, item, sl, n, it). n - it)") auto

fun shift_right :: "u32int list \<Rightarrow> nat \<Rightarrow> nat \<Rightarrow> u32int list" where
  "shift_right sl it destination =
     (if destination > it
      then shift_right (sl[destination := sl ! (destination - 1)]) it (destination - 1)
      else sl)"

definition insert_ordered_array ::
  "memory \<Rightarrow> u32int \<Rightarrow> ordered_array_t \<Rightarrow> ordered_array_t option" where
  "insert_ordered_array m item a = do {
     ASSERT (array a \<noteq> 0);
     lt \<leftarrow> less_than a;
     ASSERT (oa_size a < max_size a);
     let it = insert_position (lt m) item (slots a) (oa_size a) 0;
     let shifted = shift_right (slots a) it (oa_size a);
     Some (a\<lparr>slots := shifted[it := item], oa_size := oa_size a + 1\<rparr>)
   }"

definition lookup_ordered_array :: "nat \<Rightarrow> ordered_array_t \<Rightarrow> u32int option" where
  "lookup_ordered_array i a = do {
     ASSERT (array a \<noteq> 0);
     ASSERT (i < oa_size a);
     Some (slots a ! i)
   }"

function shift_left :: "u32int list \<Rightarrow> nat \<Rightarrow> nat \<Rightarrow> u32int list" where
  "shift_left sl i n = (if i + 1 < n then shift_left (sl[i := sl ! (i + 1)]) (i + 1) n else sl)"
  by pat_completeness auto
termination
  by (relation "measure (\<lambda>(sl, i, n). n - i)") auto

definition remove_ordered_array :: "nat \<Rightarrow> ordered_array_t \<Rightarrow> ordered_array_t option" where
  "remove_ordered_array i a = do {
     ASSERT (array a \<noteq> 0);
     ASSERT (i < oa_size a);
     let shifted = shift_left (slots a) i (oa_size a);
     let n = oa_size a - 1;
     Some (a\<lparr>slots := shifted[n := 0], oa_size := n\<rparr>)
   }"

declare insert_position.simps [simp del] shift_right.simps [simp del] shift_left.simps [simp del]

section \<open>The loops\<close>

lemma insert_position_spec:
  assumes "it \<le> n" "n \<le> length sl"
  shows "insert_position lt item sl n it
    = it + length (takeWhile (\<lambda>y. lt y item) (drop it (take n sl)))"
  using assms
proof (induction lt item sl n it rule: insert_position.induct)
  case (1 lt item sl n it)
  show ?case
  proof (cases "it < n")
    case True
    then have "drop it (take n sl) = sl ! it # drop (it + 1) (take n sl)"
      using "1.prems" by (simp add: Cons_nth_drop_Suc [symmetric])
    then show ?thesis
      using "1.IH" "1.prems" True by (simp add: insert_position.simps [of lt item sl n it])
  next
    case False
    then show ?thesis by (simp add: insert_position.simps [of lt item sl n it])
  qed
qed

lemma length_shift_right [simp]: "length (shift_right sl it d) = length sl"
  by (induction sl it d rule: shift_right.induct)
    (simp add: shift_right.simps [of _ _ "_ :: nat"])

lemma shift_right_nth:
  assumes "d < length sl" "it \<le> d" "j < length sl"
  shows "shift_right sl it d ! j = (if it < j \<and> j \<le> d then sl ! (j - 1) else sl ! j)"
  using assms
proof (induction sl it d rule: shift_right.induct)
  case (1 sl it d)
  show ?case
  proof (cases "d > it")
    case True
    then show ?thesis
      using "1" by (auto simp: shift_right.simps [of sl it d] nth_list_update)
  next
    case False
    then have "it = d" using "1.prems" by simp
    then show ?thesis by (auto simp: shift_right.simps [of sl d d])
  qed
qed

lemma length_shift_left [simp]: "length (shift_left sl i n) = length sl"
proof (induction sl i n rule: shift_left.induct)
  case (1 sl i n)
  then show ?case by (simp add: shift_left.simps [of sl i n])
qed

lemma shift_left_nth:
  assumes "n \<le> length sl" "j < length sl"
  shows "shift_left sl i n ! j = (if i \<le> j \<and> j + 1 < n then sl ! (j + 1) else sl ! j)"
  using assms
proof (induction sl i n rule: shift_left.induct)
  case (1 sl i n)
  show ?case
  proof (cases "i + 1 < n")
    case True
    then show ?thesis
      using "1" by (auto simp: shift_left.simps [of sl i n] nth_list_update)
  next
    case False
    then show ?thesis by (auto simp: shift_left.simps [of sl i n])
  qed
qed

section \<open>Abstraction and invariant\<close>

definition entries :: "ordered_array_t \<Rightarrow> u32int list" where
  "entries a = take (oa_size a) (slots a)"

definition oa_wf :: "less_than_t \<Rightarrow> ordered_array_t \<Rightarrow> bool" where
  "oa_wf lt a \<longleftrightarrow> array a \<noteq> 0 \<and> less_than a = Some lt \<and> length (slots a) = max_size a
     \<and> oa_size a \<le> max_size a"

lemma length_entries [simp]: "oa_wf lt a \<Longrightarrow> length (entries a) = oa_size a"
  by (simp add: entries_def oa_wf_def)

lemma insert_slots:
  assumes "p \<le> n" "n < length sl"
  shows "take (n + 1) ((shift_right sl p n)[p := x]) = take p (take n sl) @ x # drop p (take n sl)"
  using assms
  by (intro nth_equalityI) (auto simp: shift_right_nth nth_list_update nth_append nth_Cons')

lemma remove_slots:
  assumes "i < n" "n \<le> length sl"
  shows "take (n - 1) ((shift_left sl i n)[n - 1 := 0])
    = take i (take n sl) @ drop (i + 1) (take n sl)"
  using assms
  by (intro nth_equalityI) (auto simp: shift_left_nth nth_append)

section \<open>The contract of an ordered index\<close>

text \<open>
  \<open>ordered_index\<close> is what a client may rely on: the index is a list of pointers ordered by
  a key read from memory, insertion puts an item behind every entry with a smaller key,
  removal deletes one position, and the only failures are a full index and a position
  out of range.
\<close>

lemma mset_insert_before:
  "mset (takeWhile P xs @ x # dropWhile P xs) = add_mset x (mset xs)"
  by (induction xs) auto

lemma sorted_insert_before:
  fixes f :: "'a \<Rightarrow> 'b :: linorder"
  assumes "sorted (map f xs)"
  shows "sorted (map f (takeWhile (\<lambda>y. f y < f x) xs @ x # dropWhile (\<lambda>y. f y < f x) xs))"
  using assms
proof (induction xs)
  case (Cons a xs)
  let ?r = "takeWhile (\<lambda>y. f y < f x) xs @ x # dropWhile (\<lambda>y. f y < f x) xs"
  show ?case
  proof (cases "f a < f x")
    case True
    have "set ?r = insert x (set xs)"
      using mset_insert_before [of "\<lambda>y. f y < f x" xs x]
      by (metis set_mset_add_mset_insert set_mset_mset)
    then have "sorted (map f (a # ?r))"
      using Cons True by (simp del: map_append set_append)
    with True show ?thesis by simp
  next
    case False
    with Cons.prems show ?thesis by (auto simp: not_less)
  qed
qed simp

locale ordered_index =
  fixes elems :: "'ix \<Rightarrow> u32int list"
    and capacity :: "'ix \<Rightarrow> nat"
    and invar :: "'ix \<Rightarrow> bool"
    and key :: "memory \<Rightarrow> u32int \<Rightarrow> nat"
    and ins :: "memory \<Rightarrow> u32int \<Rightarrow> 'ix \<Rightarrow> 'ix option"
    and del :: "nat \<Rightarrow> 'ix \<Rightarrow> 'ix option"
    and get :: "nat \<Rightarrow> 'ix \<Rightarrow> u32int option"
  assumes ins_ok: "\<lbrakk>invar ix; length (elems ix) < capacity ix\<rbrakk> \<Longrightarrow>
      \<exists>ix'. ins m x ix = Some ix' \<and> invar ix' \<and> capacity ix' = capacity ix \<and>
        elems ix' = takeWhile (\<lambda>y. key m y < key m x) (elems ix) @ x #
                    dropWhile (\<lambda>y. key m y < key m x) (elems ix)"
    and ins_full: "\<lbrakk>invar ix; \<not> length (elems ix) < capacity ix\<rbrakk> \<Longrightarrow> ins m x ix = None"
    and del_ok: "\<lbrakk>invar ix; i < length (elems ix)\<rbrakk> \<Longrightarrow>
      \<exists>ix'. del i ix = Some ix' \<and> invar ix' \<and> capacity ix' = capacity ix \<and>
        elems ix' = take i (elems ix) @ drop (i + 1) (elems ix)"
    and get_ok: "\<lbrakk>invar ix; i < length (elems ix)\<rbrakk> \<Longrightarrow> get i ix = Some (elems ix ! i)"
    and get_range: "\<lbrakk>invar ix; \<not> i < length (elems ix)\<rbrakk> \<Longrightarrow> get i ix = None"
begin

abbreviation ordered :: "memory \<Rightarrow> 'ix \<Rightarrow> bool" where
  "ordered m ix \<equiv> sorted (map (key m) (elems ix))"

lemma ins_facts:
  assumes "invar ix" "length (elems ix) < capacity ix"
  obtains ix' where "ins m x ix = Some ix'" "invar ix'" "capacity ix' = capacity ix"
    "mset (elems ix') = add_mset x (mset (elems ix))"
    "length (elems ix') = length (elems ix) + 1"
    "ordered m ix \<Longrightarrow> ordered m ix'"
proof -
  from ins_ok [OF assms, of m x] obtain ix' where ix': "ins m x ix = Some ix'" "invar ix'"
      "capacity ix' = capacity ix"
      and e: "elems ix' = takeWhile (\<lambda>y. key m y < key m x) (elems ix) @ x #
                    dropWhile (\<lambda>y. key m y < key m x) (elems ix)"
    by blast
  have ms: "mset (elems ix') = add_mset x (mset (elems ix))"
    unfolding e by (rule mset_insert_before)
  have len: "length (elems ix') = length (elems ix) + 1"
    using arg_cong [OF ms, of size] by simp
  have "ordered m ix'" if "ordered m ix"
    using sorted_insert_before [OF that] by (simp add: e)
  with ix' ms len show thesis by (rule that)
qed

lemma ins_distinct:
  assumes "ins m x ix = Some ix'" "invar ix" "distinct (elems ix)" "x \<notin> set (elems ix)"
  shows "distinct (elems ix') \<and> set (elems ix') = insert x (set (elems ix))"
proof -
  have "length (elems ix) < capacity ix"
    using assms ins_full by fastforce
  then obtain ix2 where "ins m x ix = Some ix2" "mset (elems ix2) = add_mset x (mset (elems ix))"
    using ins_facts [OF assms(2)] by metis
  with assms(1) have "mset (elems ix') = mset (x # elems ix)" by simp
  then show ?thesis
    using assms(3,4) by (metis distinct.simps(2) list.simps(15) mset_eq_imp_distinct_iff mset_eq_setD)
qed

lemma del_facts:
  assumes "invar ix" "i < length (elems ix)"
  obtains ix' where "del i ix = Some ix'" "invar ix'" "capacity ix' = capacity ix"
    "length (elems ix') + 1 = length (elems ix)"
    "mset (elems ix) = add_mset (elems ix ! i) (mset (elems ix'))"
    "ordered m ix \<Longrightarrow> ordered m ix'"
proof -
  from del_ok [OF assms] obtain ix' where ix': "del i ix = Some ix'" "invar ix'"
      "capacity ix' = capacity ix"
      and e: "elems ix' = take i (elems ix) @ drop (i + 1) (elems ix)" by blast
  have split: "elems ix = take i (elems ix) @ elems ix ! i # drop (i + 1) (elems ix)"
    using assms(2) by (simp add: id_take_nth_drop)
  have ms: "mset (elems ix) = add_mset (elems ix ! i) (mset (elems ix'))"
    by (subst split) (simp add: e)
  have len: "length (elems ix') + 1 = length (elems ix)"
    using assms(2) by (simp add: e)
  have ord: "ordered m ix'" if "ordered m ix"
    using that by (subst (asm) split) (auto simp: e sorted_append)
  show thesis by (rule that [OF ix' len ms ord])
qed

lemma del_distinct:
  assumes "del i ix = Some ix'" "invar ix" "i < length (elems ix)" "distinct (elems ix)"
  shows "distinct (elems ix') \<and> set (elems ix') = set (elems ix) - {elems ix ! i}"
proof -
  obtain ix2 where "del i ix = Some ix2" "mset (elems ix) = add_mset (elems ix ! i) (mset (elems ix2))"
    using del_facts [OF assms(2,3)] by metis
  with assms(1) have "mset (elems ix) = mset (elems ix ! i # elems ix')" by simp
  then have "distinct (elems ix ! i # elems ix')" "set (elems ix) = set (elems ix ! i # elems ix')"
    using assms(4) by (metis mset_eq_imp_distinct_iff, metis mset_eq_setD)
  then show ?thesis by auto
qed

end

section \<open>The array meets the contract\<close>

lemma insert_ordered_array_entries:
  assumes wf: "oa_wf lt a" and space: "oa_size a < max_size a"
  shows "\<exists>a'. insert_ordered_array m x a = Some a' \<and> oa_wf lt a' \<and> max_size a' = max_size a \<and>
    entries a' = takeWhile (\<lambda>y. lt m y x) (entries a) @ x # dropWhile (\<lambda>y. lt m y x) (entries a)"
proof -
  let ?p = "length (takeWhile (\<lambda>y. lt m y x) (entries a))"
  have le: "?p \<le> oa_size a"
    using length_takeWhile_le [of "\<lambda>y. lt m y x" "entries a"] length_entries [OF wf] by simp
  have pos: "insert_position (lt m) x (slots a) (oa_size a) 0 = ?p"
    using wf by (simp add: insert_position_spec oa_wf_def entries_def)
  let ?a = "a\<lparr>slots := (shift_right (slots a) ?p (oa_size a))[?p := x], oa_size := oa_size a + 1\<rparr>"
  have "insert_ordered_array m x a = Some ?a"
    using wf space by (simp add: insert_ordered_array_def oa_wf_def pos Let_def)
  moreover have "entries ?a = take ?p (entries a) @ x # drop ?p (entries a)"
    using wf space le insert_slots [of ?p "oa_size a" "slots a" x] by (simp add: entries_def oa_wf_def)
  moreover have "oa_wf lt ?a" using wf space by (simp add: oa_wf_def)
  ultimately show ?thesis
    by (simp add: takeWhile_eq_take [symmetric] dropWhile_eq_drop [symmetric])
qed

lemma remove_ordered_array_entries:
  assumes "oa_wf lt a" "i < oa_size a"
  shows "\<exists>a'. remove_ordered_array i a = Some a' \<and> oa_wf lt a' \<and> max_size a' = max_size a \<and>
    entries a' = take i (entries a) @ drop (i + 1) (entries a)"
  using assms remove_slots [of i "oa_size a" "slots a"]
  by (auto simp: remove_ordered_array_def oa_wf_def entries_def Let_def)

lemma ordered_array_index:
  assumes "\<And>m x y. lt m x y \<longleftrightarrow> key m x < key m y"
  shows "ordered_index entries max_size (oa_wf lt) key
           insert_ordered_array remove_ordered_array lookup_ordered_array"
proof unfold_locales
  fix ix m x
  assume "oa_wf lt ix" "length (entries ix) < max_size ix"
  then show "\<exists>ix'. insert_ordered_array m x ix = Some ix' \<and> oa_wf lt ix' \<and>
      max_size ix' = max_size ix \<and>
      entries ix' = takeWhile (\<lambda>y. key m y < key m x) (entries ix) @ x #
                    dropWhile (\<lambda>y. key m y < key m x) (entries ix)"
    using insert_ordered_array_entries [of lt ix m x] by (simp add: assms)
next
  fix ix m x
  assume "oa_wf lt ix" "\<not> length (entries ix) < max_size ix"
  then show "insert_ordered_array m x ix = None"
    by (simp add: insert_ordered_array_def oa_wf_def)
next
  fix ix i
  assume "oa_wf lt ix" "i < length (entries ix)"
  then show "\<exists>ix'. remove_ordered_array i ix = Some ix' \<and> oa_wf lt ix' \<and>
      max_size ix' = max_size ix \<and> entries ix' = take i (entries ix) @ drop (i + 1) (entries ix)"
    using remove_ordered_array_entries [of lt ix i] by simp
qed (auto simp: lookup_ordered_array_def oa_wf_def entries_def)

interpretation std_index: ordered_index entries max_size "oa_wf standard_lessthan_predicate"
  "\<lambda>m x. unat x" insert_ordered_array remove_ordered_array lookup_ordered_array
  by (rule ordered_array_index) (simp add: standard_lessthan_predicate_def word_less_nat_alt)

end
