(* ===== verification/KHeap.thy ===== *)
theory KHeap
  imports Ordered_Array
begin

text \<open>
  The boundary-tag allocator of \<open>src/kheap.c\<close>: block headers and footers as bytes in
  memory, the size-ordered index of holes, growth and contraction at the upper end,
  \<open>heap_validate\<close>, \<open>create_heap\<close>, \<open>alloc\<close> and \<open>free\<close>.

  The state is \<open>kstate\<close>; it is extensible, so that the paging structures live in the same
  state without this theory knowing them. Mapping and unmapping a page are the
  parameters \<open>map_page\<close> and \<open>unmap_page\<close>; they stand for
  \<open>alloc_frame(get_page(a, 1, kernel_directory), ...)\<close> and
  \<open>free_frame(get_page(a, 0, kernel_directory)); invalidate_page(a)\<close>, and act on the whole
  state, because \<open>get_page\<close> may itself call the allocator.
\<close>

section \<open>Structures\<close>

definition HEAP_INDEX_SIZE :: nat where "HEAP_INDEX_SIZE = 0x20000"
definition HEAP_MAGIC :: u32int where "HEAP_MAGIC = 0x123890AB"
definition HEAP_MIN_SIZE :: u32int where "HEAP_MIN_SIZE = 0x70000"

abbreviation sizeof_header :: u32int where "sizeof_header \<equiv> 12"
abbreviation sizeof_footer :: u32int where "sizeof_footer \<equiv> 8"
abbreviation minimum_hole_size :: u32int where "minimum_hole_size \<equiv> 20"

record heap_t =
  index :: ordered_array_t
  start_address :: u32int
  end_address :: u32int
  max_address :: u32int
  supervisor :: bool
  readonly :: bool

record kstate =
  mem :: memory
  kheap :: "heap_t option"
  placement_address :: u32int

text \<open>Fields of \<open>header_t\<close> (magic at 0, \<open>is_hole\<close> at 4, size at 8) and \<open>footer_t\<close> (magic
  at 0, header pointer at 4).\<close>

definition header_magic :: "memory \<Rightarrow> u32int \<Rightarrow> u32int" where
  "header_magic m a = load32 m a"
definition header_is_hole :: "memory \<Rightarrow> u32int \<Rightarrow> u8int" where
  "header_is_hole m a = m (a + 4)"
definition header_size :: "memory \<Rightarrow> u32int \<Rightarrow> u32int" where
  "header_size m a = load32 m (a + 8)"
definition footer_magic :: "memory \<Rightarrow> u32int \<Rightarrow> u32int" where
  "footer_magic m a = load32 m a"
definition footer_header :: "memory \<Rightarrow> u32int \<Rightarrow> u32int" where
  "footer_header m a = load32 m (a + 4)"

definition set_header :: "memory \<Rightarrow> u32int \<Rightarrow> u8int \<Rightarrow> u32int \<Rightarrow> memory" where
  "set_header m a hole sz = store32 (store8 (store32 m a HEAP_MAGIC) (a + 4) hole) (a + 8) sz"
definition set_header_size :: "memory \<Rightarrow> u32int \<Rightarrow> u32int \<Rightarrow> memory" where
  "set_header_size m a sz = store32 m (a + 8) sz"
definition set_footer :: "memory \<Rightarrow> u32int \<Rightarrow> u32int \<Rightarrow> memory" where
  "set_footer m a hdr = store32 (store32 m a HEAP_MAGIC) (a + 4) hdr"
definition set_footer_header :: "memory \<Rightarrow> u32int \<Rightarrow> u32int \<Rightarrow> memory" where
  "set_footer_header m a hdr = store32 m (a + 4) hdr"

section \<open>Growing and contracting the mapped range\<close>

text \<open>Loop counters run over \<open>nat\<close>: the caller has established that the range ends below
  \<open>2 ^ 32\<close> (\<open>expand\<close>), or that it ends above \<open>HEAP_MIN_SIZE\<close> (\<open>contract\<close>; a counter that
  would step below zero is the case of the loop that never ends).\<close>

function expand_pages ::
  "(u32int \<Rightarrow> 's \<Rightarrow> 's option) \<Rightarrow> u32int \<Rightarrow> nat \<Rightarrow> nat \<Rightarrow> 's \<Rightarrow> 's option" where
  "expand_pages map_page start i new_size s =
     (if i < new_size
      then do { s' \<leftarrow> map_page (start + of_nat i) s; expand_pages map_page start (i + 0x1000) new_size s' }
      else Some s)"
  by pat_completeness auto
termination
  by (relation "measure (\<lambda>(f, a, i, n, s). n - i)") auto

definition round_up_page :: "u32int \<Rightarrow> u32int" where
  "round_up_page n = (if n AND 0xFFF \<noteq> 0 then (n AND 0xFFFFF000) + 0x1000 else n)"

definition expand ::
  "(bool \<Rightarrow> bool \<Rightarrow> u32int \<Rightarrow> 'a kstate_scheme \<Rightarrow> 'a kstate_scheme option) \<Rightarrow> u32int
     \<Rightarrow> 'a kstate_scheme \<Rightarrow> 'a kstate_scheme option" where
  "expand map_page new_size s = do {
     h \<leftarrow> kheap s;
     ASSERT (new_size > end_address h - start_address h);
     ASSERT (new_size AND 0xFFF \<noteq> 0 \<longrightarrow> new_size \<le> 0xFFFFF000);
     let new_size = round_up_page new_size;
     ASSERT (new_size \<le> max_address h - start_address h);
     let old_size = end_address h - start_address h;
     s' \<leftarrow> expand_pages (map_page (supervisor h) (\<not> readonly h)) (start_address h)
             (unat old_size) (unat new_size) s;
     h' \<leftarrow> kheap s';
     Some (s'\<lparr>kheap := Some (h'\<lparr>end_address := start_address h' + new_size\<rparr>)\<rparr>)
   }"

function contract_pages ::
  "(u32int \<Rightarrow> 's \<Rightarrow> 's option) \<Rightarrow> u32int \<Rightarrow> nat \<Rightarrow> nat \<Rightarrow> 's \<Rightarrow> 's option" where
  "contract_pages unmap_page start i new_size s =
     (if new_size \<le> i
      then do { s' \<leftarrow> unmap_page (start + of_nat i) s;
                if i < 0x1000 then None
                else contract_pages unmap_page start (i - 0x1000) new_size s' }
      else Some s)"
  by pat_completeness auto
termination
  by (relation "measure (\<lambda>(f, a, i, n, s). i)") auto

definition contract ::
  "(u32int \<Rightarrow> 'a kstate_scheme \<Rightarrow> 'a kstate_scheme option) \<Rightarrow> u32int
     \<Rightarrow> 'a kstate_scheme \<Rightarrow> (u32int \<times> 'a kstate_scheme) option" where
  "contract unmap_page new_size s = do {
     h \<leftarrow> kheap s;
     ASSERT (new_size < end_address h - start_address h);
     let new_size = round_up_page new_size;
     let new_size = (if new_size < HEAP_MIN_SIZE then HEAP_MIN_SIZE else new_size);
     let old_size = end_address h - start_address h;
     s' \<leftarrow> contract_pages unmap_page (start_address h) (unat (old_size - 0x1000)) (unat new_size) s;
     h' \<leftarrow> kheap s';
     Some (new_size, s'\<lparr>kheap := Some (h'\<lparr>end_address := start_address h' + new_size\<rparr>)\<rparr>)
   }"

declare expand_pages.simps [simp del] contract_pages.simps [simp del]

section \<open>Searching the index\<close>

definition page_alignment_offset :: "u32int \<Rightarrow> u32int" where
  "page_alignment_offset header =
     (let payload_address = header + sizeof_header;
          offset = (0x1000 - (payload_address AND 0xFFF)) AND 0xFFF
      in if offset \<noteq> 0 \<and> offset < minimum_hole_size then offset + 0x1000 else offset)"

definition hole_fits :: "memory \<Rightarrow> u32int \<Rightarrow> bool \<Rightarrow> u32int \<Rightarrow> bool" where
  "hole_fits m sz page_align header =
     (if page_align
      then (let offset = page_alignment_offset header
            in offset \<le> 0xFFFFFFFF - sz \<and> header_size m header \<ge> sz + offset)
      else header_size m header \<ge> sz)"

function find_hole_from ::
  "memory \<Rightarrow> u32int \<Rightarrow> bool \<Rightarrow> ordered_array_t \<Rightarrow> nat \<Rightarrow> nat option option" where
  "find_hole_from m sz page_align ix it =
     (if it < oa_size ix
      then do { header \<leftarrow> lookup_ordered_array it ix;
                if hole_fits m sz page_align header then Some (Some it)
                else find_hole_from m sz page_align ix (it + 1) }
      else Some None)"
  by pat_completeness auto
termination
  by (relation "measure (\<lambda>(m, z, p, ix, it). oa_size ix - it)") auto

text \<open>The result \<open>-1\<close> of the C function is \<open>None\<close> inside the outer \<open>Some\<close>.\<close>

definition find_smallest_hole ::
  "memory \<Rightarrow> u32int \<Rightarrow> bool \<Rightarrow> heap_t \<Rightarrow> nat option option" where
  "find_smallest_hole m sz page_align h = find_hole_from m sz page_align (index h) 0"

definition header_t_less_than :: less_than_t where
  "header_t_less_than m a b = (header_size m a < header_size m b)"

function find_entry_from :: "ordered_array_t \<Rightarrow> u32int \<Rightarrow> nat \<Rightarrow> nat option" where
  "find_entry_from ix header it =
     (if it < oa_size ix
      then do { e \<leftarrow> lookup_ordered_array it ix;
                if e \<noteq> header then find_entry_from ix header (it + 1) else Some it }
      else None)"
  by pat_completeness auto
termination
  by (relation "measure (\<lambda>(ix, h, it). oa_size ix - it)") auto

declare find_hole_from.simps [simp del] find_entry_from.simps [simp del]

section \<open>The run-time validator\<close>

function count_matches :: "ordered_array_t \<Rightarrow> u32int \<Rightarrow> nat \<Rightarrow> nat \<Rightarrow> nat option" where
  "count_matches ix header i matches =
     (if i < oa_size ix
      then do { e \<leftarrow> lookup_ordered_array i ix;
                count_matches ix header (i + 1) (if e = header then matches + 1 else matches) }
      else Some matches)"
  by pat_completeness auto
termination
  by (relation "measure (\<lambda>(ix, h, i, n). oa_size ix - i)") auto

function validate_blocks ::
  "memory \<Rightarrow> ordered_array_t \<Rightarrow> u32int \<Rightarrow> u32int \<Rightarrow> nat \<Rightarrow> (u32int \<times> nat) option" where
  "validate_blocks m ix end_addr address hole_count =
     (if address < end_addr
      then do {
        ASSERT (header_magic m address = HEAP_MAGIC);
        ASSERT (header_size m address \<ge> sizeof_header + sizeof_footer);
        ASSERT (header_size m address \<le> end_addr - address);
        let footer = address + header_size m address - sizeof_footer;
        ASSERT (footer_magic m footer = HEAP_MAGIC);
        ASSERT (footer_header m footer = address);
        hole_count' \<leftarrow> (if header_is_hole m address \<noteq> 0
                        then do { matches \<leftarrow> count_matches ix address 0 0;
                                  ASSERT (matches = 1);
                                  Some (hole_count + 1) }
                        else Some hole_count);
        validate_blocks m ix end_addr (address + header_size m address) hole_count'
      }
      else Some (address, hole_count))"
  by pat_completeness auto
termination
proof (relation "measure (\<lambda>(m, ix, e, a, n). unat e - unat a)", simp, goal_cases)
  case (1 m ix e a n x y z f x4 x5 n')
  let ?s = "header_size m a"
  have "a < e" "?s \<le> e - a" "20 \<le> ?s" using 1 by auto
  then have "unat a < unat e" "unat ?s \<le> unat e - unat a" "20 \<le> unat ?s"
    by (auto simp: word_less_nat_alt word_le_nat_alt unat_sub32)
  then have "unat (a + ?s) = unat a + unat ?s"
    using unat_lt_2_32 [of e] by (intro unat_add32) linarith
  with \<open>unat a < unat e\<close> \<open>20 \<le> unat ?s\<close> show ?case by simp
qed

function validate_index ::
  "memory \<Rightarrow> heap_t \<Rightarrow> nat \<Rightarrow> unit option" where
  "validate_index m h i =
     (if i < oa_size (index h)
      then do {
        hole \<leftarrow> lookup_ordered_array i (index h);
        ASSERT (hole \<ge> start_address h);
        ASSERT (hole < end_address h);
        ASSERT (header_magic m hole = HEAP_MAGIC);
        ASSERT (header_is_hole m hole = 1);
        (if i > 0
         then do { previous \<leftarrow> lookup_ordered_array (i - 1) (index h);
                   ASSERT (header_size m previous \<le> header_size m hole) }
         else Some ());
        validate_index m h (i + 1)
      }
      else Some ())"
  by pat_completeness auto
termination
  by (relation "measure (\<lambda>(m, h, i). oa_size (index h) - i)") auto

definition heap_validate :: "memory \<Rightarrow> heap_t \<Rightarrow> unit option" where
  "heap_validate m h = do {
     ASSERT (start_address h < end_address h);
     ASSERT (end_address h \<le> max_address h);
     (address, hole_count) \<leftarrow> validate_blocks m (index h) (end_address h) (start_address h) 0;
     ASSERT (address = end_address h);
     ASSERT (hole_count = oa_size (index h));
     validate_index m h 0
   }"

declare count_matches.simps [simp del] validate_blocks.simps [simp del]
  validate_index.simps [simp del]

section \<open>Creating a heap\<close>

text \<open>\<open>kmalloc(sizeof(heap_t))\<close> is the parameter \<open>kmalloc\<close>: while the heap does not exist yet it
  is the placement allocator. The caller stores the result in \<open>kheap\<close>.\<close>

definition create_heap ::
  "(u32int \<Rightarrow> 'a kstate_scheme \<Rightarrow> (u32int \<times> 'a kstate_scheme) option)
     \<Rightarrow> u32int \<Rightarrow> u32int \<Rightarrow> u32int \<Rightarrow> bool \<Rightarrow> bool \<Rightarrow> 'a kstate_scheme
     \<Rightarrow> (heap_t \<times> 'a kstate_scheme) option" where
  "create_heap kmalloc start end_addr max_addr supervisor_pages readonly_pages s = do {
     (_, s) \<leftarrow> kmalloc 36 s;
     ASSERT (start mod 0x1000 = 0);
     ASSERT (end_addr mod 0x1000 = 0);
     ASSERT (max_addr mod 0x1000 = 0 \<or> max_addr = 0xCFFFF000);
     ASSERT (start < end_addr);
     ASSERT (end_addr \<le> max_addr);
     ASSERT (HEAP_INDEX_SIZE \<le> 0xFFFFFFFF div 4);
     ASSERT (end_addr - start > 4 * of_nat HEAP_INDEX_SIZE + sizeof_header + sizeof_footer);
     ix \<leftarrow> place_ordered_array start HEAP_INDEX_SIZE (Some header_t_less_than);
     let start = round_up_page (start + 4 * of_nat HEAP_INDEX_SIZE);
     let hole = start;
     let m = set_header (mem s) hole 1 (end_addr - start);
     let m = set_footer m (end_addr - sizeof_footer) hole;
     ix \<leftarrow> insert_ordered_array m hole ix;
     let h = \<lparr>index = ix, start_address = start, end_address = end_addr, max_address = max_addr,
              supervisor = supervisor_pages, readonly = readonly_pages\<rparr>;
     heap_validate m h;
     Some (h, s\<lparr>mem := m\<rparr>)
   }"

section \<open>Allocation\<close>

function endmost_from ::
  "ordered_array_t \<Rightarrow> nat \<Rightarrow> nat option \<Rightarrow> u32int \<Rightarrow> nat option option" where
  "endmost_from ix scan_index idx v =
     (if scan_index < oa_size ix
      then do { tmp \<leftarrow> lookup_ordered_array scan_index ix;
                if tmp > v then endmost_from ix (scan_index + 1) (Some scan_index) tmp
                else endmost_from ix (scan_index + 1) idx v }
      else Some idx)"
  by pat_completeness auto
termination
  by (relation "measure (\<lambda>(ix, i, idx, v). oa_size ix - i)") auto

declare endmost_from.simps [simp del]

text \<open>The branch of \<open>alloc\<close> that found no hole: map more pages, then turn the new range into a
  hole or enlarge the hole that ended at the old end.\<close>

definition publish_growth ::
  "u32int \<Rightarrow> u32int \<Rightarrow> 'a kstate_scheme \<Rightarrow> 'a kstate_scheme option" where
  "publish_growth old_length old_end_address s = do {
     h \<leftarrow> kheap s;
     let new_length = end_address h - start_address h;
     idx \<leftarrow> endmost_from (index h) 0 None 0;
     end_hole \<leftarrow> (case idx of None \<Rightarrow> Some 0 | Some i \<Rightarrow> lookup_ordered_array i (index h));
     (if end_hole = 0 \<or> end_hole + header_size (mem s) end_hole \<noteq> old_end_address
      then do {
        let header = old_end_address;
        let m = set_header (mem s) header 1 (new_length - old_length);
        let m = set_footer m (old_end_address + (new_length - old_length) - sizeof_footer) header;
        ix \<leftarrow> insert_ordered_array m header (index h);
        Some (s\<lparr>mem := m, kheap := Some (h\<lparr>index := ix\<rparr>)\<rparr>)
      }
      else do {
        i \<leftarrow> idx;
        ix \<leftarrow> remove_ordered_array i (index h);
        let m = set_header_size (mem s) end_hole
                  (header_size (mem s) end_hole + (new_length - old_length));
        let m = set_footer m (end_hole + header_size m end_hole - sizeof_footer) end_hole;
        ix \<leftarrow> insert_ordered_array m end_hole ix;
        Some (s\<lparr>mem := m, kheap := Some (h\<lparr>index := ix\<rparr>)\<rparr>)
      })
   }"

definition grow_heap ::
  "(bool \<Rightarrow> bool \<Rightarrow> u32int \<Rightarrow> 'a kstate_scheme \<Rightarrow> 'a kstate_scheme option) \<Rightarrow> u32int
     \<Rightarrow> 'a kstate_scheme \<Rightarrow> 'a kstate_scheme option" where
  "grow_heap map_page new_size s = do {
     h \<leftarrow> kheap s;
     let old_length = end_address h - start_address h;
     let old_end_address = end_address h;
     ASSERT (old_length \<le> 0xFFFFFFFF - new_size);
     s \<leftarrow> expand map_page (old_length + new_size) s;
     publish_growth old_length old_end_address s
   }"

text \<open>The branch that found a hole at position \<open>it\<close> of the index: cut an aligned leading hole,
  the block and a trailing hole out of it.\<close>

definition cut_leading ::
  "u32int \<Rightarrow> u32int \<Rightarrow> u32int \<Rightarrow> memory \<Rightarrow> ordered_array_t
     \<Rightarrow> (memory \<times> ordered_array_t \<times> u32int \<times> u32int) option" where
  "cut_leading leading pos hole_size m ix =
     (if leading \<noteq> 0
      then do {
        let m = set_header m pos 1 leading;
        let m = set_footer m (pos + leading - sizeof_footer) pos;
        ix \<leftarrow> insert_ordered_array m pos ix;
        Some (m, ix, pos + leading, hole_size - leading)
      }
      else Some (m, ix, pos, hole_size))"

definition cut_trailing ::
  "u32int \<Rightarrow> u32int \<Rightarrow> u32int \<Rightarrow> u32int \<Rightarrow> u32int \<Rightarrow> memory \<Rightarrow> ordered_array_t
     \<Rightarrow> (memory \<times> ordered_array_t) option" where
  "cut_trailing end_addr pos sz new_size hole_size m ix =
     (if hole_size - new_size \<ge> minimum_hole_size
      then do {
        let hole = pos + sizeof_header + sz + sizeof_footer;
        let m = set_header m hole 1 (hole_size - new_size);
        let hole_footer = hole + hole_size - new_size - sizeof_footer;
        ASSERT (hole_footer < end_addr);
        let m = set_footer m hole_footer hole;
        ix \<leftarrow> insert_ordered_array m hole ix;
        Some (m, ix)
      }
      else Some (m, ix))"

definition carve_hole ::
  "nat \<Rightarrow> u32int \<Rightarrow> bool \<Rightarrow> 'a kstate_scheme \<Rightarrow> (u32int \<times> 'a kstate_scheme) option" where
  "carve_hole it sz page_align s = do {
     h \<leftarrow> kheap s;
     let new_size = sz + sizeof_header + sizeof_footer;
     orig_hole_header \<leftarrow> lookup_ordered_array it (index h);
     let hole_size = header_size (mem s) orig_hole_header;
     ix \<leftarrow> remove_ordered_array it (index h);
     let leading = (if page_align then page_alignment_offset orig_hole_header else 0);
     (m, ix, pos, hole_size) \<leftarrow> cut_leading leading orig_hole_header hole_size (mem s) ix;
     let (sz, new_size) = (if hole_size - new_size < minimum_hole_size
                           then (sz + (hole_size - new_size), hole_size) else (sz, new_size));
     let m = set_header m pos 0 new_size;
     let m = set_footer m (pos + sizeof_header + sz) pos;
     (m, ix) \<leftarrow> cut_trailing (end_address h) pos sz new_size hole_size m ix;
     let h = h\<lparr>index := ix\<rparr>;
     heap_validate m h;
     Some (pos + sizeof_header, s\<lparr>mem := m, kheap := Some h\<rparr>)
   }"

text \<open>\<open>alloc\<close> with its recursive call as the parameter \<open>again\<close>.\<close>

definition alloc_body ::
  "(bool \<Rightarrow> bool \<Rightarrow> u32int \<Rightarrow> 'a kstate_scheme \<Rightarrow> 'a kstate_scheme option)
     \<Rightarrow> (u32int \<Rightarrow> bool \<Rightarrow> 'a kstate_scheme \<Rightarrow> (u32int \<times> 'a kstate_scheme) option)
     \<Rightarrow> u32int \<Rightarrow> bool \<Rightarrow> 'a kstate_scheme \<Rightarrow> (u32int \<times> 'a kstate_scheme) option" where
  "alloc_body map_page again sz page_align s = do {
     h \<leftarrow> kheap s;
     ASSERT (sz > 0);
     ASSERT (sz \<le> 0xFFFFFFFF - sizeof_header - sizeof_footer);
     heap_validate (mem s) h;
     let new_size = sz + sizeof_header + sizeof_footer;
     it \<leftarrow> find_smallest_hole (mem s) new_size page_align h;
     (case it of
        None \<Rightarrow> do { s \<leftarrow> grow_heap map_page new_size s; again sz page_align s }
      | Some i \<Rightarrow> carve_hole i sz page_align s)
   }"

primrec alloc ::
  "(bool \<Rightarrow> bool \<Rightarrow> u32int \<Rightarrow> 'a kstate_scheme \<Rightarrow> 'a kstate_scheme option) \<Rightarrow> nat
     \<Rightarrow> u32int \<Rightarrow> bool \<Rightarrow> 'a kstate_scheme \<Rightarrow> (u32int \<times> 'a kstate_scheme) option" where
  "alloc map_page 0 = (\<lambda>sz page_align s. None)"
| "alloc map_page (Suc fuel) = alloc_body map_page (alloc map_page fuel)"

section \<open>Release\<close>

definition merge_left ::
  "u32int \<Rightarrow> u32int \<Rightarrow> heap_t \<Rightarrow> memory \<Rightarrow> (u32int \<times> memory \<times> ordered_array_t) option" where
  "merge_left header footer h m =
     (let test_footer = header - sizeof_footer
      in if header > start_address h \<and> footer_magic m test_footer = HEAP_MAGIC \<and>
            header_is_hole m (footer_header m test_footer) = 1
         then do {
           it \<leftarrow> find_entry_from (index h) (footer_header m test_footer) 0;
           ix \<leftarrow> remove_ordered_array it (index h);
           let cache_size = header_size m header;
           let header = footer_header m test_footer;
           let m = set_footer_header m footer header;
           let m = set_header_size m header (header_size m header + cache_size);
           Some (header, m, ix)
         }
         else Some (header, m, index h))"

definition merge_right ::
  "u32int \<Rightarrow> u32int \<Rightarrow> u32int \<Rightarrow> memory \<Rightarrow> ordered_array_t
     \<Rightarrow> (u32int \<times> memory \<times> ordered_array_t) option" where
  "merge_right end_addr header footer m ix =
     (let test_header = footer + sizeof_footer
      in if test_header < end_addr \<and> header_magic m test_header = HEAP_MAGIC \<and>
            header_is_hole m test_header \<noteq> 0
         then do {
           let m = set_header_size m header (header_size m header + header_size m test_header);
           let footer = test_header + header_size m test_header - sizeof_footer;
           let m = set_footer_header m footer header;
           it \<leftarrow> find_entry_from ix test_header 0;
           ix \<leftarrow> remove_ordered_array it ix;
           Some (footer, m, ix)
         }
         else Some (footer, m, ix))"

text \<open>Release of the pages above a hole that touches the end of the heap; the Boolean is
  \<open>do_add\<close>.\<close>

definition release_tail ::
  "(u32int \<Rightarrow> 'a kstate_scheme \<Rightarrow> 'a kstate_scheme option) \<Rightarrow> u32int \<Rightarrow> u32int
     \<Rightarrow> 'a kstate_scheme \<Rightarrow> (bool \<times> 'a kstate_scheme) option" where
  "release_tail unmap_page header footer s = do {
     h \<leftarrow> kheap s;
     (if footer + sizeof_footer = end_address h
      then do {
        let old_length = end_address h - start_address h;
        (new_length, s) \<leftarrow> contract unmap_page (header - start_address h) s;
        (if header_size (mem s) header > old_length - new_length
         then do {
           let m = set_header_size (mem s) header
                     (header_size (mem s) header - (old_length - new_length));
           let m = set_footer m (header + header_size m header - sizeof_footer) header;
           Some (True, s\<lparr>mem := m\<rparr>)
         }
         else Some (False, s))
      }
      else Some (True, s))
   }"

definition free ::
  "(u32int \<Rightarrow> 'a kstate_scheme \<Rightarrow> 'a kstate_scheme option) \<Rightarrow> u32int
     \<Rightarrow> 'a kstate_scheme \<Rightarrow> 'a kstate_scheme option" where
  "free unmap_page p s =
     (if p = 0 then Some s
      else do {
        h \<leftarrow> kheap s;
        heap_validate (mem s) h;
        ASSERT (p \<ge> start_address h + sizeof_header);
        ASSERT (p < end_address h);
        let header = p - sizeof_header;
        ASSERT (header_magic (mem s) header = HEAP_MAGIC);
        ASSERT (header_is_hole (mem s) header = 0);
        ASSERT (header_size (mem s) header \<ge> sizeof_header + sizeof_footer);
        ASSERT (header_size (mem s) header \<le> end_address h - header);
        let footer = header + header_size (mem s) header - sizeof_footer;
        ASSERT (header_magic (mem s) header = HEAP_MAGIC);
        ASSERT (footer_magic (mem s) footer = HEAP_MAGIC);
        let m = store8 (mem s) (header + 4) 1;
        (header, m, ix) \<leftarrow> merge_left header footer h m;
        (footer, m, ix) \<leftarrow> merge_right (end_address h) header footer m ix;
        (do_add, s) \<leftarrow> release_tail unmap_page header footer
                         (s\<lparr>mem := m, kheap := Some (h\<lparr>index := ix\<rparr>)\<rparr>);
        h \<leftarrow> kheap s;
        ix \<leftarrow> (if do_add then insert_ordered_array (mem s) header (index h) else Some (index h));
        let h = h\<lparr>index := ix\<rparr>;
        heap_validate (mem s) h;
        Some (s\<lparr>kheap := Some h\<rparr>)
      })"

end
