(* ===== verification/Frames.thy ===== *)
theory Frames
  imports Kernel_Prelude
begin

text \<open>
  The physical-frame bitmap of \<open>src/paging.c\<close>: one bit per 4 KiB frame, packed into 32-bit
  words, with \<open>set_frame\<close>, \<open>clear_frame\<close>, \<open>test_frame\<close> and the search \<open>first_frame\<close>.

  The abstraction of a bitmap is the set \<open>used\<close> of occupied frame numbers; the operations are
  shown to be insertion, removal, membership and the search for the least free frame.
\<close>

section \<open>The bitmap\<close>

record frame_map =
  frames :: "u32int list"
  nframes :: u32int
  frame_word_count :: u32int

abbreviation INDEX_FROM_BIT :: "u32int \<Rightarrow> u32int" where "INDEX_FROM_BIT a \<equiv> a div 32"
abbreviation OFFSET_FROM_BIT :: "u32int \<Rightarrow> u32int" where "OFFSET_FROM_BIT a \<equiv> a mod 32"

text \<open>An access outside \<open>frames[]\<close> has no defined result in C; it is \<open>None\<close> here.\<close>

definition frames_word :: "frame_map \<Rightarrow> nat \<Rightarrow> u32int option" where
  "frames_word fm idx = (if idx < length (frames fm) then Some (frames fm ! idx) else None)"

text \<open>\<open>0x1 << off\<close>\<close>

definition bit_mask :: "nat \<Rightarrow> u32int" where
  "bit_mask off = push_bit off 1"

definition set_frame :: "u32int \<Rightarrow> frame_map \<Rightarrow> frame_map option" where
  "set_frame frame_addr fm = do {
     let frame = frame_addr div 0x1000;
     ASSERT (frame < nframes fm);
     let idx = unat (INDEX_FROM_BIT frame);
     let off = unat (OFFSET_FROM_BIT frame);
     w \<leftarrow> frames_word fm idx;
     Some (fm\<lparr>frames := (frames fm)[idx := w OR bit_mask off]\<rparr>)
   }"

definition clear_frame :: "u32int \<Rightarrow> frame_map \<Rightarrow> frame_map option" where
  "clear_frame frame_addr fm = do {
     let frame = frame_addr div 0x1000;
     ASSERT (frame < nframes fm);
     let idx = unat (INDEX_FROM_BIT frame);
     let off = unat (OFFSET_FROM_BIT frame);
     w \<leftarrow> frames_word fm idx;
     Some (fm\<lparr>frames := (frames fm)[idx := w AND NOT (bit_mask off)]\<rparr>)
   }"

definition test_frame :: "u32int \<Rightarrow> frame_map \<Rightarrow> u32int option" where
  "test_frame frame_addr fm = do {
     let frame = frame_addr div 0x1000;
     ASSERT (frame < nframes fm);
     let idx = unat (INDEX_FROM_BIT frame);
     let off = unat (OFFSET_FROM_BIT frame);
     w \<leftarrow> frames_word fm idx;
     Some (w AND bit_mask off)
   }"

text \<open>The two loops of \<open>first_frame\<close>. The inner one runs over the bits of word \<open>i\<close> and falls
  through when every zero bit belongs to a frame that does not exist.\<close>

function first_bit :: "u32int \<Rightarrow> u32int \<Rightarrow> nat \<Rightarrow> nat \<Rightarrow> u32int option" where
  "first_bit w nf i j =
     (if j < 32
      then let frame = of_nat i * 32 + of_nat j
           in if w AND bit_mask j = 0 \<and> frame < nf then Some frame
              else first_bit w nf i (j + 1)
      else None)"
  by pat_completeness auto
termination by (relation "measure (\<lambda>(w, n, i, j). 32 - j)") auto

function first_frame_from :: "frame_map \<Rightarrow> nat \<Rightarrow> u32int option" where
  "first_frame_from fm i =
     (if i < unat (frame_word_count fm)
      then do {
        w \<leftarrow> frames_word fm i;
        (if w \<noteq> 0xFFFFFFFF
         then (case first_bit w (nframes fm) i 0 of
                 Some frame \<Rightarrow> Some frame
               | None \<Rightarrow> first_frame_from fm (i + 1))
         else first_frame_from fm (i + 1))
      }
      else Some 0xFFFFFFFF)"
  by pat_completeness auto
termination by (relation "measure (\<lambda>(fm, i). unat (frame_word_count fm) - i)") auto

declare first_bit.simps [simp del] first_frame_from.simps [simp del]

definition first_frame :: "frame_map \<Rightarrow> u32int option" where
  "first_frame fm = first_frame_from fm 0"

section \<open>The bitmap as a set\<close>

definition used :: "frame_map \<Rightarrow> nat set" where
  "used fm = {f. f < unat (nframes fm) \<and> bit (frames fm ! (f div 32)) (f mod 32)}"

definition free_frames :: "frame_map \<Rightarrow> nat set" where
  "free_frames fm = {..<unat (nframes fm)} - used fm"

definition frame_map_wf :: "frame_map \<Rightarrow> bool" where
  "frame_map_wf fm \<longleftrightarrow> length (frames fm) = unat (frame_word_count fm) \<and>
     unat (nframes fm) \<le> 32 * unat (frame_word_count fm) \<and>
     32 * unat (frame_word_count fm) < 4294967296 \<and> unat (nframes fm) \<le> 0x100000"

lemma bit_bit_mask: "bit (bit_mask n) k \<longleftrightarrow> k = n \<and> n < 32"
  by (auto simp: bit_mask_def bit_simps)

lemma unat_div32: "unat (a div 32 :: u32int) = unat a div 32"
  by (simp add: unat_div)

lemma unat_mod32: "unat (a mod 32 :: u32int) = unat a mod 32"
  by (simp add: unat_mod)

lemma frame_of_address:
  assumes "f < 0x100000" shows "(of_nat (f * 4096) :: u32int) div 0x1000 = of_nat f"
proof -
  have "unat ((of_nat (f * 4096) :: u32int) div 0x1000) = f * 4096 div 4096"
    using assms by (subst unat_div) (simp add: unat_of_nat32 del: of_nat_mult)
  then show ?thesis using assms by (simp add: word32_eq_iff_unat unat_of_nat32)
qed

lemma frame_slot:
  assumes "frame_map_wf fm" "f < unat (nframes fm)"
  shows "f div 32 < length (frames fm)" "f < 0x100000" "unat (of_nat f :: u32int) = f"
proof -
  show "f div 32 < length (frames fm)" "f < 0x100000" using assms by (auto simp: frame_map_wf_def)
  then show "unat (of_nat f :: u32int) = f" by (intro unat_of_nat32) simp
qed

lemma bit_set_other:
  assumes "f div 32 = g div 32" "f mod 32 = g mod 32" shows "f = (g :: nat)"
  using assms by (metis div_mult_mod_eq)

text \<open>Updating the word of frame \<open>f\<close> changes the bit of \<open>f\<close> only.\<close>

lemma used_update:
  assumes wf: "frame_map_wf fm" and f: "f < unat (nframes fm)"
    and w: "\<And>n. n < 32 \<Longrightarrow> bit w n = (if n = f mod 32 then b else bit (frames fm ! (f div 32)) n)"
  defines "fm' \<equiv> fm\<lparr>frames := (frames fm)[f div 32 := w]\<rparr>"
  shows "frame_map_wf fm'" "used fm' = (if b then insert f (used fm) else used fm - {f})"
    "nframes fm' = nframes fm"
proof -
  show "frame_map_wf fm'" "nframes fm' = nframes fm" using wf by (simp_all add: fm'_def frame_map_wf_def)
  have "bit (frames fm' ! (g div 32)) (g mod 32) =
      (if g = f then b else bit (frames fm ! (g div 32)) (g mod 32))" for g
    using w [of "g mod 32"] frame_slot(1) [OF wf f] bit_set_other [of f g]
    by (auto simp: fm'_def nth_list_update)
  then show "used fm' = (if b then insert f (used fm) else used fm - {f})"
    using f by (auto simp: used_def fm'_def)
qed

lemma bitmap_access:
  assumes wf: "frame_map_wf fm" and f: "f < unat (nframes fm)"
  shows "(of_nat (f * 4096) :: u32int) div 0x1000 < nframes fm"
    "unat ((of_nat (f * 4096) :: u32int) div 0x1000 div 32) = f div 32"
    "unat ((of_nat (f * 4096) :: u32int) div 0x1000 mod 32) = f mod 32"
    "frames_word fm (f div 32) = Some (frames fm ! (f div 32))"
  using frame_slot [OF wf f] f frame_of_address [of f]
  by (simp_all add: word_less_nat_alt unat_div32 unat_mod32 frames_word_def del: of_nat_mult)

lemma set_frame_ok:
  assumes wf: "frame_map_wf fm" and f: "f < unat (nframes fm)"
  obtains fm' where "set_frame (of_nat (f * 4096)) fm = Some fm'" "frame_map_wf fm'"
    "used fm' = insert f (used fm)" "nframes fm' = nframes fm"
proof -
  let ?w = "frames fm ! (f div 32) OR bit_mask (f mod 32)"
  have "bit ?w n = (if n = f mod 32 then True else bit (frames fm ! (f div 32)) n)" if "n < 32" for n
    using that by (auto simp: bit_simps bit_bit_mask)
  note u = used_update [OF wf f this]
  have "set_frame (of_nat (f * 4096)) fm = Some (fm\<lparr>frames := (frames fm)[f div 32 := ?w]\<rparr>)"
    using bitmap_access [OF wf f] unfolding set_frame_def Let_def by simp
  then show thesis by (rule that) (use u in auto)
qed

lemma clear_frame_ok:
  assumes wf: "frame_map_wf fm" and f: "f < unat (nframes fm)"
  obtains fm' where "clear_frame (of_nat (f * 4096)) fm = Some fm'" "frame_map_wf fm'"
    "used fm' = used fm - {f}" "nframes fm' = nframes fm"
proof -
  let ?w = "frames fm ! (f div 32) AND NOT (bit_mask (f mod 32))"
  have "bit ?w n = (if n = f mod 32 then False else bit (frames fm ! (f div 32)) n)" if "n < 32" for n
    using that by (auto simp: bit_simps bit_bit_mask)
  note u = used_update [OF wf f this]
  have "clear_frame (of_nat (f * 4096)) fm = Some (fm\<lparr>frames := (frames fm)[f div 32 := ?w]\<rparr>)"
    using bitmap_access [OF wf f] unfolding clear_frame_def Let_def by simp
  then show thesis by (rule that) (use u in auto)
qed

lemma and_single_bit:
  fixes w :: u32int assumes "n < 32" shows "w AND bit_mask n = 0 \<longleftrightarrow> \<not> bit w n"
proof -
  have "w AND bit_mask n = (if bit w n then bit_mask n else 0)"
    by (rule bit_word_eqI) (use assms in \<open>auto simp: bit_simps bit_bit_mask\<close>)
  moreover have "bit_mask n \<noteq> 0"
  proof
    assume "bit_mask n = 0"
    then have "\<not> bit (bit_mask n) n" by simp
    then show False using assms by (simp add: bit_bit_mask)
  qed
  ultimately show ?thesis by simp
qed

lemma test_frame_ok:
  assumes wf: "frame_map_wf fm" and f: "f < unat (nframes fm)"
  shows "\<exists>r. test_frame (of_nat (f * 4096)) fm = Some r \<and> (r \<noteq> 0 \<longleftrightarrow> f \<in> used fm)"
  using bitmap_access [OF wf f] and_single_bit [of "f mod 32"] f
  unfolding test_frame_def Let_def by (simp add: used_def)

lemma frame_outside:
  assumes "unat (nframes fm) \<le> f" "f < 0x100000"
  shows "set_frame (of_nat (f * 4096)) fm = None" "clear_frame (of_nat (f * 4096)) fm = None"
    "test_frame (of_nat (f * 4096)) fm = None"
proof -
  have "\<not> (of_nat (f * 4096) :: u32int) div 0x1000 < nframes fm"
    unfolding frame_of_address [OF assms(2)] using assms by (simp add: word_less_nat_alt unat_of_nat32)
  then show "set_frame (of_nat (f * 4096)) fm = None" "clear_frame (of_nat (f * 4096)) fm = None"
    "test_frame (of_nat (f * 4096)) fm = None"
    by (simp_all add: set_frame_def clear_frame_def test_frame_def Let_def)
qed

section \<open>The search for a free frame\<close>

text \<open>A search that starts at frame number \<open>k\<close> ends with the least free frame from there on.\<close>

definition least_free :: "frame_map \<Rightarrow> nat \<Rightarrow> nat option \<Rightarrow> bool" where
  "least_free fm k r \<longleftrightarrow> (case r of
     None \<Rightarrow> \<forall>f \<in> free_frames fm. f < k
   | Some f \<Rightarrow> f \<in> free_frames fm \<and> k \<le> f \<and> (\<forall>g \<in> free_frames fm. k \<le> g \<longrightarrow> f \<le> g))"

lemma least_free_step:
  assumes "least_free fm (k + 1) r" "k \<notin> free_frames fm" shows "least_free fm k r"
proof -
  have "k \<le> g \<longleftrightarrow> k + 1 \<le> g" "g < k + 1 \<longleftrightarrow> g < k" if "g \<in> free_frames fm" for g
    using that assms(2) by (cases "g = k"; auto)+
  then show ?thesis using assms(1) unfolding least_free_def by (cases r) simp_all
qed

lemma first_bit_spec:
  assumes wf: "frame_map_wf fm" and i: "i < length (frames fm)" and j: "j \<le> 32"
  shows "(\<exists>f. first_bit (frames fm ! i) (nframes fm) i j = Some (of_nat f) \<and> least_free fm (32 * i + j) (Some f)) \<or>
    first_bit (frames fm ! i) (nframes fm) i j = None \<and>
      (\<forall>f. 32 * i + j \<le> f \<and> f < 32 * i + 32 \<longrightarrow> f \<notin> free_frames fm)"
  using j
proof (induction "32 - j" arbitrary: j)
  case 0
  then show ?case by (subst (1 2) first_bit.simps) auto
next
  case (Suc n)
  then have j: "j < 32" "n = 32 - (j + 1)" "j + 1 \<le> 32" by auto
  let ?f = "32 * i + j"
  have bd: "?f < 4294967296" using wf i j(1) by (simp add: frame_map_wf_def)
  have slot: "?f div 32 = i" "?f mod 32 = j" using j(1) by auto
  have fr: "(of_nat i * 32 + of_nat j :: u32int) = of_nat ?f" by (simp add: mult.commute)
  have free: "frames fm ! i AND bit_mask j = 0 \<and> of_nat ?f < nframes fm \<longleftrightarrow> ?f \<in> free_frames fm"
    unfolding word_less_nat_alt unat_of_nat32 [OF bd] and_single_bit [OF j(1)]
    using slot by (auto simp: free_frames_def used_def)
  have unf: "first_bit (frames fm ! i) (nframes fm) i j =
      (if ?f \<in> free_frames fm then Some (of_nat ?f) else first_bit (frames fm ! i) (nframes fm) i (j + 1))"
    using j(1) by (subst first_bit.simps) (simp only: fr free Let_def if_True)
  show ?case
  proof (cases "?f \<in> free_frames fm")
    case True
    then have "least_free fm ?f (Some ?f)" by (simp add: least_free_def)
    then show ?thesis unfolding unf using True by (intro disjI1 exI [of _ ?f]) simp
  next
    case False
    from Suc.hyps(1) [OF j(2,3)] consider
      f where "first_bit (frames fm ! i) (nframes fm) i (j + 1) = Some (of_nat f)" "least_free fm (?f + 1) (Some f)"
      | "first_bit (frames fm ! i) (nframes fm) i (j + 1) = None"
        "\<forall>f. ?f + 1 \<le> f \<and> f < 32 * i + 32 \<longrightarrow> f \<notin> free_frames fm" by (auto simp: add.assoc)
    then show ?thesis
    proof cases
      case 1
      then show ?thesis unfolding unf using False least_free_step by auto
    next
      case 2
      have "f \<notin> free_frames fm" if "?f \<le> f" "f < 32 * i + 32" for f
        using 2(2) that False by (cases "f = ?f") auto
      with 2(1) False show ?thesis unfolding unf by auto
    qed
  qed
qed

lemma first_frame_from_spec:
  assumes wf: "frame_map_wf fm" and i: "i \<le> length (frames fm)"
  shows "\<exists>r. first_frame_from fm i = Some (case r of None \<Rightarrow> 0xFFFFFFFF | Some f \<Rightarrow> of_nat f) \<and>
    least_free fm (32 * i) r"
  using i
proof (induction "length (frames fm) - i" arbitrary: i)
  case 0
  then have "\<not> i < unat (frame_word_count fm)" "unat (nframes fm) \<le> 32 * i"
    using wf by (auto simp: frame_map_wf_def)
  then show ?case
    by (subst first_frame_from.simps) (auto intro!: exI [of _ None] simp: least_free_def free_frames_def)
next
  case (Suc n)
  then have i: "i < length (frames fm)" "n = length (frames fm) - (i + 1)" "i + 1 \<le> length (frames fm)" by auto
  then have lt: "i < unat (frame_word_count fm)" using wf by (simp add: frame_map_wf_def)
  let ?w = "frames fm ! i"
  have w: "frames_word fm i = Some ?w" using i(1) by (simp add: frames_word_def)
  have skip: "?case" if none: "\<forall>f. 32 * i \<le> f \<and> f < 32 * i + 32 \<longrightarrow> f \<notin> free_frames fm"
    and eq: "first_frame_from fm i = first_frame_from fm (i + 1)"
  proof -
    have "g \<in> free_frames fm \<Longrightarrow> 32 * i \<le> g \<longleftrightarrow> 32 * (i + 1) \<le> g" for g using none by force
    then have up: "least_free fm (32 * (i + 1)) r \<Longrightarrow> least_free fm (32 * i) r" for r
      unfolding least_free_def by (cases r) (auto simp: not_le [symmetric] simp del: not_le)
    then show ?thesis using Suc.hyps(1) [OF i(2,3)] eq by auto
  qed
  show ?case
  proof (cases "?w = 0xFFFFFFFF")
    case True
    have full: "bit (0xFFFFFFFF :: u32int) k" if "k < 32" for k
    proof -
      have "bit (mask 32 :: u32int) k" using that by (simp add: bit_mask_iff)
      then show ?thesis by (simp add: mask_eq_exp_minus_1)
    qed
    have "f \<notin> free_frames fm" if "32 * i \<le> f" "f < 32 * i + 32" for f
    proof -
      have "f div 32 = i" using that by (intro div_nat_eqI) auto
      then show ?thesis using True full [of "f mod 32"] by (auto simp: free_frames_def used_def)
    qed
    moreover have "first_frame_from fm i = first_frame_from fm (i + 1)"
      using lt w True by (subst first_frame_from.simps) simp
    ultimately show ?thesis using skip by blast
  next
    case False
    have unf: "first_frame_from fm i = (case first_bit ?w (nframes fm) i 0 of
         Some frame \<Rightarrow> Some frame | None \<Rightarrow> first_frame_from fm (i + 1))"
      using lt w False by (subst first_frame_from.simps) simp
    from first_bit_spec [OF wf i(1) le0] show ?thesis
    proof (elim disjE exE conjE)
      fix f assume "first_bit ?w (nframes fm) i 0 = Some (of_nat f)" "least_free fm (32 * i + 0) (Some f)"
      then show ?thesis unfolding unf by (intro exI [of _ "Some f"]) simp
    next
      assume "first_bit ?w (nframes fm) i 0 = None"
        "\<forall>f. 32 * i + 0 \<le> f \<and> f < 32 * i + 32 \<longrightarrow> f \<notin> free_frames fm"
      then show ?thesis using skip unf by simp
    qed
  qed
qed

lemma first_frame_spec:
  assumes wf: "frame_map_wf fm"
  shows "if free_frames fm = {} then first_frame fm = Some 0xFFFFFFFF
    else first_frame fm = Some (of_nat (Min (free_frames fm)))"
proof -
  obtain r where r: "first_frame fm = Some (case r of None \<Rightarrow> 0xFFFFFFFF | Some f \<Rightarrow> of_nat f)" "least_free fm 0 r"
    using first_frame_from_spec [OF wf, of 0] by (auto simp: first_frame_def)
  have "finite (free_frames fm)" by (simp add: free_frames_def)
  then show ?thesis
    using r by (cases r) (auto simp: least_free_def intro!: Min_eqI [symmetric] arg_cong [where f = of_nat])
qed

end
