(* ===== verification/Paging.thy ===== *)
theory Paging
  imports KHeap Frames
begin

text \<open>
  Page tables and address spaces (\<open>src/paging.c\<close>, \<open>src/paging.h\<close>) and the allocation wrappers
  \<open>kmalloc\<close> and \<open>kfree\<close> (\<open>src/kheap.c\<close>) that tie the heap to them.

  Page directories and page tables are objects with an address: \<open>directories\<close> and
  \<open>page_tables\<close> map an address to the object stored there, and a \<open>page_t *\<close> is the address of a
  table together with an index. Address 0 is the null pointer and never names an object.
  Physical memory is \<open>pmem\<close>; it is written only by the copy of a frame.

  \<open>get_page\<close> allocates a table with \<open>kmalloc_ap\<close>, \<open>kmalloc_ap\<close> calls \<open>alloc\<close>, and \<open>alloc\<close> maps
  pages through \<open>get_page\<close>: the cycle of the C code is tied in \<open>kernel_alloc\<close>, with a bound on
  the depth of the calls.
\<close>

section \<open>Structures\<close>

record page_t =
  present :: bool
  rw :: bool
  user :: bool
  accessed :: bool
  dirty :: bool
  unused :: "7 word"
  frame :: "20 word"

type_synonym page_table_t = "page_t list"

record page_directory_t =
  tables :: "u32int list"
  tablesPhysical :: "u32int list"
  physicalAddr :: u32int

type_synonym page_ptr = "u32int \<times> nat"

record pstate = kstate +
  fmap :: frame_map
  page_tables :: "u32int \<rightharpoonup> page_table_t"
  directories :: "u32int \<rightharpoonup> page_directory_t"
  kernel_directory :: u32int
  current_directory :: u32int
  pmem :: memory

definition KHEAP_START :: u32int where "KHEAP_START = 0xC0000000"
definition KHEAP_INITIAL_SIZE :: u32int where "KHEAP_INITIAL_SIZE = 0x100000"

text \<open>The values that \<open>memset(p, 0, sizeof *p)\<close> leaves.\<close>

definition zero_page :: page_t where
  "zero_page = \<lparr>present = False, rw = False, user = False, accessed = False, dirty = False,
     unused = 0, frame = 0\<rparr>"

definition zero_table :: page_table_t where
  "zero_table = replicate 1024 zero_page"

definition zero_directory :: page_directory_t where
  "zero_directory = \<lparr>tables = replicate 1024 0, tablesPhysical = replicate 1024 0, physicalAddr = 0\<rparr>"

definition sizeof_page_table :: u32int where "sizeof_page_table = 4096"
definition sizeof_page_directory :: u32int where "sizeof_page_directory = 8196"

definition read_page :: "page_ptr \<Rightarrow> 'a pstate_scheme \<Rightarrow> page_t option" where
  "read_page p s = do {
     t \<leftarrow> page_tables s (fst p);
     (if snd p < length t then Some (t ! snd p) else None) }"

definition write_page :: "page_ptr \<Rightarrow> page_t \<Rightarrow> 'a pstate_scheme \<Rightarrow> 'a pstate_scheme option" where
  "write_page p pg s = do {
     t \<leftarrow> page_tables s (fst p);
     (if snd p < length t
      then Some (s\<lparr>page_tables := (page_tables s)(fst p \<mapsto> t[snd p := pg])\<rparr>) else None) }"

text \<open>\<open>page->frame * 0x1000\<close>\<close>

definition frame_base :: "page_t \<Rightarrow> u32int" where
  "frame_base pg = ucast (frame pg) * 0x1000"

section \<open>Frames behind pages\<close>

definition alloc_frame ::
  "page_ptr option \<Rightarrow> bool \<Rightarrow> bool \<Rightarrow> 'a pstate_scheme \<Rightarrow> 'a pstate_scheme option" where
  "alloc_frame page is_kernel is_writeable s = do {
     p \<leftarrow> page;
     pg \<leftarrow> read_page p s;
     (if present pg then Some s
      else do {
        idx \<leftarrow> first_frame (fmap s);
        (if idx = 0xFFFFFFFF then PANIC else Some ());
        t \<leftarrow> test_frame (idx * 0x1000) (fmap s);
        ASSERT (t = 0);
        fm \<leftarrow> set_frame (idx * 0x1000) (fmap s);
        write_page p (pg\<lparr>present := True, rw := is_writeable, user := \<not> is_kernel, frame := ucast idx\<rparr>)
          (s\<lparr>fmap := fm\<rparr>)
      })
   }"

definition free_frame :: "page_ptr option \<Rightarrow> 'a pstate_scheme \<Rightarrow> 'a pstate_scheme option" where
  "free_frame page s = do {
     p \<leftarrow> page;
     pg \<leftarrow> read_page p s;
     (if \<not> present pg then Some s
      else do {
        fm \<leftarrow> clear_frame (frame_base pg) (fmap s);
        write_page p (pg\<lparr>present := False, rw := True, user := False, accessed := False,
          dirty := False, frame := 0\<rparr>) (s\<lparr>fmap := fm\<rparr>)
      })
   }"

definition paging_total_memory_kib :: "'a pstate_scheme \<Rightarrow> u32int" where
  "paging_total_memory_kib s = nframes (fmap s) * 4"

section \<open>Walking the tables\<close>

text \<open>\<open>kmalloc_ap\<close> yields an address and the physical address behind it.\<close>

type_synonym 's kmalloc_p = "u32int \<Rightarrow> 's \<Rightarrow> (u32int \<times> u32int \<times> 's) option"

definition get_page ::
  "'a pstate_scheme kmalloc_p \<Rightarrow> u32int \<Rightarrow> bool \<Rightarrow> u32int \<Rightarrow> 'a pstate_scheme
     \<Rightarrow> (page_ptr option \<times> 'a pstate_scheme) option" where
  "get_page km address mk dir s = do {
     ASSERT (dir \<noteq> 0);
     d \<leftarrow> directories s dir;
     let page_no = address div 0x1000;
     let table_idx = unat (page_no div 1024);
     let entry = unat (page_no mod 1024);
     (if tables d ! table_idx \<noteq> 0 then Some (Some (tables d ! table_idx, entry), s)
      else if mk then do {
        (t, tmp, s) \<leftarrow> km sizeof_page_table s;
        d \<leftarrow> directories s dir;
        let d = d\<lparr>tables := (tables d)[table_idx := t],
                  tablesPhysical := (tablesPhysical d)[table_idx := tmp OR 0x7]\<rparr>;
        let s = s\<lparr>page_tables := (page_tables s)(t \<mapsto> zero_table),
                  directories := (directories s)(dir \<mapsto> d)\<rparr>;
        Some (Some (t, entry), s)
      }
      else Some (None, s))
   }"

section \<open>Kernel allocation\<close>

type_synonym 's alloc_op = "u32int \<Rightarrow> bool \<Rightarrow> 's \<Rightarrow> (u32int \<times> 's) option"

text \<open>\<open>kmalloc_int\<close>; \<open>alloc_op\<close> is the heap's \<open>alloc\<close>. The physical address is computed only
  when the caller asks for it (\<open>phys != 0\<close>).\<close>

definition kmalloc_int ::
  "'a pstate_scheme alloc_op \<Rightarrow> u32int \<Rightarrow> bool \<Rightarrow> bool \<Rightarrow> 'a pstate_scheme
     \<Rightarrow> (u32int \<times> u32int option \<times> 'a pstate_scheme) option" where
  "kmalloc_int alloc_op sz align phys s =
     (if kheap s \<noteq> None
      then do {
        (addr, s) \<leftarrow> alloc_op sz align s;
        (if phys
         then do {
           (p, s) \<leftarrow> get_page (\<lambda>_ _. None) addr False (kernel_directory s) s;
           p \<leftarrow> p;
           pg \<leftarrow> read_page p s;
           ASSERT (present pg);
           Some (addr, Some (frame_base pg + (addr AND 0xFFF)), s)
         }
         else Some (addr, None, s))
      }
      else do {
        s \<leftarrow> (if align \<and> placement_address s AND 0xFFF \<noteq> 0
              then do {
                let a = placement_address s AND 0xFFFFF000;
                ASSERT (a \<le> 0xFFFFEFFF);
                Some (s\<lparr>placement_address := a + 0x1000\<rparr>)
              }
              else Some s);
        let tmp = placement_address s;
        ASSERT (sz \<le> 0xFFFFFFFF - placement_address s);
        Some (tmp, (if phys then Some tmp else None), s\<lparr>placement_address := placement_address s + sz\<rparr>)
      })"

definition kmalloc_a :: "'a pstate_scheme alloc_op \<Rightarrow> u32int \<Rightarrow> 'a pstate_scheme \<Rightarrow> (u32int \<times> 'a pstate_scheme) option" where
  "kmalloc_a alloc_op sz s = do { (a, _, s) \<leftarrow> kmalloc_int alloc_op sz True False s; Some (a, s) }"

definition kmalloc_p :: "'a pstate_scheme alloc_op \<Rightarrow> 'a pstate_scheme kmalloc_p" where
  "kmalloc_p alloc_op sz s = do { (a, p, s) \<leftarrow> kmalloc_int alloc_op sz False True s; p \<leftarrow> p; Some (a, p, s) }"

definition kmalloc_ap :: "'a pstate_scheme alloc_op \<Rightarrow> 'a pstate_scheme kmalloc_p" where
  "kmalloc_ap alloc_op sz s = do { (a, p, s) \<leftarrow> kmalloc_int alloc_op sz True True s; p \<leftarrow> p; Some (a, p, s) }"

definition kmalloc :: "'a pstate_scheme alloc_op \<Rightarrow> u32int \<Rightarrow> 'a pstate_scheme \<Rightarrow> (u32int \<times> 'a pstate_scheme) option" where
  "kmalloc alloc_op sz s = do { (a, _, s) \<leftarrow> kmalloc_int alloc_op sz False False s; Some (a, s) }"

text \<open>The page operations of the heap: \<open>expand\<close> maps and \<open>contract\<close> unmaps with these.\<close>

definition heap_map_page ::
  "'a pstate_scheme alloc_op \<Rightarrow> bool \<Rightarrow> bool \<Rightarrow> u32int \<Rightarrow> 'a pstate_scheme \<Rightarrow> 'a pstate_scheme option" where
  "heap_map_page alloc_op is_kernel is_writeable a s = do {
     (p, s) \<leftarrow> get_page (kmalloc_ap alloc_op) a True (kernel_directory s) s;
     alloc_frame p is_kernel is_writeable s }"

definition heap_unmap_page :: "u32int \<Rightarrow> 'a pstate_scheme \<Rightarrow> 'a pstate_scheme option" where
  "heap_unmap_page a s = do {
     (p, s) \<leftarrow> get_page (\<lambda>_ _. None) a False (kernel_directory s) s;
     free_frame p s }"

text \<open>\<open>alloc\<close> of the running kernel, to a call depth of \<open>n\<close>: both its own recursive call and the
  allocation of a page table inside \<open>expand\<close> go one level deeper.\<close>

primrec kernel_alloc :: "nat \<Rightarrow> 'a pstate_scheme alloc_op" where
  "kernel_alloc 0 = (\<lambda>sz page_align s. None)"
| "kernel_alloc (Suc n) = alloc_body (heap_map_page (kernel_alloc n)) (kernel_alloc n)"

definition kfree :: "u32int \<Rightarrow> 'a pstate_scheme \<Rightarrow> 'a pstate_scheme option" where
  "kfree p s = do { ASSERT (kheap s \<noteq> None); free heap_unmap_page p s }"

section \<open>Address spaces\<close>

text \<open>\<open>copy_page_physical\<close> (src/process.s): 1024 words from one physical frame to another.\<close>

definition copy_page_physical :: "u32int \<Rightarrow> u32int \<Rightarrow> memory \<Rightarrow> memory" where
  "copy_page_physical src dst m = (\<lambda>a. if a - dst < 0x1000 then m (src + (a - dst)) else m a)"

function clone_pages ::
  "page_table_t \<Rightarrow> u32int \<Rightarrow> nat \<Rightarrow> 'a pstate_scheme \<Rightarrow> 'a pstate_scheme option" where
  "clone_pages src table i s =
     (if i < 1024
      then (if \<not> present (src ! i) then clone_pages src table (i + 1) s
            else do {
              s \<leftarrow> alloc_frame (Some (table, i)) False False s;
              pg \<leftarrow> read_page (table, i) s;
              let pg = pg\<lparr>present := True, rw := rw pg \<or> rw (src ! i), user := user pg \<or> user (src ! i),
                accessed := accessed pg \<or> accessed (src ! i), dirty := dirty pg \<or> dirty (src ! i)\<rparr>;
              s \<leftarrow> write_page (table, i) pg s;
              let s = s\<lparr>pmem := copy_page_physical (frame_base (src ! i)) (frame_base pg) (pmem s)\<rparr>;
              clone_pages src table (i + 1) s
            })
      else Some s)"
  by pat_completeness auto
termination by (relation "measure (\<lambda>(src, t, i, s). 1024 - i)") auto

definition clone_table ::
  "'a pstate_scheme kmalloc_p \<Rightarrow> u32int \<Rightarrow> 'a pstate_scheme
     \<Rightarrow> (u32int \<times> u32int \<times> 'a pstate_scheme) option" where
  "clone_table km src s = do {
     (table, physAddr, s) \<leftarrow> km sizeof_page_table s;
     let s = s\<lparr>page_tables := (page_tables s)(table \<mapsto> zero_table)\<rparr>;
     t \<leftarrow> page_tables s src;
     s \<leftarrow> clone_pages t table 0 s;
     Some (table, physAddr, s)
   }"

function clone_tables ::
  "'a pstate_scheme kmalloc_p \<Rightarrow> u32int \<Rightarrow> u32int \<Rightarrow> nat \<Rightarrow> 'a pstate_scheme \<Rightarrow> 'a pstate_scheme option" where
  "clone_tables km src dir i s =
     (if i < 1024
      then do {
        sd \<leftarrow> directories s src;
        kd \<leftarrow> directories s (kernel_directory s);
        (if tables sd ! i = 0 then clone_tables km src dir (i + 1) s
         else do {
           (t, tp, s) \<leftarrow> (if tables kd ! i = tables sd ! i
                         then Some (tables sd ! i, tablesPhysical sd ! i, s)
                         else do { (t, phys, s) \<leftarrow> clone_table km (tables sd ! i) s;
                                   Some (t, phys OR 0x07, s) });
           d \<leftarrow> directories s dir;
           let d = d\<lparr>tables := (tables d)[i := t], tablesPhysical := (tablesPhysical d)[i := tp]\<rparr>;
           clone_tables km src dir (i + 1) (s\<lparr>directories := (directories s)(dir \<mapsto> d)\<rparr>)
         })
      }
      else Some s)"
  by pat_completeness auto
termination by (relation "measure (\<lambda>(f, src, d, i, s). 1024 - i)") auto

definition clone_directory ::
  "'a pstate_scheme kmalloc_p \<Rightarrow> u32int \<Rightarrow> 'a pstate_scheme \<Rightarrow> (u32int \<times> 'a pstate_scheme) option" where
  "clone_directory km src s = do {
     ASSERT (src \<noteq> 0);
     (dir, phys, s) \<leftarrow> km sizeof_page_directory s;
     let offset = 4096;
     let s = s\<lparr>directories := (directories s)(dir \<mapsto> zero_directory\<lparr>physicalAddr := phys + offset\<rparr>)\<rparr>;
     s \<leftarrow> clone_tables km src dir 0 s;
     Some (dir, s)
   }"

function release_pages :: "u32int \<Rightarrow> nat \<Rightarrow> 'a pstate_scheme \<Rightarrow> 'a pstate_scheme option" where
  "release_pages table i s =
     (if i < 1024
      then do {
        pg \<leftarrow> read_page (table, i) s;
        s \<leftarrow> (if present pg then free_frame (Some (table, i)) s else Some s);
        release_pages table (i + 1) s
      }
      else Some s)"
  by pat_completeness auto
termination by (relation "measure (\<lambda>(t, i, s). 1024 - i)") auto

text \<open>\<open>kfree\<close> of a table or directory also ends the life of the object.\<close>

function destroy_tables ::
  "(u32int \<Rightarrow> 'a pstate_scheme \<Rightarrow> 'a pstate_scheme option) \<Rightarrow> u32int \<Rightarrow> nat \<Rightarrow> 'a pstate_scheme
     \<Rightarrow> 'a pstate_scheme option" where
  "destroy_tables kfree_op directory i s =
     (if i < 1024
      then do {
        d \<leftarrow> directories s directory;
        kd \<leftarrow> directories s (kernel_directory s);
        let table = tables d ! i;
        (if table = 0 \<or> tables kd ! i = table then destroy_tables kfree_op directory (i + 1) s
         else do {
           s \<leftarrow> release_pages table 0 s;
           s \<leftarrow> kfree_op table s;
           destroy_tables kfree_op directory (i + 1) (s\<lparr>page_tables := (page_tables s)(table := None)\<rparr>)
         })
      }
      else Some s)"
  by pat_completeness auto
termination by (relation "measure (\<lambda>(f, d, i, s). 1024 - i)") auto

definition destroy_directory ::
  "(u32int \<Rightarrow> 'a pstate_scheme \<Rightarrow> 'a pstate_scheme option) \<Rightarrow> u32int \<Rightarrow> 'a pstate_scheme
     \<Rightarrow> 'a pstate_scheme option" where
  "destroy_directory kfree_op directory s = do {
     ASSERT (directory \<noteq> 0);
     ASSERT (directory \<noteq> kernel_directory s);
     ASSERT (directory \<noteq> current_directory s);
     s \<leftarrow> destroy_tables kfree_op directory 0 s;
     s \<leftarrow> kfree_op directory s;
     Some (s\<lparr>directories := (directories s)(directory := None)\<rparr>)
   }"

declare clone_pages.simps [simp del] clone_tables.simps [simp del] release_pages.simps [simp del]
  destroy_tables.simps [simp del]

section \<open>Bringing paging up\<close>

definition switch_page_directory :: "u32int \<Rightarrow> 'a pstate_scheme \<Rightarrow> 'a pstate_scheme" where
  "switch_page_directory dir s = s\<lparr>current_directory := dir\<rparr>"

function mark_padding :: "nat \<Rightarrow> nat \<Rightarrow> u32int list \<Rightarrow> u32int list" where
  "mark_padding padding_frame limit ws =
     (if padding_frame < limit
      then mark_padding (padding_frame + 1) limit
             (ws[padding_frame div 32 := ws ! (padding_frame div 32) OR bit_mask (padding_frame mod 32)])
      else ws)"
  by pat_completeness auto
termination by (relation "measure (\<lambda>(p, l, ws). l - p)") auto

declare mark_padding.simps [simp del]

definition init_frames :: "u32int \<Rightarrow> frame_map" where
  "init_frames physical_memory_end =
     (let nf = physical_memory_end div 0x1000;
          count = INDEX_FROM_BIT (nf + 31)
      in \<lparr>frames = mark_padding (unat nf) (unat (count * 32)) (replicate (unat count) 0),
          nframes = nf, frame_word_count = count\<rparr>)"

text \<open>The loop that identity-maps bootstrap memory: the bound follows \<open>placement_address\<close>, which
  \<open>get_page\<close> may advance. The assertion on \<open>nframes\<close> limits the number of rounds, so that one
  round more than there are frames is enough fuel.\<close>

primrec identity_map :: "nat \<Rightarrow> 'a pstate_scheme kmalloc_p \<Rightarrow> u32int \<Rightarrow> 'a pstate_scheme \<Rightarrow> 'a pstate_scheme option" where
  "identity_map 0 km i s = None"
| "identity_map (Suc n) km i s =
     (if i < placement_address s + 0x1000
      then do {
        (p, s) \<leftarrow> get_page km i True (kernel_directory s) s;
        p \<leftarrow> p;
        ASSERT (i div 0x1000 < nframes (fmap s));
        fm \<leftarrow> set_frame i (fmap s);
        pg \<leftarrow> read_page p s;
        s \<leftarrow> write_page p (pg\<lparr>present := True, rw := False, user := True, frame := ucast (i div 0x1000)\<rparr>)
               (s\<lparr>fmap := fm\<rparr>);
        identity_map n km (i + 0x1000) s
      }
      else Some s)"

definition initialise_paging :: "nat \<Rightarrow> u32int \<Rightarrow> 'a pstate_scheme \<Rightarrow> 'a pstate_scheme option" where
  "initialise_paging depth physical_memory_end s = do {
     let al = kernel_alloc depth;
     let physical_memory_end = physical_memory_end AND 0xFFFFF000;
     ASSERT (physical_memory_end > placement_address s);
     let fm = init_frames physical_memory_end;
     (_, s) \<leftarrow> kmalloc al (frame_word_count fm * 4) s;
     let s = s\<lparr>fmap := fm\<rparr>;
     (dir, s) \<leftarrow> kmalloc_a al sizeof_page_directory s;
     let s = s\<lparr>kernel_directory := dir,
               directories := (directories s)(dir \<mapsto> zero_directory\<lparr>physicalAddr := dir + 4096\<rparr>)\<rparr>;
     s \<leftarrow> expand_pages (\<lambda>a s. do { (_, s) \<leftarrow> get_page (kmalloc_ap al) a True (kernel_directory s) s; Some s })
           KHEAP_START 0 (unat KHEAP_INITIAL_SIZE) s;
     ASSERT (placement_address s \<le> 0xFFFFEFFF);
     s \<leftarrow> identity_map (unat (nframes fm) + 1) (kmalloc_ap al) 0 s;
     s \<leftarrow> expand_pages (heap_map_page al False True) KHEAP_START 0 (unat KHEAP_INITIAL_SIZE) s;
     let s = switch_page_directory (kernel_directory s) s;
     (h, s) \<leftarrow> create_heap (kmalloc al) KHEAP_START (KHEAP_START + KHEAP_INITIAL_SIZE) 0xCFFFF000 False False s;
     let s = s\<lparr>kheap := Some h\<rparr>;
     (dir, s) \<leftarrow> clone_directory (kmalloc_ap al) (kernel_directory s) s;
     Some (switch_page_directory dir s)
   }"

text \<open>\<open>page_fault\<close>: the causes it prints for an error code; it then panics.\<close>

definition page_fault_causes :: "u32int \<Rightarrow> string list" where
  "page_fault_causes err_code =
     (if err_code AND 0x1 = 0 then [''present ''] else []) @
     (if err_code AND 0x2 \<noteq> 0 then [''read-only ''] else []) @
     (if err_code AND 0x4 \<noteq> 0 then [''user-mode ''] else []) @
     (if err_code AND 0x8 \<noteq> 0 then [''reserved ''] else []) @
     (if err_code AND 0x10 \<noteq> 0 then [''instruction-fetch ''] else [])"

definition page_fault :: "u32int \<Rightarrow> 'a pstate_scheme \<Rightarrow> 'a pstate_scheme option" where
  "page_fault err_code s = PANIC"

end
