(* ===== verification/FS.thy ===== *)
theory FS
  imports Paging
begin

text \<open>
  The virtual file system (\<open>src/fs.c\<close>) and its only driver, the boot archive (\<open>src/initrd.c\<close>).

  A node is an object with an address; \<open>fs_nodes\<close> maps an address to the node stored there. The
  linked list of children (\<open>first_child\<close>, \<open>next_sibling\<close>) is the list \<open>children\<close> of their
  addresses, in list order. C strings are strings without the terminating zero. A callback
  field holds which function it points to; the repository installs only the four of the
  archive driver, and no node has an \<open>open\<close>, \<open>close\<close> or \<open>write\<close> callback. The table of headers is read
  once, when the archive is mounted; nothing writes to the module afterwards. The fields
  \<open>uid\<close>, \<open>gid\<close>, \<open>impl\<close> and \<open>ptr\<close> of a node are never used.
\<close>

section \<open>Nodes\<close>

definition FS_FILE :: u32int where "FS_FILE = 0x01"
definition FS_DIRECTORY :: u32int where "FS_DIRECTORY = 0x02"

datatype callback = Initrd_read | Initrd_readdir | Initrd_finddir | Initrd_mkdir

record fs_node_t =
  node_name :: string
  node_mask :: u32int
  flags :: u32int
  inode :: u32int
  node_length :: u32int
  read_cb :: "callback option"
  write_cb :: "callback option"
  open_cb :: "callback option"
  close_cb :: "callback option"
  readdir_cb :: "callback option"
  finddir_cb :: "callback option"
  mkdir_cb :: "callback option"
  parent :: u32int
  children :: "u32int list"

record initrd_file_header_t =
  magic :: u8int
  hname :: "u8int list"
  offset :: u32int
  hlength :: u32int

record fstate = pstate +
  fs_nodes :: "u32int \<rightharpoonup> fs_node_t"
  fs_root :: u32int
  initrd_root :: u32int
  initrd_dev :: u32int
  file_headers :: "initrd_file_header_t list"
  initrd_location :: u32int
  initrd_end :: u32int

type_synonym nodes = "u32int \<rightharpoonup> fs_node_t"

definition is_directory :: "fs_node_t \<Rightarrow> bool" where
  "is_directory n \<longleftrightarrow> flags n AND 0x7 = FS_DIRECTORY"

section \<open>The archive driver\<close>

text \<open>Results of pointer type: 0 is the null pointer.\<close>

fun find_in_list :: "nodes \<Rightarrow> string \<Rightarrow> u32int list \<Rightarrow> u32int" where
  "find_in_list ns nm [] = 0"
| "find_in_list ns nm (c # cs) =
     (case ns c of
        Some n \<Rightarrow> (if node_name n = nm then c else find_in_list ns nm cs)
      | None \<Rightarrow> find_in_list ns nm cs)"

definition find_child :: "nodes \<Rightarrow> u32int \<Rightarrow> string \<Rightarrow> u32int" where
  "find_child ns directory nm =
     (case ns directory of None \<Rightarrow> 0 | Some d \<Rightarrow> find_in_list ns nm (children d))"

definition initrd_finddir :: "nodes \<Rightarrow> u32int \<Rightarrow> string \<Rightarrow> u32int" where
  "initrd_finddir ns node nm = find_child ns node nm"

text \<open>The directory entry that \<open>initrd_readdir\<close> leaves in its shared buffer: name and inode.\<close>

definition initrd_readdir :: "nodes \<Rightarrow> u32int \<Rightarrow> u32int \<Rightarrow> (string \<times> u32int) option" where
  "initrd_readdir ns node idx = do {
     d \<leftarrow> ns node;
     (if unat idx < length (children d)
      then do { c \<leftarrow> ns (children d ! unat idx); Some (node_name c, inode c) }
      else None) }"

text \<open>\<open>initrd_read\<close>: the number of bytes and the bytes copied from the module.\<close>

definition initrd_read :: "u32int \<Rightarrow> u32int \<Rightarrow> u32int \<Rightarrow> 'a fstate_scheme \<Rightarrow> (u32int \<times> u8int list) option" where
  "initrd_read node off sz s = do {
     n \<leftarrow> fs_nodes s node;
     (if unat (inode n) < length (file_headers s)
      then (let header = file_headers s ! unat (inode n)
            in if off \<ge> hlength header then Some (0, [])
               else (let sz = (if sz > hlength header - off then hlength header - off else sz)
                     in Some (sz, map (\<lambda>i. mem s (initrd_location s + offset header + off + of_nat i)) [0..<unat sz])))
      else None) }"

type_synonym 's node_alloc = "u32int \<Rightarrow> 's \<Rightarrow> (u32int \<times> 's) option"

text \<open>\<open>sizeof(initrd_tree_node_t)\<close>: a 192-byte \<open>fs_node_t\<close> and three pointers.\<close>

definition sizeof_tree_node :: u32int where "sizeof_tree_node = 204"

definition empty_node :: fs_node_t where
  "empty_node = \<lparr>node_name = [], node_mask = 0, flags = 0, inode = 0, node_length = 0, read_cb = None, write_cb = None,
     open_cb = None, close_cb = None, readdir_cb = None, finddir_cb = None, mkdir_cb = None, parent = 0, children = []\<rparr>"

definition new_tree_node ::
  "'a fstate_scheme node_alloc \<Rightarrow> string \<Rightarrow> u32int \<Rightarrow> 'a fstate_scheme \<Rightarrow> (u32int \<times> 'a fstate_scheme) option" where
  "new_tree_node km nm fl s = do {
     (a, s) \<leftarrow> km sizeof_tree_node s;
     ASSERT (a \<noteq> 0);
     ASSERT (length nm < 128);
     Some (a, s\<lparr>fs_nodes := (fs_nodes s)(a \<mapsto> empty_node\<lparr>node_name := nm, flags := fl\<rparr>)\<rparr>) }"

definition attach_child :: "u32int \<Rightarrow> u32int \<Rightarrow> 'a fstate_scheme \<Rightarrow> 'a fstate_scheme option" where
  "attach_child par child s = do {
     ASSERT (par \<noteq> 0 \<and> child \<noteq> 0);
     c \<leftarrow> fs_nodes s child;
     ASSERT (parent c = 0);
     let ns = (fs_nodes s)(child \<mapsto> c\<lparr>parent := par\<rparr>);
     p \<leftarrow> ns par;
     Some (s\<lparr>fs_nodes := ns(par \<mapsto> p\<lparr>children := child # children p\<rparr>)\<rparr>) }"

definition configure_directory :: "u32int \<Rightarrow> 'a fstate_scheme \<Rightarrow> 'a fstate_scheme option" where
  "configure_directory a s = do {
     d \<leftarrow> fs_nodes s a;
     Some (s\<lparr>fs_nodes := (fs_nodes s)(a \<mapsto> d\<lparr>flags := FS_DIRECTORY, readdir_cb := Some Initrd_readdir,
       finddir_cb := Some Initrd_finddir, mkdir_cb := Some Initrd_mkdir\<rparr>)\<rparr>) }"

text \<open>\<open>initrd_mkdir\<close> returns 0 or -1.\<close>

definition initrd_mkdir ::
  "'a fstate_scheme node_alloc \<Rightarrow> u32int \<Rightarrow> string \<Rightarrow> 'a fstate_scheme \<Rightarrow> (int \<times> 'a fstate_scheme) option" where
  "initrd_mkdir km par nm s =
     (if nm = [] \<or> find_child (fs_nodes s) par nm \<noteq> 0 then Some (-1, s)
      else do {
        (directory, s) \<leftarrow> new_tree_node km nm FS_DIRECTORY s;
        s \<leftarrow> configure_directory directory s;
        s \<leftarrow> attach_child par directory s;
        Some (0, s) })"

definition get_or_create_directory ::
  "'a fstate_scheme node_alloc \<Rightarrow> u32int \<Rightarrow> string \<Rightarrow> 'a fstate_scheme \<Rightarrow> (u32int \<times> 'a fstate_scheme) option" where
  "get_or_create_directory km par nm s =
     (let node = find_child (fs_nodes s) par nm
      in if node \<noteq> 0
         then do { n \<leftarrow> fs_nodes s node; ASSERT (is_directory n); Some (node, s) }
         else do {
           (node, s) \<leftarrow> new_tree_node km nm FS_DIRECTORY s;
           s \<leftarrow> configure_directory node s;
           s \<leftarrow> attach_child par node s;
           Some (node, s) })"

definition MAX_PATH_COMPONENTS :: nat where "MAX_PATH_COMPONENTS = 32"
definition INITRD_HEADER_SLOTS :: nat where "INITRD_HEADER_SLOTS = 64"

lemma tl_dropWhile_shorter: "r \<noteq> [] \<Longrightarrow> length (dropWhile P r) - Suc 0 < length r"
  using length_dropWhile_le [of P r] by (cases r) auto

text \<open>The loop of \<open>add_archived_file\<close> over the rest of the name; \<open>n\<close> is the number of
  components already consumed.\<close>

function add_components ::
  "'a fstate_scheme node_alloc \<Rightarrow> nat \<Rightarrow> u32int \<Rightarrow> string \<Rightarrow> nat \<Rightarrow> 'a fstate_scheme \<Rightarrow> 'a fstate_scheme option" where
  "add_components km header_index directory rest n s =
     (if rest = [] then Some s
      else do {
        let component = takeWhile (\<lambda>c. c \<noteq> CHR ''/'') rest;
        let rest' = dropWhile (\<lambda>c. c \<noteq> CHR ''/'') rest;
        ASSERT (length component < 128);
        ASSERT (component \<noteq> []);
        ASSERT (component \<noteq> ''.'' \<and> component \<noteq> ''..'');
        ASSERT (n + 1 \<le> MAX_PATH_COMPONENTS);
        (if rest' \<noteq> []
         then do {
           let rest' = tl rest';
           ASSERT (rest' \<noteq> [] \<and> hd rest' \<noteq> CHR ''/'');
           (directory, s) \<leftarrow> get_or_create_directory km directory component s;
           add_components km header_index directory rest' (n + 1) s
         }
         else do {
           ASSERT (find_child (fs_nodes s) directory component = 0);
           header \<leftarrow> (if header_index < length (file_headers s) then Some (file_headers s ! header_index) else None);
           (file, s) \<leftarrow> new_tree_node km component FS_FILE s;
           f \<leftarrow> fs_nodes s file;
           let s = s\<lparr>fs_nodes := (fs_nodes s)(file \<mapsto> f\<lparr>inode := of_nat header_index,
                 node_length := hlength header, read_cb := Some Initrd_read\<rparr>)\<rparr>;
           attach_child directory file s
         })
      })"
  by pat_completeness auto
termination
  by (relation "measure (\<lambda>(km, i, d, r, c, s). length r)") (auto simp: tl_dropWhile_shorter)

declare add_components.simps [simp del]

text \<open>The bytes before the terminator of the 64-byte name field, as a string.\<close>

definition header_path :: "initrd_file_header_t \<Rightarrow> string" where
  "header_path header = map (\<lambda>b. char_of (unat b)) (takeWhile (\<lambda>b. b \<noteq> 0) (hname header))"

definition add_archived_file ::
  "'a fstate_scheme node_alloc \<Rightarrow> nat \<Rightarrow> 'a fstate_scheme \<Rightarrow> 'a fstate_scheme option" where
  "add_archived_file km header_index s = do {
     header \<leftarrow> (if header_index < length (file_headers s) then Some (file_headers s ! header_index) else None);
     let path = header_path header;
     ASSERT (0 < length path \<and> length path < 64);
     ASSERT (hd path \<noteq> CHR ''/'' \<and> last path \<noteq> CHR ''/'');
     add_components km header_index (initrd_root s) path 0 s }"

text \<open>\<open>initrd_file_header_t\<close> in memory: 76 bytes, the words aligned to 4.\<close>

definition read_file_header :: "memory \<Rightarrow> u32int \<Rightarrow> initrd_file_header_t" where
  "read_file_header m a = \<lparr>magic = m a, hname = map (\<lambda>i. m (a + 1 + of_nat i)) [0..<64],
     offset = load32 m (a + 68), hlength = load32 m (a + 72)\<rparr>"

function add_files ::
  "'a fstate_scheme node_alloc \<Rightarrow> nat \<Rightarrow> nat \<Rightarrow> 'a fstate_scheme \<Rightarrow> 'a fstate_scheme option" where
  "add_files km i nfiles s =
     (if i < nfiles
      then do {
        h \<leftarrow> (if i < length (file_headers s) then Some (file_headers s ! i) else None);
        ASSERT (magic h = 0xBF);
        ASSERT (offset h \<le> initrd_end s - initrd_location s);
        ASSERT (hlength h \<le> initrd_end s - initrd_location s - offset h);
        s \<leftarrow> add_archived_file km i s;
        add_files km (i + 1) nfiles s
      }
      else Some s)"
  by pat_completeness auto
termination by (relation "measure (\<lambda>(km, i, n, s). n - i)") auto

declare add_files.simps [simp del]

definition initialise_initrd ::
  "'a fstate_scheme node_alloc \<Rightarrow> u32int \<Rightarrow> u32int \<Rightarrow> 'a fstate_scheme \<Rightarrow> (u32int \<times> 'a fstate_scheme) option" where
  "initialise_initrd km location end_addr s = do {
     ASSERT (location < end_addr);
     ASSERT (end_addr - location \<ge> 4 + of_nat INITRD_HEADER_SLOTS * 76);
     let nfiles = unat (load32 (mem s) location);
     let s = s\<lparr>initrd_location := location, initrd_end := end_addr,
               file_headers := map (\<lambda>i. read_file_header (mem s) (location + 4 + of_nat i * 76))
                 [0..<INITRD_HEADER_SLOTS]\<rparr>;
     ASSERT (nfiles \<le> INITRD_HEADER_SLOTS);
     (root, s) \<leftarrow> new_tree_node km ''initrd'' FS_DIRECTORY s;
     s \<leftarrow> configure_directory root s;
     let s = s\<lparr>initrd_root := root\<rparr>;
     (dev, s) \<leftarrow> new_tree_node km ''dev'' FS_DIRECTORY s;
     s \<leftarrow> configure_directory dev s;
     s \<leftarrow> attach_child root dev s;
     let s = s\<lparr>initrd_dev := dev\<rparr>;
     s \<leftarrow> add_files km 0 nfiles s;
     Some (initrd_root s, s) }"

section \<open>The callback wrappers\<close>

text \<open>Result of the read wrapper: byte count and bytes. A null node or a null buffer, or a node
  without the callback, gives 0.\<close>

definition read_fs :: "u32int \<Rightarrow> u32int \<Rightarrow> u32int \<Rightarrow> bool \<Rightarrow> 'a fstate_scheme \<Rightarrow> (u32int \<times> u8int list) option" where
  "read_fs node off sz buffer_null s =
     (if node = 0 \<or> buffer_null then Some (0, [])
      else do {
        n \<leftarrow> fs_nodes s node;
        (case read_cb n of
           Some Initrd_read \<Rightarrow> initrd_read node off sz s
         | Some _ \<Rightarrow> None
         | None \<Rightarrow> Some (0, [])) })"

definition write_fs :: "u32int \<Rightarrow> bool \<Rightarrow> 'a fstate_scheme \<Rightarrow> u32int option" where
  "write_fs node buffer_null s =
     (if node = 0 \<or> buffer_null then Some 0
      else do { n \<leftarrow> fs_nodes s node; (case write_cb n of None \<Rightarrow> Some 0 | Some _ \<Rightarrow> None) })"

definition open_fs :: "u32int \<Rightarrow> 'a fstate_scheme \<Rightarrow> 'a fstate_scheme option" where
  "open_fs node s =
     (if node = 0 then Some s
      else do { n \<leftarrow> fs_nodes s node; (case open_cb n of None \<Rightarrow> Some s | Some _ \<Rightarrow> None) })"

definition close_fs :: "u32int \<Rightarrow> 'a fstate_scheme \<Rightarrow> 'a fstate_scheme option" where
  "close_fs node s =
     (if node = 0 then Some s
      else do { n \<leftarrow> fs_nodes s node; (case close_cb n of None \<Rightarrow> Some s | Some _ \<Rightarrow> None) })"

definition readdir_fs :: "nodes \<Rightarrow> u32int \<Rightarrow> u32int \<Rightarrow> (string \<times> u32int) option" where
  "readdir_fs ns node idx =
     (if node = 0 then None
      else (case ns node of
              None \<Rightarrow> None
            | Some n \<Rightarrow> (if is_directory n \<and> readdir_cb n \<noteq> None then initrd_readdir ns node idx else None)))"

definition finddir_fs :: "nodes \<Rightarrow> u32int \<Rightarrow> string \<Rightarrow> u32int" where
  "finddir_fs ns node nm =
     (if node = 0 then 0
      else (case ns node of
              None \<Rightarrow> 0
            | Some n \<Rightarrow> (if is_directory n \<and> finddir_cb n \<noteq> None then initrd_finddir ns node nm else 0)))"

section \<open>Paths\<close>

abbreviation is_slash :: "char \<Rightarrow> bool" where "is_slash c \<equiv> c = CHR ''/''"
abbreviation not_slash :: "char \<Rightarrow> bool" where "not_slash c \<equiv> c \<noteq> CHR ''/''"

text \<open>\<open>..\<close> from a node: the parent, but never above \<open>root\<close>.\<close>

definition parent_or_self :: "nodes \<Rightarrow> u32int \<Rightarrow> u32int \<Rightarrow> u32int" where
  "parent_or_self ns root node =
     (case ns node of
        Some n \<Rightarrow> (if node \<noteq> root \<and> parent n \<noteq> 0 then parent n else node)
      | None \<Rightarrow> node)"

function resolve_loop :: "nodes \<Rightarrow> u32int \<Rightarrow> u32int \<Rightarrow> string \<Rightarrow> u32int" where
  "resolve_loop ns root node path =
     (if path = [] then node
      else (let component = takeWhile not_slash path;
                rest = dropWhile is_slash (dropWhile not_slash path)
            in if length component \<ge> 128 then 0
               else if component = ''.'' then resolve_loop ns root node rest
               else if component = ''..'' then resolve_loop ns root (parent_or_self ns root node) rest
               else (let next_node = finddir_fs ns node component
                     in if next_node = 0 then 0 else resolve_loop ns root next_node rest)))"
  by pat_completeness auto
termination
proof -
  have "length (dropWhile is_slash (dropWhile not_slash path)) < length path" if ne: "path \<noteq> []" for path
  proof (cases "is_slash (hd path)")
    case True
    then obtain r where r: "path = CHR ''/'' # r" using ne by (cases path) auto
    then show ?thesis using length_dropWhile_le [of is_slash r] by simp
  next
    case False
    then obtain c r where "path = c # r" "not_slash c" using ne by (cases path) auto
    then have "length (dropWhile not_slash path) < length path"
      using length_dropWhile_le [of not_slash r] by simp
    then show ?thesis using length_dropWhile_le [of is_slash "dropWhile not_slash path"] by simp
  qed
  then show ?thesis by (relation "measure (\<lambda>(ns, r, n, p). length p)") auto
qed

declare resolve_loop.simps [simp del]

definition resolve_path_fs :: "nodes \<Rightarrow> u32int \<Rightarrow> u32int \<Rightarrow> string \<Rightarrow> u32int" where
  "resolve_path_fs ns root working_directory path =
     (if root = 0 \<or> working_directory = 0 then 0
      else (let node = (if path \<noteq> [] \<and> is_slash (hd path) then root else working_directory)
            in resolve_loop ns root node (dropWhile is_slash path)))"

definition find_path_fs :: "nodes \<Rightarrow> u32int \<Rightarrow> string \<Rightarrow> u32int" where
  "find_path_fs ns root path = resolve_path_fs ns root root path"

text \<open>The ancestors of a node below \<open>root\<close>, topmost first; \<open>None\<close> is the result -1.\<close>

function ancestors :: "nodes \<Rightarrow> u32int \<Rightarrow> u32int \<Rightarrow> u32int list \<Rightarrow> u32int list option" where
  "ancestors ns root node components =
     (if node = root then Some components
      else (case ns node of
              None \<Rightarrow> None
            | Some n \<Rightarrow> (if node = 0 \<or> parent n = 0 \<or> 32 \<le> length components then None
                         else ancestors ns root (parent n) (node # components))))"
  by pat_completeness auto
termination by (relation "measure (\<lambda>(ns, r, n, cs). 32 - length cs)") auto

declare ancestors.simps [simp del]

fun emit_path :: "nodes \<Rightarrow> nat \<Rightarrow> string \<Rightarrow> u32int list \<Rightarrow> string option" where
  "emit_path ns capacity buffer [] = Some buffer"
| "emit_path ns capacity buffer (c # cs) =
     (case ns c of
        None \<Rightarrow> None
      | Some n \<Rightarrow>
          (if length buffer + length (node_name n) + (if cs \<noteq> [] then 1 else 0) + 1 > capacity then None
           else emit_path ns capacity (buffer @ node_name n @ (if cs \<noteq> [] then ''/'' else [])) cs))"

text \<open>The buffer contents on success; the C function also returns their length.\<close>

definition get_path_fs :: "nodes \<Rightarrow> u32int \<Rightarrow> u32int \<Rightarrow> nat \<Rightarrow> string option" where
  "get_path_fs ns root node capacity =
     (if root = 0 \<or> node = 0 \<or> capacity < 2 then None
      else do { components \<leftarrow> ancestors ns root node []; emit_path ns capacity ''/'' components })"

section \<open>Creating directories\<close>

definition mkdir_fs ::
  "'a fstate_scheme node_alloc \<Rightarrow> u32int \<Rightarrow> string \<Rightarrow> 'a fstate_scheme \<Rightarrow> (int \<times> 'a fstate_scheme) option" where
  "mkdir_fs km par nm s =
     (if par = 0 then Some (-1, s)
      else (case fs_nodes s par of
              None \<Rightarrow> None
            | Some p \<Rightarrow> (if \<not> is_directory p \<or> mkdir_cb p = None then Some (-1, s)
                         else initrd_mkdir km par nm s)))"

function mkdir_loop ::
  "'a fstate_scheme node_alloc \<Rightarrow> u32int \<Rightarrow> u32int \<Rightarrow> string \<Rightarrow> 'a fstate_scheme \<Rightarrow> (int \<times> 'a fstate_scheme) option" where
  "mkdir_loop km root directory path s =
     (let component = takeWhile not_slash path;
          rest = dropWhile is_slash (dropWhile not_slash path)
      in if length component \<ge> 128 then Some (-1, s)
         else if component = [] then Some (-1, s)
         else if rest = []
         then (if component = ''.'' \<or> component = ''..'' then Some (-1, s)
               else mkdir_fs km directory component s)
         else if component = ''.'' then mkdir_loop km root directory rest s
         else if component = ''..''
         then mkdir_loop km root (parent_or_self (fs_nodes s) root directory) rest s
         else (let next_dir = finddir_fs (fs_nodes s) directory component
               in case fs_nodes s next_dir of
                    Some d \<Rightarrow> (if next_dir = 0 \<or> \<not> is_directory d then Some (-1, s)
                               else mkdir_loop km root next_dir rest s)
                  | None \<Rightarrow> Some (-1, s)))"
  by pat_completeness auto
termination
proof -
  have "length (dropWhile is_slash (dropWhile not_slash path)) < length path"
    if "dropWhile is_slash (dropWhile not_slash path) \<noteq> []" "takeWhile not_slash path \<noteq> []" for path
  proof -
    have "length (takeWhile not_slash path) + length (dropWhile not_slash path) = length path"
      by (metis length_append takeWhile_dropWhile_id)
    moreover have "0 < length (takeWhile not_slash path)" using that by simp
    ultimately show ?thesis using length_dropWhile_le [of is_slash "dropWhile not_slash path"] by linarith
  qed
  then show ?thesis by (relation "measure (\<lambda>(km, r, n, p, s). length p)") auto
qed

declare mkdir_loop.simps [simp del]

definition mkdir_path_fs ::
  "'a fstate_scheme node_alloc \<Rightarrow> u32int \<Rightarrow> u32int \<Rightarrow> string \<Rightarrow> 'a fstate_scheme \<Rightarrow> (int \<times> 'a fstate_scheme) option" where
  "mkdir_path_fs km root working_directory path s =
     (if root = 0 \<or> working_directory = 0 \<or> path = [] then Some (-1, s)
      else (let directory = (if is_slash (hd path) then root else working_directory);
                path = dropWhile is_slash path
            in if path = [] then Some (-1, s) else mkdir_loop km root directory path s))"

end
