(* ===== verification/Task.thy ===== *)
theory Task
  imports FS
begin

text \<open>
  Tasks (\<open>src/task.c\<close>, \<open>src/task.h\<close>): task structures and the ready queue, the scheduler, the user
  heap, file descriptors, and the access to user memory through the page tables.

  A task is an object with an address; \<open>tasks\<close> maps an address to the task stored there. The
  linked list that starts at \<open>ready_queue\<close> and runs through the \<open>next\<close> fields is the list of the
  addresses of its tasks. Signed integers are words of 32 bits that comparisons read with
  \<open>sint\<close>. \<open>cli\<close>, \<open>sti\<close> and \<open>invalidate_page\<close> have no state in the model.
\<close>

section \<open>Structures\<close>

type_synonym s32int = "32 word"

datatype file_descriptor_kind_t = FD_KIND_FREE | FD_KIND_KEYBOARD | FD_KIND_CONSOLE | FD_KIND_NODE

record file_descriptor_t =
  kind :: file_descriptor_kind_t
  fd_node :: u32int
  fd_offset :: u32int
  fd_flags :: u32int

datatype task_state_t = TASK_RUNNABLE | TASK_WAITING_INPUT | TASK_ZOMBIE

record task_t =
  task_id :: s32int
  parent_id :: s32int
  state :: task_state_t
  exit_status :: s32int
  t_esp :: u32int
  t_ebp :: u32int
  t_eip :: u32int
  page_directory :: u32int
  kernel_stack :: u32int
  heap_start :: u32int
  heap_break :: u32int
  heap_mapped_end :: u32int
  heap_limit :: u32int
  is_user_process :: bool
  signal_handlers :: "u32int list"
  pending_signals :: u32int
  signal_trampoline :: u32int
  signal_active :: bool
  active_signal :: u8int
  descriptors :: "file_descriptor_t list"
  working_directory :: u32int

record tstate = fstate +
  tasks :: "u32int \<rightharpoonup> task_t"
  ready_queue :: "u32int list"
  current_task :: u32int
  next_pid :: u32int
  tss_esp0 :: u32int

text \<open>The interrupt frame \<open>registers_t\<close> of \<open>src/isr.h\<close>.\<close>

record registers_t =
  reg_ds :: u32int
  edi :: u32int
  esi :: u32int
  ebp :: u32int
  esp :: u32int
  ebx :: u32int
  edx :: u32int
  ecx :: u32int
  eax :: u32int
  int_no :: u32int
  err_code :: u32int
  eip :: u32int
  reg_cs :: u32int
  eflags :: u32int
  useresp :: u32int
  reg_ss :: u32int

definition KERNEL_STACK_SIZE :: u32int where "KERNEL_STACK_SIZE = 8192"
definition TASK_STACK_SIZE :: u32int where "TASK_STACK_SIZE = 8192"
definition MAX_FILE_DESCRIPTORS :: nat where "MAX_FILE_DESCRIPTORS = 16"
definition USER_HEAP_START :: u32int where "USER_HEAP_START = 0x40000000"
definition USER_HEAP_LIMIT :: u32int where "USER_HEAP_LIMIT = 0xBFF00000"
definition USER_STACK_TOP :: u32int where "USER_STACK_TOP = 0xC0000000"

definition sizeof_task :: u32int where "sizeof_task = 460"
definition sizeof_registers :: u32int where "sizeof_registers = 64"

definition PAGE_ALIGN_UP :: "u32int \<Rightarrow> u32int" where
  "PAGE_ALIGN_UP v = (v + 0x1000 - 1) AND 0xFFFFF000"

definition free_descriptor :: file_descriptor_t where
  "free_descriptor = \<lparr>kind = FD_KIND_FREE, fd_node = 0, fd_offset = 0, fd_flags = 0\<rparr>"

text \<open>The result of \<open>memset(task, 0, sizeof *task)\<close>.\<close>

definition zero_task :: task_t where
  "zero_task = \<lparr>task_id = 0, parent_id = 0, state = TASK_RUNNABLE, exit_status = 0, t_esp = 0, t_ebp = 0, t_eip = 0,
     page_directory = 0, kernel_stack = 0, heap_start = 0, heap_break = 0, heap_mapped_end = 0, heap_limit = 0,
     is_user_process = False, signal_handlers = replicate 32 0, pending_signals = 0, signal_trampoline = 0,
     signal_active = False, active_signal = 0, descriptors = replicate MAX_FILE_DESCRIPTORS free_descriptor,
     working_directory = 0\<rparr>"

definition initialise_standard_descriptors :: "task_t \<Rightarrow> task_t" where
  "initialise_standard_descriptors t = t\<lparr>descriptors :=
     (replicate MAX_FILE_DESCRIPTORS free_descriptor)
       [0 := free_descriptor\<lparr>kind := FD_KIND_KEYBOARD\<rparr>, 1 := free_descriptor\<lparr>kind := FD_KIND_CONSOLE\<rparr>,
        2 := free_descriptor\<lparr>kind := FD_KIND_CONSOLE\<rparr>]\<rparr>"

section \<open>The current task\<close>

definition get_current :: "'a tstate_scheme \<Rightarrow> task_t option" where
  "get_current s = (if current_task s = 0 then None else tasks s (current_task s))"

definition set_task :: "u32int \<Rightarrow> task_t \<Rightarrow> 'a tstate_scheme \<Rightarrow> 'a tstate_scheme" where
  "set_task a t s = s\<lparr>tasks := (tasks s)(a \<mapsto> t)\<rparr>"

definition set_current :: "task_t \<Rightarrow> 'a tstate_scheme \<Rightarrow> 'a tstate_scheme" where
  "set_current t s = set_task (current_task s) t s"

definition getpid :: "'a tstate_scheme \<Rightarrow> s32int option" where
  "getpid s = map_option task_id (get_current s)"

section \<open>User memory\<close>

text \<open>The kernel reaches user memory through the current page directory. An address without a
  present page raises a page fault, and \<open>page_fault\<close> panics. CR0.WP is not set, so that the
  kernel may write pages that are read-only for the user.\<close>

definition translate :: "u32int \<Rightarrow> 'a pstate_scheme \<Rightarrow> u32int option" where
  "translate address s = do {
     d \<leftarrow> directories s (current_directory s);
     let t = tables d ! unat (address div 0x1000 div 1024);
     pg \<leftarrow> (if t = 0 then None else read_page (t, unat (address div 0x1000 mod 1024)) s);
     (if present pg then Some (frame_base pg + (address AND 0xFFF)) else None) }"

definition user_load8 :: "u32int \<Rightarrow> 'a pstate_scheme \<Rightarrow> u8int option" where
  "user_load8 address s = map_option (pmem s) (translate address s)"

definition user_store8 :: "u32int \<Rightarrow> u8int \<Rightarrow> 'a pstate_scheme \<Rightarrow> 'a pstate_scheme option" where
  "user_store8 address v s = do { p \<leftarrow> translate address s; Some (s\<lparr>pmem := (pmem s)(p := v)\<rparr>) }"

primrec user_load :: "u32int \<Rightarrow> nat \<Rightarrow> 'a pstate_scheme \<Rightarrow> u8int list option" where
  "user_load address 0 s = Some []"
| "user_load address (Suc n) s = do { b \<leftarrow> user_load8 address s; bs \<leftarrow> user_load (address + 1) n s; Some (b # bs) }"

primrec user_store :: "u32int \<Rightarrow> u8int list \<Rightarrow> 'a pstate_scheme \<Rightarrow> 'a pstate_scheme option" where
  "user_store address [] s = Some s"
| "user_store address (b # bs) s = do { s \<leftarrow> user_store8 address b s; user_store (address + 1) bs s }"

text \<open>A word as its four bytes, lowest first, and back.\<close>

definition word_bytes :: "u32int \<Rightarrow> u8int list" where
  "word_bytes v = [ucast v, ucast (drop_bit 8 v), ucast (drop_bit 16 v), ucast (drop_bit 24 v)]"

definition bytes_word :: "u8int list \<Rightarrow> u32int" where
  "bytes_word bs = ucast (bs ! 0) OR push_bit 8 (ucast (bs ! 1)) OR push_bit 16 (ucast (bs ! 2)) OR push_bit 24 (ucast (bs ! 3))"

fun bytes_words :: "u8int list \<Rightarrow> u32int list" where
  "bytes_words (a # b # c # d # bs) = bytes_word [a, b, c, d] # bytes_words bs"
| "bytes_words bs = []"

text \<open>\<open>zero_page_physical\<close> (src/process.s) clears one frame.\<close>

definition zero_page_physical :: "u32int \<Rightarrow> 'a pstate_scheme \<Rightarrow> 'a pstate_scheme" where
  "zero_page_physical dst s = s\<lparr>pmem := (\<lambda>a. if a - dst < 0x1000 then 0 else pmem s a)\<rparr>"

text \<open>One round of the loops that give a process a zeroed page.\<close>

definition map_user_page :: "'a pstate_scheme alloc_op \<Rightarrow> u32int \<Rightarrow> u32int \<Rightarrow> 'a pstate_scheme \<Rightarrow> 'a pstate_scheme option" where
  "map_user_page al dir address s = do {
     (page, s) \<leftarrow> get_page (kmalloc_ap al) address True dir s;
     p \<leftarrow> page;
     s \<leftarrow> alloc_frame (Some p) False True s;
     pg \<leftarrow> read_page p s;
     Some (zero_page_physical (frame_base pg) s) }"

text \<open>\<open>for (address = lo; address < hi; address += PAGE_SIZE)\<close>, for \<open>hi\<close> at least one page below \<open>2 ^ 32\<close>.\<close>

definition map_range :: "(u32int \<Rightarrow> 's \<Rightarrow> 's option) \<Rightarrow> u32int \<Rightarrow> u32int \<Rightarrow> 's \<Rightarrow> 's option" where
  "map_range f lo hi s = expand_pages f lo 0 (unat hi - unat lo) s"

section \<open>Starting up\<close>

text \<open>The registers that a context switch saves and loads.\<close>

record cpu =
  cpu_eip :: u32int
  cpu_esp :: u32int
  cpu_ebp :: u32int

text \<open>The mapping loop of \<open>move_stack\<close>: \<open>for (i = start; i >= start - size; i -= 0x1000)\<close>; with
  \<open>start - size\<close> above 0 this is \<open>size / 0x1000 + 1\<close> rounds.\<close>

primrec map_stack :: "'a pstate_scheme alloc_op \<Rightarrow> nat \<Rightarrow> u32int \<Rightarrow> 'a pstate_scheme \<Rightarrow> 'a pstate_scheme option" where
  "map_stack al 0 i s = Some s"
| "map_stack al (Suc n) i s = do {
     (page, s) \<leftarrow> get_page (kmalloc_ap al) i True (current_directory s) s;
     s \<leftarrow> alloc_frame page False True s;
     map_stack al n (i - 0x1000) s }"

text \<open>The pass over the copied stack that moves every value inside the old stack by the offset; the
  words run from \<open>start\<close> down, \<open>n\<close> of them.\<close>

primrec rebase_stack :: "u32int \<Rightarrow> u32int \<Rightarrow> u32int \<Rightarrow> nat \<Rightarrow> u32int \<Rightarrow> 'a pstate_scheme \<Rightarrow> 'a pstate_scheme option" where
  "rebase_stack lo hi off 0 i s = Some s"
| "rebase_stack lo hi off (Suc n) i s = do {
     bs \<leftarrow> user_load i 4 s;
     let tmp = bytes_word bs;
     s \<leftarrow> (if lo < tmp \<and> tmp < hi then user_store i (word_bytes (tmp + off)) s else Some s);
     rebase_stack lo hi off n (i - 4) s }"

text \<open>The old stack lies in identity-mapped kernel memory (\<open>mem\<close>); the new one is mapped in the
  current directory.\<close>

definition move_stack ::
  "'a pstate_scheme alloc_op \<Rightarrow> u32int \<Rightarrow> u32int \<Rightarrow> u32int \<Rightarrow> cpu \<Rightarrow> 'a pstate_scheme \<Rightarrow> (cpu \<times> 'a pstate_scheme) option" where
  "move_stack al initial_esp new_stack_start sz c s = do {
     s \<leftarrow> map_stack al (unat sz div 0x1000 + 1) new_stack_start s;
     let off = new_stack_start - initial_esp;
     s \<leftarrow> user_store (cpu_esp c + off) (map (\<lambda>i. mem s (cpu_esp c + of_nat i)) [0..<unat (initial_esp - cpu_esp c)]) s;
     s \<leftarrow> rebase_stack (cpu_esp c) initial_esp off (unat sz div 4) new_stack_start s;
     Some (c\<lparr>cpu_esp := cpu_esp c + off, cpu_ebp := cpu_ebp c + off\<rparr>, s) }"

definition initialise_tasking ::
  "'a tstate_scheme alloc_op \<Rightarrow> u32int \<Rightarrow> cpu \<Rightarrow> 'a tstate_scheme \<Rightarrow> (cpu \<times> 'a tstate_scheme) option" where
  "initialise_tasking al initial_esp c s = do {
     (c, s) \<leftarrow> move_stack al initial_esp 0xE0000000 0x2000 c s;
     (a, s) \<leftarrow> kmalloc al sizeof_task s;
     (stack, s) \<leftarrow> kmalloc_a al KERNEL_STACK_SIZE s;
     let t = initialise_standard_descriptors (zero_task\<lparr>parent_id := -1,
               page_directory := current_directory s, kernel_stack := stack\<rparr>);
     Some (c, set_task a t (s\<lparr>current_task := a, ready_queue := [a]\<rparr>)) }"

section \<open>The scheduler\<close>

text \<open>The task after \<open>a\<close> in the list, or its head.\<close>

definition next_task :: "u32int list \<Rightarrow> u32int \<Rightarrow> u32int" where
  "next_task q a = (case dropWhile (\<lambda>x. x \<noteq> a) q of _ # b # _ \<Rightarrow> b | _ \<Rightarrow> hd q)"

text \<open>The search of \<open>switch_task\<close>. A search that never ends is \<open>None\<close>.\<close>

partial_function (option) pick_candidate :: "(u32int \<rightharpoonup> task_t) \<Rightarrow> u32int list \<Rightarrow> u32int \<Rightarrow> u32int option" where
  "pick_candidate ts q a =
     (case ts (next_task q a) of
        None \<Rightarrow> None
      | Some t \<Rightarrow> (if state t = TASK_RUNNABLE then Some (next_task q a) else pick_candidate ts q (next_task q a)))"

definition set_kernel_stack :: "u32int \<Rightarrow> 'a tstate_scheme \<Rightarrow> 'a tstate_scheme" where
  "set_kernel_stack stack s = s\<lparr>tss_esp0 := stack\<rparr>"

text \<open>\<open>switch_task\<close> takes the registers of the caller, with the address after \<open>read_eip\<close> as \<open>eip\<close>, and
  yields the registers with which the processor continues.\<close>

definition switch_task :: "cpu \<Rightarrow> 'a tstate_scheme \<Rightarrow> (cpu \<times> 'a tstate_scheme) option" where
  "switch_task c s =
     (if current_task s = 0 then Some (c, s)
      else if ready_queue s = [current_task s] then Some (c, s)
      else do {
        t \<leftarrow> get_current s;
        let s = set_current (t\<lparr>t_eip := cpu_eip c, t_esp := cpu_esp c, t_ebp := cpu_ebp c\<rparr>) s;
        b \<leftarrow> pick_candidate (tasks s) (ready_queue s) (current_task s);
        n \<leftarrow> tasks s b;
        let s = s\<lparr>current_task := b, current_directory := page_directory n\<rparr>;
        let s = set_kernel_stack (kernel_stack n + KERNEL_STACK_SIZE) s;
        Some (\<lparr>cpu_eip = t_eip n, cpu_esp = t_esp n, cpu_ebp = t_ebp n\<rparr>, s) })"

definition append_ready_task :: "u32int \<Rightarrow> 'a tstate_scheme \<Rightarrow> 'a tstate_scheme" where
  "append_ready_task a s = s\<lparr>ready_queue := ready_queue s @ [a]\<rparr>"

section \<open>The user heap\<close>

definition task_sbrk :: "'a tstate_scheme alloc_op \<Rightarrow> s32int \<Rightarrow> 'a tstate_scheme \<Rightarrow> (u32int \<times> 'a tstate_scheme) option" where
  "task_sbrk al increment s =
     (if current_task s = 0 then Some (0xFFFFFFFF, s)
      else do {
        process \<leftarrow> get_current s;
        (if \<not> is_user_process process then Some (0xFFFFFFFF, s)
         else (let old_break = heap_break process;
                   new_break = (if 0 \<le> sint increment
                     then (if increment > 0xFFFFFFFF - old_break then None else Some (old_break + increment))
                     else (let shrink = 0 - increment in if shrink > old_break then None else Some (old_break - shrink)))
               in case new_break of
                    None \<Rightarrow> Some (0xFFFFFFFF, s)
                  | Some new_break \<Rightarrow>
                      (if new_break < heap_start process \<or> new_break > heap_limit process then Some (0xFFFFFFFF, s)
                       else do {
                         let required_mapped_end = PAGE_ALIGN_UP new_break;
                         s \<leftarrow> map_range (map_user_page al (page_directory process)) (heap_mapped_end process) required_mapped_end s;
                         process \<leftarrow> get_current s;
                         let process = (if required_mapped_end > heap_mapped_end process
                           then process\<lparr>heap_mapped_end := required_mapped_end\<rparr> else process);
                         Some (old_break, set_current (process\<lparr>heap_break := new_break\<rparr>) s)
                       }))) })"

section \<open>File descriptors\<close>

text \<open>The index of the slot; \<open>None\<close> is the null pointer.\<close>

definition task_get_descriptor :: "s32int \<Rightarrow> 'a tstate_scheme \<Rightarrow> nat option" where
  "task_get_descriptor fd s =
     (case get_current s of
        None \<Rightarrow> None
      | Some t \<Rightarrow> (if sint fd < 0 \<or> sint fd \<ge> int MAX_FILE_DESCRIPTORS then None
                   else if kind (descriptors t ! unat fd) = FD_KIND_FREE then None else Some (unat fd)))"

fun find_free_descriptor :: "file_descriptor_t list \<Rightarrow> nat \<Rightarrow> nat option" where
  "find_free_descriptor [] i = None"
| "find_free_descriptor (d # ds) i = (if kind d = FD_KIND_FREE then Some i else find_free_descriptor ds (i + 1))"

text \<open>Results of type \<open>int\<close>.\<close>

definition task_open_descriptor :: "u32int \<Rightarrow> u32int \<Rightarrow> 'a tstate_scheme \<Rightarrow> (int \<times> 'a tstate_scheme) option" where
  "task_open_descriptor node fl s =
     (if current_task s = 0 \<or> node = 0 then Some (-1, s)
      else do {
        t \<leftarrow> get_current s;
        (case find_free_descriptor (drop 3 (descriptors t)) 3 of
           None \<Rightarrow> Some (-1, s)
         | Some fd \<Rightarrow> do {
             let d = \<lparr>kind = FD_KIND_NODE, fd_node = node, fd_offset = 0, fd_flags = fl\<rparr>;
             let s = set_current (t\<lparr>descriptors := (descriptors t)[fd := d]\<rparr>) s;
             s \<leftarrow> open_fs node s;
             Some (int fd, s) }) })"

definition task_close_descriptor :: "s32int \<Rightarrow> 'a tstate_scheme \<Rightarrow> (int \<times> 'a tstate_scheme) option" where
  "task_close_descriptor fd s =
     (if sint fd < 3 \<or> sint fd \<ge> int MAX_FILE_DESCRIPTORS \<or> current_task s = 0 then Some (-1, s)
      else do {
        t \<leftarrow> get_current s;
        let d = descriptors t ! unat fd;
        (if kind d = FD_KIND_FREE then Some (-1, s)
         else do {
           s \<leftarrow> (if kind d = FD_KIND_NODE then close_fs (fd_node d) s else Some s);
           Some (0, set_current (t\<lparr>descriptors := (descriptors t)[unat fd := free_descriptor]\<rparr>) s) }) })"

definition task_seek_descriptor :: "s32int \<Rightarrow> s32int \<Rightarrow> s32int \<Rightarrow> 'a tstate_scheme \<Rightarrow> (int \<times> 'a tstate_scheme) option" where
  "task_seek_descriptor fd off origin s =
     (case task_get_descriptor fd s of
        None \<Rightarrow> Some (-1, s)
      | Some i \<Rightarrow> do {
          t \<leftarrow> get_current s;
          let d = descriptors t ! i;
          (if kind d \<noteq> FD_KIND_NODE \<or> fd_node d = 0 then Some (-1, s)
           else do {
             n \<leftarrow> fs_nodes s (fd_node d);
             (case (if origin = 0 then Some 0 else if origin = 1 then Some (fd_offset d)
                    else if origin = 2 then Some (node_length n) else None) of
                None \<Rightarrow> Some (-1, s)
              | Some base \<Rightarrow>
                  (case (if 0 \<le> sint off
                         then (if base > 0x7FFFFFFF \<or> off > 0x7FFFFFFF - base then None else Some (base + off))
                         else (let magnitude = 0 - off in if magnitude > base then None else Some (base - magnitude))) of
                     None \<Rightarrow> Some (-1, s)
                   | Some r \<Rightarrow> Some (sint r,
                       set_current (t\<lparr>descriptors := (descriptors t)[i := d\<lparr>fd_offset := r\<rparr>]\<rparr>) s))) }) })"

section \<open>Waiting for input and the working directory\<close>

definition task_wake_keyboard_waiters :: "'a tstate_scheme \<Rightarrow> 'a tstate_scheme" where
  "task_wake_keyboard_waiters s = s\<lparr>tasks := (\<lambda>a. case tasks s a of
     Some t \<Rightarrow> Some (if a \<in> set (ready_queue s) \<and> state t = TASK_WAITING_INPUT then t\<lparr>state := TASK_RUNNABLE\<rparr> else t)
   | None \<Rightarrow> None)\<rparr>"

text \<open>The part of \<open>task_wait_for_keyboard\<close> up to the switch, and the assertion after it, which runs
  when the scheduler comes back to the task.\<close>

definition task_wait_for_keyboard :: "cpu \<Rightarrow> 'a tstate_scheme \<Rightarrow> (cpu \<times> 'a tstate_scheme) option" where
  "task_wait_for_keyboard c s = do {
     t \<leftarrow> get_current s;
     ASSERT (is_user_process t \<and> state t = TASK_RUNNABLE);
     switch_task c (set_current (t\<lparr>state := TASK_WAITING_INPUT\<rparr>) s) }"

definition wait_for_keyboard_resumed :: "'a tstate_scheme \<Rightarrow> unit option" where
  "wait_for_keyboard_resumed s = do { t \<leftarrow> get_current s; ASSERT (state t = TASK_RUNNABLE) }"

definition task_has_pending_signal :: "'a tstate_scheme \<Rightarrow> bool" where
  "task_has_pending_signal s = (case get_current s of None \<Rightarrow> False | Some t \<Rightarrow> pending_signals t \<noteq> 0)"

definition task_get_working_directory :: "'a tstate_scheme \<Rightarrow> u32int" where
  "task_get_working_directory s = (case get_current s of None \<Rightarrow> 0 | Some t \<Rightarrow> working_directory t)"

definition task_set_working_directory :: "u32int \<Rightarrow> 'a tstate_scheme \<Rightarrow> 'a tstate_scheme option" where
  "task_set_working_directory directory s = do {
     t \<leftarrow> get_current s;
     ASSERT (directory \<noteq> 0);
     d \<leftarrow> fs_nodes s directory;
     ASSERT (is_directory d);
     Some (set_current (t\<lparr>working_directory := directory\<rparr>) s) }"

end
