(* ===== verification/Console.thy ===== *)
theory Console
  imports Task
begin

text \<open>
  The text console (\<open>src/monitor.c\<close>) and the remaining global variables of the kernel: the record
  \<open>mstate\<close> adds the console, the keyboard buffer, the clock and the table of interrupt handlers
  to the state of the process layer.

  Video memory is the array of 16-bit cells that starts at \<open>0xB8000\<close>, indexed by numbers without
  a bound, so that a write outside the screen would be visible. The writes to I/O ports are recorded in order.
\<close>

section \<open>State\<close>

datatype isr_t = page_fault_isr | timer_callback_isr | keyboard_interrupt_isr | syscall_handler_isr

record mstate = tstate +
  video_memory :: "nat \<Rightarrow> u16int"
  cursor_x :: u8int
  cursor_y :: u8int
  port_writes :: "(u16int \<times> u8int) list"
  input_buffer :: "u8int list"
  read_index :: u32int
  write_index :: u32int
  shift_pressed :: bool
  tick :: u32int
  interrupt_handlers :: "u8int \<Rightarrow> isr_t option"

definition outb :: "u16int \<Rightarrow> u8int \<Rightarrow> 'a mstate_scheme \<Rightarrow> 'a mstate_scheme" where
  "outb port v s = s\<lparr>port_writes := port_writes s @ [(port, v)]\<rparr>"

section \<open>Cursor and scrolling\<close>

text \<open>White on black: \<open>(0 << 4) | (15 & 0x0F)\<close> in the upper byte.\<close>

definition attribute :: u16int where "attribute = push_bit 8 15"
definition blank :: u16int where "blank = 0x20 OR attribute"

definition move_cursor :: "'a mstate_scheme \<Rightarrow> 'a mstate_scheme" where
  "move_cursor s =
     (let cursorLocation = of_nat (unat (cursor_y s) * 80 + unat (cursor_x s)) :: u16int;
          s = outb 0x3D4 14 s;
          s = outb 0x3D5 (ucast (drop_bit 8 cursorLocation)) s;
          s = outb 0x3D4 15 s
      in outb 0x3D5 (ucast cursorLocation) s)"

text \<open>\<open>for (i = lo; i < lo + n; i++) video_memory[i] = video_memory[i + 80]\<close>\<close>

primrec copy_cells :: "nat \<Rightarrow> nat \<Rightarrow> (nat \<Rightarrow> u16int) \<Rightarrow> nat \<Rightarrow> u16int" where
  "copy_cells i 0 v = v"
| "copy_cells i (Suc n) v = copy_cells (i + 1) n (v(i := v (i + 80)))"

text \<open>\<open>for (i = lo; i < lo + n; i++) video_memory[i] = blank\<close>\<close>

primrec blank_cells :: "nat \<Rightarrow> nat \<Rightarrow> (nat \<Rightarrow> u16int) \<Rightarrow> nat \<Rightarrow> u16int" where
  "blank_cells i 0 v = v"
| "blank_cells i (Suc n) v = blank_cells (i + 1) n (v(i := blank))"

definition scroll :: "'a mstate_scheme \<Rightarrow> 'a mstate_scheme" where
  "scroll s =
     (if cursor_y s \<ge> 25
      then (let v = copy_cells 0 (24 * 80) (video_memory s);
                v = blank_cells (24 * 80) 80 v
            in s\<lparr>video_memory := v, cursor_y := 24\<rparr>)
      else s)"

section \<open>Output\<close>

text \<open>\<open>char\<close> is signed: bytes from 128 on are below the space.\<close>

definition put_char :: "u8int \<Rightarrow> 'a mstate_scheme \<Rightarrow> 'a mstate_scheme" where
  "put_char c s =
     (if c = 0x08 \<and> cursor_x s \<noteq> 0 then s\<lparr>cursor_x := cursor_x s - 1\<rparr>
      else if c = 0x09 then s\<lparr>cursor_x := (cursor_x s + 8) AND NOT (8 - 1)\<rparr>
      else if c = 0x0D then s\<lparr>cursor_x := 0\<rparr>
      else if c = 0x0A then s\<lparr>cursor_x := 0, cursor_y := cursor_y s + 1\<rparr>
      else if sint c \<ge> 0x20
      then s\<lparr>video_memory := (video_memory s)(unat (cursor_y s) * 80 + unat (cursor_x s) := ucast c OR attribute),
             cursor_x := cursor_x s + 1\<rparr>
      else s)"

definition monitor_put :: "u8int \<Rightarrow> 'a mstate_scheme \<Rightarrow> 'a mstate_scheme" where
  "monitor_put c s =
     (let s = put_char c s;
          s = (if cursor_x s \<ge> 80 then s\<lparr>cursor_x := 0, cursor_y := cursor_y s + 1\<rparr> else s)
      in move_cursor (scroll s))"

definition monitor_clear :: "'a mstate_scheme \<Rightarrow> 'a mstate_scheme" where
  "monitor_clear s = move_cursor (s\<lparr>video_memory := blank_cells 0 (80 * 25) (video_memory s), cursor_x := 0, cursor_y := 0\<rparr>)"

text \<open>A string is the list of its bytes up to the terminating 0.\<close>

fun monitor_write :: "u8int list \<Rightarrow> 'a mstate_scheme \<Rightarrow> 'a mstate_scheme" where
  "monitor_write [] s = s"
| "monitor_write (c # cs) s = (if c = 0 then s else monitor_write cs (monitor_put c s))"

text \<open>A digit of \<open>monitor_write_hex\<close> and \<open>monitor_write_dec\<close>.\<close>

definition hex_digit :: "u32int \<Rightarrow> u8int" where
  "hex_digit tmp = (if tmp \<ge> 0xA then ucast (tmp - 0xA) + 0x61 else ucast tmp + 0x30)"

text \<open>\<open>for (i = 28; i > 0; i -= 4)\<close> with the state \<open>noZeroes\<close>; the argument counts the rounds left, \<open>i = 4 * k\<close>.\<close>

primrec hex_loop :: "nat \<Rightarrow> bool \<Rightarrow> u32int \<Rightarrow> 'a mstate_scheme \<Rightarrow> 'a mstate_scheme" where
  "hex_loop 0 noZeroes n s = s"
| "hex_loop (Suc k) noZeroes n s =
     (let tmp = drop_bit (4 * Suc k) n AND 0xF
      in if tmp = 0 \<and> noZeroes then hex_loop k noZeroes n s
         else hex_loop k False n (monitor_put (hex_digit tmp) s))"

definition monitor_write_hex :: "u32int \<Rightarrow> 'a mstate_scheme \<Rightarrow> 'a mstate_scheme" where
  "monitor_write_hex n s =
     (let s = monitor_write [0x30, 0x78] s;
          s = hex_loop 7 True n s
      in monitor_put (hex_digit (n AND 0xF)) s)"

text \<open>\<open>acc\<close> is signed; for the positive values that enter the loop the quotient is that of the number.\<close>

function dec_digits :: "int \<Rightarrow> u8int list" where
  "dec_digits acc = (if acc > 0 then (0x30 + of_int (acc mod 10)) # dec_digits (acc div 10) else [])"
  by pat_completeness auto
termination by (relation "measure nat") auto

declare dec_digits.simps [simp del]

text \<open>The second loop copies the digits in reverse order.\<close>

definition monitor_write_dec :: "u32int \<Rightarrow> 'a mstate_scheme \<Rightarrow> 'a mstate_scheme" where
  "monitor_write_dec n s =
     (if n = 0 then monitor_put 0x30 s
      else monitor_write (rev (dec_digits (sint n))) s)"

section \<open>The screen\<close>

lemma copy_cells_at: "copy_cells i n v j = (if i \<le> j \<and> j < i + n then v (j + 80) else v j)"
  by (induction n arbitrary: i v) auto

lemma blank_cells_at: "blank_cells i n v j = (if i \<le> j \<and> j < i + n then blank else v j)"
  by (induction n arbitrary: i v) auto

text \<open>The cursor is on the screen.\<close>

definition console_ok :: "'a mstate_scheme \<Rightarrow> bool" where
  "console_ok s \<longleftrightarrow> cursor_x s < 80 \<and> cursor_y s < 25"

lemma move_cursor_sel [simp]:
  "video_memory (move_cursor s) = video_memory s" "cursor_x (move_cursor s) = cursor_x s" "cursor_y (move_cursor s) = cursor_y s"
  by (simp_all add: move_cursor_def outb_def Let_def)

lemma unat8_less: "x < 80 \<longleftrightarrow> unat (x :: u8int) < 80" "x < 25 \<longleftrightarrow> unat x < 25" "80 \<le> x \<longleftrightarrow> 80 \<le> unat x" "25 \<le> x \<longleftrightarrow> 25 \<le> unat x"
  by (simp_all add: word_less_nat_alt word_le_nat_alt)

lemma unat8_suc: "unat (x :: u8int) < 255 \<Longrightarrow> unat (x + 1) = unat x + 1"
proof -
  assume a: "unat x < 255"
  have "unat (x + 1) = (unat x + 1) mod 256" by (simp add: unat_word_ariths)
  then show ?thesis using a by simp
qed

lemma tab_stop:
  assumes "unat (x :: u8int) < 80" shows "unat ((x + 8) AND NOT (8 - 1)) \<le> 80"
proof -
  have "(8 - 1 :: u8int) = mask 3" by (simp add: mask_eq_exp_minus_1)
  then have "unat ((x + 8) AND NOT (8 - 1)) = unat (x + 8) - unat (x + 8) mod 8" using unat_and_not_mask [of "x + 8" 3] by simp
  also have "\<dots> = unat (x + 8) div 8 * 8" by (simp add: minus_mod_eq_div_mult)
  also have "unat (x + 8) = unat x + 8" using assms by (simp add: unat_word_ariths)
  finally have "unat ((x + 8) AND NOT (8 - 1)) = (unat x + 8) div 8 * 8" .
  moreover have "(unat x + 8) div 8 < 11" by (rule less_mult_imp_div_less) (use assms in simp)
  ultimately show ?thesis by linarith
qed

lemma put_char_bounds:
  assumes "console_ok s"
  shows "unat (cursor_x (put_char c s)) \<le> 80" "unat (cursor_y (put_char c s)) \<le> 25"
    "unat (cursor_y (put_char c s)) = 25 \<Longrightarrow> cursor_x (put_char c s) = 0"
    "2000 \<le> j \<Longrightarrow> video_memory (put_char c s) j = video_memory s j"
proof -
  have xy: "unat (cursor_x s) < 80" "unat (cursor_y s) < 25" using assms by (simp_all add: console_ok_def unat8_less)
  have dec: "unat (cursor_x s - 1) \<le> 80" if "cursor_x s \<noteq> 0"
  proof -
    have "1 \<le> cursor_x s" using that by (simp add: word_le_nat_alt unat_gt_0 Suc_le_eq)
    then show ?thesis using xy(1) by (simp add: unat_sub)
  qed
  have sx: "unat (cursor_x s + 1) = unat (cursor_x s) + 1" "unat (cursor_y s + 1) = unat (cursor_y s) + 1"
    by (rule unat8_suc, use xy in simp)+
  show "unat (cursor_x (put_char c s)) \<le> 80"
    using xy(1) dec sx tab_stop [OF xy(1)] by (simp add: put_char_def)
  show "unat (cursor_y (put_char c s)) \<le> 25" "unat (cursor_y (put_char c s)) = 25 \<Longrightarrow> cursor_x (put_char c s) = 0"
    using xy(2) sx by (auto simp: put_char_def split: if_splits)
  have "unat (cursor_y s) * 80 + unat (cursor_x s) < 2000" using xy by linarith
  then show "2000 \<le> j \<Longrightarrow> video_memory (put_char c s) j = video_memory s j" by (auto simp: put_char_def)
qed

lemma monitor_put_ok:
  assumes "console_ok s"
  shows "console_ok (monitor_put c s)" "2000 \<le> j \<Longrightarrow> video_memory (monitor_put c s) j = video_memory s j"
proof -
  let ?p = "put_char c s"
  let ?q = "if cursor_x ?p \<ge> 80 then ?p\<lparr>cursor_x := 0, cursor_y := cursor_y ?p + 1\<rparr> else ?p"
  note b = put_char_bounds [OF assms, where c = c]
  have y: "unat (cursor_y ?p + 1) = unat (cursor_y ?p) + 1" using b(2) by (intro unat8_suc) simp
  have x: "unat (cursor_x ?q) < 80" using b(1) by (simp add: unat8_less)
  have "80 \<le> cursor_x ?p \<Longrightarrow> unat (cursor_y ?p) \<noteq> 25" using b(3) by (auto simp: unat8_less)
  then have q: "unat (cursor_y ?q) \<le> 25" using b(2) y by auto
  have m: "monitor_put c s = move_cursor (scroll ?q)" by (simp add: monitor_put_def Let_def)
  show "console_ok (monitor_put c s)"
    using x q by (simp add: m console_ok_def scroll_def Let_def unat8_less)
  have "video_memory (scroll ?q) j = video_memory ?q j" if "2000 \<le> j"
    using that by (simp add: scroll_def Let_def copy_cells_at blank_cells_at)
  then show "2000 \<le> j \<Longrightarrow> video_memory (monitor_put c s) j = video_memory s j" using b(4) by (simp add: m)
qed

lemma monitor_write_ok:
  assumes "console_ok s"
  shows "console_ok (monitor_write cs s)" "2000 \<le> j \<Longrightarrow> video_memory (monitor_write cs s) j = video_memory s j"
  using assms by (induction cs s rule: monitor_write.induct) (auto simp: monitor_put_ok)

section \<open>Numbers\<close>

text \<open>Decimal and hexadecimal numerals, most significant digit first and without leading zeros.\<close>

fun decimal :: "nat \<Rightarrow> u8int list" where
  "decimal n = (if n < 10 then [0x30 + of_nat n] else decimal (n div 10) @ [0x30 + of_nat (n mod 10)])"

definition hex_char :: "nat \<Rightarrow> u8int" where
  "hex_char d = (if d \<ge> 10 then of_nat (d - 10) + 0x61 else of_nat d + 0x30)"

fun hexadecimal :: "nat \<Rightarrow> u8int list" where
  "hexadecimal n = (if n < 16 then [hex_char n] else hexadecimal (n div 16) @ [hex_char (n mod 16)])"

declare decimal.simps [simp del] hexadecimal.simps [simp del]

lemma dec_digits_decimal: "0 < n \<Longrightarrow> rev (dec_digits (int n)) = decimal n"
proof (induction n rule: decimal.induct)
  case (1 n)
  have step: "dec_digits (int n) = (0x30 + of_nat (n mod 10)) # dec_digits (int (n div 10))"
  proof -
    have "int n mod 10 = int (n mod 10)" "int n div 10 = int (n div 10)" by (simp_all add: zmod_int zdiv_int)
    then show ?thesis using 1(2) by (subst dec_digits.simps) (simp only: of_nat_0_less_iff if_True of_int_of_nat_eq)
  qed
  show ?case
  proof (cases "n < 10")
    case True
    then show ?thesis using step by (simp add: decimal.simps [of n] dec_digits.simps [of 0])
  next
    case False
    then show ?thesis using step 1 by (simp add: decimal.simps [of n])
  qed
qed

lemma monitor_write_append:
  "0 \<notin> set cs \<Longrightarrow> monitor_write (cs @ ds) s = monitor_write ds (monitor_write cs s)"
  by (induction cs s rule: monitor_write.induct) auto

definition nibble :: "u32int \<Rightarrow> nat \<Rightarrow> nat" where
  "nibble n i = unat n div 16 ^ i mod 16"

lemma nibble_word: "drop_bit (4 * i) n AND 0xF = of_nat (nibble n i)"
proof -
  have "(0xF :: u32int) = mask 4" by (simp add: mask_eq_exp_minus_1)
  then have "drop_bit (4 * i) n AND 0xF = take_bit 4 (drop_bit (4 * i) n)" by (simp only: take_bit_eq_mask)
  then have "unat (drop_bit (4 * i) n AND 0xF) = take_bit 4 (drop_bit (4 * i) (unat n))"
    using take_bit_nat_eq_self [of "unat n" 32] by (simp only: unsigned_take_bit_eq unsigned_drop_bit_eq) simp
  also have "\<dots> = nibble n i" by (simp add: nibble_def take_bit_eq_mod drop_bit_eq_div power_mult)
  finally have e: "unat (drop_bit (4 * i) n AND 0xF) = nibble n i" .
  show ?thesis using arg_cong [where f = "of_nat :: nat \<Rightarrow> u32int", OF e] by simp
qed

lemma nibble_less: "nibble n i < 16" by (simp add: nibble_def)

lemma hex_digit_char: "d < 16 \<Longrightarrow> hex_digit (of_nat d) = hex_char d"
proof -
  assume d: "d < 16"
  have u: "unat (of_nat d :: u32int) = d" using d by (intro unat_of_nat32) simp
  have c: "(ucast (of_nat k :: u32int) :: u8int) = of_nat k" if "k < 16" for k
    using that by (simp add: word_unat_eq_iff unsigned_ucast_eq unsigned_of_nat take_bit_nat_eq_self)
  show ?thesis
  proof (cases "10 \<le> d")
    case True
    then have "(of_nat d :: u32int) - 0xA = of_nat (d - 10)" by (simp add: of_nat_diff)
    then show ?thesis using True d u c [of "d - 10"] by (simp add: hex_digit_def hex_char_def word_le_nat_alt)
  next
    case False
    then show ?thesis using d u c [of d] by (simp add: hex_digit_def hex_char_def word_le_nat_alt)
  qed
qed

lemma hex_char_nz: "d < 16 \<Longrightarrow> hex_char d \<noteq> 0"
proof -
  assume d: "d < 16"
  have "hex_char d = of_nat (if 10 \<le> d then d + 87 else d + 48)" by (auto simp: hex_char_def of_nat_diff)
  moreover have "unat (of_nat m :: u8int) = m" if "m < 256" for m using that by (simp add: unsigned_of_nat take_bit_nat_eq_self)
  ultimately have "unat (hex_char d) \<noteq> 0" using d by auto
  then show ?thesis by auto
qed

lemma hex_loop_write:
  "hex_loop k nz n s = monitor_write (map hex_char ((if nz then dropWhile (\<lambda>d. d = 0) else id) (map (nibble n) (rev [1..<Suc k])))) s"
proof (induction k arbitrary: nz s)
  case (Suc k)
  have z: "(of_nat (nibble n (Suc k)) :: u32int) = 0 \<longleftrightarrow> nibble n (Suc k) = 0"
    using nibble_less [of n "Suc k"] by (simp add: word_unat_eq_iff unat_of_nat32)
  have tmp: "drop_bit (4 * Suc k) n AND 0xF = of_nat (nibble n (Suc k))" by (rule nibble_word)
  show ?case
    using hex_digit_char [OF nibble_less, of n "Suc k"] hex_char_nz [OF nibble_less, of n "Suc k"]
    by (simp only: hex_loop.simps Let_def tmp z Suc.IH) simp
qed simp

lemma length_hexadecimal: "length (hexadecimal n) = 1 \<longleftrightarrow> n < 16" "hexadecimal n \<noteq> []"
proof -
  show ne: "hexadecimal n \<noteq> []" for n by (subst hexadecimal.simps) simp
  then show "length (hexadecimal n) = 1 \<longleftrightarrow> n < 16" by (subst hexadecimal.simps) simp
qed

lemma hexadecimal_nibbles:
  "N < 16 ^ Suc k \<Longrightarrow> hexadecimal N = map hex_char (dropWhile (\<lambda>d. d = 0) (map (\<lambda>i. N div 16 ^ i mod 16) (rev [1..<Suc k]))) @ [hex_char (N mod 16)]"
proof (induction k arbitrary: N)
  case 0
  then show ?case by (simp add: hexadecimal.simps [of N])
next
  case (Suc k)
  let ?L = "map (\<lambda>i. N div 16 div 16 ^ i mod 16) (rev [1..<Suc k])"
  have IH: "hexadecimal (N div 16) = map hex_char (dropWhile (\<lambda>d. d = 0) ?L) @ [hex_char (N div 16 mod 16)]"
    by (rule Suc.IH) (use Suc.prems in \<open>simp add: div_less_iff_less_mult mult.commute\<close>)
  have "[1..<Suc (Suc k)] = 1 # map Suc [1..<Suc k]" by (simp add: upt_conv_Cons map_Suc_upt)
  then have L: "map (\<lambda>i. N div 16 ^ i mod 16) (rev [1..<Suc (Suc k)]) = ?L @ [N div 16 mod 16]"
    by (simp add: rev_map [symmetric] div_mult2_eq)
  show ?case
  proof (cases "N < 16")
    case True
    then have "N div 16 = 0" by simp
    then have "dropWhile (\<lambda>d. d = 0) (?L @ [N div 16 mod 16]) = []" by (auto simp: dropWhile_eq_Nil_conv)
    then show ?thesis using True unfolding L by (simp add: hexadecimal.simps [of N])
  next
    case False
    have "dropWhile (\<lambda>d. d = 0) (?L @ [N div 16 mod 16]) = dropWhile (\<lambda>d. d = 0) ?L @ [N div 16 mod 16]"
    proof (cases "\<forall>x \<in> set ?L. x = 0")
      case True
      then have "dropWhile (\<lambda>d. d = 0) ?L = []" by (simp add: dropWhile_eq_Nil_conv)
      then have "N div 16 < 16" using length_hexadecimal(1) [of "N div 16"] unfolding IH by simp
      then have "N div 16 mod 16 \<noteq> 0" using False by simp
      moreover have "dropWhile (\<lambda>d. d = 0) (?L @ [N div 16 mod 16]) = dropWhile (\<lambda>d. d = 0) [N div 16 mod 16]"
        by (rule dropWhile_append2) (use True in blast)
      ultimately show ?thesis using \<open>dropWhile (\<lambda>d. d = 0) ?L = []\<close> by (simp only: dropWhile.simps if_False append_Nil)
    next
      case False
      then obtain x where "x \<in> set ?L" "x \<noteq> 0" by blast
      then show ?thesis by (rule dropWhile_append1)
    qed
    then show ?thesis using False IH unfolding L by (simp add: hexadecimal.simps [of N])
  qed
qed

lemma monitor_write_hex_prints: "monitor_write_hex n s = monitor_write ([0x30, 0x78] @ hexadecimal (unat n)) s"
proof -
  have n: "unat n < 16 ^ Suc 7" using unat_lt_2_32 [of n] by simp
  let ?h = "map hex_char (dropWhile (\<lambda>d. d = 0) (map (nibble n) (rev [1..<Suc 7])))"
  have "set (dropWhile (\<lambda>d. d = 0) (map (nibble n) (rev [1..<Suc 7]))) \<subseteq> {..<16}"
    using set_dropWhileD [of _ "\<lambda>d. d = 0" "map (nibble n) (rev [1..<Suc 7])"] nibble_less by fastforce
  then have h0: "0 \<notin> set ?h" using hex_char_nz by fastforce
  have "hex_digit (n AND 0xF) = hex_char (unat n mod 16)"
    using nibble_word [of 0 n] hex_digit_char [OF nibble_less, of n 0] by (simp add: nibble_def)
  then have "monitor_write_hex n s = monitor_write [hex_char (unat n mod 16)] (monitor_write ?h (monitor_write [0x30, 0x78] s))"
    unfolding monitor_write_hex_def hex_loop_write Let_def using hex_char_nz [of "unat n mod 16"] by simp
  also have "\<dots> = monitor_write ([0x30, 0x78] @ hexadecimal (unat n)) s"
    unfolding hexadecimal_nibbles [OF n] using h0 by (simp add: monitor_write_append nibble_def [abs_def])
  finally show ?thesis .
qed

lemma monitor_write_dec_prints:
  "unat n < 2147483648 \<Longrightarrow> monitor_write_dec n s = monitor_write (decimal (unat n)) s"
  "2147483648 \<le> unat n \<Longrightarrow> monitor_write_dec n s = s"
proof -
  show "unat n < 2147483648 \<Longrightarrow> monitor_write_dec n s = monitor_write (decimal (unat n)) s"
  proof (cases "n = 0")
    case True
    then show ?thesis by (simp add: monitor_write_dec_def decimal.simps [of 0])
  next
    case False
    assume "unat n < 2147483648"
    then have "sint n = int (unat n)" by (rule sint_of_small)
    then show ?thesis using False dec_digits_decimal [of "unat n"] by (simp add: monitor_write_dec_def unat_gt_0)
  qed
  assume a: "2147483648 \<le> unat n"
  then have "sint n < 0" using sint_nonneg(2) [of n] by linarith
  moreover have "n \<noteq> 0" using a by auto
  ultimately show "monitor_write_dec n s = s" by (simp add: monitor_write_dec_def dec_digits.simps)
qed

end
