(* ===== verification/Keyboard.thy ===== *)
theory Keyboard
  imports Console
begin

text \<open>
  The keyboard driver (\<open>src/keyboard.c\<close>): scan codes, the shift state and the ring buffer between
  the interrupt and \<open>keyboard_getchar\<close>. The ring buffer is an instance of the interface
  \<open>bounded_queue\<close>, whose clients see a queue that drops what does not fit.
\<close>

section \<open>The driver\<close>

definition KEYBOARD_BUFFER_SIZE :: nat where "KEYBOARD_BUFFER_SIZE = 128"

definition normal_map :: "u8int list" where
  "normal_map =
    [0, 0, 0x31, 0x32, 0x33, 0x34, 0x35, 0x36, 0x37, 0x38, 0x39, 0x30, 0x2d, 0x3d, 0x8, 0x9,
     0x71, 0x77, 0x65, 0x72, 0x74, 0x79, 0x75, 0x69, 0x6f, 0x70, 0x5b, 0x5d, 0xa, 0, 0x61, 0x73,
     0x64, 0x66, 0x67, 0x68, 0x6a, 0x6b, 0x6c, 0x3b, 0x27, 0x60, 0, 0x5c, 0x7a, 0x78, 0x63, 0x76,
     0x62, 0x6e, 0x6d, 0x2c, 0x2e, 0x2f, 0, 0x2a, 0, 0x20, 0] @ replicate 69 0"

definition shifted_map :: "u8int list" where
  "shifted_map =
    [0, 0, 0x21, 0x40, 0x23, 0x24, 0x25, 0x5e, 0x26, 0x2a, 0x28, 0x29, 0x5f, 0x2b, 0x8, 0x9,
     0x51, 0x57, 0x45, 0x52, 0x54, 0x59, 0x55, 0x49, 0x4f, 0x50, 0x7b, 0x7d, 0xa, 0, 0x41, 0x53,
     0x44, 0x46, 0x47, 0x48, 0x4a, 0x4b, 0x4c, 0x3a, 0x22, 0x7e, 0, 0x7c, 0x5a, 0x58, 0x43, 0x56,
     0x42, 0x4e, 0x4d, 0x3c, 0x3e, 0x3f, 0, 0x2a, 0, 0x20, 0] @ replicate 69 0"

text \<open>The last part of \<open>keyboard_interrupt\<close>: one slot stays empty, a full buffer drops the newest key.\<close>

definition enqueue_key :: "u8int \<Rightarrow> 'a mstate_scheme \<Rightarrow> 'a mstate_scheme" where
  "enqueue_key character s =
     (let nxt = (write_index s + 1) mod of_nat KEYBOARD_BUFFER_SIZE
      in if nxt = read_index s then s
         else task_wake_keyboard_waiters
                (s\<lparr>input_buffer := (input_buffer s)[unat (write_index s) := character], write_index := nxt\<rparr>))"

text \<open>The argument is the byte that the keyboard controller delivers at port \<open>0x60\<close>.\<close>

definition keyboard_interrupt :: "u8int \<Rightarrow> 'a mstate_scheme \<Rightarrow> 'a mstate_scheme" where
  "keyboard_interrupt scancode s =
     (if scancode = 0x2A \<or> scancode = 0x36 then s\<lparr>shift_pressed := True\<rparr>
      else if scancode = 0xAA \<or> scancode = 0xB6 then s\<lparr>shift_pressed := False\<rparr>
      else if scancode AND 0x80 \<noteq> 0 \<or> scancode \<ge> 128 then s
      else (let character = (if shift_pressed s then shifted_map ! unat scancode else normal_map ! unat scancode)
            in if character = 0 then s else enqueue_key character s))"

definition register_interrupt_handler :: "u8int \<Rightarrow> isr_t \<Rightarrow> 'a mstate_scheme \<Rightarrow> 'a mstate_scheme" where
  "register_interrupt_handler n handler s = s\<lparr>interrupt_handlers := (interrupt_handlers s)(n := Some handler)\<rparr>"

definition IRQ0 :: u8int where "IRQ0 = 32"
definition IRQ1 :: u8int where "IRQ1 = 33"

definition initialise_keyboard :: "'a mstate_scheme \<Rightarrow> 'a mstate_scheme" where
  "initialise_keyboard s =
     register_interrupt_handler IRQ1 keyboard_interrupt_isr (s\<lparr>read_index := 0, write_index := 0, shift_pressed := False\<rparr>)"

definition keyboard_getchar :: "'a mstate_scheme \<Rightarrow> int \<times> 'a mstate_scheme" where
  "keyboard_getchar s =
     (if read_index s = write_index s then (-1, s)
      else (let character = input_buffer s ! unat (read_index s)
            in (uint character, s\<lparr>read_index := (read_index s + 1) mod of_nat KEYBOARD_BUFFER_SIZE\<rparr>)))"

section \<open>The interface of a bounded queue\<close>

datatype 'a queue_op = Enq 'a | Deq

locale bounded_queue =
  fixes contents :: "'s \<Rightarrow> 'a list"
    and capacity :: nat
    and ok :: "'s \<Rightarrow> bool"
    and enq :: "'a \<Rightarrow> 's \<Rightarrow> 's"
    and deq :: "'s \<Rightarrow> 'a option \<times> 's"
  assumes enq_contents: "ok s \<Longrightarrow> contents (enq x s) = (if length (contents s) < capacity then contents s @ [x] else contents s)"
    and enq_ok: "ok s \<Longrightarrow> ok (enq x s)"
    and deq_empty: "\<lbrakk>ok s; contents s = []\<rbrakk> \<Longrightarrow> deq s = (None, s)"
    and deq_first: "\<lbrakk>ok s; contents s = x # xs\<rbrakk> \<Longrightarrow> fst (deq s) = Some x \<and> contents (snd (deq s)) = xs"
    and deq_ok: "ok s \<Longrightarrow> ok (snd (deq s))"
    and fits: "ok s \<Longrightarrow> length (contents s) \<le> capacity"
begin

text \<open>A run of operations: the elements that were accepted, the elements that came out, the state.\<close>

fun run :: "'a queue_op list \<Rightarrow> 's \<Rightarrow> 'a list \<times> 'a list \<times> 's" where
  "run [] s = ([], [], s)"
| "run (Enq x # ops) s =
     (let (accepted, out, s') = run ops (enq x s)
      in (if length (contents s) < capacity then x # accepted else accepted, out, s'))"
| "run (Deq # ops) s =
     (let (accepted, out, s') = run ops (snd (deq s))
      in (accepted, (case fst (deq s) of None \<Rightarrow> out | Some x \<Rightarrow> x # out), s'))"

text \<open>First in, first out: what came out, followed by what is still inside, is what was inside followed
  by what was accepted.\<close>

lemma run_fifo:
  assumes "ok s" "run ops s = (accepted, out, s')"
  shows "ok s' \<and> out @ contents s' = contents s @ accepted"
  using assms
proof (induction ops s arbitrary: accepted out s' rule: run.induct)
  case (2 x ops s)
  obtain acc o' t where r: "run ops (enq x s) = (acc, o', t)" by (metis prod_cases3)
  have "ok t \<and> o' @ contents t = contents (enq x s) @ acc" by (rule "2.IH" [OF enq_ok [OF "2.prems"(1)] r])
  then show ?case using "2.prems" r enq_contents [OF "2.prems"(1), of x] by (auto split: if_splits)
next
  case (3 ops s)
  obtain acc o' t where r: "run ops (snd (deq s)) = (acc, o', t)" by (metis prod_cases3)
  have IH: "ok t \<and> o' @ contents t = contents (snd (deq s)) @ acc" by (rule "3.IH" [OF deq_ok [OF "3.prems"(1)] r])
  show ?case
  proof (cases "contents s")
    case Nil
    then show ?thesis using "3.prems" r IH deq_empty [OF "3.prems"(1)] by auto
  next
    case (Cons x xs)
    then show ?thesis using "3.prems" r IH deq_first [OF "3.prems"(1) Cons] by auto
  qed
qed auto

end

section \<open>The ring buffer is such a queue\<close>

definition ring_ok :: "'a mstate_scheme \<Rightarrow> bool" where
  "ring_ok s \<longleftrightarrow> length (input_buffer s) = 128 \<and> unat (read_index s) < 128 \<and> unat (write_index s) < 128"

definition ring_length :: "'a mstate_scheme \<Rightarrow> nat" where
  "ring_length s = (unat (write_index s) + 128 - unat (read_index s)) mod 128"

definition ring_contents :: "'a mstate_scheme \<Rightarrow> u8int list" where
  "ring_contents s = map (\<lambda>i. input_buffer s ! ((unat (read_index s) + i) mod 128)) [0..<ring_length s]"

definition ring_get :: "'a mstate_scheme \<Rightarrow> u8int option \<times> 'a mstate_scheme" where
  "ring_get s = (case keyboard_getchar s of (c, s') \<Rightarrow> (if c < 0 then None else Some (of_int c), s'))"


lemma mod128: "x < 256 \<Longrightarrow> x mod 128 = (if x < 128 then x else x - 128)" for x :: nat
  by (simp add: le_mod_geq)

lemma ring_nat:
  fixes r w :: nat assumes "r < 128" "w < 128"
  shows "(w + 128 - r) mod 128 = (if r \<le> w then w - r else w + 128 - r)"
    "(w + 1) mod 128 = (if w = 127 then 0 else w + 1)"
  using assms mod128 [of "w + 128 - r"] mod128 [of "w + 1"] by auto

lemma ring_walk:
  fixes r w :: nat assumes b: "r < 128" "w < 128" and L: "L = (if r \<le> w then w - r else w + 128 - r)"
  shows "i < L \<Longrightarrow> (r + i) mod 128 \<noteq> w" "(r + L) mod 128 = w"
proof -
  show "(r + i) mod 128 \<noteq> w" if "i < L"
  proof (cases "r \<le> w")
    case True
    then have "r + i < w" using L that by simp
    then show ?thesis using b by simp
  next
    case False
    then have "i < w + 128 - r" using L that by simp
    then show ?thesis using b False mod128 [of "r + i"] by (cases "r + i < 128") simp_all
  qed
  show "(r + L) mod 128 = w" using b L by (cases "r \<le> w") simp_all
qed

lemma ring_step:
  fixes r w :: nat assumes b: "r < 128" "w < 128" and L: "L = (if r \<le> w then w - r else w + 128 - r)"
  shows "L \<noteq> 127 \<Longrightarrow> ((w + 1) mod 128 + 128 - r) mod 128 = L + 1" "r \<noteq> w \<Longrightarrow> (w + 128 - (r + 1) mod 128) mod 128 = L - 1"
proof -
  have w': "(w + 1) mod 128 < 128" "(r + 1) mod 128 < 128" by simp_all
  show "((w + 1) mod 128 + 128 - r) mod 128 = L + 1" if "L \<noteq> 127"
    unfolding ring_nat(1) [OF b(1) w'(1)] using that b L ring_nat(2) [OF b] by (cases "w = 127"; cases "r \<le> w"; simp; arith)
  show "(w + 128 - (r + 1) mod 128) mod 128 = L - 1" if "r \<noteq> w"
    unfolding ring_nat(1) [OF w'(2) b(2)] using that b L ring_nat(2) [OF b(2,1)] by (cases "r = 127"; cases "r \<le> w"; simp; arith)
qed

lemma ring_indices:
  assumes "ring_ok s"
  shows "unat ((write_index s + 1) mod of_nat KEYBOARD_BUFFER_SIZE) = (unat (write_index s) + 1) mod 128"
    "unat ((read_index s + 1) mod of_nat KEYBOARD_BUFFER_SIZE) = (unat (read_index s) + 1) mod 128"
  using assms unat_add32 [of "write_index s" 1] unat_add32 [of "read_index s" 1]
  by (simp_all add: ring_ok_def KEYBOARD_BUFFER_SIZE_def unat_mod)

lemma wake_ring [simp]:
  "input_buffer (task_wake_keyboard_waiters s) = input_buffer s" "read_index (task_wake_keyboard_waiters s) = read_index s"
  "write_index (task_wake_keyboard_waiters s) = write_index s"
  by (simp_all add: task_wake_keyboard_waiters_def)

lemma ring_full: "ring_ok s \<Longrightarrow> (write_index s + 1) mod of_nat KEYBOARD_BUFFER_SIZE = read_index s \<longleftrightarrow> ring_length s = 127"
  using ring_indices(1) [of s] ring_nat [of "unat (read_index s)" "unat (write_index s)"]
  by (auto simp: word_unat_eq_iff ring_length_def ring_ok_def split: if_splits)

lemma enqueue_ring:
  assumes ok: "ring_ok s" and room: "ring_length s \<noteq> 127"
  shows "ring_ok (enqueue_key c s)" "ring_contents (enqueue_key c s) = ring_contents s @ [c]"
proof -
  let ?r = "unat (read_index s)" and ?w = "unat (write_index s)" and ?L = "ring_length s" and ?s = "enqueue_key c s"
  have b: "?r < 128" "?w < 128" "length (input_buffer s) = 128" using ok by (simp_all add: ring_ok_def)
  have sel: "input_buffer ?s = (input_buffer s)[?w := c]" "unat (write_index ?s) = (?w + 1) mod 128" "read_index ?s = read_index s"
    using ring_full [OF ok] room ring_indices(1) [OF ok] by (simp_all add: enqueue_key_def Let_def)
  show "ring_ok ?s" using b sel by (simp add: ring_ok_def)
  have L: "?L = (if ?r \<le> ?w then ?w - ?r else ?w + 128 - ?r)" unfolding ring_length_def by (rule ring_nat(1) [OF b(1,2)])
  have L': "ring_length ?s = ?L + 1" using ring_step(1) [OF b(1,2) L room] sel(2,3) by (simp add: ring_length_def)
  note i = ring_walk [OF b(1,2) L]
  show "ring_contents ?s = ring_contents s @ [c]"
    unfolding ring_contents_def L' using i(1) [THEN not_sym] i(2) b by (simp add: sel)
qed

lemma getchar_ring:
  assumes ok: "ring_ok s"
  shows "ring_contents s = [] \<longleftrightarrow> read_index s = write_index s"
    "ring_contents s = x # xs \<Longrightarrow> keyboard_getchar s = (uint x, snd (keyboard_getchar s)) \<and> ring_contents (snd (keyboard_getchar s)) = xs"
    "ring_ok (snd (keyboard_getchar s))"
proof -
  let ?r = "unat (read_index s)" and ?w = "unat (write_index s)" and ?L = "ring_length s" and ?s = "snd (keyboard_getchar s)"
  have b: "?r < 128" "?w < 128" "length (input_buffer s) = 128" using ok by (simp_all add: ring_ok_def)
  have L: "?L = (if ?r \<le> ?w then ?w - ?r else ?w + 128 - ?r)" unfolding ring_length_def by (rule ring_nat(1) [OF b(1,2)])
  show empty: "ring_contents s = [] \<longleftrightarrow> read_index s = write_index s"
    using L b by (auto simp: ring_contents_def word_unat_eq_iff)
  show "ring_ok ?s" using ok ring_indices(2) [OF ok] by (simp add: ring_ok_def keyboard_getchar_def Let_def)
  assume c: "ring_contents s = x # xs"
  then have ne: "read_index s \<noteq> write_index s" using empty by auto
  have sel: "input_buffer ?s = input_buffer s" "unat (read_index ?s) = (?r + 1) mod 128" "write_index ?s = write_index s"
    using ne ring_indices(2) [OF ok] by (simp_all add: keyboard_getchar_def Let_def)
  have L0: "?L = Suc (?L - 1)" using c by (cases ?L) (simp_all add: ring_contents_def)
  have L': "ring_length ?s = ?L - 1"
    using ring_step(2) [OF b(1,2) L] ne sel by (simp add: ring_length_def word_unat_eq_iff)
  have "ring_contents s = input_buffer s ! ?r # map (\<lambda>i. input_buffer s ! ((?r + Suc i) mod 128)) [0..<?L - 1]"
    unfolding ring_contents_def using b(1) by (subst L0) (simp add: upt_conv_Cons map_Suc_upt [symmetric] del: upt_Suc)
  moreover have "ring_contents ?s = map (\<lambda>i. input_buffer s ! ((?r + Suc i) mod 128)) [0..<?L - 1]"
    unfolding ring_contents_def L' sel by (simp add: mod_add_left_eq)
  ultimately show "keyboard_getchar s = (uint x, ?s) \<and> ring_contents ?s = xs"
    using c ne by (simp add: keyboard_getchar_def Let_def)
qed

interpretation ring: bounded_queue ring_contents 127 ring_ok enqueue_key ring_get
proof
  fix s :: "'a mstate_scheme" and x :: u8int assume ok: "ring_ok s"
  have len: "length (ring_contents s) = ring_length s" by (simp add: ring_contents_def)
  have le: "ring_length s < 128" by (simp add: ring_length_def)
  have full: "enqueue_key x s = s" if "ring_length s = 127" using ring_full [OF ok] that by (simp add: enqueue_key_def)
  show "ring_contents (enqueue_key x s) = (if length (ring_contents s) < 127 then ring_contents s @ [x] else ring_contents s)"
    using enqueue_ring(2) [OF ok, of x] full le len by (cases "ring_length s = 127") auto
  show "ring_ok (enqueue_key x s)" using enqueue_ring(1) [OF ok, of x] full ok by (cases "ring_length s = 127") auto
  show "length (ring_contents s) \<le> 127" using le len by simp
  show "ring_ok (snd (ring_get s))" using getchar_ring(3) [OF ok] by (auto simp: ring_get_def split: prod.splits)
  show "ring_get s = (None, s)" if "ring_contents s = []"
    using that getchar_ring(1) [OF ok] by (simp add: ring_get_def keyboard_getchar_def)
  show "fst (ring_get s) = Some y \<and> ring_contents (snd (ring_get s)) = ys" if c: "ring_contents s = y # ys" for y ys
    using getchar_ring(2) [OF ok c] by (cases "keyboard_getchar s") (simp add: ring_get_def)
qed

end
