(* ===== verification/Signal.thy ===== *)
theory Signal
  imports Task
begin

text \<open>
  Signals (\<open>src/signal.c\<close>, \<open>src/signal.h\<close>), apart from delivery, which may end the process and is in
  \<open>Process\<close>: dispositions, sending, the choice of the next pending signal, return from a
  handler, and what fork and exec do with the signal state.
\<close>

definition SIGNAL_COUNT :: nat where "SIGNAL_COUNT = 32"
definition SIGNAL_KILL :: nat where "SIGNAL_KILL = 9"
definition SIGNAL_CHLD :: nat where "SIGNAL_CHLD = 17"
definition SIGNAL_DEFAULT :: u32int where "SIGNAL_DEFAULT = 0"
definition SIGNAL_IGNORE :: u32int where "SIGNAL_IGNORE = 1"
definition SIGNAL_FRAME_MAGIC :: u32int where "SIGNAL_FRAME_MAGIC = 0x53494746"
definition USER_ADDRESS_MIN :: u32int where "USER_ADDRESS_MIN = 0x00400000"

text \<open>\<open>userspace_signal_frame_t\<close>: return address, signal number, magic and the saved registers.\<close>

definition sizeof_signal_frame :: u32int where "sizeof_signal_frame = 76"

definition reg_words :: "registers_t \<Rightarrow> u32int list" where
  "reg_words r = [reg_ds r, edi r, esi r, ebp r, esp r, ebx r, edx r, ecx r, eax r, int_no r, err_code r,
     eip r, reg_cs r, eflags r, useresp r, reg_ss r]"

definition words_reg :: "u32int list \<Rightarrow> registers_t" where
  "words_reg w = \<lparr>reg_ds = w ! 0, edi = w ! 1, esi = w ! 2, ebp = w ! 3, esp = w ! 4, ebx = w ! 5, edx = w ! 6,
     ecx = w ! 7, eax = w ! 8, int_no = w ! 9, err_code = w ! 10, eip = w ! 11, reg_cs = w ! 12, eflags = w ! 13,
     useresp = w ! 14, reg_ss = w ! 15\<rparr>"

definition signal_number_is_valid :: "s32int \<Rightarrow> bool" where
  "signal_number_is_valid n \<longleftrightarrow> 0 < sint n \<and> sint n < int SIGNAL_COUNT"

text \<open>The address of the first task of the queue with this id; 0 when there is none.\<close>

fun find_task_in :: "(u32int \<rightharpoonup> task_t) \<Rightarrow> s32int \<Rightarrow> u32int list \<Rightarrow> u32int" where
  "find_task_in ts pid [] = 0"
| "find_task_in ts pid (a # q) =
     (case ts a of
        Some t \<Rightarrow> (if task_id t = pid then a else find_task_in ts pid q)
      | None \<Rightarrow> find_task_in ts pid q)"

definition find_task :: "s32int \<Rightarrow> 'a tstate_scheme \<Rightarrow> u32int" where
  "find_task pid s = find_task_in (tasks s) pid (ready_queue s)"

definition signal_default_is_ignore :: "nat \<Rightarrow> bool" where
  "signal_default_is_ignore n \<longleftrightarrow> n = SIGNAL_CHLD"

text \<open>A page that ring 3 can reach.\<close>

definition user_page_present :: "u32int \<Rightarrow> u32int \<Rightarrow> 'a pstate_scheme \<Rightarrow> bool option" where
  "user_page_present address dir s = do {
     (p, _) \<leftarrow> get_page (\<lambda>_ _. None) address False dir s;
     (case p of
        None \<Rightarrow> Some False
      | Some p \<Rightarrow> do { pg \<leftarrow> read_page p s; Some (present pg \<and> user pg) }) }"

definition task_signal_set_handler ::
  "s32int \<Rightarrow> u32int \<Rightarrow> u32int \<Rightarrow> 'a tstate_scheme \<Rightarrow> (s32int \<times> 'a tstate_scheme) option" where
  "task_signal_set_handler n handler trampoline s =
     (if current_task s = 0 then Some (-1, s)
      else do {
        t \<leftarrow> get_current s;
        (if \<not> is_user_process t \<or> \<not> signal_number_is_valid n \<or> unat n = SIGNAL_KILL then Some (-1, s)
         else do {
           t' \<leftarrow> (if handler \<noteq> SIGNAL_DEFAULT \<and> handler \<noteq> SIGNAL_IGNORE
                 then (if handler < USER_ADDRESS_MIN \<or> handler \<ge> USER_STACK_TOP \<or>
                          trampoline < USER_ADDRESS_MIN \<or> trampoline \<ge> USER_STACK_TOP
                       then Some None
                       else do {
                         h \<leftarrow> user_page_present handler (page_directory t) s;
                         r \<leftarrow> user_page_present trampoline (page_directory t) s;
                         Some (if h \<and> r then Some (t\<lparr>signal_trampoline := trampoline\<rparr>) else None) })
                 else Some (Some t));
           (case t' of
              None \<Rightarrow> Some (-1, s)
            | Some t \<Rightarrow> Some (signal_handlers t ! unat n,
                set_current (t\<lparr>signal_handlers := (signal_handlers t)[unat n := handler]\<rparr>) s)) }) })"

definition task_signal_send :: "s32int \<Rightarrow> s32int \<Rightarrow> 'a tstate_scheme \<Rightarrow> (int \<times> 'a tstate_scheme) option" where
  "task_signal_send pid n s =
     (let a = find_task pid s
      in if a = 0 then Some (-1, s)
         else do {
           t \<leftarrow> tasks s a;
           (if task_id t = 0 \<or> \<not> is_user_process t \<or> state t = TASK_ZOMBIE then Some (-1, s)
            else if n = 0 then Some (0, s)
            else if \<not> signal_number_is_valid n then Some (-1, s)
            else (let handler = signal_handlers t ! unat n;
                      t = (if handler \<noteq> SIGNAL_IGNORE \<and> \<not> (handler = SIGNAL_DEFAULT \<and> signal_default_is_ignore (unat n))
                           then t\<lparr>pending_signals := pending_signals t OR bit_mask (unat n)\<rparr> else t);
                      t = (if state t = TASK_WAITING_INPUT then t\<lparr>state := TASK_RUNNABLE\<rparr> else t)
                  in Some (0, set_task a t s))) })"

text \<open>The loop of \<open>take_next_pending_signal\<close>; the result 0 is "none".\<close>

function take_pending_from :: "nat \<Rightarrow> task_t \<Rightarrow> nat \<times> task_t" where
  "take_pending_from n t =
     (if n < SIGNAL_COUNT
      then (if pending_signals t AND bit_mask n = 0 then take_pending_from (n + 1) t
            else (n, t\<lparr>pending_signals := pending_signals t AND NOT (bit_mask n)\<rparr>))
      else (0, t))"
  by pat_completeness auto
termination by (relation "measure (\<lambda>(n, t). SIGNAL_COUNT - n)") auto

declare take_pending_from.simps [simp del]

definition take_next_pending_signal :: "task_t \<Rightarrow> nat \<times> task_t" where
  "take_next_pending_signal t = take_pending_from 1 t"

definition stack_bottom :: u32int where
  "stack_bottom = USER_STACK_TOP - TASK_STACK_SIZE"

text \<open>The result is 0 or -1; on success the frame is replaced by the saved one.\<close>

definition task_signal_return ::
  "u32int \<Rightarrow> registers_t \<Rightarrow> 'a tstate_scheme \<Rightarrow> (int \<times> registers_t \<times> 'a tstate_scheme) option" where
  "task_signal_return context_address regs s =
     (if current_task s = 0 then Some (-1, regs, s)
      else do {
        t \<leftarrow> get_current s;
        (if \<not> signal_active t \<or> context_address < stack_bottom + 4 \<or>
            context_address > USER_STACK_TOP - (sizeof_signal_frame - 4)
         then Some (-1, regs, s)
         else do {
           let fa = context_address - 4;
           magic \<leftarrow> user_load (fa + 8) 4 s;
           num \<leftarrow> user_load (fa + 4) 4 s;
           (if bytes_word magic \<noteq> SIGNAL_FRAME_MAGIC \<or> bytes_word num \<noteq> ucast (active_signal t)
            then Some (-1, regs, s)
            else do {
              saved \<leftarrow> user_load (fa + 12) 64 s;
              Some (0, words_reg (bytes_words saved), set_current (t\<lparr>signal_active := False, active_signal := 0\<rparr>) s) }) }) })"

definition task_signal_inherit :: "task_t \<Rightarrow> task_t \<Rightarrow> task_t" where
  "task_signal_inherit child par = child\<lparr>signal_handlers := signal_handlers par, signal_trampoline := signal_trampoline par,
     pending_signals := 0, signal_active := False, active_signal := 0\<rparr>"

definition exec_reset_handlers :: "u32int list \<Rightarrow> u32int list" where
  "exec_reset_handlers hs = map (\<lambda>i. if i = 0 then hs ! i else if hs ! i \<noteq> SIGNAL_IGNORE then SIGNAL_DEFAULT else hs ! i)
     [0..<SIGNAL_COUNT]"

definition task_signal_exec_reset :: "'a tstate_scheme \<Rightarrow> 'a tstate_scheme option" where
  "task_signal_exec_reset s = do {
     t \<leftarrow> get_current s;
     Some (set_current (t\<lparr>signal_handlers := exec_reset_handlers (signal_handlers t), signal_trampoline := 0, signal_active := False, active_signal := 0\<rparr>) s) }"

end
