(* ===== verification/Process.thy ===== *)
theory Process
  imports Signal
begin

text \<open>
  The life of a process (\<open>src/task.c\<close>) and the delivery of signals (\<open>src/signal.c\<close>): the first user
  process, fork, exit, waitpid.

  A kernel entry either returns to the interrupted task with a frame or continues elsewhere:
  \<open>Returns\<close> carries the frame, \<open>Switched\<close> the registers of the task that runs next.
\<close>

datatype 's outcome = Returns registers_t 's | Switched cpu 's

section \<open>Creating processes\<close>

definition create_initial_user_process ::
  "'a tstate_scheme alloc_op \<Rightarrow> u32int \<Rightarrow> 'a tstate_scheme \<Rightarrow> (s32int \<times> 'a tstate_scheme) option" where
  "create_initial_user_process al entry s = do {
     ASSERT (entry \<noteq> 0);
     ASSERT (ready_queue s \<noteq> []);
     (process, s) \<leftarrow> kmalloc al sizeof_task s;
     (dir, s) \<leftarrow> clone_directory (kmalloc_ap al) (kernel_directory s) s;
     s \<leftarrow> map_range (map_user_page al dir) stack_bottom USER_STACK_TOP s;
     let pid = next_pid s;
     let s = s\<lparr>next_pid := pid + 1\<rparr>;
     (stack, s) \<leftarrow> kmalloc_a al KERNEL_STACK_SIZE s;
     cur \<leftarrow> get_current s;
     let t = zero_task\<lparr>page_directory := dir, task_id := pid, parent_id := 0, state := TASK_RUNNABLE,
        t_esp := USER_STACK_TOP, t_ebp := USER_STACK_TOP, t_eip := entry, kernel_stack := stack, is_user_process := True,
        heap_start := USER_HEAP_START, heap_break := USER_HEAP_START, heap_mapped_end := USER_HEAP_START,
        heap_limit := USER_HEAP_LIMIT, descriptors := descriptors cur, working_directory := working_directory cur\<rparr>;
     Some (pid, append_ready_task process (set_task process t s)) }"

primrec notify_open :: "file_descriptor_t list \<Rightarrow> 'a fstate_scheme \<Rightarrow> 'a fstate_scheme option" where
  "notify_open [] s = Some s"
| "notify_open (d # fds) s = do {
     s \<leftarrow> (if kind d = FD_KIND_NODE \<and> fd_node d \<noteq> 0 then open_fs (fd_node d) s else Some s);
     notify_open fds s }"

primrec store_words :: "memory \<Rightarrow> u32int \<Rightarrow> u32int list \<Rightarrow> memory" where
  "store_words m a [] = m"
| "store_words m a (w # ws) = store_words (store32 m a w) (a + 4) ws"

text \<open>\<open>resume\<close> is the address of \<open>resume_user_frame\<close> (src/interrupt.s), which loads the registers from the
  frame at \<open>esp\<close>.\<close>

definition task_fork_from_frame ::
  "'a tstate_scheme alloc_op \<Rightarrow> u32int \<Rightarrow> registers_t \<Rightarrow> 'a tstate_scheme \<Rightarrow> (s32int \<times> 'a tstate_scheme) option" where
  "task_fork_from_frame al resume regs s =
     (if current_task s = 0 then Some (-1, s)
      else do {
        par \<leftarrow> get_current s;
        (if \<not> is_user_process par \<or> state par \<noteq> TASK_RUNNABLE then Some (-1, s)
         else do {
           (dir, s) \<leftarrow> clone_directory (kmalloc_ap al) (current_directory s) s;
           (new_task, s) \<leftarrow> kmalloc al sizeof_task s;
           let pid = next_pid s;
           let s = s\<lparr>next_pid := pid + 1\<rparr>;
           (stack, s) \<leftarrow> kmalloc_a al KERNEL_STACK_SIZE s;
           let t = zero_task\<lparr>task_id := pid, parent_id := task_id par, state := TASK_RUNNABLE, page_directory := dir,
              kernel_stack := stack, heap_start := heap_start par, heap_break := heap_break par,
              heap_mapped_end := heap_mapped_end par, heap_limit := heap_limit par, is_user_process := is_user_process par\<rparr>;
           let t = task_signal_inherit t par;
           let t = t\<lparr>descriptors := descriptors par, working_directory := working_directory par\<rparr>;
           s \<leftarrow> notify_open (descriptors t) s;
           let fa = stack + KERNEL_STACK_SIZE - sizeof_registers;
           let s = s\<lparr>mem := store_words (mem s) fa (reg_words (regs\<lparr>eax := 0\<rparr>))\<rparr>;
           let t = t\<lparr>t_esp := fa, t_ebp := fa, t_eip := resume\<rparr>;
           Some (pid, append_ready_task new_task (set_task new_task t s)) }) })"

section \<open>Ending a process\<close>

primrec close_all :: "file_descriptor_t list \<Rightarrow> 'a fstate_scheme \<Rightarrow> 'a fstate_scheme option" where
  "close_all [] s = Some s"
| "close_all (d # fds) s = do {
     s \<leftarrow> (if kind d = FD_KIND_NODE \<and> fd_node d \<noteq> 0 then close_fs (fd_node d) s else Some s);
     close_all fds s }"

text \<open>\<open>task_exit\<close> never returns: the processor continues with another task, or, when the zombie itself
  would run on, the kernel panics.\<close>

definition task_exit :: "cpu \<Rightarrow> s32int \<Rightarrow> 'a tstate_scheme \<Rightarrow> (cpu \<times> 'a tstate_scheme) option" where
  "task_exit c status s = do {
     t \<leftarrow> get_current s;
     ASSERT (task_id t \<noteq> 0 \<and> is_user_process t);
     s \<leftarrow> close_all (descriptors t) s;
     let t = t\<lparr>descriptors := replicate MAX_FILE_DESCRIPTORS free_descriptor, exit_status := status, state := TASK_ZOMBIE\<rparr>;
     let s = set_current t s;
     s \<leftarrow> (if 0 < sint (parent_id t)
           then do { (_, s) \<leftarrow> task_signal_send (parent_id t) (of_nat SIGNAL_CHLD) s; Some s } else Some s);
     (c, s') \<leftarrow> switch_task c s;
     (if current_task s' = current_task s then PANIC else Some (c, s')) }"

text \<open>The result and the status word that the call stores when its pointer is not null.\<close>

definition task_waitpid ::
  "s32int \<Rightarrow> 'a tstate_scheme \<Rightarrow> (s32int \<times> s32int option \<times> 'a tstate_scheme) option" where
  "task_waitpid pid s =
     (if current_task s = 0 \<or> sint pid \<le> 0 then Some (-1, None, s)
      else do {
        par \<leftarrow> get_current s;
        let child = find_task pid s;
        (if child = 0 then Some (-1, None, s)
         else do {
           t \<leftarrow> tasks s child;
           (if parent_id t \<noteq> task_id par then Some (-1, None, s)
            else if state t \<noteq> TASK_ZOMBIE then Some (0, None, s)
            else do {
              ASSERT (child \<noteq> hd (ready_queue s));
              let s = s\<lparr>ready_queue := remove1 child (ready_queue s)\<rparr>;
              s \<leftarrow> destroy_directory kfree (page_directory t) s;
              s \<leftarrow> kfree (kernel_stack t) s;
              s \<leftarrow> kfree child s;
              Some (pid, Some (exit_status t), s\<lparr>tasks := (tasks s)(child := None)\<rparr>) }) }) })"

section \<open>Delivering a signal\<close>

definition signal_frame_words :: "u32int \<Rightarrow> nat \<Rightarrow> registers_t \<Rightarrow> u32int list" where
  "signal_frame_words trampoline n regs = [trampoline, of_nat n, SIGNAL_FRAME_MAGIC] @ reg_words regs"

definition task_signal_deliver :: "cpu \<Rightarrow> registers_t \<Rightarrow> 'a tstate_scheme \<Rightarrow> 'a tstate_scheme outcome option" where
  "task_signal_deliver c regs s =
     (if current_task s = 0 then Some (Returns regs s)
      else do {
        t \<leftarrow> get_current s;
        (if \<not> is_user_process t \<or> state t \<noteq> TASK_RUNNABLE \<or> signal_active t \<or> reg_cs regs AND 3 \<noteq> 3
         then Some (Returns regs s)
         else (let (n, t) = take_next_pending_signal t;
                   s = set_current t s;
                   exit = do { (c, s) \<leftarrow> task_exit c (of_nat (128 + n)) s; Some (Switched c s) };
                   handler = signal_handlers t ! n;
                   fa = (useresp regs - sizeof_signal_frame) AND NOT 0xF
               in if n = 0 then Some (Returns regs s)
                  else if handler = SIGNAL_IGNORE \<or> (handler = SIGNAL_DEFAULT \<and> signal_default_is_ignore n)
                  then Some (Returns regs s)
                  else if handler = SIGNAL_DEFAULT \<or> n = SIGNAL_KILL then exit
                  else if useresp regs < stack_bottom + sizeof_signal_frame \<or> useresp regs > USER_STACK_TOP \<or>
                          signal_trampoline t = 0 then exit
                  else if fa < stack_bottom then exit
                  else do {
                    s \<leftarrow> user_store fa (concat (map word_bytes (signal_frame_words (signal_trampoline t) n regs))) s;
                    Some (Returns (regs\<lparr>eip := handler, useresp := fa\<rparr>)
                      (set_current (t\<lparr>signal_active := True, active_signal := of_nat n\<rparr>) s)) })) })"

end
