(* ===== verification/Exec.thy ===== *)
theory Exec
  imports Process
begin

text \<open>
  Program replacement (\<open>src/exec.c\<close>, \<open>src/elf.h\<close>): the request captured from the old address space,
  the checks on a static ELF32 file, the loading of its segments, the initial stack, and
  \<open>process_execve\<close>, which commits only when all of these have succeeded.

  A result \<open>None\<close> is a kernel panic (a failed assertion or a page fault of the kernel); a
  return of -1 is a value. The request lives in one kernel allocation that nothing else reads;
  it is modelled as a value, and the allocation and its release as calls of \<open>kmalloc\<close> and \<open>kfree\<close>.
\<close>

section \<open>Structures\<close>

definition EXEC_PATH_MAX :: nat where "EXEC_PATH_MAX = 256"
definition EXEC_ARGUMENT_MAX :: nat where "EXEC_ARGUMENT_MAX = 16"
definition EXEC_ARGUMENT_BYTES_MAX :: u32int where "EXEC_ARGUMENT_BYTES_MAX = 2048"
definition ELF_PROGRAM_HEADER_MAX :: u16int where "ELF_PROGRAM_HEADER_MAX = 32"
definition USER_PROGRAM_MIN :: u32int where "USER_PROGRAM_MIN = 0x00400000"

definition ALIGN_DOWN_PAGE :: "u32int \<Rightarrow> u32int" where "ALIGN_DOWN_PAGE v = v AND 0xFFFFF000"
definition ALIGN_UP_PAGE :: "u32int \<Rightarrow> u32int" where "ALIGN_UP_PAGE v = (v + 0x1000 - 1) AND 0xFFFFF000"

definition ELF_PROGRAM_LOAD :: u32int where "ELF_PROGRAM_LOAD = 1"
definition ELF_FLAG_EXECUTE :: u32int where "ELF_FLAG_EXECUTE = 0x1"
definition ELF_FLAG_WRITE :: u32int where "ELF_FLAG_WRITE = 0x2"

record elf32_header_t =
  identification :: "u8int list"
  e_type :: u16int
  machine :: u16int
  version :: u32int
  e_entry :: u32int
  program_header_offset :: u32int
  section_header_offset :: u32int
  e_flags :: u32int
  header_size :: u16int
  program_header_entry_size :: u16int
  program_header_count :: u16int
  section_header_entry_size :: u16int
  section_header_count :: u16int
  section_name_index :: u16int

record elf32_program_header_t =
  p_type :: u32int
  file_offset :: u32int
  virtual_address :: u32int
  physical_address :: u32int
  file_size :: u32int
  memory_size :: u32int
  p_flags :: u32int
  alignment :: u32int

record exec_request_t =
  req_path :: "u8int list"
  argument_count :: u32int
  argument_offset :: "u32int list"
  argument_bytes :: u32int
  argument_storage :: "u8int list"
  header :: elf32_header_t
  programs :: "elf32_program_header_t list"

definition sizeof_elf_header :: u32int where "sizeof_elf_header = 52"
definition sizeof_elf_program_header :: u32int where "sizeof_elf_program_header = 32"
definition sizeof_exec_request :: u32int where "sizeof_exec_request = 3452"

text \<open>The packed structures as bytes, little-endian.\<close>

definition half_at :: "u8int list \<Rightarrow> nat \<Rightarrow> u16int" where
  "half_at bs i = ucast (bs ! i) OR push_bit 8 (ucast (bs ! (i + 1)))"

definition word_at :: "u8int list \<Rightarrow> nat \<Rightarrow> u32int" where
  "word_at bs i = bytes_word (take 4 (drop i bs))"

definition bytes_header :: "u8int list \<Rightarrow> elf32_header_t" where
  "bytes_header bs = \<lparr>identification = take 16 bs, e_type = half_at bs 16, machine = half_at bs 18,
     version = word_at bs 20, e_entry = word_at bs 24, program_header_offset = word_at bs 28,
     section_header_offset = word_at bs 32, e_flags = word_at bs 36, header_size = half_at bs 40,
     program_header_entry_size = half_at bs 42, program_header_count = half_at bs 44,
     section_header_entry_size = half_at bs 46, section_header_count = half_at bs 48,
     section_name_index = half_at bs 50\<rparr>"

definition bytes_program :: "u8int list \<Rightarrow> elf32_program_header_t" where
  "bytes_program bs = \<lparr>p_type = word_at bs 0, file_offset = word_at bs 4, virtual_address = word_at bs 8,
     physical_address = word_at bs 12, file_size = word_at bs 16, memory_size = word_at bs 20,
     p_flags = word_at bs 24, alignment = word_at bs 28\<rparr>"

text \<open>\<open>memset(request, 0, sizeof *request)\<close>\<close>

definition zero_request :: exec_request_t where
  "zero_request = \<lparr>req_path = [], argument_count = 0, argument_offset = replicate EXEC_ARGUMENT_MAX 0,
     argument_bytes = 0, argument_storage = replicate (unat EXEC_ARGUMENT_BYTES_MAX) 0,
     header = bytes_header (replicate 52 0), programs = replicate (unat ELF_PROGRAM_HEADER_MAX) (bytes_program (replicate 32 0))\<rparr>"

section \<open>Capturing the request\<close>

text \<open>The loop of \<open>copy_bounded_string\<close>: the characters before the terminator; the inner
  \<open>None\<close> is the return of -1.\<close>

primrec copy_chars :: "u32int \<Rightarrow> nat \<Rightarrow> 'a pstate_scheme \<Rightarrow> u8int list option option" where
  "copy_chars src 0 s = Some None"
| "copy_chars src (Suc n) s = do {
     b \<leftarrow> user_load8 src s;
     (if b = 0 then Some (Some [])
      else do { r \<leftarrow> copy_chars (src + 1) n s; Some (map_option (\<lambda>bs. b # bs) r) }) }"

definition copy_bounded_string :: "u32int \<Rightarrow> u32int \<Rightarrow> 'a pstate_scheme \<Rightarrow> u8int list option option" where
  "copy_bounded_string capacity src s =
     (if src = 0 \<or> capacity = 0 then Some None else copy_chars src (unat capacity) s)"

text \<open>A copy of bytes into an array.\<close>

definition write_bytes :: "u8int list \<Rightarrow> nat \<Rightarrow> u8int list \<Rightarrow> u8int list" where
  "write_bytes xs i bs = take i xs @ bs @ drop (i + length bs) xs"

text \<open>The loop over \<open>argv\<close>; \<open>n\<close> rounds remain, so that the index is \<open>EXEC_ARGUMENT_MAX - n\<close>.\<close>

primrec capture_arguments ::
  "nat \<Rightarrow> u32int \<Rightarrow> exec_request_t \<Rightarrow> 'a pstate_scheme \<Rightarrow> exec_request_t option option" where
  "capture_arguments 0 argv request s = Some None"
| "capture_arguments (Suc n) argv request s = do {
     let index = EXEC_ARGUMENT_MAX - Suc n;
     argument \<leftarrow> user_load (argv + 4 * of_nat index) 4 s;
     let argument = bytes_word argument;
     (if argument = 0 then Some (Some (request\<lparr>argument_count := of_nat index\<rparr>))
      else do {
        let remaining = EXEC_ARGUMENT_BYTES_MAX - argument_bytes request;
        r \<leftarrow> copy_bounded_string remaining argument s;
        (case r of
           None \<Rightarrow> Some None
         | Some bs \<Rightarrow> capture_arguments n argv (request\<lparr>
             argument_storage := write_bytes (argument_storage request) (unat (argument_bytes request)) (bs @ [0]),
             argument_offset := (argument_offset request)[index := argument_bytes request],
             argument_bytes := argument_bytes request + (of_nat (length bs) + 1)\<rparr>) s) }) }"

definition capture_request ::
  "u32int \<Rightarrow> u32int \<Rightarrow> u32int \<Rightarrow> 'a pstate_scheme \<Rightarrow> exec_request_t option option" where
  "capture_request path argv envp s = do {
     r \<leftarrow> copy_bounded_string (of_nat EXEC_PATH_MAX) path s;
     (case r of
        None \<Rightarrow> Some None
      | Some bs \<Rightarrow>
          (if bs = [] then Some None
           else do {
             e \<leftarrow> (if envp \<noteq> 0 then user_load envp 4 s else Some [0, 0, 0, 0]);
             (if bytes_word e \<noteq> 0 then Some None
              else if argv = 0 then Some (Some (zero_request\<lparr>req_path := bs\<rparr>))
              else capture_arguments EXEC_ARGUMENT_MAX argv (zero_request\<lparr>req_path := bs\<rparr>) s) })) }"

section \<open>Checking the file\<close>

text \<open>\<open>read_exact\<close> into a kernel buffer: the bytes, or \<open>None\<close> for -1.\<close>

definition read_exact :: "u32int \<Rightarrow> u32int \<Rightarrow> u32int \<Rightarrow> 'a fstate_scheme \<Rightarrow> u8int list option option" where
  "read_exact file off sz s = do {
     (n, bs) \<leftarrow> read_fs file off sz False s;
     Some (if n = sz then Some bs else None) }"

definition ranges_overlap :: "u32int \<Rightarrow> u32int \<Rightarrow> u32int \<Rightarrow> u32int \<Rightarrow> bool" where
  "ranges_overlap first_start first_end second_start second_end \<longleftrightarrow>
     first_start < second_end \<and> second_start < first_end"

definition loadable :: "elf32_program_header_t \<Rightarrow> bool" where
  "loadable p \<longleftrightarrow> \<not> (p_type p \<noteq> ELF_PROGRAM_LOAD \<or> memory_size p = 0)"

definition segment_end :: "elf32_program_header_t \<Rightarrow> u32int" where
  "segment_end p = virtual_address p + memory_size p"

text \<open>The checks on one program header.\<close>

definition bad_segment :: "u32int \<Rightarrow> elf32_program_header_t \<Rightarrow> bool" where
  "bad_segment file_length p \<longleftrightarrow>
     file_size p > memory_size p \<or> file_offset p > file_length \<or> file_size p > file_length - file_offset p \<or>
     virtual_address p < USER_PROGRAM_MIN \<or> memory_size p > 0xFFFFFFFF - virtual_address p \<or>
     segment_end p > USER_HEAP_LIMIT \<or> segment_end p \<le> virtual_address p \<or>
     (alignment p > 1 \<and> (alignment p AND (alignment p - 1) \<noteq> 0 \<or>
        virtual_address p AND (alignment p - 1) \<noteq> file_offset p AND (alignment p - 1)))"

definition page_overlap :: "elf32_program_header_t \<Rightarrow> elf32_program_header_t \<Rightarrow> bool" where
  "page_overlap p other \<longleftrightarrow>
     ranges_overlap (ALIGN_DOWN_PAGE (virtual_address p)) (ALIGN_UP_PAGE (segment_end p))
       (ALIGN_DOWN_PAGE (virtual_address other)) (ALIGN_UP_PAGE (segment_end other))"

text \<open>The loop over the program headers: \<open>earlier\<close> are those before the current one; the state of
  the loop is the highest address, whether the entry point is executable, and the count.\<close>

fun check_programs ::
  "u32int \<Rightarrow> u32int \<Rightarrow> elf32_program_header_t list \<Rightarrow> elf32_program_header_t list \<Rightarrow> u32int \<times> bool \<times> u32int
     \<Rightarrow> (u32int \<times> bool \<times> u32int) option" where
  "check_programs file_length ent earlier [] acc = Some acc"
| "check_programs file_length ent earlier (p # ps) (highest, executable, cnt) =
     (if \<not> loadable p then check_programs file_length ent (earlier @ [p]) ps (highest, executable, cnt)
      else if bad_segment file_length p then None
      else if list_ex (\<lambda>other. loadable other \<and> page_overlap p other) earlier then None
      else check_programs file_length ent (earlier @ [p]) ps
        (if segment_end p > highest then segment_end p else highest,
         executable \<or> (p_flags p AND ELF_FLAG_EXECUTE \<noteq> 0 \<and> ent \<ge> virtual_address p \<and> ent < segment_end p),
         cnt + 1))"

definition bad_header :: "elf32_header_t \<Rightarrow> bool" where
  "bad_header h \<longleftrightarrow>
     identification h ! 0 \<noteq> 0x7F \<or> identification h ! 1 \<noteq> 0x45 \<or> identification h ! 2 \<noteq> 0x4C \<or>
     identification h ! 3 \<noteq> 0x46 \<or> identification h ! 4 \<noteq> 1 \<or> identification h ! 5 \<noteq> 1 \<or> identification h ! 6 \<noteq> 1 \<or>
     e_type h \<noteq> 2 \<or> machine h \<noteq> 3 \<or> version h \<noteq> 1 \<or> ucast (header_size h) \<noteq> sizeof_elf_header \<or>
     ucast (program_header_entry_size h) \<noteq> sizeof_elf_program_header \<or>
     program_header_count h = 0 \<or> program_header_count h > ELF_PROGRAM_HEADER_MAX"

text \<open>The program headers of the file.\<close>

definition loaded_programs :: "exec_request_t \<Rightarrow> elf32_program_header_t list" where
  "loaded_programs request = take (unat (program_header_count (header request))) (programs request)"

text \<open>The request with the headers filled in, and the highest address of the image.\<close>

definition validate_elf ::
  "u32int \<Rightarrow> exec_request_t \<Rightarrow> 'a fstate_scheme \<Rightarrow> (exec_request_t \<times> u32int) option option" where
  "validate_elf file request s =
     (if file = 0 then Some None
      else do {
        n \<leftarrow> fs_nodes s file;
        (if flags n AND 0x7 \<noteq> FS_FILE \<or> read_cb n = None \<or> node_length n < sizeof_elf_header then Some None
         else do {
           hb \<leftarrow> read_exact file 0 sizeof_elf_header s;
           (case hb of
              None \<Rightarrow> Some None
            | Some hb \<Rightarrow>
                (let h = bytes_header hb;
                     table_size = ucast (program_header_count h) * sizeof_elf_program_header
                 in if bad_header h then Some None
                    else if program_header_offset h > node_length n \<or> table_size > node_length n - program_header_offset h
                    then Some None
                    else do {
                      tb \<leftarrow> read_exact file (program_header_offset h) table_size s;
                      (case tb of
                         None \<Rightarrow> Some None
                       | Some tb \<Rightarrow>
                           (let cnt = unat (program_header_count h);
                                request = request\<lparr>header := h,
                                  programs := map (\<lambda>i. bytes_program (take 32 (drop (32 * i) tb))) [0..<cnt] @ drop cnt (programs request)\<rparr>
                            in case check_programs (node_length n) (e_entry h) [] (loaded_programs request) (0, False, 0) of
                                 None \<Rightarrow> Some None
                               | Some (highest, executable, loadable_count) \<Rightarrow>
                                   (if loadable_count = 0 \<or> \<not> executable then Some None else Some (Some (request, highest))))) })) }) })"

section \<open>Building the new image\<close>

text \<open>One round of the loops that map a fresh page; \<open>False\<close> is the return of -1.\<close>

definition exec_map_page ::
  "'a pstate_scheme alloc_op \<Rightarrow> u32int \<Rightarrow> u32int \<Rightarrow> 'a pstate_scheme \<Rightarrow> (bool \<times> 'a pstate_scheme) option" where
  "exec_map_page al dir address s = do {
     (page, s) \<leftarrow> get_page (kmalloc_ap al) address True dir s;
     (case page of
        None \<Rightarrow> Some (False, s)
      | Some p \<Rightarrow> do {
          pg \<leftarrow> read_page p s;
          (if present pg then Some (False, s)
           else do {
             s \<leftarrow> alloc_frame (Some p) False True s;
             pg \<leftarrow> read_page p s;
             Some (True, zero_page_physical (frame_base pg) s) }) }) }"

text \<open>\<open>n\<close> rounds from \<open>address\<close> on; \<open>page_rounds lo hi\<close> is the number of rounds of
  \<open>for (address = lo; address < hi; address += PAGE_SIZE)\<close> for \<open>hi\<close> at least one page below \<open>2 ^ 32\<close>.\<close>

primrec exec_map_pages ::
  "'a pstate_scheme alloc_op \<Rightarrow> u32int \<Rightarrow> nat \<Rightarrow> u32int \<Rightarrow> 'a pstate_scheme \<Rightarrow> (bool \<times> 'a pstate_scheme) option" where
  "exec_map_pages al dir 0 address s = Some (True, s)"
| "exec_map_pages al dir (Suc n) address s = do {
     (ok, s) \<leftarrow> exec_map_page al dir address s;
     (if ok then exec_map_pages al dir n (address + 0x1000) s else Some (False, s)) }"

definition page_rounds :: "u32int \<Rightarrow> u32int \<Rightarrow> nat" where
  "page_rounds lo hi = (unat hi - unat lo + 0xFFF) div 0x1000"

text \<open>The loop that sets the final permission of the pages.\<close>

primrec protect_pages :: "u32int \<Rightarrow> bool \<Rightarrow> nat \<Rightarrow> u32int \<Rightarrow> 'a pstate_scheme \<Rightarrow> 'a pstate_scheme option" where
  "protect_pages dir writable 0 address s = Some s"
| "protect_pages dir writable (Suc n) address s = do {
     (page, s) \<leftarrow> get_page (\<lambda>_ _. None) address False dir s;
     p \<leftarrow> page;
     pg \<leftarrow> read_page p s;
     ASSERT (present pg);
     s \<leftarrow> write_page p (pg\<lparr>rw := writable\<rparr>) s;
     protect_pages dir writable n (address + 0x1000) s }"

text \<open>One round of \<open>map_and_load_segments\<close>; the destination of the read is user memory.\<close>

definition load_segment ::
  "'a fstate_scheme alloc_op \<Rightarrow> u32int \<Rightarrow> u32int \<Rightarrow> elf32_program_header_t \<Rightarrow> 'a fstate_scheme \<Rightarrow> (bool \<times> 'a fstate_scheme) option" where
  "load_segment al file dir p s = do {
     let page_start = ALIGN_DOWN_PAGE (virtual_address p);
     let rounds = page_rounds page_start (ALIGN_UP_PAGE (segment_end p));
     (ok, s) \<leftarrow> exec_map_pages al dir rounds page_start s;
     (if \<not> ok then Some (False, s)
      else do {
        (ok, s) \<leftarrow> (if file_size p \<noteq> 0
                   then do {
                     (n, bs) \<leftarrow> read_fs file (file_offset p) (file_size p) (virtual_address p = 0) s;
                     s \<leftarrow> user_store (virtual_address p) bs s;
                     Some (n = file_size p, s) }
                   else Some (True, s));
        (if \<not> ok then Some (False, s)
         else do {
           s \<leftarrow> protect_pages dir (p_flags p AND ELF_FLAG_WRITE \<noteq> 0) rounds page_start s;
           Some (True, s) }) }) }"

primrec load_segments ::
  "'a fstate_scheme alloc_op \<Rightarrow> u32int \<Rightarrow> u32int \<Rightarrow> elf32_program_header_t list \<Rightarrow> 'a fstate_scheme \<Rightarrow> (bool \<times> 'a fstate_scheme) option" where
  "load_segments al file dir [] s = Some (True, s)"
| "load_segments al file dir (p # ps) s =
     (if \<not> loadable p then load_segments al file dir ps s
      else do {
        (ok, s) \<leftarrow> load_segment al file dir p s;
        (if ok then load_segments al file dir ps s else Some (False, s)) })"

definition map_and_load_segments ::
  "'a fstate_scheme alloc_op \<Rightarrow> u32int \<Rightarrow> exec_request_t \<Rightarrow> u32int \<Rightarrow> 'a fstate_scheme \<Rightarrow> (bool \<times> 'a fstate_scheme) option" where
  "map_and_load_segments al file request dir s = load_segments al file dir (loaded_programs request) s"

text \<open>The bytes of argument \<open>i\<close> up to its terminator.\<close>

definition argument :: "exec_request_t \<Rightarrow> nat \<Rightarrow> u8int list" where
  "argument request i = takeWhile (\<lambda>b. b \<noteq> 0) (drop (unat (argument_offset request ! i)) (argument_storage request))"

text \<open>The loop that copies the arguments downwards, \<open>n\<close> of them left; the result is the stack
  pointer and the addresses of the copies, or \<open>None\<close> for -1.\<close>

primrec push_arguments ::
  "exec_request_t \<Rightarrow> nat \<Rightarrow> u32int \<Rightarrow> u32int list \<Rightarrow> 'a pstate_scheme \<Rightarrow> ((u32int \<times> u32int list) option \<times> 'a pstate_scheme) option" where
  "push_arguments request 0 sp addresses s = Some (Some (sp, addresses), s)"
| "push_arguments request (Suc i) sp addresses s = do {
     let bs = argument request i;
     let len = of_nat (length bs) + 1;
     (if len > sp - stack_bottom then Some (None, s)
      else do {
        let sp = sp - len;
        s \<leftarrow> user_store sp (bs @ [0]) s;
        push_arguments request i sp (addresses[i := sp]) s }) }"

text \<open>\<open>PUSH_STACK\<close> of the values in turn.\<close>

primrec push_words :: "u32int list \<Rightarrow> u32int \<Rightarrow> 'a pstate_scheme \<Rightarrow> (u32int \<times> 'a pstate_scheme) option" where
  "push_words [] sp s = Some (sp, s)"
| "push_words (v # vs) sp s = do {
     s \<leftarrow> user_store (sp - 4) (word_bytes v) s;
     push_words vs (sp - 4) s }"

text \<open>The last part of \<open>build_initial_stack\<close>, below an aligned stack pointer.\<close>

definition push_pointers ::
  "exec_request_t \<Rightarrow> u32int \<Rightarrow> u32int list \<Rightarrow> 'a pstate_scheme \<Rightarrow> (u32int option \<times> 'a pstate_scheme) option" where
  "push_pointers request sp addresses s = do {
     let pointer_bytes = (argument_count request + 3) * 4;
     (if pointer_bytes > sp - stack_bottom then Some (None, s)
      else do {
        let final = (sp - pointer_bytes) AND NOT 0xF;
        (sp, s) \<leftarrow> push_words ([0, 0] @ rev (take (unat (argument_count request)) addresses) @ [argument_count request])
          (final + pointer_bytes) s;
        ASSERT (sp = final);
        Some (Some sp, s) }) }"

definition build_initial_stack ::
  "'a pstate_scheme alloc_op \<Rightarrow> exec_request_t \<Rightarrow> u32int \<Rightarrow> 'a pstate_scheme \<Rightarrow> (u32int option \<times> 'a pstate_scheme) option" where
  "build_initial_stack al request dir s = do {
     (ok, s) \<leftarrow> exec_map_pages al dir (page_rounds stack_bottom USER_STACK_TOP) stack_bottom s;
     (if \<not> ok then Some (None, s)
      else do {
        (r, s) \<leftarrow> push_arguments request (unat (argument_count request)) USER_STACK_TOP (replicate EXEC_ARGUMENT_MAX 0) s;
        (case r of
           None \<Rightarrow> Some (None, s)
         | Some (sp, addresses) \<Rightarrow> push_pointers request (sp AND NOT 0xF) addresses s) }) }"

section \<open>execve\<close>

definition bytes_string :: "u8int list \<Rightarrow> string" where
  "bytes_string bs = map (\<lambda>b. char_of (unat b)) bs"

text \<open>The end of every failure after the new directory has been made.\<close>

definition abandon_image ::
  "u32int \<Rightarrow> u32int \<Rightarrow> u32int \<Rightarrow> 'a pstate_scheme \<Rightarrow> 'a pstate_scheme option" where
  "abandon_image old_directory new_directory request_address s = do {
     let s = switch_page_directory old_directory s;
     s \<leftarrow> destroy_directory kfree new_directory s;
     kfree request_address s }"

text \<open>The replaced process.\<close>

definition exec_commit :: "u32int \<Rightarrow> u32int \<Rightarrow> task_t \<Rightarrow> task_t" where
  "exec_commit dir new_heap_start t = t\<lparr>page_directory := dir, heap_start := new_heap_start, heap_break := new_heap_start,
     heap_mapped_end := new_heap_start, heap_limit := USER_HEAP_LIMIT\<rparr>"

text \<open>The second half of \<open>process_execve\<close>, after the checks.\<close>

definition install_image ::
  "'a tstate_scheme alloc_op \<Rightarrow> u32int \<Rightarrow> exec_request_t \<Rightarrow> u32int \<Rightarrow> u32int \<Rightarrow> task_t \<Rightarrow> registers_t \<Rightarrow> 'a tstate_scheme
     \<Rightarrow> (int \<times> registers_t \<times> 'a tstate_scheme) option" where
  "install_image al file request highest ra process regs s = do {
     let old_directory = page_directory process;
     (dir, s) \<leftarrow> clone_directory (kmalloc_ap al) (kernel_directory s) s;
     let s = switch_page_directory dir s;
     (ok, s) \<leftarrow> map_and_load_segments al file request dir s;
     (sp, s) \<leftarrow> (if ok then build_initial_stack al request dir s else Some (None, s));
     (case sp of
        None \<Rightarrow> do { s \<leftarrow> abandon_image old_directory dir ra s; Some (-1, regs, s) }
      | Some sp \<Rightarrow>
          (let new_heap_start = ALIGN_UP_PAGE highest
           in if new_heap_start \<ge> USER_HEAP_LIMIT
              then do { s \<leftarrow> abandon_image old_directory dir ra s; Some (-1, regs, s) }
              else do {
                let s = set_current (exec_commit dir new_heap_start process) s;
                s \<leftarrow> task_signal_exec_reset s;
                let regs = regs\<lparr>eip := e_entry (header request), useresp := sp, eax := 0\<rparr>;
                s \<leftarrow> destroy_directory kfree old_directory s;
                s \<leftarrow> kfree ra s;
                Some (0, regs, s) })) }"

definition process_execve ::
  "'a tstate_scheme alloc_op \<Rightarrow> u32int \<Rightarrow> u32int \<Rightarrow> u32int \<Rightarrow> registers_t \<Rightarrow> 'a tstate_scheme
     \<Rightarrow> (int \<times> registers_t \<times> 'a tstate_scheme) option" where
  "process_execve al path argv envp regs s =
     (if current_task s = 0 then Some (-1, regs, s)
      else do {
        process \<leftarrow> get_current s;
        (if \<not> is_user_process process then Some (-1, regs, s)
         else do {
           (ra, s) \<leftarrow> kmalloc al sizeof_exec_request s;
           (if ra = 0 then Some (-1, regs, s)
            else do {
              request \<leftarrow> capture_request path argv envp s;
              (case request of
                 None \<Rightarrow> do { s \<leftarrow> kfree ra s; Some (-1, regs, s) }
               | Some request \<Rightarrow> do {
                   let file = resolve_path_fs (fs_nodes s) (fs_root s) (working_directory process) (bytes_string (req_path request));
                   v \<leftarrow> validate_elf file request s;
                   (case v of
                      None \<Rightarrow> do { s \<leftarrow> kfree ra s; Some (-1, regs, s) }
                    | Some (request, highest) \<Rightarrow> install_image al file request highest ra process regs s) }) }) }) })"

end
