(* ===== verification/Syscall.thy ===== *)
theory Syscall
  imports Keyboard Exec
begin

text \<open>
  The system calls (\<open>src/syscall.c\<close>, \<open>src/syscall.h\<close>, \<open>src/errno.h\<close>): one definition per service and the
  dispatcher behind interrupt \<open>0x80\<close>. Results of type \<open>int\<close> are words of 32 bits.

  A read from the keyboard may put the caller to sleep in the middle of the service:
  \<open>Sleeps\<close> carries the registers and the state of the task that runs instead, and
  \<open>keyboard_read_resumed\<close> is the rest of the service when the scheduler comes back. A path or a text
  argument is read up to its terminator before it is used.
\<close>

section \<open>Results and arguments\<close>

definition ERRNO_ENOENT :: int where "ERRNO_ENOENT = 2"
definition ERRNO_ESRCH :: int where "ERRNO_ESRCH = 3"
definition ERRNO_EINTR :: int where "ERRNO_EINTR = 4"
definition ERRNO_EIO :: int where "ERRNO_EIO = 5"
definition ERRNO_ENOEXEC :: int where "ERRNO_ENOEXEC = 8"
definition ERRNO_EBADF :: int where "ERRNO_EBADF = 9"
definition ERRNO_ECHILD :: int where "ERRNO_ECHILD = 10"
definition ERRNO_ENOMEM :: int where "ERRNO_ENOMEM = 12"
definition ERRNO_EFAULT :: int where "ERRNO_EFAULT = 14"
definition ERRNO_EISDIR :: int where "ERRNO_EISDIR = 21"
definition ERRNO_EINVAL :: int where "ERRNO_EINVAL = 22"
definition ERRNO_EMFILE :: int where "ERRNO_EMFILE = 24"
definition ERRNO_ESPIPE :: int where "ERRNO_ESPIPE = 29"
definition ERRNO_EROFS :: int where "ERRNO_EROFS = 30"
definition ERRNO_ENOSYS :: int where "ERRNO_ENOSYS = 38"

definition SYSCALL_ERROR :: "int \<Rightarrow> s32int" where
  "SYSCALL_ERROR number = of_int (- number)"

definition SYSCALL_EXECVE :: u32int where "SYSCALL_EXECVE = 19"
definition SYSCALL_FORK :: u32int where "SYSCALL_FORK = 20"
definition SYSCALL_EXIT :: u32int where "SYSCALL_EXIT = 21"
definition SYSCALL_SIGRETURN :: u32int where "SYSCALL_SIGRETURN = 25"
definition SYSCALL_COUNT :: u32int where "SYSCALL_COUNT = 30"

definition OPEN_READ_ONLY :: u32int where "OPEN_READ_ONLY = 0"

datatype 's service_result = Done s32int 's | Sleeps cpu 's

text \<open>The bytes of a string up to its terminator. \<open>None\<close>: a page fault, or no terminator at all.\<close>

partial_function (option) user_cstring :: "u32int \<Rightarrow> 'a pstate_scheme \<Rightarrow> u8int list option" where
  "user_cstring a s = do {
     b \<leftarrow> user_load8 a s;
     (if b = 0 then Some [] else do { bs \<leftarrow> user_cstring (a + 1) s; Some (b # bs) }) }"

definition string_bytes :: "string \<Rightarrow> u8int list" where
  "string_bytes cs = map (\<lambda>c. of_nat (of_char c)) cs"

definition resolve_user_path :: "u32int \<Rightarrow> 'a tstate_scheme \<Rightarrow> u32int option" where
  "resolve_user_path path_address s = do {
     bs \<leftarrow> user_cstring path_address s;
     Some (resolve_path_fs (fs_nodes s) (fs_root s) (task_get_working_directory s) (bytes_string bs)) }"

section \<open>Console, clock and identity\<close>

definition service_write :: "u32int \<Rightarrow> 'a mstate_scheme \<Rightarrow> 'a mstate_scheme service_result option" where
  "service_write a s =
     (if a = 0 then Some (Done (-1) s)
      else do { bs \<leftarrow> user_cstring a s; Some (Done 0 (monitor_write bs s)) })"

definition service_putchar :: "u32int \<Rightarrow> 'a mstate_scheme \<Rightarrow> 'a mstate_scheme service_result option" where
  "service_putchar a s = Some (Done 0 (monitor_put (ucast a) s))"

definition service_clear :: "'a mstate_scheme \<Rightarrow> 'a mstate_scheme service_result option" where
  "service_clear s = Some (Done 0 (monitor_clear s))"

definition service_getchar :: "'a mstate_scheme \<Rightarrow> 'a mstate_scheme service_result option" where
  "service_getchar s = (let (ch, s) = keyboard_getchar s in Some (Done (of_int ch) s))"

definition service_getpid :: "'a mstate_scheme \<Rightarrow> 'a mstate_scheme service_result option" where
  "service_getpid s = do { pid \<leftarrow> getpid s; Some (Done pid s) }"

definition timer_ticks :: "'a mstate_scheme \<Rightarrow> u32int" where
  "timer_ticks s = tick s"

definition service_ticks :: "'a mstate_scheme \<Rightarrow> 'a mstate_scheme service_result option" where
  "service_ticks s = Some (Done (timer_ticks s) s)"

definition service_memory :: "'a mstate_scheme \<Rightarrow> 'a mstate_scheme service_result option" where
  "service_memory s = Some (Done (paging_total_memory_kib s) s)"

definition service_hex :: "u32int \<Rightarrow> 'a mstate_scheme \<Rightarrow> 'a mstate_scheme service_result option" where
  "service_hex a s = Some (Done 0 (monitor_write_hex a s))"

definition service_dec :: "u32int \<Rightarrow> 'a mstate_scheme \<Rightarrow> 'a mstate_scheme service_result option" where
  "service_dec a s = Some (Done 0 (monitor_write_dec a s))"

section \<open>Directories\<close>

definition service_readdir :: "u32int \<Rightarrow> u32int \<Rightarrow> u32int \<Rightarrow> 'a mstate_scheme \<Rightarrow> 'a mstate_scheme service_result option" where
  "service_readdir idx name_address capacity s =
     (let directory = task_get_working_directory s
      in if directory = 0 \<or> name_address = 0 \<or> capacity = 0 then Some (Done (-1) s)
         else (case readdir_fs (fs_nodes s) directory idx of
                 None \<Rightarrow> Some (Done 0 s)
               | Some (nm, _) \<Rightarrow> do {
                   s \<leftarrow> user_store name_address (take (unat capacity - 1) (string_bytes nm) @ [0]) s;
                   Some (Done 1 s) }))"

definition service_readfile :: "u32int \<Rightarrow> u32int \<Rightarrow> u32int \<Rightarrow> 'a mstate_scheme \<Rightarrow> 'a mstate_scheme service_result option" where
  "service_readfile name_address buffer_address capacity s =
     (if fs_root s = 0 \<or> name_address = 0 \<or> buffer_address = 0 \<or> capacity = 0 then Some (Done (-1) s)
      else do {
        node \<leftarrow> resolve_user_path name_address s;
        (if node = 0 then Some (Done (-1) s)
         else do {
           n \<leftarrow> fs_nodes s node;
           (if flags n AND 0x7 \<noteq> FS_FILE then Some (Done (-1) s)
            else do {
              let amount = (if node_length n < capacity then node_length n else capacity);
              (got, bs) \<leftarrow> read_fs node 0 amount False s;
              s \<leftarrow> user_store buffer_address bs s;
              Some (Done got s) }) }) })"

definition service_chdir :: "u32int \<Rightarrow> 'a mstate_scheme \<Rightarrow> 'a mstate_scheme service_result option" where
  "service_chdir path_address s =
     (if path_address = 0 \<or> fs_root s = 0 then Some (Done (-1) s)
      else do {
        directory \<leftarrow> resolve_user_path path_address s;
        (if directory = 0 then Some (Done (-1) s)
         else do {
           d \<leftarrow> fs_nodes s directory;
           (if flags d AND 0x7 \<noteq> FS_DIRECTORY then Some (Done (-1) s)
            else do { s \<leftarrow> task_set_working_directory directory s; Some (Done 0 s) }) }) })"

text \<open>What \<open>get_path_fs\<close> has written when it gives up: the components that fitted.\<close>

fun emitted :: "nodes \<Rightarrow> nat \<Rightarrow> string \<Rightarrow> u32int list \<Rightarrow> string" where
  "emitted ns capacity buffer [] = buffer"
| "emitted ns capacity buffer (c # cs) =
     (case ns c of
        None \<Rightarrow> buffer
      | Some n \<Rightarrow>
          (if length buffer + length (node_name n) + (if cs \<noteq> [] then 1 else 0) + 1 > capacity then buffer
           else emitted ns capacity (buffer @ node_name n @ (if cs \<noteq> [] then ''/'' else [])) cs))"

definition service_getcwd :: "u32int \<Rightarrow> u32int \<Rightarrow> 'a mstate_scheme \<Rightarrow> 'a mstate_scheme service_result option" where
  "service_getcwd buffer_address capacity s =
     (let root = fs_root s; node = task_get_working_directory s
      in if buffer_address = 0 \<or> root = 0 \<or> node = 0 \<or> capacity < 2 then Some (Done (-1) s)
         else (case ancestors (fs_nodes s) root node [] of
                 None \<Rightarrow> Some (Done (-1) s)
               | Some components \<Rightarrow>
                   (case get_path_fs (fs_nodes s) root node (unat capacity) of
                      None \<Rightarrow> do {
                        s \<leftarrow> user_store buffer_address (string_bytes (emitted (fs_nodes s) (unat capacity) ''/'' components)) s;
                        Some (Done (-1) s) }
                    | Some path \<Rightarrow> do {
                        s \<leftarrow> user_store buffer_address (string_bytes path @ [0]) s;
                        Some (Done (of_nat (length path)) s) })))"

definition service_mkdir :: "'a mstate_scheme alloc_op \<Rightarrow> u32int \<Rightarrow> 'a mstate_scheme \<Rightarrow> 'a mstate_scheme service_result option" where
  "service_mkdir al path_address s =
     (if path_address = 0 \<or> fs_root s = 0 then Some (Done (-1) s)
      else do {
        bs \<leftarrow> user_cstring path_address s;
        (r, s) \<leftarrow> mkdir_path_fs (kmalloc al) (fs_root s) (task_get_working_directory s) (bytes_string bs) s;
        Some (Done (of_int r) s) })"

section \<open>Descriptors\<close>

definition service_open :: "u32int \<Rightarrow> u32int \<Rightarrow> 'a mstate_scheme \<Rightarrow> 'a mstate_scheme service_result option" where
  "service_open path_address fl s =
     (if path_address = 0 \<or> fs_root s = 0 \<or> fl \<noteq> OPEN_READ_ONLY then Some (Done (SYSCALL_ERROR ERRNO_EINVAL) s)
      else do {
        node \<leftarrow> resolve_user_path path_address s;
        (if node = 0 then Some (Done (SYSCALL_ERROR ERRNO_ENOENT) s)
         else do {
           n \<leftarrow> fs_nodes s node;
           (if flags n AND 0x7 \<noteq> FS_FILE \<or> read_cb n = None
            then Some (Done (if flags n AND 0x7 = FS_DIRECTORY then SYSCALL_ERROR ERRNO_EISDIR else SYSCALL_ERROR ERRNO_ENOENT) s)
            else do {
              (descriptor, s) \<leftarrow> task_open_descriptor node fl s;
              Some (Done (if descriptor < 0 then SYSCALL_ERROR ERRNO_EMFILE else of_int descriptor) s) }) }) })"

text \<open>The second loop of a keyboard read: at most \<open>n\<close> further bytes that are available at once, from
  \<open>buffer\<close> on; the result is their number.\<close>

primrec drain_keyboard :: "nat \<Rightarrow> u32int \<Rightarrow> 'a mstate_scheme \<Rightarrow> (nat \<times> 'a mstate_scheme) option" where
  "drain_keyboard 0 buffer s = Some (0, s)"
| "drain_keyboard (Suc n) buffer s =
     (let (ch, s) = keyboard_getchar s
      in if ch < 0 then Some (0, s)
         else do {
           s \<leftarrow> user_store8 buffer (of_int ch) s;
           (amount, s) \<leftarrow> drain_keyboard n (buffer + 1) s;
           Some (amount + 1, s) })"

text \<open>A round of the first loop and, when a byte is there, the rest of the service.\<close>

definition keyboard_read :: "cpu \<Rightarrow> u32int \<Rightarrow> u32int \<Rightarrow> 'a mstate_scheme \<Rightarrow> 'a mstate_scheme service_result option" where
  "keyboard_read c buffer_address cnt s =
     (let (ch, s) = keyboard_getchar s
      in if ch < 0 then do { (c, s) \<leftarrow> task_wait_for_keyboard c s; Some (Sleeps c s) }
         else do {
           s \<leftarrow> user_store8 buffer_address (of_int ch) s;
           (amount, s) \<leftarrow> drain_keyboard (unat cnt - 1) (buffer_address + 1) s;
           Some (Done (of_nat (amount + 1)) s) })"

text \<open>The end of \<open>task_wait_for_keyboard\<close> and the loop from there.\<close>

definition keyboard_read_resumed :: "cpu \<Rightarrow> u32int \<Rightarrow> u32int \<Rightarrow> 'a mstate_scheme \<Rightarrow> 'a mstate_scheme service_result option" where
  "keyboard_read_resumed c buffer_address cnt s = do {
     wait_for_keyboard_resumed s;
     (if task_has_pending_signal s then Some (Done (SYSCALL_ERROR ERRNO_EINTR) s)
      else keyboard_read c buffer_address cnt s) }"

definition service_fd_read :: "cpu \<Rightarrow> u32int \<Rightarrow> u32int \<Rightarrow> u32int \<Rightarrow> 'a mstate_scheme \<Rightarrow> 'a mstate_scheme service_result option" where
  "service_fd_read c fd buffer_address cnt s =
     (if buffer_address = 0 \<or> cnt = 0 then Some (Done (if cnt = 0 then 0 else SYSCALL_ERROR ERRNO_EFAULT) s)
      else (case task_get_descriptor fd s of
              None \<Rightarrow> Some (Done (SYSCALL_ERROR ERRNO_EBADF) s)
            | Some i \<Rightarrow> do {
                t \<leftarrow> get_current s;
                let d = descriptors t ! i;
                (if kind d = FD_KIND_KEYBOARD then keyboard_read c buffer_address cnt s
                 else if kind d \<noteq> FD_KIND_NODE \<or> fd_node d = 0 then Some (Done (SYSCALL_ERROR ERRNO_EBADF) s)
                 else do {
                   (bytes, bs) \<leftarrow> read_fs (fd_node d) (fd_offset d) cnt False s;
                   s \<leftarrow> user_store buffer_address bs s;
                   Some (Done bytes (set_current (t\<lparr>descriptors := (descriptors t)[i := d\<lparr>fd_offset := fd_offset d + bytes\<rparr>]\<rparr>) s)) }) }))"

definition service_close :: "u32int \<Rightarrow> 'a mstate_scheme \<Rightarrow> 'a mstate_scheme service_result option" where
  "service_close fd s = do {
     (r, s) \<leftarrow> task_close_descriptor fd s;
     Some (Done (if r < 0 then SYSCALL_ERROR ERRNO_EBADF else 0) s) }"

definition service_fd_write :: "u32int \<Rightarrow> u32int \<Rightarrow> u32int \<Rightarrow> 'a mstate_scheme \<Rightarrow> 'a mstate_scheme service_result option" where
  "service_fd_write fd buffer_address cnt s =
     (if cnt = 0 then Some (Done 0 s)
      else if buffer_address = 0 then Some (Done (SYSCALL_ERROR ERRNO_EFAULT) s)
      else (case task_get_descriptor fd s of
              None \<Rightarrow> Some (Done (SYSCALL_ERROR ERRNO_EBADF) s)
            | Some i \<Rightarrow> do {
                t \<leftarrow> get_current s;
                let d = descriptors t ! i;
                (if kind d = FD_KIND_CONSOLE
                 then do {
                   bs \<leftarrow> user_load buffer_address (unat cnt) s;
                   Some (Done cnt (fold monitor_put bs s)) }
                 else if kind d \<noteq> FD_KIND_NODE then Some (Done (SYSCALL_ERROR ERRNO_EBADF) s)
                 else if fd_node d = 0 then Some (Done (SYSCALL_ERROR ERRNO_EROFS) s)
                 else do {
                   n \<leftarrow> fs_nodes s (fd_node d);
                   (if write_cb n = None \<or> fd_flags d = OPEN_READ_ONLY then Some (Done (SYSCALL_ERROR ERRNO_EROFS) s)
                    else do {
                      bytes \<leftarrow> write_fs (fd_node d) False s;
                      Some (Done bytes (set_current (t\<lparr>descriptors := (descriptors t)[i := d\<lparr>fd_offset := fd_offset d + bytes\<rparr>]\<rparr>) s)) }) }) }))"

definition service_lseek :: "u32int \<Rightarrow> u32int \<Rightarrow> u32int \<Rightarrow> 'a mstate_scheme \<Rightarrow> 'a mstate_scheme service_result option" where
  "service_lseek fd off origin s =
     (case task_get_descriptor fd s of
        None \<Rightarrow> Some (Done (SYSCALL_ERROR ERRNO_EBADF) s)
      | Some i \<Rightarrow> do {
          t \<leftarrow> get_current s;
          (if kind (descriptors t ! i) \<noteq> FD_KIND_NODE then Some (Done (SYSCALL_ERROR ERRNO_ESPIPE) s)
           else do {
             (r, s) \<leftarrow> task_seek_descriptor fd off origin s;
             Some (Done (if r < 0 then SYSCALL_ERROR ERRNO_EINVAL else of_int r) s) }) })"

text \<open>The result of \<open>fill_file_status\<close> and the four words of the structure; \<open>node\<close> is what the descriptor's node pointer leads to.\<close>

definition file_status :: "file_descriptor_kind_t \<Rightarrow> fs_node_t option \<Rightarrow> s32int \<times> u32int list" where
  "file_status k node =
     (if k = FD_KIND_KEYBOARD \<or> k = FD_KIND_CONSOLE then (0, [3, 0, 0, 438])
      else case node of
             None \<Rightarrow> (SYSCALL_ERROR ERRNO_EBADF, [0, 0, 0, 0])
           | Some n \<Rightarrow>
               (if k \<noteq> FD_KIND_NODE then (SYSCALL_ERROR ERRNO_EBADF, [0, 0, 0, 0])
                else (let node_type = flags n AND 0x7;
                          type = (if node_type = FS_DIRECTORY then 2 else if node_type = FS_FILE then 1 else 0);
                          mode = (if node_mask n \<noteq> 0 then node_mask n else if type = 2 then 365 else 292)
                      in (if type = 0 then SYSCALL_ERROR ERRNO_EIO else 0, [type, node_length n, inode n, mode]))))"

definition fill_file_status ::
  "file_descriptor_kind_t \<Rightarrow> u32int \<Rightarrow> u32int \<Rightarrow> 'a mstate_scheme \<Rightarrow> 'a mstate_scheme service_result option" where
  "fill_file_status k node status_address s = do {
     n \<leftarrow> (if k = FD_KIND_NODE \<and> node \<noteq> 0 then map_option Some (fs_nodes s node) else Some None);
     let (r, ws) = file_status k n;
     s \<leftarrow> user_store status_address (concat (map word_bytes ws)) s;
     Some (Done r s) }"

definition service_fstat :: "u32int \<Rightarrow> u32int \<Rightarrow> 'a mstate_scheme \<Rightarrow> 'a mstate_scheme service_result option" where
  "service_fstat fd status_address s =
     (if status_address = 0 then Some (Done (SYSCALL_ERROR ERRNO_EFAULT) s)
      else (case task_get_descriptor fd s of
              None \<Rightarrow> Some (Done (SYSCALL_ERROR ERRNO_EBADF) s)
            | Some i \<Rightarrow> do {
                t \<leftarrow> get_current s;
                fill_file_status (kind (descriptors t ! i)) (fd_node (descriptors t ! i)) status_address s }))"

definition service_stat :: "u32int \<Rightarrow> u32int \<Rightarrow> 'a mstate_scheme \<Rightarrow> 'a mstate_scheme service_result option" where
  "service_stat path_address status_address s =
     (if path_address = 0 \<or> status_address = 0 then Some (Done (SYSCALL_ERROR ERRNO_EFAULT) s)
      else do {
        node \<leftarrow> resolve_user_path path_address s;
        (if node = 0 then Some (Done (SYSCALL_ERROR ERRNO_ENOENT) s)
         else fill_file_status FD_KIND_NODE node status_address s) })"

definition service_isatty :: "u32int \<Rightarrow> 'a mstate_scheme \<Rightarrow> 'a mstate_scheme service_result option" where
  "service_isatty fd s =
     (case task_get_descriptor fd s of
        None \<Rightarrow> Some (Done (SYSCALL_ERROR ERRNO_EBADF) s)
      | Some i \<Rightarrow> do {
          t \<leftarrow> get_current s;
          Some (Done (if kind (descriptors t ! i) = FD_KIND_KEYBOARD \<or> kind (descriptors t ! i) = FD_KIND_CONSOLE then 1 else 0) s) })"

section \<open>Processes\<close>

definition service_sbrk :: "'a mstate_scheme alloc_op \<Rightarrow> u32int \<Rightarrow> 'a mstate_scheme \<Rightarrow> 'a mstate_scheme service_result option" where
  "service_sbrk al increment s = do { (r, s) \<leftarrow> task_sbrk al increment s; Some (Done r s) }"

definition service_waitpid :: "u32int \<Rightarrow> u32int \<Rightarrow> 'a mstate_scheme \<Rightarrow> 'a mstate_scheme service_result option" where
  "service_waitpid pid status_address s = do {
     (r, status, s) \<leftarrow> task_waitpid pid s;
     s \<leftarrow> (case status of
             Some v \<Rightarrow> (if status_address \<noteq> 0 then user_store status_address (word_bytes v) s else Some s)
           | None \<Rightarrow> Some s);
     Some (Done (if sint r < 0 then SYSCALL_ERROR ERRNO_ECHILD else r) s) }"

definition service_signal :: "u32int \<Rightarrow> u32int \<Rightarrow> u32int \<Rightarrow> 'a mstate_scheme \<Rightarrow> 'a mstate_scheme service_result option" where
  "service_signal signal_number handler trampoline s = do {
     (r, s) \<leftarrow> task_signal_set_handler signal_number handler trampoline s;
     Some (Done (if sint r < 0 then SYSCALL_ERROR ERRNO_EINVAL else r) s) }"

definition service_kill :: "u32int \<Rightarrow> u32int \<Rightarrow> 'a mstate_scheme \<Rightarrow> 'a mstate_scheme service_result option" where
  "service_kill process_id signal_number s = do {
     (r, s) \<leftarrow> task_signal_send process_id signal_number s;
     Some (Done (if r < 0 then SYSCALL_ERROR ERRNO_ESRCH else 0) s) }"

section \<open>The dispatcher\<close>

text \<open>The table \<open>services\<close>; \<open>None\<close> at the empty entries is the failed assertion.\<close>

definition service ::
  "'a mstate_scheme alloc_op \<Rightarrow> cpu \<Rightarrow> u32int \<Rightarrow> u32int \<Rightarrow> u32int \<Rightarrow> u32int \<Rightarrow> 'a mstate_scheme \<Rightarrow> 'a mstate_scheme service_result option" where
  "service al c number a b d s =
     (if number = 0 then service_write a s else if number = 1 then service_putchar a s
      else if number = 2 then service_clear s else if number = 3 then service_getchar s
      else if number = 4 then service_readdir a b d s else if number = 5 then service_readfile a b d s
      else if number = 6 then service_getpid s else if number = 7 then service_ticks s
      else if number = 8 then service_memory s else if number = 9 then service_hex a s
      else if number = 10 then service_dec a s else if number = 11 then service_open a b s
      else if number = 12 then service_fd_read c a b d s else if number = 13 then service_close a s
      else if number = 14 then service_fd_write a b d s else if number = 15 then service_chdir a s
      else if number = 16 then service_getcwd a b s else if number = 17 then service_mkdir al a s
      else if number = 18 then service_sbrk al a s else if number = 22 then service_waitpid a b s
      else if number = 23 then service_signal a b d s else if number = 24 then service_kill a b s
      else if number = 26 then service_lseek a b d s else if number = 27 then service_fstat a b s
      else if number = 28 then service_stat a b s else if number = 29 then service_isatty a s
      else None)"

definition finish_service :: "cpu \<Rightarrow> registers_t \<Rightarrow> 'a mstate_scheme service_result \<Rightarrow> 'a mstate_scheme outcome option" where
  "finish_service c regs r =
     (case r of
        Done v s \<Rightarrow> task_signal_deliver c (regs\<lparr>eax := v\<rparr>) s
      | Sleeps c s \<Rightarrow> Some (Switched c s))"

definition syscall_handler ::
  "'a mstate_scheme alloc_op \<Rightarrow> u32int \<Rightarrow> cpu \<Rightarrow> registers_t \<Rightarrow> 'a mstate_scheme \<Rightarrow> 'a mstate_scheme outcome option" where
  "syscall_handler al resume c regs s =
     (if eax regs \<ge> SYSCALL_COUNT then task_signal_deliver c (regs\<lparr>eax := SYSCALL_ERROR ERRNO_ENOSYS\<rparr>) s
      else if eax regs = SYSCALL_EXECVE
      then do {
        (r, regs, s) \<leftarrow> process_execve al (ebx regs) (ecx regs) (edx regs) regs s;
        task_signal_deliver c (if r < 0 then regs\<lparr>eax := SYSCALL_ERROR ERRNO_ENOEXEC\<rparr> else regs) s }
      else if eax regs = SYSCALL_FORK
      then do {
        (child, s) \<leftarrow> task_fork_from_frame al resume regs s;
        task_signal_deliver c (regs\<lparr>eax := (if sint child < 0 then SYSCALL_ERROR ERRNO_ENOMEM else child)\<rparr>) s }
      else if eax regs = SYSCALL_EXIT
      then do { (c, s) \<leftarrow> task_exit c (ebx regs) s; Some (Switched c s) }
      else if eax regs = SYSCALL_SIGRETURN
      then do {
        (r, regs, s) \<leftarrow> task_signal_return (ebx regs) regs s;
        task_signal_deliver c (if r < 0 then regs\<lparr>eax := -1\<rparr> else regs) s }
      else do {
        r \<leftarrow> service al c (eax regs) (ebx regs) (ecx regs) (edx regs) s;
        finish_service c regs r })"

text \<open>The rest of a keyboard read that slept, when the scheduler has come back to it.\<close>

definition syscall_resumed :: "cpu \<Rightarrow> registers_t \<Rightarrow> 'a mstate_scheme \<Rightarrow> 'a mstate_scheme outcome option" where
  "syscall_resumed c regs s = do {
     r \<leftarrow> keyboard_read_resumed c (ecx regs) (edx regs) s;
     finish_service c regs r }"

definition initialise_syscalls :: "'a mstate_scheme \<Rightarrow> 'a mstate_scheme" where
  "initialise_syscalls s = register_interrupt_handler 0x80 syscall_handler_isr s"

end
