(* ===== verification/Descriptor_Tables.thy ===== *)
theory Descriptor_Tables
  imports Keyboard
begin

text \<open>
  The segment and interrupt descriptor tables (\<open>src/descriptor_tables.c\<close>). The addresses of the
  tables and of the assembly entry points are parameters: \<open>stub n\<close> is the entry point of vector
  \<open>n\<close> (\<open>isr0\<close> to \<open>isr31\<close>, \<open>irq0\<close> to \<open>irq15\<close>, \<open>isr128\<close>). The instructions that load the
  table registers have no state here.
\<close>

section \<open>Structures\<close>

record gdt_entry_t =
  limit_low :: u16int
  base_low :: u16int
  base_middle :: u8int
  access :: u8int
  granularity :: u8int
  base_high :: u8int

record idt_entry_t =
  base_lo :: u16int
  idt_sel :: u16int
  always0 :: u8int
  idt_flags :: u8int
  base_hi :: u16int

text \<open>The format of the operand of \<open>lgdt\<close> and \<open>lidt\<close>.\<close>

record table_ptr_t =
  ptr_limit :: u16int
  ptr_base :: u32int

text \<open>The fields of the task state segment that are not always 0; \<open>esp0\<close> is \<open>tss_esp0\<close>.\<close>

record tss_entry_t =
  ss0 :: u32int
  tss_es :: u32int
  tss_cs :: u32int
  tss_ss :: u32int
  tss_ds :: u32int
  tss_fs :: u32int
  tss_gs :: u32int
  iomap_base :: u16int

record dstate = mstate +
  gdt_entries :: "gdt_entry_t list"
  gdt_ptr :: table_ptr_t
  idt_entries :: "idt_entry_t list"
  idt_ptr :: table_ptr_t
  tss_entry :: tss_entry_t

section \<open>Segments\<close>

definition gdt_set_gate :: "nat \<Rightarrow> u32int \<Rightarrow> u32int \<Rightarrow> u8int \<Rightarrow> u8int \<Rightarrow> 'a dstate_scheme \<Rightarrow> 'a dstate_scheme" where
  "gdt_set_gate num base limit acc gran s = s\<lparr>gdt_entries := (gdt_entries s)[num :=
     \<lparr>limit_low = ucast (limit AND 0xFFFF), base_low = ucast (base AND 0xFFFF),
      base_middle = ucast (drop_bit 16 base AND 0xFF), access = acc,
      granularity = ucast (drop_bit 16 limit AND 0x0F) OR (gran AND 0xF0),
      base_high = ucast (drop_bit 24 base AND 0xFF)\<rparr>]\<rparr>"

definition sizeof_tss :: u32int where "sizeof_tss = 104"

definition write_tss :: "u32int \<Rightarrow> nat \<Rightarrow> u16int \<Rightarrow> u32int \<Rightarrow> 'a dstate_scheme \<Rightarrow> 'a dstate_scheme" where
  "write_tss tss_address num ss0' esp0 s =
     (let s = gdt_set_gate num tss_address (sizeof_tss - 1) 0xE9 0x00 s
      in s\<lparr>tss_esp0 := esp0,
           tss_entry := \<lparr>ss0 = ucast ss0', tss_es = 0x13, tss_cs = 0x0b, tss_ss = 0x13, tss_ds = 0x13, tss_fs = 0x13,
             tss_gs = 0x13, iomap_base = ucast sizeof_tss\<rparr>\<rparr>)"

definition init_gdt :: "u32int \<Rightarrow> u32int \<Rightarrow> 'a dstate_scheme \<Rightarrow> 'a dstate_scheme" where
  "init_gdt gdt_address tss_address s =
     (let s = s\<lparr>gdt_ptr := \<lparr>ptr_limit = 8 * 6 - 1, ptr_base = gdt_address\<rparr>\<rparr>;
          s = gdt_set_gate 0 0 0 0 0 s;
          s = gdt_set_gate 1 0 0xFFFFFFFF 0x9A 0xCF s;
          s = gdt_set_gate 2 0 0xFFFFFFFF 0x92 0xCF s;
          s = gdt_set_gate 3 0 0xFFFFFFFF 0xFA 0xCF s;
          s = gdt_set_gate 4 0 0xFFFFFFFF 0xF2 0xCF s
      in write_tss tss_address 5 0x10 0x0 s)"

section \<open>Interrupt gates\<close>

definition zero_gate :: idt_entry_t where
  "zero_gate = \<lparr>base_lo = 0, idt_sel = 0, always0 = 0, idt_flags = 0, base_hi = 0\<rparr>"

definition idt_set_gate :: "u8int \<Rightarrow> u32int \<Rightarrow> u16int \<Rightarrow> u8int \<Rightarrow> 'a dstate_scheme \<Rightarrow> 'a dstate_scheme" where
  "idt_set_gate num base sel fl s = s\<lparr>idt_entries := (idt_entries s)[unat num :=
     \<lparr>base_lo = ucast (base AND 0xFFFF), idt_sel = sel, always0 = 0, idt_flags = fl OR 0x60,
      base_hi = ucast (drop_bit 16 base AND 0xFFFF)\<rparr>]\<rparr>"

text \<open>The command sequence that moves the interrupt lines to the vectors 32 to 47.\<close>

definition remap_pics :: "'a dstate_scheme \<Rightarrow> 'a dstate_scheme" where
  "remap_pics s = fold (\<lambda>(p, v). outb p v)
     [(0x20, 0x11), (0xA0, 0x11), (0x21, 0x20), (0xA1, 0x28), (0x21, 0x04), (0xA1, 0x02), (0x21, 0x01), (0xA1, 0x01),
      (0x21, 0x0), (0xA1, 0x0)] s"

text \<open>The 49 calls of \<open>idt_set_gate\<close>, all with selector \<open>0x08\<close> and flags \<open>0x8E\<close>.\<close>

definition vectors :: "u8int list" where
  "vectors = map of_nat [0..<48] @ [128]"

definition init_idt :: "u32int \<Rightarrow> (u8int \<Rightarrow> u32int) \<Rightarrow> 'a dstate_scheme \<Rightarrow> 'a dstate_scheme" where
  "init_idt idt_address stub s =
     (let s = s\<lparr>idt_ptr := \<lparr>ptr_limit = 8 * 256 - 1, ptr_base = idt_address\<rparr>, idt_entries := replicate 256 zero_gate\<rparr>;
          s = remap_pics s
      in fold (\<lambda>n s. idt_set_gate n (stub n) 0x08 0x8E s) vectors s)"

definition init_descriptor_tables :: "u32int \<Rightarrow> u32int \<Rightarrow> u32int \<Rightarrow> (u8int \<Rightarrow> u32int) \<Rightarrow> 'a dstate_scheme \<Rightarrow> 'a dstate_scheme" where
  "init_descriptor_tables gdt_address tss_address idt_address stub s =
     (init_idt idt_address stub (init_gdt gdt_address tss_address s))\<lparr>interrupt_handlers := (\<lambda>_. None)\<rparr>"

section \<open>What the processor reads\<close>

definition segment_base :: "gdt_entry_t \<Rightarrow> u32int" where
  "segment_base e = ucast (base_low e) OR push_bit 16 (ucast (base_middle e)) OR push_bit 24 (ucast (base_high e))"

definition segment_limit :: "gdt_entry_t \<Rightarrow> u32int" where
  "segment_limit e = ucast (limit_low e) OR push_bit 16 (ucast (granularity e AND 0x0F))"

text \<open>The bytes a segment spans: the limit counts bytes, or pages of 4 KiB when the granularity bit is set.\<close>

definition segment_span :: "gdt_entry_t \<Rightarrow> nat" where
  "segment_span e = (unat (segment_limit e) + 1) * (if bit (granularity e) 7 then 4096 else 1)"

text \<open>The access byte: presence, privilege level, and kind. A code segment may be readable, a data segment
  writable; a system segment has a type of four bits (9 is an available 32-bit task state segment).\<close>

datatype segment_kind = Code_segment bool | Data_segment bool | System_segment nat

definition segment_present :: "gdt_entry_t \<Rightarrow> bool" where
  "segment_present e = bit (access e) 7"

definition segment_dpl :: "gdt_entry_t \<Rightarrow> nat" where
  "segment_dpl e = unat (drop_bit 5 (access e) AND 3)"

definition kind_of_segment :: "gdt_entry_t \<Rightarrow> segment_kind" where
  "kind_of_segment e =
     (if bit (access e) 4 then (if bit (access e) 3 then Code_segment (bit (access e) 1) else Data_segment (bit (access e) 1))
      else System_segment (unat (access e AND 0xF)))"

text \<open>The default operand size of a segment is 32 bits.\<close>

definition segment_32bit :: "gdt_entry_t \<Rightarrow> bool" where
  "segment_32bit e = bit (granularity e) 6"

lemmas segment_defs = segment_base_def segment_limit_def segment_span_def segment_present_def segment_dpl_def kind_of_segment_def segment_32bit_def

definition gate_offset :: "idt_entry_t \<Rightarrow> u32int" where
  "gate_offset g = ucast (base_lo g) OR push_bit 16 (ucast (base_hi g))"

text \<open>Present, descriptor privilege level, and type of a gate.\<close>

definition gate_dpl :: "idt_entry_t \<Rightarrow> nat" where
  "gate_dpl g = unat (drop_bit 5 (idt_flags g) AND 3)"

lemma masks: "(0xFFFF :: u32int) = mask 16" "(0xFF :: u32int) = mask 8" "(0x0F :: u32int) = mask 4" "(0xFFFFF :: u32int) = mask 20"
  "(0x0F :: u8int) = mask 4" "(0xF0 :: u8int) = NOT (mask 4)"
  by (simp_all add: mask_eq_exp_minus_1)

lemma gate_roundtrip:
  "gate_offset \<lparr>base_lo = ucast (base AND 0xFFFF), idt_sel = sel, always0 = z, idt_flags = fl, base_hi = ucast (drop_bit 16 base AND 0xFFFF)\<rparr> = base"
proof (rule bit_word_eqI)
  fix n assume "n < LENGTH(32)"
  then have "n < 32" by simp
  then show "bit (gate_offset \<lparr>base_lo = ucast (base AND 0xFFFF), idt_sel = sel, always0 = z, idt_flags = fl,
      base_hi = ucast (drop_bit 16 base AND 0xFFFF)\<rparr>) n = bit base n"
    by (simp only: gate_offset_def idt_entry_t.select_convs masks) (cases "n < 16"; auto simp: bit_simps)
qed

lemma segment_roundtrip:
  fixes base limit :: u32int and gran acc :: u8int
  defines "e \<equiv> \<lparr>limit_low = ucast (limit AND 0xFFFF), base_low = ucast (base AND 0xFFFF),
      base_middle = ucast (drop_bit 16 base AND 0xFF), access = acc,
      granularity = ucast (drop_bit 16 limit AND 0x0F) OR (gran AND 0xF0), base_high = ucast (drop_bit 24 base AND 0xFF)\<rparr>"
  shows "segment_base e = base" "segment_limit e = limit AND 0xFFFFF"
proof -
  show "segment_base e = base"
  proof (rule bit_word_eqI)
    fix n assume "n < LENGTH(32)"
    then have "n < 32" by simp
    then show "bit (segment_base e) n = bit base n"
      by (simp only: e_def segment_base_def gdt_entry_t.select_convs masks) (cases "n < 16"; cases "n < 24"; auto simp: bit_simps)
  qed
  show "segment_limit e = limit AND 0xFFFFF"
  proof (rule bit_word_eqI)
    fix n assume "n < LENGTH(32)"
    then have "n < 32" by simp
    then show "bit (segment_limit e) n = bit (limit AND 0xFFFFF) n"
      by (simp only: e_def segment_limit_def gdt_entry_t.select_convs masks) (cases "n < 16"; cases "n < 20"; auto simp: bit_simps)
  qed
qed

lemma idt_set_gates:
  assumes "length (idt_entries s) = 256" "distinct ns"
  shows "length (idt_entries (fold (\<lambda>n s. idt_set_gate n (stub n) sel fl s) ns s)) = 256 \<and>
    (\<forall>v. idt_entries (fold (\<lambda>n s. idt_set_gate n (stub n) sel fl s) ns s) ! unat v =
      (if v \<in> set ns then \<lparr>base_lo = ucast (stub v AND 0xFFFF), idt_sel = sel, always0 = 0, idt_flags = fl OR 0x60,
         base_hi = ucast (drop_bit 16 (stub v) AND 0xFFFF)\<rparr> else idt_entries s ! unat v))"
  using assms
proof (induction ns arbitrary: s)
  case (Cons n ns)
  have u: "unat (v :: u8int) < 256" for v using unsigned_less [of v, where ?'a = nat] by simp
  have l: "length (idt_entries (idt_set_gate n (stub n) sel fl s)) = 256" using Cons.prems(1) by (simp add: idt_set_gate_def)
  show ?case using Cons.IH [OF l] Cons.prems u by (auto simp: idt_set_gate_def nth_list_update word_unat_eq_iff [symmetric])
qed simp

end
