(* ===== verification/Interrupts.thy ===== *)
theory Interrupts
  imports Syscall Descriptor_Tables
begin

text \<open>
  Interrupt dispatch (\<open>src/isr.c\<close>), the clock (\<open>src/timer.c\<close>) and the boot sequence (\<open>src/main.c\<close>).

  The byte that the keyboard controller offers at port \<open>0x60\<close> is an argument of the interrupt.
  A task that is preempted leaves its frame on its kernel stack, which \<open>resume\<close> of the
  scheduler finds again; the outcome \<open>Switched\<close> carries the registers of the next task only.
\<close>

section \<open>The clock\<close>

definition timer_callback :: "cpu \<Rightarrow> registers_t \<Rightarrow> 'a mstate_scheme \<Rightarrow> 'a mstate_scheme outcome option" where
  "timer_callback c regs s = do {
     let s = s\<lparr>tick := tick s + 1\<rparr>;
     out \<leftarrow> task_signal_deliver c regs s;
     (case out of
        Returns regs s \<Rightarrow> do {
          (c, s') \<leftarrow> switch_task c s;
          Some (if current_task s' = current_task s then Returns regs s' else Switched c s') }
      | Switched c s \<Rightarrow> Some (Switched c s)) }"

definition init_timer :: "u32int \<Rightarrow> 'a mstate_scheme \<Rightarrow> 'a mstate_scheme option" where
  "init_timer frequency s = do {
     ASSERT (frequency > 0);
     let s = register_interrupt_handler IRQ0 timer_callback_isr s;
     let divisor = 1193180 div frequency;
     ASSERT (divisor > 0 \<and> divisor \<le> 0xFFFF);
     let s = outb 0x43 0x36 s;
     let s = outb 0x40 (ucast (divisor AND 0xFF)) s;
     Some (outb 0x40 (ucast (drop_bit 8 divisor AND 0xFF)) s) }"

section \<open>Dispatch\<close>

definition run_handler ::
  "'a mstate_scheme alloc_op \<Rightarrow> u32int \<Rightarrow> u8int \<Rightarrow> isr_t \<Rightarrow> cpu \<Rightarrow> registers_t \<Rightarrow> 'a mstate_scheme \<Rightarrow> 'a mstate_scheme outcome option" where
  "run_handler al resume scancode h c regs s =
     (case h of
        page_fault_isr \<Rightarrow> do { s \<leftarrow> page_fault (err_code regs) s; Some (Returns regs s) }
      | timer_callback_isr \<Rightarrow> timer_callback c regs s
      | keyboard_interrupt_isr \<Rightarrow> Some (Returns regs (keyboard_interrupt scancode s))
      | syscall_handler_isr \<Rightarrow> syscall_handler al resume c regs s)"

text \<open>An interrupt without a handler prints its number and stops the machine.\<close>

definition isr_handler ::
  "'a mstate_scheme alloc_op \<Rightarrow> u32int \<Rightarrow> u8int \<Rightarrow> cpu \<Rightarrow> registers_t \<Rightarrow> 'a mstate_scheme \<Rightarrow> 'a mstate_scheme outcome option" where
  "isr_handler al resume scancode c regs s =
     (case interrupt_handlers s (ucast (int_no regs AND 0xFF)) of
        Some h \<Rightarrow> run_handler al resume scancode h c regs s
      | None \<Rightarrow> None)"

text \<open>The acknowledgement of the interrupt controllers comes first. The numbers of the hardware
  interrupts are 32 to 47; the handler is looked up without truncating the number, so a number past the 256 entries
  of the table would be an access outside it, which is \<open>None\<close>.\<close>

definition acknowledge :: "u32int \<Rightarrow> 'a mstate_scheme \<Rightarrow> 'a mstate_scheme" where
  "acknowledge n s = outb 0x20 0x20 (if n \<ge> 40 then outb 0xA0 0x20 s else s)"

definition irq_handler ::
  "'a mstate_scheme alloc_op \<Rightarrow> u32int \<Rightarrow> u8int \<Rightarrow> cpu \<Rightarrow> registers_t \<Rightarrow> 'a mstate_scheme \<Rightarrow> 'a mstate_scheme outcome option" where
  "irq_handler al resume scancode c regs s =
     (let s = acknowledge (int_no regs) s
      in if int_no regs > 0xFF then None
         else case interrupt_handlers s (ucast (int_no regs)) of
           Some h \<Rightarrow> run_handler al resume scancode h c regs s
         | None \<Rightarrow> Some (Returns regs s))"

section \<open>Boot\<close>

text \<open>The fields of the multiboot information that the kernel reads.\<close>

record multiboot =
  mb_flags :: u32int
  mem_upper :: u32int
  mods_count :: u32int
  mods_addr :: u32int

definition MULTIBOOT_FLAG_MEM :: u32int where "MULTIBOOT_FLAG_MEM = 0x001"

text \<open>\<open>main\<close> up to the idle loop. The addresses of the tables and entry points that the linker chooses
  are parameters; \<open>initialise_paging\<close> registers the page fault handler, which is part of the state
  here.\<close>

definition kernel_main ::
  "nat \<Rightarrow> u32int \<Rightarrow> u32int \<Rightarrow> u32int \<Rightarrow> (u8int \<Rightarrow> u32int) \<Rightarrow> u32int \<Rightarrow> multiboot \<Rightarrow> u32int \<Rightarrow> cpu \<Rightarrow> 'a dstate_scheme
     \<Rightarrow> (cpu \<times> 'a dstate_scheme) option" where
  "kernel_main depth gdt tss idt stub mother_process_entry mboot initial_stack c s = do {
     let s = init_descriptor_tables gdt tss idt stub s;
     let s = monitor_clear s;
     s \<leftarrow> init_timer 50 s;
     ASSERT (mods_count mboot > 0);
     let location = load32 (mem s) (mods_addr mboot);
     let end_address = load32 (mem s) (mods_addr mboot + 4);
     let s = s\<lparr>placement_address := end_address\<rparr>;
     ASSERT (mb_flags mboot AND MULTIBOOT_FLAG_MEM \<noteq> 0);
     ASSERT (mem_upper mboot \<le> (0xFFFFFFFF - 0x100000) div 1024);
     let physical_memory_end = 0x100000 + mem_upper mboot * 1024;
     let s = monitor_write (string_bytes ''Multiboot contiguous memory: '') s;
     let s = monitor_write_dec (mem_upper mboot + 1024) s;
     let s = monitor_write (string_bytes '' KiB (~'') s;
     let s = monitor_write_dec (physical_memory_end div (1024 * 1024)) s;
     let s = monitor_write (string_bytes '' MiB)'' @ [10]) s;
     s \<leftarrow> initialise_paging depth physical_memory_end s;
     let s = register_interrupt_handler 14 page_fault_isr s;
     let al = kernel_alloc depth;
     (c, s) \<leftarrow> initialise_tasking al initial_stack c s;
     (root, s) \<leftarrow> initialise_initrd (kmalloc al) location end_address s;
     let s = s\<lparr>fs_root := root\<rparr>;
     s \<leftarrow> task_set_working_directory root s;
     let s = initialise_syscalls s;
     let s = initialise_keyboard s;
     (mother_pid, s) \<leftarrow> create_initial_user_process al mother_process_entry s;
     ASSERT (mother_pid = 1);
     let s = monitor_write (string_bytes ''Started user mother process with PID '') s;
     let s = monitor_write_dec mother_pid s;
     Some (c, monitor_write (string_bytes ''; it will fork shell PID 2.'' @ [10]) s) }"

end
