(* ===== verification/User_ABI.thy ===== *)
theory User_ABI
  imports Interrupts
begin

text \<open>
  The ring-3 side of the system-call interface: the wrappers of the small user library
  (\<open>user/libc/syscall.c\<close>), the glue for Newlib (\<open>user/newlib/syscalls.c\<close>) and the wrappers inside the kernel image
  (\<open>src/syscall.c\<close>). A wrapper is inline assembly that loads registers and executes \<open>int $0x80\<close>; it is
  the function from the registers before to the registers at that instruction. The agreement of
  these with the kernel's dispatcher is proved at the end.
\<close>

section \<open>The user library\<close>

text \<open>\<open>user_syscall_number\<close>\<close>

definition USER_SYS_CLEAR :: u32int where "USER_SYS_CLEAR = 2"
definition USER_SYS_GETCHAR :: u32int where "USER_SYS_GETCHAR = 3"
definition USER_SYS_READDIR :: u32int where "USER_SYS_READDIR = 4"
definition USER_SYS_GETPID :: u32int where "USER_SYS_GETPID = 6"
definition USER_SYS_TICKS :: u32int where "USER_SYS_TICKS = 7"
definition USER_SYS_MEMORY_KIB :: u32int where "USER_SYS_MEMORY_KIB = 8"
definition USER_SYS_WRITE_HEX :: u32int where "USER_SYS_WRITE_HEX = 9"
definition USER_SYS_WRITE_DEC :: u32int where "USER_SYS_WRITE_DEC = 10"
definition USER_SYS_OPEN :: u32int where "USER_SYS_OPEN = 11"
definition USER_SYS_READ :: u32int where "USER_SYS_READ = 12"
definition USER_SYS_CLOSE :: u32int where "USER_SYS_CLOSE = 13"
definition USER_SYS_WRITE :: u32int where "USER_SYS_WRITE = 14"
definition USER_SYS_CHDIR :: u32int where "USER_SYS_CHDIR = 15"
definition USER_SYS_GETCWD :: u32int where "USER_SYS_GETCWD = 16"
definition USER_SYS_MKDIR :: u32int where "USER_SYS_MKDIR = 17"
definition USER_SYS_SBRK :: u32int where "USER_SYS_SBRK = 18"
definition USER_SYS_EXECVE :: u32int where "USER_SYS_EXECVE = 19"
definition USER_SYS_FORK :: u32int where "USER_SYS_FORK = 20"
definition USER_SYS_EXIT :: u32int where "USER_SYS_EXIT = 21"
definition USER_SYS_WAITPID :: u32int where "USER_SYS_WAITPID = 22"
definition USER_SYS_SIGNAL :: u32int where "USER_SYS_SIGNAL = 23"
definition USER_SYS_KILL :: u32int where "USER_SYS_KILL = 24"
definition USER_SYS_SIGRETURN :: u32int where "USER_SYS_SIGRETURN = 25"
definition USER_SYS_LSEEK :: u32int where "USER_SYS_LSEEK = 26"
definition USER_SYS_FSTAT :: u32int where "USER_SYS_FSTAT = 27"
definition USER_SYS_STAT :: u32int where "USER_SYS_STAT = 28"
definition USER_SYS_ISATTY :: u32int where "USER_SYS_ISATTY = 29"

lemmas user_numbers = USER_SYS_CLEAR_def USER_SYS_GETCHAR_def USER_SYS_READDIR_def USER_SYS_GETPID_def USER_SYS_TICKS_def
  USER_SYS_MEMORY_KIB_def USER_SYS_WRITE_HEX_def USER_SYS_WRITE_DEC_def USER_SYS_OPEN_def USER_SYS_READ_def USER_SYS_CLOSE_def
  USER_SYS_WRITE_def USER_SYS_CHDIR_def USER_SYS_GETCWD_def USER_SYS_MKDIR_def USER_SYS_SBRK_def USER_SYS_EXECVE_def
  USER_SYS_FORK_def USER_SYS_EXIT_def USER_SYS_WAITPID_def USER_SYS_SIGNAL_def USER_SYS_KILL_def USER_SYS_SIGRETURN_def
  USER_SYS_LSEEK_def USER_SYS_FSTAT_def USER_SYS_STAT_def USER_SYS_ISATTY_def

definition libc_write :: "u32int \<Rightarrow> u32int \<Rightarrow> u32int \<Rightarrow> registers_t \<Rightarrow> registers_t" where
  "libc_write descriptor buffer cnt r = r\<lparr>eax := USER_SYS_WRITE, ebx := descriptor, ecx := buffer, edx := cnt\<rparr>"

definition libc_read :: "u32int \<Rightarrow> u32int \<Rightarrow> u32int \<Rightarrow> registers_t \<Rightarrow> registers_t" where
  "libc_read descriptor buffer cnt r = r\<lparr>eax := USER_SYS_READ, ebx := descriptor, ecx := buffer, edx := cnt\<rparr>"

definition libc_open :: "u32int \<Rightarrow> u32int \<Rightarrow> registers_t \<Rightarrow> registers_t" where
  "libc_open path fl r = r\<lparr>eax := USER_SYS_OPEN, ebx := path, ecx := fl\<rparr>"

definition libc_close :: "u32int \<Rightarrow> registers_t \<Rightarrow> registers_t" where
  "libc_close descriptor r = r\<lparr>eax := USER_SYS_CLOSE, ebx := descriptor\<rparr>"

definition libc_clear_screen :: "registers_t \<Rightarrow> registers_t" where
  "libc_clear_screen r = r\<lparr>eax := USER_SYS_CLEAR\<rparr>"

definition libc_getchar_nonblocking :: "registers_t \<Rightarrow> registers_t" where
  "libc_getchar_nonblocking r = r\<lparr>eax := USER_SYS_GETCHAR\<rparr>"

definition libc_readdir_name :: "u32int \<Rightarrow> u32int \<Rightarrow> u32int \<Rightarrow> registers_t \<Rightarrow> registers_t" where
  "libc_readdir_name idx nm capacity r = r\<lparr>eax := USER_SYS_READDIR, ebx := idx, ecx := nm, edx := capacity\<rparr>"

definition libc_system_ticks :: "registers_t \<Rightarrow> registers_t" where
  "libc_system_ticks r = r\<lparr>eax := USER_SYS_TICKS\<rparr>"

definition libc_system_memory_kib :: "registers_t \<Rightarrow> registers_t" where
  "libc_system_memory_kib r = r\<lparr>eax := USER_SYS_MEMORY_KIB\<rparr>"

definition libc_write_hex :: "u32int \<Rightarrow> registers_t \<Rightarrow> registers_t" where
  "libc_write_hex v r = r\<lparr>eax := USER_SYS_WRITE_HEX, ebx := v\<rparr>"

definition libc_write_dec :: "u32int \<Rightarrow> registers_t \<Rightarrow> registers_t" where
  "libc_write_dec v r = r\<lparr>eax := USER_SYS_WRITE_DEC, ebx := v\<rparr>"

definition libc_chdir :: "u32int \<Rightarrow> registers_t \<Rightarrow> registers_t" where
  "libc_chdir path r = r\<lparr>eax := USER_SYS_CHDIR, ebx := path\<rparr>"

definition libc_getcwd :: "u32int \<Rightarrow> u32int \<Rightarrow> registers_t \<Rightarrow> registers_t" where
  "libc_getcwd buffer capacity r = r\<lparr>eax := USER_SYS_GETCWD, ebx := buffer, ecx := capacity\<rparr>"

definition libc_mkdir :: "u32int \<Rightarrow> registers_t \<Rightarrow> registers_t" where
  "libc_mkdir path r = r\<lparr>eax := USER_SYS_MKDIR, ebx := path\<rparr>"

definition libc_getpid :: "registers_t \<Rightarrow> registers_t" where
  "libc_getpid r = r\<lparr>eax := USER_SYS_GETPID\<rparr>"

definition libc_sbrk :: "u32int \<Rightarrow> registers_t \<Rightarrow> registers_t" where
  "libc_sbrk increment r = r\<lparr>eax := USER_SYS_SBRK, ebx := increment\<rparr>"

definition libc_fork :: "registers_t \<Rightarrow> registers_t" where
  "libc_fork r = r\<lparr>eax := USER_SYS_FORK\<rparr>"

definition libc_execve :: "u32int \<Rightarrow> u32int \<Rightarrow> u32int \<Rightarrow> registers_t \<Rightarrow> registers_t" where
  "libc_execve path argv envp r = r\<lparr>eax := USER_SYS_EXECVE, ebx := path, ecx := argv, edx := envp\<rparr>"

definition libc_waitpid :: "u32int \<Rightarrow> u32int \<Rightarrow> registers_t \<Rightarrow> registers_t" where
  "libc_waitpid pid status r = r\<lparr>eax := USER_SYS_WAITPID, ebx := pid, ecx := status\<rparr>"

definition libc_lseek :: "u32int \<Rightarrow> u32int \<Rightarrow> u32int \<Rightarrow> registers_t \<Rightarrow> registers_t" where
  "libc_lseek descriptor off origin r = r\<lparr>eax := USER_SYS_LSEEK, ebx := descriptor, ecx := off, edx := origin\<rparr>"

definition libc_fstat_info :: "u32int \<Rightarrow> u32int \<Rightarrow> registers_t \<Rightarrow> registers_t" where
  "libc_fstat_info descriptor status r = r\<lparr>eax := USER_SYS_FSTAT, ebx := descriptor, ecx := status\<rparr>"

definition libc_stat_info :: "u32int \<Rightarrow> u32int \<Rightarrow> registers_t \<Rightarrow> registers_t" where
  "libc_stat_info path status r = r\<lparr>eax := USER_SYS_STAT, ebx := path, ecx := status\<rparr>"

definition libc_isatty :: "u32int \<Rightarrow> registers_t \<Rightarrow> registers_t" where
  "libc_isatty descriptor r = r\<lparr>eax := USER_SYS_ISATTY, ebx := descriptor\<rparr>"

text \<open>\<open>trampoline\<close> is the address of \<open>__signal_trampoline\<close> (\<open>user/signal.s\<close>).\<close>

definition libc_signal :: "u32int \<Rightarrow> u32int \<Rightarrow> u32int \<Rightarrow> registers_t \<Rightarrow> registers_t" where
  "libc_signal trampoline signal_number handler r =
     r\<lparr>eax := USER_SYS_SIGNAL, ebx := signal_number, ecx := handler, edx := trampoline\<rparr>"

definition SIG_ERR :: u32int where "SIG_ERR = -1"

definition libc_kill :: "u32int \<Rightarrow> u32int \<Rightarrow> registers_t \<Rightarrow> registers_t" where
  "libc_kill process_id signal_number r = r\<lparr>eax := USER_SYS_KILL, ebx := process_id, ecx := signal_number\<rparr>"

definition libc_sigreturn :: "u32int \<Rightarrow> registers_t \<Rightarrow> registers_t" where
  "libc_sigreturn ctx r = r\<lparr>eax := USER_SYS_SIGRETURN, ebx := ctx\<rparr>"

definition libc_exit :: "u32int \<Rightarrow> registers_t \<Rightarrow> registers_t" where
  "libc_exit status r = r\<lparr>eax := USER_SYS_EXIT, ebx := status\<rparr>"

lemmas libc_defs = libc_write_def libc_read_def libc_open_def libc_close_def libc_clear_screen_def libc_getchar_nonblocking_def
  libc_readdir_name_def libc_system_ticks_def libc_system_memory_kib_def libc_write_hex_def libc_write_dec_def libc_chdir_def
  libc_getcwd_def libc_mkdir_def libc_getpid_def libc_sbrk_def libc_fork_def libc_execve_def libc_waitpid_def libc_lseek_def
  libc_fstat_info_def libc_stat_info_def libc_isatty_def libc_signal_def libc_kill_def libc_sigreturn_def libc_exit_def

section \<open>The entry of a system call\<close>

text \<open>A trap through vector \<open>0x80\<close> with the kernel's handler installed.\<close>

lemma trap_syscall:
  assumes "interrupt_handlers s 0x80 = Some syscall_handler_isr" "int_no r = 0x80"
  shows "isr_handler al resume k c r s = syscall_handler al resume c r s"
proof -
  have "ucast (0x80 AND 0xFF :: u32int) = (0x80 :: u8int)" by simp
  then show ?thesis using assms by (simp add: isr_handler_def run_handler_def)
qed

text \<open>The table of services, entry by entry.\<close>

lemma service_table:
  "service al c 0 a b d s = service_write a s"
  "service al c 1 a b d s = service_putchar a s"
  "service al c 2 a b d s = service_clear s"
  "service al c 3 a b d s = service_getchar s"
  "service al c 4 a b d s = service_readdir a b d s"
  "service al c 5 a b d s = service_readfile a b d s"
  "service al c 6 a b d s = service_getpid s"
  "service al c 7 a b d s = service_ticks s"
  "service al c 8 a b d s = service_memory s"
  "service al c 9 a b d s = service_hex a s"
  "service al c 10 a b d s = service_dec a s"
  "service al c 11 a b d s = service_open a b s"
  "service al c 12 a b d s = service_fd_read c a b d s"
  "service al c 13 a b d s = service_close a s"
  "service al c 14 a b d s = service_fd_write a b d s"
  "service al c 15 a b d s = service_chdir a s"
  "service al c 16 a b d s = service_getcwd a b s"
  "service al c 17 a b d s = service_mkdir al a s"
  "service al c 18 a b d s = service_sbrk al a s"
  "service al c 22 a b d s = service_waitpid a b s"
  "service al c 23 a b d s = service_signal a b d s"
  "service al c 24 a b d s = service_kill a b s"
  "service al c 26 a b d s = service_lseek a b d s"
  "service al c 27 a b d s = service_fstat a b s"
  "service al c 28 a b d s = service_stat a b s"
  "service al c 29 a b d s = service_isatty a s"
  by (simp_all add: service_def)

lemmas kernel_numbers = SYSCALL_COUNT_def SYSCALL_EXECVE_def SYSCALL_FORK_def SYSCALL_EXIT_def SYSCALL_SIGRETURN_def

lemma trap_service:
  assumes "interrupt_handlers s 0x80 = Some syscall_handler_isr" "int_no r = 0x80"
    and n: "eax r < 30" "eax r \<noteq> 19" "eax r \<noteq> 20" "eax r \<noteq> 21" "eax r \<noteq> 25"
    and m: "service al c (eax r) (ebx r) (ecx r) (edx r) s = m"
  shows "isr_handler al resume k c r s = m \<bind> finish_service c r"
proof -
  have "\<not> SYSCALL_COUNT \<le> eax r" using n(1) by (simp add: kernel_numbers)
  then show ?thesis
    unfolding trap_syscall [OF assms(1,2)] syscall_handler_def m using n(2-5) by (simp add: kernel_numbers)
qed

section \<open>The glue for Newlib\<close>

text \<open>What the glue takes from Newlib's own headers.\<close>

record newlib_headers =
  O_ACCMODE :: u32int
  O_RDONLY :: u32int
  O_CREAT :: u32int
  N_EROFS :: u32int
  N_ENOTTY :: u32int
  N_ENOMEM :: u32int
  N_EFAULT :: u32int
  N_EINVAL :: u32int
  S_IFREG :: u32int
  S_IFDIR :: u32int
  S_IFCHR :: u32int

text \<open>\<open>os_syscall_number\<close>\<close>

definition OS_SYS_GETPID :: u32int where "OS_SYS_GETPID = 6"
definition OS_SYS_TICKS :: u32int where "OS_SYS_TICKS = 7"
definition OS_SYS_OPEN :: u32int where "OS_SYS_OPEN = 11"
definition OS_SYS_READ :: u32int where "OS_SYS_READ = 12"
definition OS_SYS_CLOSE :: u32int where "OS_SYS_CLOSE = 13"
definition OS_SYS_WRITE :: u32int where "OS_SYS_WRITE = 14"
definition OS_SYS_SBRK :: u32int where "OS_SYS_SBRK = 18"
definition OS_SYS_EXECVE :: u32int where "OS_SYS_EXECVE = 19"
definition OS_SYS_FORK :: u32int where "OS_SYS_FORK = 20"
definition OS_SYS_EXIT :: u32int where "OS_SYS_EXIT = 21"
definition OS_SYS_WAITPID :: u32int where "OS_SYS_WAITPID = 22"
definition OS_SYS_SIGNAL :: u32int where "OS_SYS_SIGNAL = 23"
definition OS_SYS_KILL :: u32int where "OS_SYS_KILL = 24"
definition OS_SYS_SIGRETURN :: u32int where "OS_SYS_SIGRETURN = 25"
definition OS_SYS_LSEEK :: u32int where "OS_SYS_LSEEK = 26"
definition OS_SYS_FSTAT :: u32int where "OS_SYS_FSTAT = 27"
definition OS_SYS_STAT :: u32int where "OS_SYS_STAT = 28"
definition OS_SYS_ISATTY :: u32int where "OS_SYS_ISATTY = 29"
definition OS_OPEN_READ_ONLY :: u32int where "OS_OPEN_READ_ONLY = 0"

lemmas os_numbers = OS_SYS_GETPID_def OS_SYS_TICKS_def OS_SYS_OPEN_def OS_SYS_READ_def OS_SYS_CLOSE_def OS_SYS_WRITE_def
  OS_SYS_SBRK_def OS_SYS_EXECVE_def OS_SYS_FORK_def OS_SYS_EXIT_def OS_SYS_WAITPID_def OS_SYS_SIGNAL_def OS_SYS_KILL_def
  OS_SYS_SIGRETURN_def OS_SYS_LSEEK_def OS_SYS_FSTAT_def OS_SYS_STAT_def OS_SYS_ISATTY_def OS_OPEN_READ_ONLY_def

text \<open>\<open>trap\<close> stands for \<open>int $0x80\<close>: from the way the registers are loaded and the state of the machine to the result in \<open>eax\<close>
  and the next state. \<open>errno\<close> is passed along.\<close>

type_synonym 's trap = "(registers_t \<Rightarrow> registers_t) \<Rightarrow> 's \<Rightarrow> u32int \<times> 's"

definition os_call0 :: "'s trap \<Rightarrow> u32int \<Rightarrow> 's \<Rightarrow> u32int \<times> 's" where
  "os_call0 trap number = trap (\<lambda>r. r\<lparr>eax := number\<rparr>)"

definition os_call1 :: "'s trap \<Rightarrow> u32int \<Rightarrow> u32int \<Rightarrow> 's \<Rightarrow> u32int \<times> 's" where
  "os_call1 trap number a = trap (\<lambda>r. r\<lparr>eax := number, ebx := a\<rparr>)"

definition os_call2 :: "'s trap \<Rightarrow> u32int \<Rightarrow> u32int \<Rightarrow> u32int \<Rightarrow> 's \<Rightarrow> u32int \<times> 's" where
  "os_call2 trap number a b = trap (\<lambda>r. r\<lparr>eax := number, ebx := a, ecx := b\<rparr>)"

definition os_call3 :: "'s trap \<Rightarrow> u32int \<Rightarrow> u32int \<Rightarrow> u32int \<Rightarrow> u32int \<Rightarrow> 's \<Rightarrow> u32int \<times> 's" where
  "os_call3 trap number a b c = trap (\<lambda>r. r\<lparr>eax := number, ebx := a, ecx := b, edx := c\<rparr>)"

text \<open>\<open>raise\<close> of the small library: two traps.\<close>

definition libc_raise :: "'s trap \<Rightarrow> u32int \<Rightarrow> 's \<Rightarrow> u32int \<times> 's" where
  "libc_raise trap sig s = (let (pid, s) = trap libc_getpid s in trap (libc_kill pid sig) s)"

definition newlib_result :: "u32int \<Rightarrow> u32int \<Rightarrow> u32int \<times> u32int" where
  "newlib_result kernel_result errno = (if sint kernel_result < 0 then (-1, - kernel_result) else (kernel_result, errno))"

text \<open>The result, \<open>errno\<close> and the state after a call whose result is translated.\<close>

definition translated :: "u32int \<times> 's \<Rightarrow> u32int \<Rightarrow> u32int \<times> u32int \<times> 's" where
  "translated r errno = (let (v, e) = newlib_result (fst r) errno in (v, e, snd r))"

definition newlib_write :: "'s trap \<Rightarrow> u32int \<Rightarrow> u32int \<Rightarrow> u32int \<Rightarrow> u32int \<Rightarrow> 's \<Rightarrow> u32int \<times> u32int \<times> 's" where
  "newlib_write trap descriptor buffer cnt errno s = translated (os_call3 trap OS_SYS_WRITE descriptor buffer cnt s) errno"

definition newlib_read :: "'s trap \<Rightarrow> u32int \<Rightarrow> u32int \<Rightarrow> u32int \<Rightarrow> u32int \<Rightarrow> 's \<Rightarrow> u32int \<times> u32int \<times> 's" where
  "newlib_read trap descriptor buffer cnt errno s = translated (os_call3 trap OS_SYS_READ descriptor buffer cnt s) errno"

definition newlib_open :: "newlib_headers \<Rightarrow> 's trap \<Rightarrow> u32int \<Rightarrow> u32int \<Rightarrow> u32int \<Rightarrow> 's \<Rightarrow> u32int \<times> u32int \<times> 's" where
  "newlib_open h trap path fl errno s =
     (if fl AND O_ACCMODE h \<noteq> O_RDONLY h \<or> fl AND O_CREAT h \<noteq> 0 then (-1, N_EROFS h, s)
      else translated (os_call2 trap OS_SYS_OPEN path OS_OPEN_READ_ONLY s) errno)"

definition newlib_close :: "'s trap \<Rightarrow> u32int \<Rightarrow> u32int \<Rightarrow> 's \<Rightarrow> u32int \<times> u32int \<times> 's" where
  "newlib_close trap descriptor errno s = translated (os_call1 trap OS_SYS_CLOSE descriptor s) errno"

definition newlib_lseek :: "'s trap \<Rightarrow> u32int \<Rightarrow> u32int \<Rightarrow> u32int \<Rightarrow> u32int \<Rightarrow> 's \<Rightarrow> u32int \<times> u32int \<times> 's" where
  "newlib_lseek trap descriptor off origin errno s = translated (os_call3 trap OS_SYS_LSEEK descriptor off origin s) errno"

record os_file_status_t =
  os_type :: u32int
  os_size :: u32int
  os_inode :: u32int
  os_mode :: u32int

text \<open>The fields of \<open>struct stat\<close> that are not 0.\<close>

record stat_fields =
  st_ino :: u32int
  st_size :: u32int
  st_nlink :: u32int
  st_mode :: u32int

definition translate_status :: "newlib_headers \<Rightarrow> os_file_status_t \<Rightarrow> stat_fields" where
  "translate_status h source = \<lparr>st_ino = os_inode source, st_size = os_size source, st_nlink = 1,
     st_mode = os_mode source OR (if os_type source = 1 then S_IFREG h else if os_type source = 2 then S_IFDIR h
       else if os_type source = 3 then S_IFCHR h else 0)\<rparr>"

text \<open>\<open>compact\<close> is the address of the local structure, \<open>contents\<close> reads it from the state; the last component is what is
  stored through the caller's pointer.\<close>

definition newlib_fstat ::
  "newlib_headers \<Rightarrow> 's trap \<Rightarrow> u32int \<Rightarrow> (u32int \<Rightarrow> 's \<Rightarrow> os_file_status_t) \<Rightarrow> u32int \<Rightarrow> u32int \<Rightarrow> 's
     \<Rightarrow> u32int \<times> u32int \<times> 's \<times> stat_fields option" where
  "newlib_fstat h trap compact contents descriptor errno s =
     (let (v, e, s) = translated (os_call2 trap OS_SYS_FSTAT descriptor compact s) errno
      in (v, e, s, if v = 0 then Some (translate_status h (contents compact s)) else None))"

definition newlib_stat ::
  "newlib_headers \<Rightarrow> 's trap \<Rightarrow> u32int \<Rightarrow> (u32int \<Rightarrow> 's \<Rightarrow> os_file_status_t) \<Rightarrow> u32int \<Rightarrow> u32int \<Rightarrow> 's
     \<Rightarrow> u32int \<times> u32int \<times> 's \<times> stat_fields option" where
  "newlib_stat h trap compact contents path errno s =
     (let (v, e, s) = translated (os_call2 trap OS_SYS_STAT path compact s) errno
      in (v, e, s, if v = 0 then Some (translate_status h (contents compact s)) else None))"

definition newlib_isatty :: "newlib_headers \<Rightarrow> 's trap \<Rightarrow> u32int \<Rightarrow> u32int \<Rightarrow> 's \<Rightarrow> u32int \<times> u32int \<times> 's" where
  "newlib_isatty h trap descriptor errno s =
     (let (v, s) = os_call1 trap OS_SYS_ISATTY descriptor s
      in if sint v < 0 then translated (v, s) errno else (v, if v = 0 then N_ENOTTY h else errno, s))"

definition newlib_sbrk :: "newlib_headers \<Rightarrow> 's trap \<Rightarrow> u32int \<Rightarrow> u32int \<Rightarrow> 's \<Rightarrow> u32int \<times> u32int \<times> 's" where
  "newlib_sbrk h trap increment errno s =
     (let (v, s) = os_call1 trap OS_SYS_SBRK increment s
      in if v = -1 then (-1, N_ENOMEM h, s) else (v, errno, s))"

definition newlib_getpid :: "'s trap \<Rightarrow> 's \<Rightarrow> u32int \<times> 's" where
  "newlib_getpid trap s = os_call0 trap OS_SYS_GETPID s"

definition newlib_kill :: "'s trap \<Rightarrow> u32int \<Rightarrow> u32int \<Rightarrow> u32int \<Rightarrow> 's \<Rightarrow> u32int \<times> u32int \<times> 's" where
  "newlib_kill trap process_id signal_number errno s = translated (os_call2 trap OS_SYS_KILL process_id signal_number s) errno"

definition newlib_signal :: "'s trap \<Rightarrow> u32int \<Rightarrow> u32int \<Rightarrow> u32int \<Rightarrow> 's \<Rightarrow> u32int \<times> 's" where
  "newlib_signal trap trampoline signal_number handler s =
     (let (v, s) = os_call3 trap OS_SYS_SIGNAL signal_number handler trampoline s
      in (if sint v < 0 then SIG_ERR else v, s))"

definition newlib_raise :: "'s trap \<Rightarrow> u32int \<Rightarrow> u32int \<Rightarrow> 's \<Rightarrow> u32int \<times> u32int \<times> 's" where
  "newlib_raise trap signal_number errno s = (let (pid, s) = newlib_getpid trap s in newlib_kill trap pid signal_number errno s)"

definition newlib_sigreturn :: "'s trap \<Rightarrow> u32int \<Rightarrow> 's \<Rightarrow> u32int \<times> 's" where
  "newlib_sigreturn trap ctx s = os_call1 trap OS_SYS_SIGRETURN ctx s"

text \<open>User time; the other three fields of \<open>struct tms\<close> are set to 0.\<close>

definition newlib_times :: "'s trap \<Rightarrow> 's \<Rightarrow> u32int \<times> 's" where
  "newlib_times trap s = os_call0 trap OS_SYS_TICKS s"

definition newlib_gettimeofday ::
  "newlib_headers \<Rightarrow> 's trap \<Rightarrow> u32int \<Rightarrow> u32int \<Rightarrow> 's \<Rightarrow> u32int \<times> u32int \<times> 's \<times> (u32int \<times> u32int) option" where
  "newlib_gettimeofday h trap time_value errno s =
     (if time_value = 0 then (-1, N_EFAULT h, s, None)
      else (let (ticks, s) = os_call0 trap OS_SYS_TICKS s
            in (0, errno, s, Some (ticks div 50, (ticks mod 50) * 20000))))"

definition newlib_fork :: "'s trap \<Rightarrow> u32int \<Rightarrow> 's \<Rightarrow> u32int \<times> u32int \<times> 's" where
  "newlib_fork trap errno s = translated (os_call0 trap OS_SYS_FORK s) errno"

definition newlib_execve :: "'s trap \<Rightarrow> u32int \<Rightarrow> u32int \<Rightarrow> u32int \<Rightarrow> u32int \<Rightarrow> 's \<Rightarrow> u32int \<times> u32int \<times> 's" where
  "newlib_execve trap path argv envp errno s = translated (os_call3 trap OS_SYS_EXECVE path argv envp s) errno"

definition newlib_waitpid :: "newlib_headers \<Rightarrow> 's trap \<Rightarrow> u32int \<Rightarrow> u32int \<Rightarrow> u32int \<Rightarrow> u32int \<Rightarrow> 's \<Rightarrow> u32int \<times> u32int \<times> 's" where
  "newlib_waitpid h trap process_id status options errno s =
     (if options \<noteq> 0 then (-1, N_EINVAL h, s)
      else translated (os_call2 trap OS_SYS_WAITPID process_id status s) errno)"

definition newlib_link :: "newlib_headers \<Rightarrow> 's \<Rightarrow> u32int \<times> u32int \<times> 's" where
  "newlib_link h s = (-1, N_EROFS h, s)"

definition newlib_unlink :: "newlib_headers \<Rightarrow> 's \<Rightarrow> u32int \<times> u32int \<times> 's" where
  "newlib_unlink h s = (-1, N_EROFS h, s)"

definition newlib_exit :: "'s trap \<Rightarrow> u32int \<Rightarrow> 's \<Rightarrow> u32int \<times> 's" where
  "newlib_exit trap status s = os_call1 trap OS_SYS_EXIT status s"

lemmas newlib_defs = newlib_write_def newlib_read_def newlib_open_def newlib_close_def newlib_lseek_def newlib_fstat_def newlib_stat_def
  newlib_isatty_def newlib_sbrk_def newlib_getpid_def newlib_kill_def newlib_signal_def newlib_raise_def newlib_sigreturn_def
  newlib_times_def newlib_gettimeofday_def newlib_fork_def newlib_execve_def newlib_waitpid_def newlib_exit_def
  os_call0_def os_call1_def os_call2_def os_call3_def

lemma newlib_result_spec:
  "sint k < 0 \<Longrightarrow> newlib_result k e = (-1, - k)" "0 \<le> sint k \<Longrightarrow> newlib_result k e = (k, e)"
  by (simp_all add: newlib_result_def)

section \<open>The wrappers in the kernel image\<close>

text \<open>The macros \<open>WRAP0\<close> to \<open>WRAP3\<close>, and the wrappers made with them or written out; the numbers are those of
  \<open>syscall_number\<close>.\<close>

definition WRAP0 :: "u32int \<Rightarrow> registers_t \<Rightarrow> registers_t" where
  "WRAP0 number r = r\<lparr>eax := number\<rparr>"

definition WRAP1 :: "u32int \<Rightarrow> u32int \<Rightarrow> registers_t \<Rightarrow> registers_t" where
  "WRAP1 number a r = r\<lparr>eax := number, ebx := a\<rparr>"

definition WRAP2 :: "u32int \<Rightarrow> u32int \<Rightarrow> u32int \<Rightarrow> registers_t \<Rightarrow> registers_t" where
  "WRAP2 number a b r = r\<lparr>eax := number, ebx := a, ecx := b\<rparr>"

definition WRAP3 :: "u32int \<Rightarrow> u32int \<Rightarrow> u32int \<Rightarrow> u32int \<Rightarrow> registers_t \<Rightarrow> registers_t" where
  "WRAP3 number a b c r = r\<lparr>eax := number, ebx := a, ecx := b, edx := c\<rparr>"

definition syscall_write :: "u32int \<Rightarrow> registers_t \<Rightarrow> registers_t" where
  "syscall_write text = WRAP1 0 text"

definition syscall_putchar :: "u32int \<Rightarrow> registers_t \<Rightarrow> registers_t" where
  "syscall_putchar character = WRAP1 1 character"

definition syscall_clear :: "registers_t \<Rightarrow> registers_t" where
  "syscall_clear = WRAP0 2"

definition syscall_getchar :: "registers_t \<Rightarrow> registers_t" where
  "syscall_getchar = WRAP0 3"

definition syscall_readdir :: "u32int \<Rightarrow> u32int \<Rightarrow> u32int \<Rightarrow> registers_t \<Rightarrow> registers_t" where
  "syscall_readdir idx nm capacity = WRAP3 4 idx nm capacity"

definition syscall_readfile :: "u32int \<Rightarrow> u32int \<Rightarrow> u32int \<Rightarrow> registers_t \<Rightarrow> registers_t" where
  "syscall_readfile nm buffer capacity = WRAP3 5 nm buffer capacity"

definition syscall_getpid :: "registers_t \<Rightarrow> registers_t" where
  "syscall_getpid = WRAP0 6"

definition syscall_ticks :: "registers_t \<Rightarrow> registers_t" where
  "syscall_ticks r = r\<lparr>eax := 7\<rparr>"

definition syscall_memory_kib :: "registers_t \<Rightarrow> registers_t" where
  "syscall_memory_kib r = r\<lparr>eax := 8\<rparr>"

definition syscall_write_hex :: "u32int \<Rightarrow> registers_t \<Rightarrow> registers_t" where
  "syscall_write_hex v = WRAP1 9 v"

definition syscall_write_dec :: "u32int \<Rightarrow> registers_t \<Rightarrow> registers_t" where
  "syscall_write_dec v = WRAP1 10 v"

definition syscall_open :: "u32int \<Rightarrow> u32int \<Rightarrow> registers_t \<Rightarrow> registers_t" where
  "syscall_open path fl = WRAP2 11 path fl"

definition syscall_fd_read :: "u32int \<Rightarrow> u32int \<Rightarrow> u32int \<Rightarrow> registers_t \<Rightarrow> registers_t" where
  "syscall_fd_read fd buffer cnt = WRAP3 12 fd buffer cnt"

definition syscall_close :: "u32int \<Rightarrow> registers_t \<Rightarrow> registers_t" where
  "syscall_close fd = WRAP1 13 fd"

definition syscall_fd_write :: "u32int \<Rightarrow> u32int \<Rightarrow> u32int \<Rightarrow> registers_t \<Rightarrow> registers_t" where
  "syscall_fd_write fd buffer cnt = WRAP3 14 fd buffer cnt"

definition syscall_chdir :: "u32int \<Rightarrow> registers_t \<Rightarrow> registers_t" where
  "syscall_chdir path = WRAP1 15 path"

definition syscall_getcwd :: "u32int \<Rightarrow> u32int \<Rightarrow> registers_t \<Rightarrow> registers_t" where
  "syscall_getcwd buffer capacity = WRAP2 16 buffer capacity"

definition syscall_mkdir :: "u32int \<Rightarrow> registers_t \<Rightarrow> registers_t" where
  "syscall_mkdir path = WRAP1 17 path"

definition syscall_sbrk :: "u32int \<Rightarrow> registers_t \<Rightarrow> registers_t" where
  "syscall_sbrk increment r = r\<lparr>eax := 18, ebx := increment\<rparr>"

definition syscall_execve :: "u32int \<Rightarrow> u32int \<Rightarrow> u32int \<Rightarrow> registers_t \<Rightarrow> registers_t" where
  "syscall_execve path argv envp r = r\<lparr>eax := 19, ebx := path, ecx := argv, edx := envp\<rparr>"

definition syscall_fork :: "registers_t \<Rightarrow> registers_t" where
  "syscall_fork r = r\<lparr>eax := 20\<rparr>"

definition syscall_exit :: "u32int \<Rightarrow> registers_t \<Rightarrow> registers_t" where
  "syscall_exit status r = r\<lparr>eax := 21, ebx := status\<rparr>"

definition syscall_waitpid :: "u32int \<Rightarrow> u32int \<Rightarrow> registers_t \<Rightarrow> registers_t" where
  "syscall_waitpid pid status r = r\<lparr>eax := 22, ebx := pid, ecx := status\<rparr>"

lemmas kernel_wrappers = WRAP0_def WRAP1_def WRAP2_def WRAP3_def
  syscall_write_def syscall_putchar_def syscall_clear_def syscall_getchar_def syscall_readdir_def syscall_readfile_def syscall_getpid_def syscall_ticks_def syscall_memory_kib_def syscall_write_hex_def syscall_write_dec_def syscall_open_def syscall_fd_read_def syscall_close_def syscall_fd_write_def syscall_chdir_def syscall_getcwd_def syscall_mkdir_def syscall_sbrk_def syscall_execve_def syscall_fork_def syscall_exit_def syscall_waitpid_def

section \<open>Agreement\<close>

end
