(* ===== verification/Framing.thy ===== *)
theory Framing
  imports Task
begin

text \<open>
  Memory management keeps to itself: no operation of the heap and of paging changes the state
  that extends \<open>pstate\<close>, which holds the file system and the tasks, and none but
  \<open>switch_page_directory\<close> changes which directory is current. The lemmas are stated for the
  extension part \<open>pstate.more\<close> of the state and collected in \<open>frame\<close>.
\<close>

named_theorems frame "operations that leave the extension of the paging state alone"

definition keeps :: "'a pstate_scheme \<Rightarrow> 'a pstate_scheme \<Rightarrow> bool" where
  "keeps s s' \<longleftrightarrow> pstate.more s' = pstate.more s \<and> kernel_directory s' = kernel_directory s \<and>
     current_directory s' = current_directory s"

lemma keeps_refl [simp, intro]: "keeps s s" by (simp add: keeps_def)
lemma keeps_trans [trans]: "\<lbrakk>keeps s t; keeps t u\<rbrakk> \<Longrightarrow> keeps s u" by (simp add: keeps_def)

lemma keeps_upd [simp]:
  "keeps s (s'\<lparr>mem := m\<rparr>) = keeps s s'" "keeps s (s'\<lparr>kheap := h\<rparr>) = keeps s s'"
  "keeps s (s'\<lparr>placement_address := p\<rparr>) = keeps s s'" "keeps s (s'\<lparr>fmap := f\<rparr>) = keeps s s'"
  "keeps s (s'\<lparr>page_tables := t\<rparr>) = keeps s s'" "keeps s (s'\<lparr>directories := d\<rparr>) = keeps s s'"
  "keeps s (s'\<lparr>pmem := pm\<rparr>) = keeps s s'"
  by (simp_all add: keeps_def)

text \<open>An operation that keeps the extension whenever it returns.\<close>

definition keeper :: "('r \<Rightarrow> 'a pstate_scheme) \<Rightarrow> ('a pstate_scheme \<Rightarrow> 'r option) \<Rightarrow> bool" where
  "keeper st f \<longleftrightarrow> (\<forall>s r. f s = Some r \<longrightarrow> keeps s (st r))"

lemma keeperD: "\<lbrakk>keeper st f; f s = Some r\<rbrakk> \<Longrightarrow> keeps s (st r)"
  by (simp add: keeper_def)

lemma keeper_step: "\<lbrakk>keeper st f; f s = Some r; keeps s0 s\<rbrakk> \<Longrightarrow> keeps s0 (st r)"
  by (rule keeps_trans [OF _ keeperD])

section \<open>Pages and frames\<close>

lemma write_page_keeps [frame]: "keeper (\<lambda>s. s) (write_page p pg)"
  by (auto simp: keeper_def write_page_def bind_Some_iff split: if_splits)

lemma alloc_frame_keeps [frame]: "keeper (\<lambda>s. s) (alloc_frame p k w)"
proof -
  have "keeps s s'" if "write_page p' pg (s\<lparr>fmap := fm\<rparr>) = Some s'" for p' pg fm and s s' :: "'a pstate_scheme"
    using keeperD [OF write_page_keeps that] by (simp add: keeps_def)
  then show ?thesis by (auto simp: keeper_def alloc_frame_def bind_Some_iff PANIC_def split: if_splits)
qed

lemma free_frame_keeps [frame]: "keeper (\<lambda>s. s) (free_frame p)"
proof -
  have "keeps s s'" if "write_page p' pg (s\<lparr>fmap := fm\<rparr>) = Some s'" for p' pg fm and s s' :: "'a pstate_scheme"
    using keeperD [OF write_page_keeps that] by (simp add: keeps_def)
  then show ?thesis by (auto simp: keeper_def free_frame_def bind_Some_iff split: if_splits)
qed

abbreviation keeps_alloc_p :: "'a pstate_scheme kmalloc_p \<Rightarrow> bool" where
  "keeps_alloc_p km \<equiv> \<forall>sz. keeper (\<lambda>(_, _, s). s) (km sz)"

abbreviation keeps_alloc :: "'a pstate_scheme alloc_op \<Rightarrow> bool" where
  "keeps_alloc al \<equiv> \<forall>sz page_align. keeper snd (al sz page_align)"

lemma get_page_keeps [frame]:
  assumes "mk \<longrightarrow> keeps_alloc_p km"
  shows "keeper snd (get_page km address mk dir)"
  unfolding keeper_def
proof (intro allI impI)
  fix s :: "'a pstate_scheme" and r assume "get_page km address mk dir s = Some r"
  then consider "snd r = s" | t tmp s1 where "mk" "km sizeof_page_table s = Some (t, tmp, s1)" "keeps s1 (snd r)"
    by (auto simp: get_page_def bind_Some_iff Let_def split: if_splits)
  then show "keeps s (snd r)"
  proof cases
    case (2 t tmp s1)
    then have "keeps s s1" using assms keeperD [of "\<lambda>(_, _, s). s" "km sizeof_page_table" s "(t, tmp, s1)"] by simp
    then show ?thesis using 2(3) by (rule keeps_trans)
  qed simp
qed

lemma get_page_find_keeps: "keeper snd (get_page (\<lambda>_ _. None) address False dir)"
  by (rule get_page_keeps) simp

section \<open>Allocation\<close>

lemma kmalloc_int_keeps [frame]:
  assumes "keeps_alloc al"
  shows "keeper (\<lambda>(_, _, s). s) (kmalloc_int al sz align phys)"
  unfolding keeper_def
proof (intro allI impI)
  fix s :: "'a pstate_scheme" and r assume r: "kmalloc_int al sz align phys s = Some r"
  show "keeps s (case r of (_, _, s) \<Rightarrow> s)"
  proof (cases "kheap s")
    case None
    then show ?thesis using r by (auto simp: kmalloc_int_def bind_Some_iff Let_def split: if_splits)
  next
    case (Some h)
    then obtain a s1 where a: "al sz align s = Some (a, s1)"
      using r by (auto simp: kmalloc_int_def bind_Some_iff)
    have 1: "keeps s s1" using assms keeperD [of snd "al sz align" s "(a, s1)"] a by simp
    have "keeps s1 (case r of (_, _, s) \<Rightarrow> s)"
      using r a Some keeperD [OF get_page_find_keeps, of a "kernel_directory s1" s1]
      by (auto simp: kmalloc_int_def bind_Some_iff split: if_splits)
    with 1 show ?thesis by (rule keeps_trans)
  qed
qed

lemma kmalloc_keeps [frame]:
  assumes "keeps_alloc al"
  shows "keeper snd (kmalloc al sz)" "keeper snd (kmalloc_a al sz)" "keeper (\<lambda>(_, _, s). s) (kmalloc_ap al sz)"
  using kmalloc_int_keeps [OF assms, unfolded keeper_def]
  by (fastforce simp: keeper_def kmalloc_def kmalloc_a_def kmalloc_ap_def bind_Some_iff)+

lemma heap_map_page_keeps [frame]:
  assumes "keeps_alloc al"
  shows "keeper (\<lambda>s. s) (heap_map_page al k w a)"
  unfolding keeper_def
proof (intro allI impI)
  fix s s' :: "'a pstate_scheme" assume "heap_map_page al k w a s = Some s'"
  then obtain p s1 where s1: "get_page (kmalloc_ap al) a True (kernel_directory s) s = Some (p, s1)" "alloc_frame p k w s1 = Some s'"
    by (auto simp: heap_map_page_def bind_Some_iff)
  have "keeper snd (get_page (kmalloc_ap al) a True (kernel_directory s))"
    by (rule get_page_keeps) (use kmalloc_keeps(3) [OF assms] in blast)
  from keeper_step [OF alloc_frame_keeps s1(2)] keeperD [OF this s1(1)] show "keeps s s'" by simp
qed

lemma expand_pages_keeps:
  assumes "\<And>a. keeper (\<lambda>s. s) (f a)"
  shows "keeper (\<lambda>s. s) (expand_pages f start i n)"
proof -
  have "keeps s s'" if "expand_pages f start i n s = Some s'" for s s'
    using that
  proof (induction "n - i" arbitrary: i s rule: less_induct)
    case less
    show ?case
    proof (cases "i < n")
      case True
      then obtain s1 where s1: "f (start + of_nat i) s = Some s1" "expand_pages f start (i + 0x1000) n s1 = Some s'"
        using less.prems by (subst (asm) expand_pages.simps) (auto simp: bind_Some_iff)
      have "keeps s1 s'" by (rule less.hyps [OF _ s1(2)]) (use True in simp)
      then show ?thesis using keeperD [OF assms s1(1)] keeps_trans by blast
    next
      case False
      then show ?thesis using less.prems by (subst (asm) expand_pages.simps) simp
    qed
  qed
  then show ?thesis by (simp add: keeper_def)
qed

lemma alloc_body_keeps:
  assumes "\<And>su wr a. keeper (\<lambda>s. s) (f su wr a)" "keeps_alloc g"
  shows "keeper snd (alloc_body f g sz al)"
  unfolding keeper_def
proof (intro allI impI)
  fix s :: "'a pstate_scheme" and r assume r: "alloc_body f g sz al s = Some r"
  have carve: "keeps s (snd r)" if "carve_hole i sz al s = Some r" for i
    using that by (auto simp: carve_hole_def bind_Some_iff Let_def split: prod.splits if_splits)
  have grow: "keeps s s1" if ret: "grow_heap f n s = Some s1" for n s1
  proof -
    obtain len e s2 where s2: "expand f (len + n) s = Some s2" "publish_growth len e s2 = Some s1"
      using ret by (auto simp: grow_heap_def bind_Some_iff Let_def split: if_splits)
    have "keeps s2 s1" using s2(2) by (auto simp: publish_growth_def bind_Some_iff Let_def split: if_splits)
    moreover have "keeps s s2"
      using s2(1) keeperD [OF expand_pages_keeps [OF assms(1)]] by (auto simp: expand_def bind_Some_iff Let_def split: if_splits)
    ultimately show ?thesis using keeps_trans by blast
  qed
  obtain it h where it: "find_smallest_hole (mem s) (sz + 12 + 8) al h = Some it"
      "(case it of None \<Rightarrow> do { s \<leftarrow> grow_heap f (sz + 12 + 8) s; g sz al s } | Some i \<Rightarrow> carve_hole i sz al s) = Some r"
    using r unfolding alloc_body_def bind_Some_iff Let_def by blast
  show "keeps s (snd r)"
  proof (cases it)
    case None
    then obtain s1 where "grow_heap f (sz + 12 + 8) s = Some s1" "g sz al s1 = Some r" using it(2) by (auto simp: bind_Some_iff)
    then show ?thesis using grow assms(2) keeperD [of snd "g sz al" s1 r] keeps_trans by blast
  next
    case (Some i)
    then show ?thesis using it(2) carve by simp
  qed
qed

lemma kernel_alloc_keeps [frame]: "keeps_alloc (kernel_alloc n)"
proof (induction n)
  case 0
  then show ?case by (simp add: keeper_def)
next
  case (Suc n)
  then show ?case using alloc_body_keeps [OF heap_map_page_keeps [OF Suc] Suc] by simp
qed

section \<open>Address spaces\<close>

lemma clone_pages_keeps: "keeper (\<lambda>s. s) (clone_pages src table i)"
proof -
  have "keeps s s'" if "clone_pages src table i s = Some s'" for s s' :: "'a pstate_scheme"
    using that
  proof (induction "1024 - i" arbitrary: i s rule: less_induct)
    case less
    consider "s' = s" | "i < 1024" "clone_pages src table (i + 1) s = Some s'"
      | s1 s2 pg pm where "i < 1024" "alloc_frame (Some (table, i)) False False s = Some s1"
        "write_page (table, i) pg s1 = Some s2" "clone_pages src table (i + 1) (s2\<lparr>pmem := pm\<rparr>) = Some s'"
      using less.prems by (subst (asm) clone_pages.simps) (auto simp: bind_Some_iff Let_def split: if_splits)
    then show ?case
    proof cases
      case 2
      then show ?thesis using less.hyps [of "i + 1"] by simp
    next
      case (3 s1 s2 pg pm)
      have "keeps (s2\<lparr>pmem := pm\<rparr>) s'" by (rule less.hyps [OF _ 3(4)]) (use 3(1) in simp)
      then show ?thesis
        using keeperD [OF alloc_frame_keeps 3(2)] keeperD [OF write_page_keeps 3(3)] by (simp add: keeps_def)
    qed simp
  qed
  then show ?thesis by (simp add: keeper_def)
qed

lemma clone_table_keeps:
  assumes "keeps_alloc_p km"
  shows "keeper (\<lambda>(_, _, s). s) (clone_table km src)"
proof -
  have "keeps s s'" if ret: "clone_table km src s = Some (t, p, s')" for s s' t p
  proof -
    obtain s1 pt where s1: "km sizeof_page_table s = Some (t, p, s1)"
        "clone_pages pt t 0 (s1\<lparr>page_tables := (page_tables s1)(t \<mapsto> zero_table)\<rparr>) = Some s'"
      using ret by (auto simp: clone_table_def bind_Some_iff Let_def)
    have "keeps s s1" using assms keeperD [of "\<lambda>(_, _, s). s" "km sizeof_page_table" s "(t, p, s1)"] s1(1) by simp
    then show ?thesis using keeperD [OF clone_pages_keeps s1(2)] by (simp add: keeps_def)
  qed
  then show ?thesis by (auto simp: keeper_def)
qed

lemma clone_tables_keeps:
  assumes "keeps_alloc_p km"
  shows "keeper (\<lambda>s. s) (clone_tables km src dir i)"
proof -
  have "keeps s s'" if "clone_tables km src dir i s = Some s'" for s s'
    using that
  proof (induction "1024 - i" arbitrary: i s rule: less_induct)
    case less
    consider "s' = s" | "i < 1024" "clone_tables km src dir (i + 1) s = Some s'"
      | d where "i < 1024" "clone_tables km src dir (i + 1) (s\<lparr>directories := d\<rparr>) = Some s'"
      | d t a p s1 where "i < 1024" "clone_table km t s = Some (a, p, s1)" "clone_tables km src dir (i + 1) (s1\<lparr>directories := d\<rparr>) = Some s'"
      using less.prems by (subst (asm) clone_tables.simps) (auto simp: bind_Some_iff Let_def split: if_splits)
    then show ?case
    proof cases
      case 2
      then show ?thesis using less.hyps [of "i + 1"] by simp
    next
      case (3 d)
      then have "keeps (s\<lparr>directories := d\<rparr>) s'" using less.hyps [of "i + 1"] by simp
      then show ?thesis by (simp add: keeps_def)
    next
      case (4 d t a p s1)
      then have "keeps (s1\<lparr>directories := d\<rparr>) s'" using less.hyps [of "i + 1"] by simp
      then show ?thesis using keeperD [OF clone_table_keeps [OF assms] 4(2)] by (simp add: keeps_def)
    qed simp
  qed
  then show ?thesis by (simp add: keeper_def)
qed

lemma clone_directory_keeps [frame]:
  assumes "keeps_alloc_p km"
  shows "keeper snd (clone_directory km src)"
proof -
  have "keeps s s'" if ret: "clone_directory km src s = Some (d, s')" for s s' d
  proof -
    obtain p s1 ds where s1: "km sizeof_page_directory s = Some (d, p, s1)"
        "clone_tables km src d 0 (s1\<lparr>directories := ds\<rparr>) = Some s'"
      using ret by (auto simp: clone_directory_def bind_Some_iff Let_def split: if_splits)
    have "keeps s s1" using assms keeperD [of "\<lambda>(_, _, s). s" "km sizeof_page_directory" s "(d, p, s1)"] s1(1) by simp
    then show ?thesis using keeperD [OF clone_tables_keeps [OF assms] s1(2)] by (simp add: keeps_def)
  qed
  then show ?thesis by (auto simp: keeper_def)
qed

lemma map_user_page_keeps [frame]:
  assumes "keeps_alloc al"
  shows "keeper (\<lambda>s. s) (map_user_page al dir a)"
  unfolding keeper_def
proof (intro allI impI)
  fix s s' :: "'a pstate_scheme" assume "map_user_page al dir a s = Some s'"
  then obtain p s1 s2 f where s1: "get_page (kmalloc_ap al) a True dir s = Some (p, s1)" "alloc_frame p False True s1 = Some s2"
      "s' = zero_page_physical f s2"
    by (auto simp: map_user_page_def bind_Some_iff)
  have "keeper snd (get_page (kmalloc_ap al) a True dir)"
    by (rule get_page_keeps) (use kmalloc_keeps(3) [OF assms] in blast)
  from keeper_step [OF alloc_frame_keeps s1(2)] keeperD [OF this s1(1)] show "keeps s s'"
    using s1(3) by (simp add: zero_page_physical_def)
qed

lemma map_range_keeps [frame]:
  assumes "\<And>a. keeper (\<lambda>s. s) (f a)"
  shows "keeper (\<lambda>s. s) (map_range f lo hi)"
  using expand_pages_keeps [OF assms] by (simp add: keeper_def map_range_def)

section \<open>Release\<close>

lemma heap_unmap_page_keeps [frame]: "keeper (\<lambda>s. s) (heap_unmap_page a)"
  unfolding keeper_def
proof (intro allI impI)
  fix s s' :: "'a pstate_scheme" assume "heap_unmap_page a s = Some s'"
  then obtain p s1 where s1: "get_page (\<lambda>_ _. None) a False (kernel_directory s) s = Some (p, s1)" "free_frame p s1 = Some s'"
    by (auto simp: heap_unmap_page_def bind_Some_iff)
  show "keeps s s'" using keeper_step [OF free_frame_keeps s1(2)] keeperD [OF get_page_find_keeps s1(1)] by simp
qed

lemma contract_keeps: "keeper snd (contract heap_unmap_page n)"
proof -
  have pages: "keeps s s'" if "contract_pages heap_unmap_page start i n s = Some s'" for start i n and s s' :: "'a pstate_scheme"
    using that
  proof (induction i arbitrary: s rule: less_induct)
    case (less i)
    consider "s' = s" | s1 where "heap_unmap_page (start + of_nat i) s = Some s1" "\<not> i < 0x1000"
        "contract_pages heap_unmap_page start (i - 0x1000) n s1 = Some s'"
      using less.prems by (subst (asm) contract_pages.simps) (auto simp: bind_Some_iff split: if_splits)
    then show ?case
    proof cases
      case (2 s1)
      have "keeps s1 s'" by (rule less.IH [OF _ 2(3)]) (use 2(2) in simp)
      then show ?thesis using keeperD [OF heap_unmap_page_keeps 2(1)] by (simp add: keeps_def)
    qed simp
  qed
  then show ?thesis by (auto simp: keeper_def contract_def bind_Some_iff Let_def split: if_splits)
qed

lemma kfree_keeps [frame]: "keeper (\<lambda>s. s) (kfree p)"
proof -
  have tail: "keeps s s'" if ret: "release_tail heap_unmap_page h f s = Some (b, s')" for h f b and s s' :: "'a pstate_scheme"
  proof -
    consider "s' = s" | n l s1 where "contract heap_unmap_page n s = Some (l, s1)" "keeps s1 s'"
      using ret by (auto simp: release_tail_def bind_Some_iff Let_def split: if_splits)
    then show ?thesis
    proof cases
      case (2 n l s1)
      then show ?thesis using keeperD [OF contract_keeps 2(1)] by (simp add: keeps_def)
    qed simp
  qed
  have "keeps s s'" if ret: "free heap_unmap_page p s = Some s'" for s s' :: "'a pstate_scheme"
  proof (cases "p = 0")
    case True
    then show ?thesis using ret by (simp add: free_def)
  next
    case False
    obtain m k h f b s1 where "release_tail heap_unmap_page h f (s\<lparr>mem := m, kheap := k\<rparr>) = Some (b, s1)" "keeps s1 s'"
      using ret False unfolding free_def by (auto simp: bind_Some_iff Let_def split: if_splits)
    then show ?thesis using tail by (fastforce simp: keeps_def)
  qed
  then show ?thesis by (auto simp: keeper_def kfree_def)
qed

lemma release_pages_keeps: "keeper (\<lambda>s. s) (release_pages table i)"
proof -
  have "keeps s s'" if "release_pages table i s = Some s'" for s s' :: "'a pstate_scheme"
    using that
  proof (induction "1024 - i" arbitrary: i s rule: less_induct)
    case less
    consider "s' = s" | s1 where "i < 1024" "s1 = s \<or> free_frame (Some (table, i)) s = Some s1" "release_pages table (i + 1) s1 = Some s'"
      using less.prems by (subst (asm) release_pages.simps) (auto simp: bind_Some_iff split: if_splits)
    then show ?case
    proof cases
      case (2 s1)
      then have "keeps s1 s'" using less.hyps [of "i + 1"] by simp
      moreover have "keeps s s1" using 2(2) keeperD [OF free_frame_keeps] by auto
      ultimately show ?thesis by (simp add: keeps_def)
    qed simp
  qed
  then show ?thesis by (simp add: keeper_def)
qed

lemma destroy_tables_keeps: "keeper (\<lambda>s. s) (destroy_tables kfree dir i)"
proof -
  have "keeps s s'" if "destroy_tables kfree dir i s = Some s'" for s s' :: "'a pstate_scheme"
    using that
  proof (induction "1024 - i" arbitrary: i s rule: less_induct)
    case less
    consider "s' = s" | "i < 1024" "destroy_tables kfree dir (i + 1) s = Some s'"
      | s1 s2 t pt where "i < 1024" "release_pages t 0 s = Some s1" "kfree t s1 = Some s2"
        "destroy_tables kfree dir (i + 1) (s2\<lparr>page_tables := pt\<rparr>) = Some s'"
      using less.prems by (subst (asm) destroy_tables.simps) (auto simp: bind_Some_iff Let_def split: if_splits)
    then show ?case
    proof cases
      case 2
      then show ?thesis using less.hyps [of "i + 1"] by simp
    next
      case (3 s1 s2 t pt)
      then have "keeps (s2\<lparr>page_tables := pt\<rparr>) s'" using less.hyps [of "i + 1"] by simp
      then show ?thesis using keeperD [OF release_pages_keeps 3(2)] keeperD [OF kfree_keeps 3(3)] by (simp add: keeps_def)
    qed simp
  qed
  then show ?thesis by (simp add: keeper_def)
qed

lemma destroy_directory_keeps [frame]: "keeper (\<lambda>s. s) (destroy_directory kfree dir)"
proof -
  have "keeps s s'" if ret: "destroy_directory kfree dir s = Some s'" for s s' :: "'a pstate_scheme"
  proof -
    obtain s1 s2 ds where "destroy_tables kfree dir 0 s = Some s1" "kfree dir s1 = Some s2" "s' = s2\<lparr>directories := ds\<rparr>"
      using ret by (auto simp: destroy_directory_def bind_Some_iff split: if_splits)
    then show ?thesis using keeperD [OF destroy_tables_keeps] keeperD [OF kfree_keeps] by (fastforce simp: keeps_def)
  qed
  then show ?thesis by (simp add: keeper_def)
qed

lemma user_store_keeps [frame]: "keeper (\<lambda>s. s) (user_store a bs)"
proof -
  have "keeps s s'" if "user_store a bs s = Some s'" for s s' :: "'a pstate_scheme"
    using that
  proof (induction bs arbitrary: a s)
    case (Cons b bs)
    then obtain p where "user_store (a + 1) bs (s\<lparr>pmem := (pmem s)(p := b)\<rparr>) = Some s'"
      by (auto simp: user_store8_def bind_Some_iff)
    then show ?case using Cons.IH by (fastforce simp: keeps_def)
  qed simp
  then show ?thesis by (simp add: keeper_def)
qed

text \<open>What the extension is for a state with tasks.\<close>

lemma keeps_tstate:
  assumes "keeps s (s' :: 'a tstate_scheme)"
  shows "tasks s' = tasks s" "ready_queue s' = ready_queue s" "current_task s' = current_task s" "next_pid s' = next_pid s"
    "tss_esp0 s' = tss_esp0 s" "fs_nodes s' = fs_nodes s" "fs_root s' = fs_root s" "get_current s' = get_current s"
  using assms by (cases s; cases s'; simp add: keeps_def get_current_def)+

end
