(* ===== verification/Scheduler.thy ===== *)
theory Scheduler
  imports Process Framing
begin

text \<open>
  The round-robin scheduler (\<open>src/task.c\<close>): the search of \<open>switch_task\<close> ends at the next runnable
  task in circular order, and repeated switches reach every runnable task within one round.
\<close>

section \<open>The circular order\<close>

lemma dropWhile_nth_distinct:
  "\<lbrakk>distinct q; i < length q\<rbrakk> \<Longrightarrow> dropWhile (\<lambda>x. x \<noteq> q ! i) q = drop i q"
proof (induction q arbitrary: i)
  case (Cons x q)
  then show ?case by (cases i) auto
qed simp

lemma next_task_nth:
  assumes "distinct q" "i < length q"
  shows "next_task q (q ! i) = q ! ((i + 1) mod length q)"
proof -
  have d: "dropWhile (\<lambda>x. x \<noteq> q ! i) q = q ! i # drop (Suc i) q"
    using dropWhile_nth_distinct [OF assms] Cons_nth_drop_Suc [OF assms(2)] by simp
  show ?thesis
  proof (cases "Suc i < length q")
    case True
    then show ?thesis unfolding next_task_def d by (simp flip: Cons_nth_drop_Suc)
  next
    case False
    then have "Suc i = length q" using assms(2) by simp
    then show ?thesis unfolding next_task_def d by (cases q) (simp_all add: hd_conv_nth)
  qed
qed

definition runnable_at :: "(u32int \<rightharpoonup> task_t) \<Rightarrow> u32int \<Rightarrow> bool" where
  "runnable_at ts a \<longleftrightarrow> (\<exists>t. ts a = Some t \<and> state t = TASK_RUNNABLE)"

lemma pick_candidate_at:
  assumes q: "distinct q" "i < length q" "\<forall>a \<in> set q. ts a \<noteq> None"
    and k: "1 \<le> k" "\<forall>j. 1 \<le> j \<and> j < k \<longrightarrow> \<not> runnable_at ts (q ! ((i + j) mod length q))"
      "runnable_at ts (q ! ((i + k) mod length q))"
  shows "pick_candidate ts q (q ! i) = Some (q ! ((i + k) mod length q))"
  using q(2) k
proof (induction k arbitrary: i)
  case (Suc k)
  let ?n = "length q" and ?i = "(i + 1) mod length q"
  have n: "0 < ?n" using Suc.prems(1) by linarith
  have i': "?i < ?n" using n by simp
  obtain t where t: "ts (q ! ?i) = Some t" using q(3) i' nth_mem by fastforce
  have pick: "pick_candidate ts q (q ! i) =
      (if state t = TASK_RUNNABLE then Some (q ! ?i) else pick_candidate ts q (q ! ?i))"
    using next_task_nth [OF q(1) Suc.prems(1)] t by (subst pick_candidate.simps) simp
  have sh: "(?i + j) mod ?n = (i + Suc j) mod ?n" for j by (simp add: mod_add_left_eq)
  show ?case
  proof (cases "k = 0")
    case True
    then have "state t = TASK_RUNNABLE" using Suc.prems(4) t by (simp add: runnable_at_def)
    then show ?thesis using pick True by simp
  next
    case False
    have "\<not> runnable_at ts (q ! ?i)" using Suc.prems(3) [rule_format, of 1] False by simp
    then have "pick_candidate ts q (q ! i) = pick_candidate ts q (q ! ?i)" using pick t by (simp add: runnable_at_def)
    also have "\<dots> = Some (q ! ((?i + k) mod ?n))"
      by (rule Suc.IH [OF i']) (use False Suc.prems(3,4) sh in auto)
    finally show ?thesis using sh by simp
  qed
qed simp

text \<open>The number of places to the next runnable task.\<close>

lemma next_runnable:
  assumes "i < length q" "a \<in> set q" "runnable_at ts a"
  obtains k where "1 \<le> k" "k \<le> length q" "\<forall>j. 1 \<le> j \<and> j < k \<longrightarrow> \<not> runnable_at ts (q ! ((i + j) mod length q))"
    "runnable_at ts (q ! ((i + k) mod length q))"
proof -
  let ?n = "length q" and ?P = "\<lambda>k. 1 \<le> k \<and> runnable_at ts (q ! ((i + k) mod length q))"
  obtain m where m: "m < ?n" "q ! m = a" using assms(2) by (auto simp: in_set_conv_nth)
  define k0 where "k0 = (if i < m then m - i else m + ?n - i)"
  have k0: "1 \<le> k0" "k0 \<le> ?n" "(i + k0) mod ?n = m" using m assms(1) by (auto simp: k0_def)
  then have "?P k0" using m(2) assms(3) by simp
  then have P: "?P (LEAST k. ?P k)" "(LEAST k. ?P k) \<le> k0" by (rule LeastI, rule Least_le)
  show thesis
    by (rule that [of "LEAST k. ?P k"]) (use P k0 not_less_Least [of _ ?P] in auto)
qed

section \<open>A schedulable state\<close>

definition sched_wf :: "'a tstate_scheme \<Rightarrow> bool" where
  "sched_wf s \<longleftrightarrow> distinct (ready_queue s) \<and> 0 \<notin> set (ready_queue s) \<and> current_task s \<in> set (ready_queue s) \<and>
     (\<forall>a \<in> set (ready_queue s). tasks s a \<noteq> None) \<and> (\<exists>a \<in> set (ready_queue s). runnable_at (tasks s) a)"

definition saved :: "cpu \<Rightarrow> task_t \<Rightarrow> task_t" where
  "saved c t = t\<lparr>t_eip := cpu_eip c, t_esp := cpu_esp c, t_ebp := cpu_ebp c\<rparr>"

lemma runnable_saved: "ts a = Some t \<Longrightarrow> runnable_at (ts(a \<mapsto> saved c t)) = runnable_at ts"
  by (rule ext) (auto simp: runnable_at_def saved_def)

lemma switch_task_spec:
  assumes wf: "sched_wf s" and i: "i < length (ready_queue s)" "current_task s = ready_queue s ! i"
  obtains k n t c' s' where "1 \<le> k" "k \<le> length (ready_queue s)"
    "\<forall>j. 1 \<le> j \<and> j < k \<longrightarrow> \<not> runnable_at (tasks s) (ready_queue s ! ((i + j) mod length (ready_queue s)))"
    "runnable_at (tasks s) (ready_queue s ! ((i + k) mod length (ready_queue s))) \<or> length (ready_queue s) = 1"
    "get_current s = Some t"
    "switch_task c s = Some (c', s')" "current_task s' = ready_queue s ! ((i + k) mod length (ready_queue s))"
    "ready_queue s' = ready_queue s" "tasks s' (current_task s') = Some n"
    "length (ready_queue s) = 1 \<and> s' = s \<and> c' = c \<or>
     2 \<le> length (ready_queue s) \<and> tasks s' = (tasks s)(current_task s \<mapsto> saved c t) \<and>
       s' = s\<lparr>tasks := tasks s', current_task := current_task s', current_directory := page_directory n,
              tss_esp0 := kernel_stack n + KERNEL_STACK_SIZE\<rparr> \<and>
       c' = \<lparr>cpu_eip = t_eip n, cpu_esp = t_esp n, cpu_ebp = t_ebp n\<rparr>"
proof -
  let ?q = "ready_queue s" and ?a = "current_task s"
  have q: "distinct ?q" "0 \<notin> set ?q" "\<forall>a \<in> set ?q. tasks s a \<noteq> None" "?a \<in> set ?q" using wf by (auto simp: sched_wf_def)
  obtain r where r: "r \<in> set ?q" "runnable_at (tasks s) r" using wf by (auto simp: sched_wf_def)
  have "?a \<noteq> 0" using q(2,4) by metis
  moreover obtain t where "tasks s ?a = Some t" using q(3,4) by blast
  ultimately have t: "get_current s = Some t" "tasks s ?a = Some t" by (simp_all add: get_current_def)
  obtain k where k: "1 \<le> k" "k \<le> length ?q" "\<forall>j. 1 \<le> j \<and> j < k \<longrightarrow> \<not> runnable_at (tasks s) (?q ! ((i + j) mod length ?q))"
      "runnable_at (tasks s) (?q ! ((i + k) mod length ?q))"
    by (rule next_runnable [OF i(1) r])
  show thesis
  proof (cases "length ?q = 1")
    case True
    then have "?q = [?a]" using i by (cases ?q) auto
    then have sw: "switch_task c s = Some (c, s)" by (simp add: switch_task_def)
    show thesis
      by (rule that [OF k(1-3) _ t(1)]) (use sw k(4) t(2) True i in simp_all)
  next
    case False
    have l2: "2 \<le> length ?q" using False i(1) by linarith
    let ?ts = "(tasks s)(?a \<mapsto> saved c t)" and ?b = "?q ! ((i + k) mod length ?q)"
    have "0 < length ?q" using i(1) by linarith
    then have b: "?b \<in> set ?q" by (intro nth_mem mod_less_divisor)
    have ts: "\<forall>a \<in> set ?q. ?ts a \<noteq> None" using q(3) by simp
    have rs: "runnable_at ?ts = runnable_at (tasks s)" by (rule runnable_saved) (rule t(2))
    have pick: "pick_candidate ?ts ?q (?q ! i) = Some ?b"
      by (rule pick_candidate_at [OF q(1) i(1) ts k(1)]) (unfold rs, rule k(3), rule k(4))
    note pick = pick [folded i(2)]
    obtain n where n: "?ts ?b = Some n" using ts b by fastforce
    have ne: "?q \<noteq> [?a]" "?a \<noteq> 0" using False q by auto
    let ?s' = "s\<lparr>tasks := ?ts, current_task := ?b, current_directory := page_directory n, tss_esp0 := kernel_stack n + KERNEL_STACK_SIZE\<rparr>"
    have sw: "switch_task c s = Some (\<lparr>cpu_eip = t_eip n, cpu_esp = t_esp n, cpu_ebp = t_ebp n\<rparr>, ?s')"
      using ne t(1) pick n
      by (simp add: switch_task_def set_current_def set_task_def saved_def [symmetric] set_kernel_stack_def Let_def)
    show thesis
      by (rule that [OF k(1-3) _ t(1) sw]) (use k(4) n l2 in simp_all)
  qed
qed

lemma switch_task_wf:
  assumes wf: "sched_wf s" and sw: "switch_task c s = Some (c', s')"
  shows "sched_wf s'" "runnable_at (tasks s') = runnable_at (tasks s)" "ready_queue s' = ready_queue s"
    "next_pid s' = next_pid s"
    "2 \<le> length (ready_queue s) \<Longrightarrow> runnable_at (tasks s') (current_task s')"
proof -
  have cur: "current_task s \<in> set (ready_queue s)" using wf by (simp add: sched_wf_def)
  then obtain i where i: "i < length (ready_queue s)" "current_task s = ready_queue s ! i" by (auto simp: in_set_conv_nth)
  have "sched_wf s' \<and> runnable_at (tasks s') = runnable_at (tasks s) \<and> ready_queue s' = ready_queue s \<and> next_pid s' = next_pid s \<and>
      (2 \<le> length (ready_queue s) \<longrightarrow> runnable_at (tasks s') (current_task s'))"
  proof (rule switch_task_spec [OF wf i, of c], goal_cases)
    case (1 k n t c1 s1)
    have e: "s1 = s'" using sw 1(6) by simp
    have t: "tasks s (current_task s) = Some t" using 1(5) by (simp add: get_current_def split: if_splits)
    have r: "runnable_at (tasks s1) = runnable_at (tasks s)" using 1(10) runnable_saved [where ts = "tasks s" and a = "current_task s" and t = t and c = c] t by auto
    have "0 < length (ready_queue s)" using i(1) by linarith
    then have b: "current_task s1 \<in> set (ready_queue s)" unfolding 1(7) by (intro nth_mem mod_less_divisor)
    have np: "next_pid s1 = next_pid s"
    proof (cases "s1 = s")
      case False
      then have eq: "s1 = s\<lparr>tasks := tasks s1, current_task := current_task s1, current_directory := page_directory n,
              tss_esp0 := kernel_stack n + KERNEL_STACK_SIZE\<rparr>" using 1(10) by blast
      show ?thesis by (subst eq) simp
    qed simp
    have "sched_wf s1"
      using wf r b 1(8,10) by (auto simp: sched_wf_def)
    moreover have "2 \<le> length (ready_queue s) \<longrightarrow> runnable_at (tasks s1) (current_task s1)"
      using 1(4,7) r by auto
    ultimately show ?case using e r 1(8) np by simp
  qed
  then show "sched_wf s'" "runnable_at (tasks s') = runnable_at (tasks s)" "ready_queue s' = ready_queue s" "next_pid s' = next_pid s"
    "2 \<le> length (ready_queue s) \<Longrightarrow> runnable_at (tasks s') (current_task s')" by blast+
qed

section \<open>Fairness\<close>

primrec run_switches :: "cpu list \<Rightarrow> 'a tstate_scheme \<Rightarrow> 'a tstate_scheme option" where
  "run_switches [] s = Some s"
| "run_switches (c # cs) s = do { (_, s) \<leftarrow> switch_task c s; run_switches cs s }"

lemma reached_within:
  assumes "sched_wf s" "i < length (ready_queue s)" "current_task s = ready_queue s ! i"
    "1 \<le> p" "p \<le> length (ready_queue s)" "b = ready_queue s ! ((i + p) mod length (ready_queue s))" "runnable_at (tasks s) b"
    "p \<le> length cs"
  shows "\<exists>k s'. 1 \<le> k \<and> k \<le> p \<and> run_switches (take k cs) s = Some s' \<and> current_task s' = b"
  using assms
proof (induction p arbitrary: s i cs rule: less_induct)
  case (less p)
  let ?q = "ready_queue s" and ?n = "length (ready_queue s)"
  obtain c rest where cs: "cs = c # rest" using less.prems(4,8) by (cases cs) auto
  show ?case
  proof (rule switch_task_spec [OF less.prems(1-3), of c], goal_cases)
    case (1 k n t c' s')
    have kp: "k \<le> p"
    proof (rule ccontr)
      assume "\<not> k \<le> p"
      then show False using 1(3) less.prems(4,6,7) by auto
    qed
    have w: "sched_wf s'" "runnable_at (tasks s') = runnable_at (tasks s)" using switch_task_wf [OF less.prems(1) 1(6)] by auto
    show ?case
    proof (cases "k = p")
      case True
      then show ?thesis using 1(6,7) less.prems(6,4) cs by (intro exI [of _ 1] exI [of _ s']) simp
    next
      case False
      let ?i = "(i + k) mod ?n"
      have n0: "0 < ?n" using less.prems(2) by linarith
      have "(?i + (p - k)) mod ?n = (i + k + (p - k)) mod ?n" by (rule mod_add_left_eq)
      then have "(?i + (p - k)) mod ?n = (i + p) mod ?n" using kp by simp
      then have "\<exists>m s''. 1 \<le> m \<and> m \<le> p - k \<and> run_switches (take m rest) s' = Some s'' \<and> current_task s'' = b"
        using less.IH [of "p - k" s' ?i rest] less.prems w 1 kp False n0 cs by (auto simp: mod_less_divisor)
      then obtain m s'' where "1 \<le> m" "m \<le> p - k" "run_switches (take m rest) s' = Some s''" "current_task s'' = b" by blast
      then show ?thesis using 1(1,6) kp cs by (intro exI [of _ "Suc m"] exI [of _ s'']) simp
    qed
  qed
qed

end
