(* ===== verification/Process_Invariant.thy ===== *)
theory Process_Invariant
  imports Scheduler
begin

text \<open>
  The invariant of the process table (\<open>src/task.c\<close>, \<open>src/signal.c\<close>) and that every operation on
  processes keeps it: the queue starts with the idle task, which is always runnable; process
  ids are unique and below \<open>next_pid\<close>; every other entry is a user process with a user heap
  inside its limits; and the task that owns the processor is runnable.
\<close>

section \<open>The invariant\<close>

definition heap_ok :: "task_t \<Rightarrow> bool" where
  "heap_ok t \<longleftrightarrow> heap_start t \<le> heap_break t \<and> heap_break t \<le> heap_limit t \<and> heap_limit t \<le> USER_HEAP_LIMIT \<and>
     heap_break t \<le> heap_mapped_end t"

definition std_ok :: "task_t \<Rightarrow> bool" where
  "std_ok t \<longleftrightarrow> kind (descriptors t ! 0) = FD_KIND_KEYBOARD \<and> kind (descriptors t ! 1) = FD_KIND_CONSOLE \<and>
     kind (descriptors t ! 2) = FD_KIND_CONSOLE"

definition task_ok :: "task_t \<Rightarrow> bool" where
  "task_ok t \<longleftrightarrow> length (descriptors t) = MAX_FILE_DESCRIPTORS \<and> length (signal_handlers t) = SIGNAL_COUNT \<and>
     (is_user_process t \<longrightarrow> heap_ok t) \<and> (state t \<noteq> TASK_ZOMBIE \<longrightarrow> std_ok t)"

definition proc_inv :: "'a tstate_scheme \<Rightarrow> bool" where
  "proc_inv s \<longleftrightarrow> distinct (ready_queue s) \<and> 0 \<notin> set (ready_queue s) \<and> dom (tasks s) = set (ready_queue s) \<and>
     current_task s \<in> set (ready_queue s) \<and> ready_queue s \<noteq> [] \<and>
     (\<forall>a t. tasks s a = Some t \<longrightarrow> task_ok t \<and> unat (task_id t) < unat (next_pid s) \<and>
        (if a = hd (ready_queue s) then task_id t = 0 \<and> state t = TASK_RUNNABLE \<and> \<not> is_user_process t
         else task_id t \<noteq> 0 \<and> is_user_process t)) \<and>
     (\<forall>a b t u. tasks s a = Some t \<and> tasks s b = Some u \<and> task_id t = task_id u \<longrightarrow> a = b)"

definition proc_wf :: "'a tstate_scheme \<Rightarrow> bool" where
  "proc_wf s \<longleftrightarrow> proc_inv s \<and> runnable_at (tasks s) (current_task s)"

lemma proc_invD:
  assumes "proc_inv s"
  shows "distinct (ready_queue s)" "0 \<notin> set (ready_queue s)" "dom (tasks s) = set (ready_queue s)"
    "current_task s \<in> set (ready_queue s)" "ready_queue s \<noteq> []"
    "tasks s a = Some t \<Longrightarrow> task_ok t \<and> unat (task_id t) < unat (next_pid s)"
    "\<lbrakk>tasks s a = Some t; a \<noteq> hd (ready_queue s)\<rbrakk> \<Longrightarrow> task_id t \<noteq> 0 \<and> is_user_process t"
    "tasks s (hd (ready_queue s)) = Some t \<Longrightarrow> task_id t = 0 \<and> state t = TASK_RUNNABLE \<and> \<not> is_user_process t"
    "\<lbrakk>tasks s a = Some t; tasks s b = Some u; task_id t = task_id u\<rbrakk> \<Longrightarrow> a = b"
proof -
  note inv = assms [unfolded proc_inv_def]
  show "distinct (ready_queue s)" "0 \<notin> set (ready_queue s)" "dom (tasks s) = set (ready_queue s)"
    "current_task s \<in> set (ready_queue s)" "ready_queue s \<noteq> []" using inv by blast+
  note all = inv [THEN conjunct2, THEN conjunct2, THEN conjunct2, THEN conjunct2, THEN conjunct2]
  note each = all [THEN conjunct1, rule_format]
  show "tasks s a = Some t \<Longrightarrow> task_ok t \<and> unat (task_id t) < unat (next_pid s)"
    "\<lbrakk>tasks s a = Some t; a \<noteq> hd (ready_queue s)\<rbrakk> \<Longrightarrow> task_id t \<noteq> 0 \<and> is_user_process t"
    using each [of a t] by simp_all
  show "tasks s (hd (ready_queue s)) = Some t \<Longrightarrow> task_id t = 0 \<and> state t = TASK_RUNNABLE \<and> \<not> is_user_process t"
    using each [of "hd (ready_queue s)" t] by simp
  show "\<lbrakk>tasks s a = Some t; tasks s b = Some u; task_id t = task_id u\<rbrakk> \<Longrightarrow> a = b"
    by (rule all [THEN conjunct2, rule_format, of a t b u]) simp
qed

lemma proc_invI:
  assumes "distinct (ready_queue s)" "0 \<notin> set (ready_queue s)" "dom (tasks s) = set (ready_queue s)"
    "current_task s \<in> set (ready_queue s)" "ready_queue s \<noteq> []"
    "\<And>a t. tasks s a = Some t \<Longrightarrow> task_ok t \<and> unat (task_id t) < unat (next_pid s) \<and>
        (if a = hd (ready_queue s) then task_id t = 0 \<and> state t = TASK_RUNNABLE \<and> \<not> is_user_process t
         else task_id t \<noteq> 0 \<and> is_user_process t)"
    "\<And>a b t u. \<lbrakk>tasks s a = Some t; tasks s b = Some u; task_id t = task_id u\<rbrakk> \<Longrightarrow> a = b"
  shows "proc_inv s"
proof -
  note all = assms(6) and uniq = assms(7)
  have "\<forall>a b t u. tasks s a = Some t \<and> tasks s b = Some u \<and> task_id t = task_id u \<longrightarrow> a = b" using uniq by blast
  then show ?thesis unfolding proc_inv_def using assms(1-5) all by blast
qed

lemma set_task_sel [simp]:
  "tasks (set_task a t s) = (tasks s)(a \<mapsto> t)" "ready_queue (set_task a t s) = ready_queue s"
  "current_task (set_task a t s) = current_task s" "next_pid (set_task a t s) = next_pid s"
  "fs_nodes (set_task a t s) = fs_nodes s" "fs_root (set_task a t s) = fs_root s"
  by (simp_all add: set_task_def)

lemma proc_inv_head:
  assumes "proc_inv s"
  obtains t where "tasks s (hd (ready_queue s)) = Some t" "task_id t = 0" "state t = TASK_RUNNABLE" "\<not> is_user_process t"
proof -
  have "hd (ready_queue s) \<in> dom (tasks s)" using proc_invD(3,5) [OF assms] by simp
  then show thesis using that proc_invD(8) [OF assms] by blast
qed

lemma proc_inv_sched: "proc_inv s \<Longrightarrow> sched_wf s"
proof -
  assume inv: "proc_inv s"
  obtain t where "tasks s (hd (ready_queue s)) = Some t" "state t = TASK_RUNNABLE" by (rule proc_inv_head [OF inv])
  then have "runnable_at (tasks s) (hd (ready_queue s))" by (simp add: runnable_at_def)
  then show ?thesis using proc_invD(1-5) [OF inv] unfolding sched_wf_def by (auto intro: bexI [of _ "hd (ready_queue s)"])
qed

lemma proc_inv_current:
  assumes "proc_inv s"
  obtains t where "get_current s = Some t" "tasks s (current_task s) = Some t" "current_task s \<noteq> 0"
proof -
  have "current_task s \<in> dom (tasks s)" "current_task s \<noteq> 0" using proc_invD(2-4) [OF assms] by metis+
  then show thesis using that by (auto simp: get_current_def)
qed

section \<open>Updates that keep it\<close>

lemma proc_inv_cong:
  assumes "proc_inv s" "tasks s' = tasks s" "ready_queue s' = ready_queue s" "current_task s' \<in> set (ready_queue s)" "next_pid s' = next_pid s"
  shows "proc_inv s'"
  using assms(1,4) unfolding proc_inv_def assms(2,3,5) by (elim conjE, intro conjI)

lemma proc_inv_keeps:
  assumes inv: "proc_inv s" and k: "keeps s s'"
  shows "proc_inv s'"
  by (rule proc_inv_cong [OF inv keeps_tstate(1,2) [OF k] _ keeps_tstate(4) [OF k]])
    (simp only: keeps_tstate(3) [OF k] proc_invD(4) [OF inv])

lemma proc_wf_keeps: "\<lbrakk>proc_wf s; keeps s s'\<rbrakk> \<Longrightarrow> proc_wf s'"
  using keeps_tstate(1,3) [of s s'] proc_inv_keeps [of s s'] by (simp add: proc_wf_def)

text \<open>A change of one task that keeps its id and role.\<close>

lemma proc_inv_set_task:
  assumes inv: "proc_inv s" and t: "tasks s a = Some t" "task_id t' = task_id t" "is_user_process t' = is_user_process t" "task_ok t'"
    and st: "a = hd (ready_queue s) \<Longrightarrow> state t' = TASK_RUNNABLE"
  shows "proc_inv (set_task a t' s)"
proof -
  have "a \<in> set (ready_queue s)" using proc_invD(3) [OF inv] t(1) by blast
  then have "dom ((tasks s)(a \<mapsto> t')) = set (ready_queue s)" using proc_invD(3) [OF inv] by auto
  moreover have "task_ok u \<and> unat (task_id u) < unat (next_pid s) \<and>
        (if b = hd (ready_queue s) then task_id u = 0 \<and> state u = TASK_RUNNABLE \<and> \<not> is_user_process u
         else task_id u \<noteq> 0 \<and> is_user_process u)" if u: "((tasks s)(a \<mapsto> t')) b = Some u" for b u
  proof (cases "b = a")
    case True
    then show ?thesis using u t st proc_invD(6,7) [OF inv t(1)] proc_invD(8) [OF inv, of t] by auto
  next
    case False
    then show ?thesis using u proc_invD(6,7) [OF inv, of b u] proc_invD(8) [OF inv, of u] by auto
  qed
  moreover have "b = c" if "((tasks s)(a \<mapsto> t')) b = Some u" "((tasks s)(a \<mapsto> t')) c = Some v" "task_id u = task_id v" for b c u v
    using that proc_invD(9) [OF inv] t(1,2) by (auto split: if_splits)
  ultimately show ?thesis
    using proc_invD(1,2,4,5) [OF inv] by (intro proc_invI; unfold set_task_sel; assumption?) blast+
qed

lemma proc_wf_set_task:
  assumes wf: "proc_wf s" and t: "tasks s a = Some t" "task_id t' = task_id t" "is_user_process t' = is_user_process t" "task_ok t'"
    and st: "state t' = state t \<or> state t' = TASK_RUNNABLE"
  shows "proc_wf (set_task a t' s)"
proof -
  have inv: "proc_inv s" using wf by (simp add: proc_wf_def)
  have "proc_inv (set_task a t' s)"
    by (rule proc_inv_set_task [OF inv t]) (use st t(1) proc_invD(8) [OF inv] in auto)
  then show ?thesis using wf t(1) st by (auto simp: proc_wf_def runnable_at_def set_task_def)
qed

lemma proc_wf_set_current:
  assumes "proc_wf s" "get_current s = Some t" "task_id t' = task_id t" "is_user_process t' = is_user_process t" "task_ok t'"
    "state t' = state t"
  shows "proc_wf (set_current t' s)"
  using proc_wf_set_task [OF assms(1) _ assms(3-5), of "current_task s"] assms(2,6)
  by (auto simp: set_current_def get_current_def split: if_splits)

lemma current_task_ok: "\<lbrakk>proc_wf s; get_current s = Some t\<rbrakk> \<Longrightarrow> task_ok t"
  using proc_invD(6) [of s] by (auto simp: proc_wf_def get_current_def split: if_splits)

lemma switch_proc_wf:
  assumes inv: "proc_inv s" and sw: "switch_task c s = Some (c', s')" and two: "2 \<le> length (ready_queue s) \<or> runnable_at (tasks s) (current_task s)"
  shows "proc_wf s'"
proof -
  have wf: "sched_wf s" by (rule proc_inv_sched [OF inv])
  obtain i where i: "i < length (ready_queue s)" "current_task s = ready_queue s ! i"
    using proc_invD(4) [OF inv] by (auto simp: in_set_conv_nth)
  show ?thesis
  proof (rule switch_task_spec [OF wf i, of c], goal_cases)
    case (1 k n t c1 s1)
    have e: "s1 = s'" using sw 1(6) by simp
    show ?thesis
    proof (cases "s1 = s")
      case True
      then have "length (ready_queue s) = 1 \<or> 2 \<le> length (ready_queue s)" using 1(10) by auto
      then show ?thesis using two inv switch_task_wf [OF wf sw] True e by (auto simp: proc_wf_def)
    next
      case False
      then have d: "2 \<le> length (ready_queue s)" "tasks s1 = (tasks s)(current_task s \<mapsto> saved c t)" using 1(10) by auto
      have t: "tasks s (current_task s) = Some t" using 1(5) by (simp add: get_current_def split: if_splits)
      have ok: "task_ok (saved c t)" using proc_invD(6) [OF inv t] by (simp add: task_ok_def saved_def heap_ok_def std_ok_def)
      have "proc_inv (set_task (current_task s) (saved c t) s)"
        by (rule proc_inv_set_task [OF inv t]) (use ok proc_invD(8) [OF inv] t in \<open>auto simp: saved_def\<close>)
      moreover have "current_task s1 \<in> set (ready_queue s)"
        using switch_task_wf(1,3) [OF wf sw] e by (simp add: sched_wf_def)
      ultimately have "proc_inv s1"
      proof (intro proc_inv_cong [of "set_task (current_task s) (saved c t) s" s1], goal_cases)
        case 5
        then show ?case using switch_task_wf(4) [OF wf sw] e by simp
      qed (simp_all only: set_task_sel d 1(8))
      then show ?thesis using switch_task_wf(5) [OF wf sw d(1)] e by (simp add: proc_wf_def)
    qed
  qed
qed

section \<open>Descriptors, signals and the user heap\<close>

lemma opens_nothing:
  "open_fs node s = Some s' \<Longrightarrow> s' = s" "close_fs node s = Some s' \<Longrightarrow> s' = s"
  by (auto simp: open_fs_def close_fs_def bind_Some_iff split: if_splits option.splits)

lemma task_ok_upd [simp]:
  "task_ok (t\<lparr>pending_signals := x\<rparr>) = task_ok t" "task_ok (t\<lparr>signal_trampoline := x\<rparr>) = task_ok t"
  "task_ok (t\<lparr>signal_active := b\<rparr>) = task_ok t" "task_ok (t\<lparr>active_signal := y\<rparr>) = task_ok t"
  "task_ok (t\<lparr>working_directory := x\<rparr>) = task_ok t" "task_ok (t\<lparr>exit_status := x\<rparr>) = task_ok t"
  "task_ok (t\<lparr>signal_handlers := hs\<rparr>) = (length hs = SIGNAL_COUNT \<and> task_ok (t\<lparr>signal_handlers := replicate SIGNAL_COUNT 0\<rparr>))"
  by (auto simp: task_ok_def heap_ok_def std_ok_def)

lemma task_ok_handlers: "\<lbrakk>task_ok t; length hs = SIGNAL_COUNT\<rbrakk> \<Longrightarrow> task_ok (t\<lparr>signal_handlers := hs\<rparr>)"
  by (auto simp: task_ok_def heap_ok_def std_ok_def)

lemma task_ok_runnable: "\<lbrakk>task_ok t; state t \<noteq> TASK_ZOMBIE\<rbrakk> \<Longrightarrow> task_ok (t\<lparr>state := TASK_RUNNABLE\<rparr>)"
  "\<lbrakk>task_ok t; state t \<noteq> TASK_ZOMBIE\<rbrakk> \<Longrightarrow> task_ok (t\<lparr>state := TASK_WAITING_INPUT\<rparr>)"
  by (auto simp: task_ok_def heap_ok_def std_ok_def)

declare task_ok_upd(7) [simp del]

lemma task_ok_descriptors:
  assumes "task_ok t" "3 \<le> i" shows "task_ok (t\<lparr>descriptors := (descriptors t)[i := d]\<rparr>)"
  using assms by (auto simp: task_ok_def heap_ok_def std_ok_def)

lemma find_free_descriptor_spec:
  "find_free_descriptor fds i = Some k \<Longrightarrow> i \<le> k \<and> k < i + length fds \<and> kind (fds ! (k - i)) = FD_KIND_FREE \<and>
     (\<forall>j. i \<le> j \<and> j < k \<longrightarrow> kind (fds ! (j - i)) \<noteq> FD_KIND_FREE)"
proof (induction fds i rule: find_free_descriptor.induct)
  case (2 d fds i)
  show ?case
  proof (cases "kind d = FD_KIND_FREE")
    case True
    then show ?thesis using 2 by simp
  next
    case False
    then have h: "i + 1 \<le> k \<and> k < i + 1 + length fds \<and> kind (fds ! (k - (i + 1))) = FD_KIND_FREE \<and>
        (\<forall>j. i + 1 \<le> j \<and> j < k \<longrightarrow> kind (fds ! (j - (i + 1))) \<noteq> FD_KIND_FREE)" using 2 by simp
    have "kind ((d # fds) ! (j - i)) \<noteq> FD_KIND_FREE" if "i \<le> j" "j < k" for j
      using h that False by (cases "j = i") (auto simp: nth_Cons')
    then show ?thesis using h False by (auto simp: nth_Cons')
  qed
qed simp

lemma find_free_descriptor_None:
  "find_free_descriptor fds i = None \<longleftrightarrow> (\<forall>d \<in> set fds. kind d \<noteq> FD_KIND_FREE)"
  by (induction fds i rule: find_free_descriptor.induct) auto

lemma open_descriptor_cases:
  assumes r: "task_open_descriptor node fl s = Some (r, s')"
  obtains "s' = s" "r = -1"
    | t fd where "get_current s = Some t" "node \<noteq> 0" "find_free_descriptor (drop 3 (descriptors t)) 3 = Some fd" "r = int fd"
      "s' = set_current (t\<lparr>descriptors := (descriptors t)[fd := \<lparr>kind = FD_KIND_NODE, fd_node = node, fd_offset = 0, fd_flags = fl\<rparr>]\<rparr>) s"
proof (cases "current_task s = 0 \<or> node = 0")
  case True
  then show thesis using r that(1) by (auto simp: task_open_descriptor_def)
next
  case False
  then obtain t where t: "get_current s = Some t" using r by (auto simp: task_open_descriptor_def bind_Some_iff)
  show thesis
  proof (cases "find_free_descriptor (drop 3 (descriptors t)) 3")
    case None
    then show thesis using r that(1) False t by (simp add: task_open_descriptor_def)
  next
    case (Some fd)
    then show thesis using r that(2) [OF t _ Some] False t opens_nothing(1)
      by (auto simp: task_open_descriptor_def bind_Some_iff Let_def)
  qed
qed

lemma open_descriptor_wf:
  assumes wf: "proc_wf s" and r: "task_open_descriptor node fl s = Some (r, s')"
  shows "proc_wf s'"
  using r
proof (cases rule: open_descriptor_cases)
  case (2 t fd)
  have "3 \<le> fd" using find_free_descriptor_spec [OF 2(3)] by simp
  then show ?thesis unfolding 2(5)
    by (intro proc_wf_set_current [OF wf 2(1)] task_ok_descriptors current_task_ok [OF wf 2(1)]) simp_all
qed (use wf in simp)

lemma close_descriptor_wf:
  assumes wf: "proc_wf s" and r: "task_close_descriptor fd s = Some (r, s')"
  shows "proc_wf s'"
proof (cases "sint fd < 3 \<or> sint fd \<ge> int MAX_FILE_DESCRIPTORS \<or> current_task s = 0")
  case True
  then show ?thesis using r wf by (auto simp: task_close_descriptor_def)
next
  case False
  then have "3 \<le> unat fd" using sint_nonneg(1) [of fd] by linarith
  moreover obtain t where t: "get_current s = Some t" using r False by (auto simp: task_close_descriptor_def bind_Some_iff)
  moreover have "s' = s \<or> s' = set_current (t\<lparr>descriptors := (descriptors t)[unat fd := free_descriptor]\<rparr>) s"
    using r False t opens_nothing(2) by (auto simp: task_close_descriptor_def bind_Some_iff Let_def split: if_splits)
  ultimately show ?thesis
    using wf proc_wf_set_current [OF wf t _ _ task_ok_descriptors [OF current_task_ok [OF wf t]]] by auto
qed

lemma task_ok_offset:
  assumes "task_ok t" shows "task_ok (t\<lparr>descriptors := (descriptors t)[i := (descriptors t ! i)\<lparr>fd_offset := r\<rparr>]\<rparr>)"
proof -
  have "kind (((descriptors t)[i := (descriptors t ! i)\<lparr>fd_offset := r\<rparr>]) ! j) = kind (descriptors t ! j)" if "j < length (descriptors t)" for j
    using that by (cases "j = i") simp_all
  then show ?thesis using assms by (auto simp: task_ok_def heap_ok_def std_ok_def MAX_FILE_DESCRIPTORS_def)
qed

lemma seek_descriptor_wf:
  assumes wf: "proc_wf s" and r: "task_seek_descriptor fd off origin s = Some (r, s')"
  shows "proc_wf s'"
proof (cases "task_get_descriptor fd s")
  case None
  then show ?thesis using r wf by (simp add: task_seek_descriptor_def)
next
  case (Some i)
  then obtain t where t: "get_current s = Some t" using r by (auto simp: task_seek_descriptor_def bind_Some_iff)
  have "s' = s \<or> (\<exists>x. s' = set_current (t\<lparr>descriptors := (descriptors t)[i := (descriptors t ! i)\<lparr>fd_offset := x\<rparr>]\<rparr>) s)"
    using r Some t by (auto simp: task_seek_descriptor_def bind_Some_iff Let_def split: if_splits option.splits)
  then show ?thesis
    using wf proc_wf_set_current [OF wf t _ _ task_ok_offset [OF current_task_ok [OF wf t]]] by auto
qed

lemma set_working_directory_wf:
  assumes wf: "proc_wf s" and r: "task_set_working_directory d s = Some s'"
  shows "proc_wf s'"
proof -
  obtain t where t: "get_current s = Some t" "s' = set_current (t\<lparr>working_directory := d\<rparr>) s"
    using r by (auto simp: task_set_working_directory_def bind_Some_iff split: if_splits)
  show ?thesis unfolding t(2) by (rule proc_wf_set_current [OF wf t(1)]) (use current_task_ok [OF wf t(1)] in simp_all)
qed

lemma set_handler_wf:
  assumes wf: "proc_wf s" and r: "task_signal_set_handler n h tr s = Some (r, s')"
  shows "proc_wf s'"
proof (cases "current_task s = 0")
  case True
  then show ?thesis using r wf by (simp add: task_signal_set_handler_def)
next
  case False
  then obtain t where t: "get_current s = Some t" using r by (auto simp: task_signal_set_handler_def bind_Some_iff)
  have "s' = s \<or> (\<exists>x. s' = set_current (t\<lparr>signal_trampoline := x, signal_handlers := (signal_handlers t)[unat n := h]\<rparr>) s) \<or>
      s' = set_current (t\<lparr>signal_handlers := (signal_handlers t)[unat n := h]\<rparr>) s"
    using r False t by (auto simp: task_signal_set_handler_def bind_Some_iff Let_def split: if_splits option.splits)
  moreover have ok: "task_ok t" by (rule current_task_ok [OF wf t])
  moreover have "task_ok (u\<lparr>signal_handlers := (signal_handlers t)[unat n := h]\<rparr>)" if "task_ok u" for u
    by (rule task_ok_handlers [OF that]) (use ok in \<open>simp add: task_ok_def\<close>)
  ultimately show ?thesis
    using wf by (auto intro!: proc_wf_set_current [OF wf t])
qed

lemma find_task_in_Some:
  assumes "find_task_in ts pid q = a" "a \<noteq> 0"
  shows "a \<in> set q \<and> (\<exists>t. ts a = Some t \<and> task_id t = pid)"
  using assms by (induction q) (auto split: option.splits if_splits)

lemma send_cases:
  assumes "task_signal_send pid n s = Some (r, s')"
  obtains "s' = s" | a t t' where "tasks s a = Some t" "s' = set_task a t' s" "task_id t' = task_id t"
    "is_user_process t' = is_user_process t" "state t \<noteq> TASK_ZOMBIE" "is_user_process t"
    "state t' = state t \<or> state t' = TASK_RUNNABLE" "task_ok t' = task_ok t"
proof (cases "find_task pid s = 0")
  case True
  then show thesis using assms that(1) by (simp add: task_signal_send_def)
next
  case False
  then obtain t where t: "tasks s (find_task pid s) = Some t" using assms by (auto simp: task_signal_send_def bind_Some_iff Let_def)
  let ?h = "signal_handlers t ! unat n"
  let ?t1 = "if ?h \<noteq> SIGNAL_IGNORE \<and> \<not> (?h = SIGNAL_DEFAULT \<and> signal_default_is_ignore (unat n))
      then t\<lparr>pending_signals := pending_signals t OR bit_mask (unat n)\<rparr> else t"
  let ?t2 = "if state ?t1 = TASK_WAITING_INPUT then ?t1\<lparr>state := TASK_RUNNABLE\<rparr> else ?t1"
  have s': "s' = s \<or> (is_user_process t \<and> state t \<noteq> TASK_ZOMBIE \<and> s' = set_task (find_task pid s) ?t2 s)"
    using assms False t unfolding task_signal_send_def Let_def by (auto split: if_splits)
  have ok1: "task_ok ?t1 = task_ok t" "state ?t1 = state t" by simp_all
  moreover have "task_ok (u\<lparr>state := TASK_RUNNABLE\<rparr>) = task_ok u" if "state u = TASK_WAITING_INPUT" for u
    using that by (auto simp: task_ok_def heap_ok_def std_ok_def)
  ultimately have ok2: "task_ok ?t2 = task_ok t" by simp
  show thesis
    using s' that(1) that(2) [OF t, of ?t2] ok2 by auto
qed

lemma send_wf:
  assumes wf: "proc_wf s" and r: "task_signal_send pid n s = Some (r, s')"
  shows "proc_wf s'"
  using r
proof (cases rule: send_cases)
  case (2 a t t')
  have "task_ok t" using proc_invD(6) wf 2(1) by (auto simp: proc_wf_def)
  then show ?thesis unfolding 2(2) using proc_wf_set_task [OF wf 2(1,3,4)] 2(7,8) by simp
qed (use wf in simp)

lemma signal_return_wf:
  assumes wf: "proc_wf s" and r: "task_signal_return c regs s = Some (r, f, s')"
  shows "proc_wf s'"
proof (cases "current_task s = 0")
  case True
  then show ?thesis using r wf by (simp add: task_signal_return_def)
next
  case False
  then obtain t where t: "get_current s = Some t" using r by (auto simp: task_signal_return_def bind_Some_iff)
  have "s' = s \<or> s' = set_current (t\<lparr>signal_active := False, active_signal := 0\<rparr>) s"
    using r False t by (auto simp: task_signal_return_def bind_Some_iff Let_def split: if_splits)
  then show ?thesis using wf current_task_ok [OF wf t] by (auto intro!: proc_wf_set_current [OF wf t])
qed

lemma exec_reset_wf:
  assumes wf: "proc_wf s" and r: "task_signal_exec_reset s = Some s'"
  shows "proc_wf s'"
proof -
  obtain t where t: "get_current s = Some t"
      "s' = set_current (t\<lparr>signal_handlers := exec_reset_handlers (signal_handlers t), signal_trampoline := 0,
         signal_active := False, active_signal := 0\<rparr>) s"
    using r by (auto simp: task_signal_exec_reset_def bind_Some_iff)
  have l: "length (exec_reset_handlers (signal_handlers t)) = SIGNAL_COUNT" by (simp add: exec_reset_handlers_def)
  have "task_ok (t\<lparr>signal_handlers := exec_reset_handlers (signal_handlers t)\<rparr>)"
    by (rule task_ok_handlers [OF current_task_ok [OF wf t(1)] l])
  then show ?thesis unfolding t(2) by (intro proc_wf_set_current [OF wf t(1)]) simp_all
qed

section \<open>Sleeping and waking\<close>

lemma wake_wf:
  assumes wf: "proc_wf s" shows "proc_wf (task_wake_keyboard_waiters s)"
proof -
  let ?s = "task_wake_keyboard_waiters s"
  have inv: "proc_inv s" using wf by (simp add: proc_wf_def)
  have sel: "ready_queue ?s = ready_queue s" "current_task ?s = current_task s" "next_pid ?s = next_pid s"
    by (simp_all add: task_wake_keyboard_waiters_def)
  have tk: "\<exists>u. tasks s a = Some u \<and> task_id t = task_id u \<and> is_user_process t = is_user_process u \<and> task_ok t = task_ok u \<and>
      (state t = state u \<or> state t = TASK_RUNNABLE)" if "tasks ?s a = Some t" for a t
  proof -
    have "task_ok (u\<lparr>state := TASK_RUNNABLE\<rparr>) = task_ok u" if "state u = TASK_WAITING_INPUT" for u
      using that by (auto simp: task_ok_def heap_ok_def std_ok_def)
    then show ?thesis using that by (auto simp: task_wake_keyboard_waiters_def split: option.splits if_splits)
  qed
  have dom: "dom (tasks ?s) = dom (tasks s)"
    by (auto simp: task_wake_keyboard_waiters_def dom_def split: option.splits)
  have "proc_inv ?s"
  proof (rule proc_invI; (unfold sel dom)?)
    fix a t assume t: "tasks ?s a = Some t"
    then obtain u where u: "tasks s a = Some u" "task_id t = task_id u" "is_user_process t = is_user_process u" "task_ok t = task_ok u"
        "state t = state u \<or> state t = TASK_RUNNABLE" using tk by blast
    show "task_ok t \<and> unat (task_id t) < unat (next_pid s) \<and>
        (if a = hd (ready_queue s) then task_id t = 0 \<and> state t = TASK_RUNNABLE \<and> \<not> is_user_process t
         else task_id t \<noteq> 0 \<and> is_user_process t)"
      using proc_invD(6,7) [OF inv u(1)] proc_invD(8) [OF inv, of u] u by auto
  next
    fix a b t v assume "tasks ?s a = Some t" "tasks ?s b = Some v" "task_id t = task_id v"
    then show "a = b" using tk proc_invD(9) [OF inv] by metis
  qed (use proc_invD(1-5) [OF inv] in auto)
  moreover have "runnable_at (tasks ?s) (current_task s)"
    using wf by (auto simp: proc_wf_def runnable_at_def task_wake_keyboard_waiters_def)
  ultimately show ?thesis using sel by (simp add: proc_wf_def)
qed

lemma user_not_head:
  assumes inv: "proc_inv s" and t: "get_current s = Some t" "is_user_process t"
  shows "current_task s \<noteq> hd (ready_queue s)" "2 \<le> length (ready_queue s)"
proof -
  show ne: "current_task s \<noteq> hd (ready_queue s)"
    using proc_invD(8) [OF inv, of t] t by (auto simp: get_current_def split: if_splits)
  show "2 \<le> length (ready_queue s)"
  proof (cases "ready_queue s")
    case (Cons a q)
    then show ?thesis using proc_invD(4) [OF inv] ne by (cases q) auto
  qed (use proc_invD(5) [OF inv] in simp)
qed

text \<open>The current user process leaves the processor in a state that keeps its id and role.\<close>

lemma leave_inv:
  assumes inv: "proc_inv s" and t: "get_current s = Some t" "is_user_process t"
    and t': "task_id t' = task_id t" "is_user_process t'" "task_ok t'"
  shows "proc_inv (set_current t' s)" "2 \<le> length (ready_queue (set_current t' s))"
proof -
  have "tasks s (current_task s) = Some t" using t(1) by (simp add: get_current_def split: if_splits)
  from proc_inv_set_task [OF inv this t'(1) _ t'(3)] show "proc_inv (set_current t' s)"
    using t t'(2) user_not_head(1) [OF inv t] by (simp add: set_current_def)
  show "2 \<le> length (ready_queue (set_current t' s))" using user_not_head(2) [OF inv t] by (simp add: set_current_def)
qed

lemma wait_for_keyboard_wf:
  assumes wf: "proc_wf s" and r: "task_wait_for_keyboard c s = Some (c', s')"
  shows "proc_wf s'"
proof -
  obtain t where t: "get_current s = Some t" "is_user_process t" "state t = TASK_RUNNABLE"
      "switch_task c (set_current (t\<lparr>state := TASK_WAITING_INPUT\<rparr>) s) = Some (c', s')"
    using r by (auto simp: task_wait_for_keyboard_def bind_Some_iff split: if_splits)
  have inv: "proc_inv s" using wf by (simp add: proc_wf_def)
  have ok: "task_ok (t\<lparr>state := TASK_WAITING_INPUT\<rparr>)" using task_ok_runnable(2) [OF current_task_ok [OF wf t(1)]] t(3) by simp
  have l: "proc_inv (set_current (t\<lparr>state := TASK_WAITING_INPUT\<rparr>) s)"
      "2 \<le> length (ready_queue (set_current (t\<lparr>state := TASK_WAITING_INPUT\<rparr>) s))"
    by (rule leave_inv [OF inv t(1,2)]; use ok t(2) in simp)+
  show ?thesis by (rule switch_proc_wf [OF l(1) t(4)]) (use l(2) in simp)
qed

section \<open>The user heap\<close>

lemma page_align_up:
  assumes "unat v \<le> 0xFFFFF000"
  shows "unat (PAGE_ALIGN_UP v) = (unat v + 4095) div 4096 * 4096" "v \<le> PAGE_ALIGN_UP v"
proof -
  have "v + 0x1000 - 1 = v + 0xFFF" by simp
  moreover have "unat (v + 0xFFF) = unat v + 4095" using assms unat_add32 [of v "0xFFF"] by simp
  ultimately have "unat (PAGE_ALIGN_UP v) = unat v + 4095 - (unat v + 4095) mod 4096"
    unfolding PAGE_ALIGN_UP_def by (simp only: unat_and_F000)
  then show e: "unat (PAGE_ALIGN_UP v) = (unat v + 4095) div 4096 * 4096" by (simp add: minus_mod_eq_div_mult)
  show "v \<le> PAGE_ALIGN_UP v" unfolding word_le_nat_alt e by linarith
qed

lemma heap_limit_small: "x \<le> USER_HEAP_LIMIT \<Longrightarrow> unat x \<le> 0xFFFFF000"
proof -
  assume "x \<le> USER_HEAP_LIMIT"
  then have "unat x \<le> unat USER_HEAP_LIMIT" by (simp only: word_le_nat_alt)
  then show ?thesis by (simp add: USER_HEAP_LIMIT_def)
qed

definition sbrk_target :: "s32int \<Rightarrow> u32int \<Rightarrow> u32int option" where
  "sbrk_target inc b = (if 0 \<le> sint inc
     then (if inc > 0xFFFFFFFF - b then None else Some (b + inc))
     else (if 0 - inc > b then None else Some (b - (0 - inc))))"

lemma task_sbrk_eq:
  assumes "current_task s \<noteq> 0" "get_current s = Some t"
  shows "task_sbrk al inc s =
     (if \<not> is_user_process t then Some (0xFFFFFFFF, s)
      else case sbrk_target inc (heap_break t) of
             None \<Rightarrow> Some (0xFFFFFFFF, s)
           | Some b \<Rightarrow>
               (if b < heap_start t \<or> b > heap_limit t then Some (0xFFFFFFFF, s)
                else do {
                  s \<leftarrow> map_range (map_user_page al (page_directory t)) (heap_mapped_end t) (PAGE_ALIGN_UP b) s;
                  p \<leftarrow> get_current s;
                  let p = (if PAGE_ALIGN_UP b > heap_mapped_end p then p\<lparr>heap_mapped_end := PAGE_ALIGN_UP b\<rparr> else p);
                  Some (heap_break t, set_current (p\<lparr>heap_break := b\<rparr>) s) }))"
  using assms unfolding task_sbrk_def sbrk_target_def Let_def by simp

lemma sbrk_cases:
  fixes s :: "'a tstate_scheme"
  assumes r: "task_sbrk (kernel_alloc n) inc s = Some (r, s')"
  obtains "s' = s" "r = 0xFFFFFFFF"
    | t b s1 where "get_current s = Some t" "is_user_process t" "r = heap_break t" "heap_start t \<le> b" "b \<le> heap_limit t"
      "sint inc < 0 \<Longrightarrow> unat b + unat (0 - inc) = unat (heap_break t)"
      "0 \<le> sint inc \<Longrightarrow> unat b = unat (heap_break t) + unat inc" "keeps s s1"
      "map_range (map_user_page (kernel_alloc n) (page_directory t)) (heap_mapped_end t) (PAGE_ALIGN_UP b) s = Some s1"
      "s' = set_current (t\<lparr>heap_mapped_end := max (heap_mapped_end t) (PAGE_ALIGN_UP b), heap_break := b\<rparr>) s1"
proof (cases "current_task s = 0")
  case True
  then show thesis using r that(1) by (simp add: task_sbrk_def)
next
  case False
  then obtain t where t: "get_current s = Some t" using r by (auto simp: task_sbrk_def bind_Some_iff)
  define nb where "nb = sbrk_target inc (heap_break t)"
  have nb: "(sint inc < 0 \<longrightarrow> unat b + unat (0 - inc) = unat (heap_break t)) \<and> (0 \<le> sint inc \<longrightarrow> unat b = unat (heap_break t) + unat inc)"
    if "nb = Some b" for b
  proof (cases "0 \<le> sint inc")
    case True
    then have b: "inc \<le> 0xFFFFFFFF - heap_break t" "b = heap_break t + inc" using that by (auto simp: nb_def sbrk_target_def split: if_splits)
    have "unat (0xFFFFFFFF - heap_break t :: u32int) = 4294967295 - unat (heap_break t)"
      using unat_sub32 [of "heap_break t" "0xFFFFFFFF"] by simp
    then have "unat inc \<le> 4294967295 - unat (heap_break t)" using b(1) unfolding word_le_nat_alt by simp
    then have "unat (heap_break t) + unat inc < 4294967296" using unat_lt_2_32 [of "heap_break t"] by linarith
    then show ?thesis using b(2) unat_add32 [of "heap_break t" inc] True by simp
  next
    case False
    then have b: "0 - inc \<le> heap_break t" "b = heap_break t - (0 - inc)" using that by (auto simp: nb_def sbrk_target_def split: if_splits)
    then show ?thesis using unat_sub32 [of "0 - inc" "heap_break t"] False unfolding word_le_nat_alt by simp
  qed
  show thesis
  proof (cases "is_user_process t \<and> (\<exists>b. nb = Some b \<and> heap_start t \<le> b \<and> b \<le> heap_limit t)")
    case False
    then have "s' = s \<and> r = 0xFFFFFFFF"
      using r unfolding task_sbrk_eq [OF \<open>current_task s \<noteq> 0\<close> t] nb_def [symmetric]
      by (auto simp: not_less not_le split: if_splits option.splits)
    then show thesis using that(1) by simp
  next
    case True
    then obtain b where b: "is_user_process t" "nb = Some b" "heap_start t \<le> b" "b \<le> heap_limit t" by blast
    have eq: "task_sbrk (kernel_alloc n) inc s = do {
        s \<leftarrow> map_range (map_user_page (kernel_alloc n) (page_directory t)) (heap_mapped_end t) (PAGE_ALIGN_UP b) s;
        p \<leftarrow> get_current s;
        let p = (if PAGE_ALIGN_UP b > heap_mapped_end p then p\<lparr>heap_mapped_end := PAGE_ALIGN_UP b\<rparr> else p);
        Some (heap_break t, set_current (p\<lparr>heap_break := b\<rparr>) s) }"
      unfolding task_sbrk_eq [OF \<open>current_task s \<noteq> 0\<close> t] nb_def [symmetric] using b leD [OF b(3)] leD [OF b(4)] by simp
    from r [unfolded eq] obtain s1 p where s1: "map_range (map_user_page (kernel_alloc n) (page_directory t)) (heap_mapped_end t) (PAGE_ALIGN_UP b) s = Some s1"
        "get_current s1 = Some p" "r = heap_break t"
        "s' = set_current ((if PAGE_ALIGN_UP b > heap_mapped_end p then p\<lparr>heap_mapped_end := PAGE_ALIGN_UP b\<rparr> else p)\<lparr>heap_break := b\<rparr>) s1"
      by (auto simp: bind_Some_iff Let_def)
    have k: "keeps s s1"
      by (rule keeperD [OF map_range_keeps [OF map_user_page_keeps [OF kernel_alloc_keeps]] s1(1)])
    have "p = t" using s1(2) t keeps_tstate(8) [OF k] by simp
    moreover have "(if x > heap_mapped_end t then t\<lparr>heap_mapped_end := x\<rparr> else t) = t\<lparr>heap_mapped_end := max (heap_mapped_end t) x\<rparr>" for x
      by (cases t) (auto simp: max_def not_less)
    ultimately show thesis using that(2) [OF t b(1) s1(3) b(3,4) _ _ k s1(1)] nb [OF b(2)] s1(4) by auto
  qed
qed

lemma sbrk_wf:
  fixes s :: "'a tstate_scheme"
  assumes wf: "proc_wf s" and r: "task_sbrk (kernel_alloc n) inc s = Some (r, s')"
  shows "proc_wf s'"
  using r
proof (cases rule: sbrk_cases)
  case (2 t b s1)
  have ok: "task_ok t" "heap_ok t" using current_task_ok [OF wf 2(1)] 2(2) by (auto simp: task_ok_def)
  have "b \<le> USER_HEAP_LIMIT" using 2(5) ok(2) by (auto simp: heap_ok_def)
  then have "b \<le> PAGE_ALIGN_UP b" by (intro page_align_up heap_limit_small)
  then have "task_ok (t\<lparr>heap_mapped_end := max (heap_mapped_end t) (PAGE_ALIGN_UP b), heap_break := b\<rparr>)"
    using ok 2(4,5) by (auto simp: task_ok_def heap_ok_def std_ok_def le_max_iff_disj)
  then show ?thesis unfolding 2(10)
    using 2(1) keeps_tstate(8) [OF 2(8)] by (intro proc_wf_set_current [OF proc_wf_keeps [OF wf 2(8)], of t]) simp_all
qed (use wf in simp)

end
