(* ===== verification/Exec_Life.thy ===== *)
theory Exec_Life
  imports Exec Process_Invariant
begin

text \<open>
  \<open>process_execve\<close> (\<open>src/exec.c\<close>) as a transaction on the process table: what it leaves when it fails,
  what it changes when it commits, and that the invariant of the process table survives both.
\<close>

section \<open>Postconditions\<close>

text \<open>\<open>post P m\<close>: if \<open>m\<close> returns, its result satisfies \<open>P\<close>.\<close>

definition post :: "('r \<Rightarrow> bool) \<Rightarrow> 'r option \<Rightarrow> bool" where
  "post P m \<longleftrightarrow> (\<forall>r. m = Some r \<longrightarrow> P r)"

lemma postD: "\<lbrakk>post P m; m = Some r\<rbrakk> \<Longrightarrow> P r"
  by (simp add: post_def)

lemma post_Some [simp]: "post P (Some x) = P x" and post_None [simp]: "post P None"
  by (simp_all add: post_def)

lemma post_bind: "\<lbrakk>post Q m; \<And>x. Q x \<Longrightarrow> post P (f x)\<rbrakk> \<Longrightarrow> post P (m \<bind> f)"
  by (auto simp: post_def bind_Some_iff)

lemma post_value: "(\<And>x. m = Some x \<Longrightarrow> post P (f x)) \<Longrightarrow> post P (m \<bind> f)"
  by (auto simp: post_def bind_Some_iff)

lemma post_if: "\<lbrakk>c \<Longrightarrow> post P a; \<not> c \<Longrightarrow> post P b\<rbrakk> \<Longrightarrow> post P (if c then a else b)"
  by simp

lemma post_pair: "(\<And>a b. x = (a, b) \<Longrightarrow> post P (f a b)) \<Longrightarrow> post P (case x of (a, b) \<Rightarrow> f a b)"
  by (cases x) simp

lemma post_option: "\<lbrakk>x = None \<Longrightarrow> post P a; \<And>y. x = Some y \<Longrightarrow> post P (f y)\<rbrakk> \<Longrightarrow> post P (case x of None \<Rightarrow> a | Some y \<Rightarrow> f y)"
  by (cases x) simp_all

text \<open>A keeper as a postcondition, after steps that have kept the state so far.\<close>

lemma keeper_post: "\<lbrakk>keeper st f; keeps s0 s\<rbrakk> \<Longrightarrow> post (\<lambda>r. keeps s0 (st r)) (f s)"
  by (auto simp: post_def intro: keeper_step)

lemma keeperI: "(\<And>s. post (\<lambda>r. keeps s (st r)) (f s)) \<Longrightarrow> keeper st f"
  by (simp add: keeper_def post_def)

lemma bind_pairE:
  assumes "(m \<bind> (\<lambda>(a, b). f a b)) = Some r"
  obtains a b where "m = Some (a, b)" "f a b = Some r"
  using assms by (auto simp: bind_Some_iff)

lemmas post_rules = post_if post_pair post_option

section \<open>What the steps keep\<close>

lemma exec_map_page_keeps [frame]:
  assumes "keeps_alloc al"
  shows "keeper snd (exec_map_page al dir a)"
proof (rule keeperI)
  fix s
  have gp: "keeper snd (get_page (kmalloc_ap al) a True dir)"
    by (rule get_page_keeps) (use kmalloc_keeps(3) [OF assms] in blast)
  show "post (\<lambda>r. keeps s (snd r)) (exec_map_page al dir a s)"
    unfolding exec_map_page_def
    by (rule post_bind [OF keeper_post [OF gp keeps_refl]], intro post_rules post_value)
      (auto simp: zero_page_physical_def dest!: keeperD [OF alloc_frame_keeps] intro: keeps_trans)
qed

lemma exec_map_pages_keeps [frame]:
  fixes al :: "'a pstate_scheme alloc_op"
  assumes "keeps_alloc al"
  shows "keeper snd (exec_map_pages al dir n a)"
proof (induction n arbitrary: a)
  case (Suc n)
  show ?case
  proof (rule keeperI, unfold exec_map_pages.simps, rule post_bind [OF keeper_post [OF exec_map_page_keeps [OF assms] keeps_refl]],
      intro post_rules)
    fix s s1 :: "'a pstate_scheme" and x ok assume "keeps s (snd x)" "x = (ok, s1)"
    then show "post (\<lambda>r. keeps s (snd r)) (exec_map_pages al dir n (a + 0x1000) s1)" by (intro keeper_post [OF Suc.IH]) simp
  qed simp
qed (simp add: keeper_def)

lemma protect_pages_keeps [frame]: "keeper (\<lambda>s. s) (protect_pages dir w n a)"
proof (induction n arbitrary: a)
  case (Suc n)
  show ?case
  proof (rule keeperI, unfold protect_pages.simps, rule post_bind [OF keeper_post [OF get_page_find_keeps keeps_refl]],
      intro post_rules post_value)
    fix s s1 s2 :: "'a pstate_scheme" and x p q pg u
    assume "keeps s (snd x)" "x = (p, s1)" "write_page q (pg\<lparr>rw := w\<rparr>) s1 = Some s2"
    then have "keeps s s2" using keeper_step [OF write_page_keeps] by fastforce
    from keeper_post [OF Suc.IH this] show "post (keeps s) (protect_pages dir w n (a + 0x1000) s2)" .
  qed
qed (simp add: keeper_def)

lemma load_segment_keeps [frame]:
  fixes al :: "'a fstate_scheme alloc_op"
  assumes "keeps_alloc al"
  shows "keeper snd (load_segment al file dir p)"
proof (rule keeperI)
  fix s :: "'a fstate_scheme"
  have read: "post (\<lambda>r. keeps s (snd r)) (do { (n, bs) \<leftarrow> m; s2 \<leftarrow> user_store va bs s1; Some (n = sz, s2) })"
    if "keeps s s1" for s1 va sz and m :: "(u32int \<times> u8int list) option"
    by (intro post_value post_rules) (use keeper_step [OF user_store_keeps _ that] in simp)
  show "post (\<lambda>r. keeps s (snd r)) (load_segment al file dir p s)"
    unfolding load_segment_def Let_def
    apply (rule post_bind [OF keeper_post [OF exec_map_pages_keeps [OF assms] keeps_refl]])
    apply (intro post_rules, simp)
    apply (rule post_bind [where Q = "\<lambda>r. keeps s (snd r)"])
     apply (rule post_if, rule read, simp, simp)
    apply (intro post_rules, simp, rule post_bind [OF keeper_post [OF protect_pages_keeps]])
     apply simp_all
    done
qed

lemma load_segments_keeps [frame]:
  fixes al :: "'a fstate_scheme alloc_op"
  assumes "keeps_alloc al"
  shows "keeper snd (load_segments al file dir ps)"
proof (induction ps)
  case (Cons p ps)
  show ?case
  proof (rule keeperI, unfold load_segments.simps, rule post_if)
    fix s :: "'a fstate_scheme"
    show "post (\<lambda>r. keeps s (snd r)) (load_segments al file dir ps s)" by (rule keeper_post [OF Cons.IH keeps_refl])
    show "post (\<lambda>r. keeps s (snd r)) (do { (ok, s) \<leftarrow> load_segment al file dir p s;
        (if ok then load_segments al file dir ps s else Some (False, s)) })"
      by (rule post_bind [OF keeper_post [OF load_segment_keeps [OF assms] keeps_refl]], intro post_rules)
        (auto intro: keeper_post [OF Cons.IH])
  qed
qed (simp add: keeper_def)

lemma push_arguments_keeps [frame]: "keeper snd (push_arguments req n sp as)"
proof (induction n arbitrary: sp as)
  case (Suc n)
  show ?case
    by (rule keeperI, unfold push_arguments.simps Let_def, intro post_if)
      (auto intro: post_bind [OF keeper_post [OF user_store_keeps keeps_refl]] keeper_post [OF Suc.IH])
qed (simp add: keeper_def)

lemma push_words_keeps [frame]: "keeper snd (push_words vs sp)"
proof (induction vs arbitrary: sp)
  case (Cons v vs)
  show ?case
    by (rule keeperI, unfold push_words.simps)
      (rule post_bind [OF keeper_post [OF user_store_keeps keeps_refl] keeper_post [OF Cons.IH]])
qed (simp add: keeper_def)

lemma push_pointers_keeps [frame]: "keeper snd (push_pointers req sp as)"
proof (rule keeperI)
  fix s :: "'a pstate_scheme"
  show "post (\<lambda>r. keeps s (snd r)) (push_pointers req sp as s)"
    unfolding push_pointers_def Let_def
    by (rule post_if, simp, rule post_bind [OF keeper_post [OF push_words_keeps keeps_refl]], intro post_rules post_value, simp)
qed

lemma build_initial_stack_keeps [frame]:
  assumes "keeps_alloc al"
  shows "keeper snd (build_initial_stack al req dir)"
proof (rule keeperI)
  fix s
  show "post (\<lambda>r. keeps s (snd r)) (build_initial_stack al req dir s)"
    unfolding build_initial_stack_def
    by (rule post_bind [OF keeper_post [OF exec_map_pages_keeps [OF assms] keeps_refl]], intro post_rules, simp,
        rule post_bind [OF keeper_post [OF push_arguments_keeps]], simp, intro post_rules, simp)
      (auto intro: keeper_post [OF push_pointers_keeps])
qed

section \<open>The outcomes of execve\<close>

text \<open>The process after a successful call.\<close>

definition replaced :: "u32int \<Rightarrow> u32int \<Rightarrow> task_t \<Rightarrow> task_t" where
  "replaced dir heap t = (exec_commit dir heap t)\<lparr>signal_handlers := exec_reset_handlers (signal_handlers t),
     signal_trampoline := 0, signal_active := False, active_signal := 0\<rparr>"

lemma keeps_switch_back:
  assumes "keeps s s1" "keeps (switch_page_directory dir s1) s2" "keeps (switch_page_directory old s2) s3"
  shows "keeps (switch_page_directory old s) s3"
  using assms by (simp add: keeps_def switch_page_directory_def)

lemma switch_page_directory_sel [simp]:
  "tasks (switch_page_directory dir s) = tasks s" "ready_queue (switch_page_directory dir s) = ready_queue s"
  "current_task (switch_page_directory dir s) = current_task s" "next_pid (switch_page_directory dir s) = next_pid s"
  "get_current (switch_page_directory dir s) = get_current s" "current_directory (switch_page_directory dir s) = dir"
  by (simp_all add: switch_page_directory_def get_current_def)

lemma switch_same [simp]: "switch_page_directory (current_directory s) s = s"
  by (simp add: switch_page_directory_def)

lemma exec_reset_commit:
  assumes "get_current s = Some t"
  shows "task_signal_exec_reset (set_current (exec_commit dir heap t) s) = Some (set_current (replaced dir heap t) s)"
  using assms
  by (auto simp: task_signal_exec_reset_def get_current_def set_current_def set_task_def replaced_def exec_commit_def split: if_splits)

lemma abandon_image_keeps:
  assumes "keeps s s1" "keeps (switch_page_directory dir s1) s2" "abandon_image old dir ra s2 = Some s3"
  shows "keeps (switch_page_directory old s) s3"
proof -
  obtain s4 where s4: "destroy_directory kfree dir (switch_page_directory old s2) = Some s4" "kfree ra s4 = Some s3"
    using assms(3) by (auto simp: abandon_image_def bind_Some_iff)
  show ?thesis
    by (rule keeps_switch_back [OF assms(1,2)])
      (rule keeps_trans [OF keeperD [OF destroy_directory_keeps s4(1)] keeperD [OF kfree_keeps s4(2)]])
qed

lemma install_image_cases:
  fixes s :: "'a tstate_scheme"
  assumes r: "install_image al file request highest ra t regs s = Some (r, regs', s')"
    and al: "keeps_alloc al" and t: "get_current s = Some t"
  obtains (failed) "r = -1" "regs' = regs" "keeps (switch_page_directory (page_directory t) s) s'"
    | (committed) dir s2 s3 sp s4 s6 where "r = 0"
      "clone_directory (kmalloc_ap al) (kernel_directory s) s = Some (dir, s2)"
      "map_and_load_segments al file request dir (switch_page_directory dir s2) = Some (True, s3)"
      "build_initial_stack al request dir s3 = Some (Some sp, s4)" "keeps s s2" "keeps (switch_page_directory dir s2) s4"
      "ALIGN_UP_PAGE highest < USER_HEAP_LIMIT"
      "destroy_directory kfree (page_directory t) (set_current (replaced dir (ALIGN_UP_PAGE highest) t) s4) = Some s6"
      "kfree ra s6 = Some s'"
      "regs' = regs\<lparr>eip := e_entry (header request), useresp := sp, eax := 0\<rparr>"
proof -
  have kap: "keeps_alloc_p (kmalloc_ap al)" using kmalloc_keeps(3) [OF al] by blast
  obtain dir s2 ok s3 sp s4 where s2: "clone_directory (kmalloc_ap al) (kernel_directory s) s = Some (dir, s2)"
    and s3: "map_and_load_segments al file request dir (switch_page_directory dir s2) = Some (ok, s3)"
    and s4: "(if ok then build_initial_stack al request dir s3 else Some (None, s3)) = Some (sp, s4)"
    using r unfolding install_image_def Let_def by (elim bind_pairE) blast
  have k2: "keeps s s2" using keeperD [OF clone_directory_keeps [OF kap] s2] by simp
  have k3: "keeps (switch_page_directory dir s2) s3"
    using keeperD [OF load_segments_keeps [OF al]] s3 by (fastforce simp: map_and_load_segments_def)
  have k4: "keeps (switch_page_directory dir s2) s4"
    using s4 k3 keeper_step [OF build_initial_stack_keeps [OF al]] by (fastforce split: if_splits)
  note rest = r [unfolded install_image_def Let_def s2 bind.bind_lunit prod.case s3 s4]
  have abandon: thesis if "do { s5 \<leftarrow> abandon_image (page_directory t) dir ra s4; Some (-1, regs, s5) } = Some (r, regs', s')"
    using that failed abandon_image_keeps [OF k2 k4] by (auto simp: bind_Some_iff)
  show thesis
  proof (cases "\<exists>p. sp = Some p \<and> ALIGN_UP_PAGE highest < USER_HEAP_LIMIT")
    case False
    show thesis by (rule abandon) (use rest False in \<open>auto split: option.splits if_splits\<close>)
  next
    case True
    then obtain p where p: "sp = Some p" "ALIGN_UP_PAGE highest < USER_HEAP_LIMIT" by blast
    have ok: "ok" "build_initial_stack al request dir s3 = Some (Some p, s4)" using s4 p(1) by (auto split: if_splits)
    have "get_current s4 = Some t"
      using t keeps_tstate(8) [OF k2] keeps_tstate(8) [OF k4] by simp
    note reset = exec_reset_commit [OF this]
    obtain s6 where "destroy_directory kfree (page_directory t) (set_current (replaced dir (ALIGN_UP_PAGE highest) t) s4) = Some s6"
        "kfree ra s6 = Some s'" "r = 0" "regs' = regs\<lparr>eip := e_entry (header request), useresp := p, eax := 0\<rparr>"
      using rest p unfolding p(1) option.case reset bind.bind_lunit by (auto simp: bind_Some_iff linorder_not_le [symmetric])
    then show thesis using committed [OF _ s2 _ ok(2) k2 k4 p(2)] s3 ok(1) by simp
  qed
qed

lemma execve_cases:
  fixes s :: "'a tstate_scheme"
  assumes r: "process_execve al path argv envp regs s = Some (r, regs', s')"
    and al: "keeps_alloc al"
  obtains (failed) cd where "r = -1" "regs' = regs" "keeps (switch_page_directory cd s) s'"
      "cd = current_directory s \<or> (\<exists>t. get_current s = Some t \<and> cd = page_directory t)"
    | (committed) t ra s1 request0 request highest f where
      "get_current s = Some t" "is_user_process t"
      "kmalloc al sizeof_exec_request s = Some (ra, s1)" "ra \<noteq> 0" "keeps s s1"
      "capture_request path argv envp s1 = Some (Some request0)"
      "f = resolve_path_fs (fs_nodes s1) (fs_root s1) (working_directory t) (bytes_string (req_path request0))"
      "validate_elf f request0 s1 = Some (Some (request, highest))"
      "install_image al f request highest ra t regs s1 = Some (0, regs', s')" "r = 0"
proof (cases "current_task s = 0 \<or> (\<exists>t. get_current s = Some t \<and> \<not> is_user_process t)")
  case True
  then have "(r, regs', s') = (-1, regs, s)"
    using r by (elim disjE exE conjE) (simp_all add: process_execve_def split: if_splits)
  then show thesis using failed [of "current_directory s"] by simp
next
  case False
  obtain t where t: "get_current s = Some t" "is_user_process t" using r False by (auto simp: process_execve_def bind_Some_iff)
  note rest = r [unfolded process_execve_def t(1) bind.bind_lunit]
  obtain ra s1 where s1: "kmalloc al sizeof_exec_request s = Some (ra, s1)"
    using rest False t(2) by (auto simp: bind_Some_iff)
  have k1: "keeps s s1" using keeperD [OF kmalloc_keeps(1) [OF al] s1] by simp
  have release: thesis if "do { s2 \<leftarrow> kfree ra s1; Some (-1, regs, s2) } = Some (r, regs', s')"
    using that failed [of "current_directory s"] keeper_step [OF kfree_keeps _ k1] by (auto simp: bind_Some_iff)
  show thesis
  proof (cases "ra = 0")
    case True
    then show thesis using rest s1 False t(2) k1 failed [of "current_directory s"] by simp
  next
    case ra: False
    obtain cr where cr: "capture_request path argv envp s1 = Some cr" using rest s1 False t(2) ra by (auto simp: bind_Some_iff)
    show thesis
    proof (cases cr)
      case None
      show thesis by (rule release) (use rest s1 False t(2) ra cr None in simp)
    next
      case (Some request0)
      let ?f = "resolve_path_fs (fs_nodes s1) (fs_root s1) (working_directory t) (bytes_string (req_path request0))"
      obtain v where v: "validate_elf ?f request0 s1 = Some v"
        using rest s1 False t(2) ra cr Some by (auto simp: bind_Some_iff Let_def)
      show thesis
      proof (cases v)
        case None
        show thesis by (rule release) (use rest s1 False t(2) ra cr Some v None in \<open>simp add: Let_def\<close>)
      next
        case v2: (Some rh)
        obtain request highest where rh: "rh = (request, highest)" by (cases rh)
        have i: "install_image al ?f request highest ra t regs s1 = Some (r, regs', s')"
          using rest s1 False t(2) ra cr Some v v2 rh by (simp add: Let_def)
        have t1: "get_current s1 = Some t" using keeps_tstate(8) [OF k1] t(1) by simp
        show thesis
        proof (cases rule: install_image_cases [OF i al t1])
          case 1
          have "keeps (switch_page_directory (page_directory t) s) s'" using 1(3) k1 by (simp add: keeps_def switch_page_directory_def)
          then show thesis using failed 1 t(1) by blast
        next
          case 2
          show thesis by (rule committed [OF t s1 ra k1 _ refl]) (use cr Some v v2 rh i 2(1) in simp_all)
        qed
      qed
    qed
  qed
qed

section \<open>The invariant\<close>

lemma replaced_ok:
  assumes "task_ok t" "heap \<le> USER_HEAP_LIMIT"
  shows "task_ok (replaced dir heap t)" "task_id (replaced dir heap t) = task_id t"
    "is_user_process (replaced dir heap t) = is_user_process t" "state (replaced dir heap t) = state t"
  using assms by (simp_all add: replaced_def exec_commit_def task_ok_def heap_ok_def std_ok_def exec_reset_handlers_def)

lemma committed_state:
  fixes s :: "'a tstate_scheme"
  assumes k: "keeps s s2" "keeps (switch_page_directory dir s2) s4" and t: "get_current s = Some t"
    and d: "destroy_directory kfree old (set_current t' s4) = Some s6" "kfree ra s6 = Some s'"
  shows "tasks s' = (tasks s)(current_task s \<mapsto> t')" "ready_queue s' = ready_queue s" "current_task s' = current_task s"
    "next_pid s' = next_pid s" "tss_esp0 s' = tss_esp0 s" "current_directory s' = dir"
proof -
  have k6: "keeps (set_current t' s4) s'" by (rule keeps_trans [OF keeperD [OF destroy_directory_keeps d(1)] keeperD [OF kfree_keeps d(2)]])
  note e = keeps_tstate [OF k(1)] keeps_tstate [OF k(2)] keeps_tstate [OF k6]
  have "current_directory s' = current_directory s4" using k6 by (simp add: keeps_def set_current_def set_task_def)
  then show "current_directory s' = dir" using k(2) by (simp add: keeps_def)
  show "tasks s' = (tasks s)(current_task s \<mapsto> t')" "ready_queue s' = ready_queue s" "current_task s' = current_task s"
    "next_pid s' = next_pid s" "tss_esp0 s' = tss_esp0 s"
    using e by (simp_all add: set_current_def) (simp_all add: set_task_def switch_page_directory_def)
qed

lemma execve_wf:
  fixes s :: "'a tstate_scheme"
  assumes wf: "proc_wf s" and r: "process_execve (kernel_alloc n) path argv envp regs s = Some (r, regs', s')"
  shows "proc_wf s'"
proof (cases rule: execve_cases [OF r kernel_alloc_keeps])
  case (1 cd)
  have "proc_wf (switch_page_directory cd s)"
    using wf proc_inv_cong [of s "switch_page_directory cd s"] proc_invD(4) [of s] by (simp add: proc_wf_def)
  then show ?thesis by (rule proc_wf_keeps [OF _ 1(3)])
next
  case (2 t ra s1 request0 request highest f)
  note committed = 2
  have t1: "get_current s1 = Some t" using keeps_tstate(8) [OF 2(5)] 2(1) by simp
  from install_image_cases [OF committed(9) kernel_alloc_keeps t1] show ?thesis
  proof cases
    case (2 dir s2 s3 sp s4 s6)
    let ?t = "replaced dir (ALIGN_UP_PAGE highest) t"
    note st = committed_state [OF 2(5,6) t1 2(8,9)]
    have wf1: "proc_wf s1" by (rule proc_wf_keeps [OF wf committed(5)])
    have "proc_wf (set_current ?t s1)"
      by (rule proc_wf_set_current [OF wf1 t1])
        (use replaced_ok [OF current_task_ok [OF wf1 t1], of "ALIGN_UP_PAGE highest" dir] 2(7) in simp_all)
    then have w: "proc_inv (set_current ?t s1)" "runnable_at (tasks (set_current ?t s1)) (current_task (set_current ?t s1))"
      by (simp_all add: proc_wf_def)
    have "proc_inv s'"
      by (rule proc_inv_cong [OF w(1)]) (use st proc_invD(4) [OF w(1)] in \<open>simp_all add: set_current_def\<close>)
    then show ?thesis using w(2) st by (simp add: proc_wf_def set_current_def)
  qed simp
qed

end
