(* ===== verification/Process_Life.thy ===== *)
theory Process_Life
  imports Exec_Life
begin

text \<open>
  The operations that create and end processes keep the invariant (\<open>src/task.c\<close>, \<open>src/signal.c\<close>):
  fork, the first process, exit, waitpid and the delivery of signals; \<open>execve\<close> has been treated before. The relation \<open>proc_step\<close>
  collects all calls into the process layer, and every run of them from the state after
  \<open>initialise_tasking\<close> satisfies the invariant.
\<close>

section \<open>Fork\<close>

lemma notify_open_same: "notify_open fds s = Some s' \<Longrightarrow> s' = s"
  by (induction fds arbitrary: s) (auto simp: bind_Some_iff dest!: opens_nothing split: if_splits)

lemma close_all_same: "close_all fds s = Some s' \<Longrightarrow> s' = s"
  by (induction fds arbitrary: s) (auto simp: bind_Some_iff dest!: opens_nothing split: if_splits)

text \<open>The child of a fork.\<close>

definition forked :: "task_t \<Rightarrow> s32int \<Rightarrow> u32int \<Rightarrow> u32int \<Rightarrow> u32int \<Rightarrow> task_t" where
  "forked par pid dir stack resume = \<lparr>task_id = pid, parent_id = task_id par, state = TASK_RUNNABLE, exit_status = 0,
     t_esp = stack + KERNEL_STACK_SIZE - sizeof_registers, t_ebp = stack + KERNEL_STACK_SIZE - sizeof_registers,
     t_eip = resume, page_directory = dir, kernel_stack = stack,
     heap_start = heap_start par, heap_break = heap_break par, heap_mapped_end = heap_mapped_end par, heap_limit = heap_limit par,
     is_user_process = True, signal_handlers = signal_handlers par, pending_signals = 0,
     signal_trampoline = signal_trampoline par, signal_active = False, active_signal = 0,
     descriptors = descriptors par, working_directory = working_directory par\<rparr>"

lemma fork_cases:
  fixes s :: "'a tstate_scheme"
  assumes r: "task_fork_from_frame (kernel_alloc n) resume regs s = Some (r, s')"
  obtains (refused) t where "s' = s" "r = -1" "current_task s = 0 \<or> get_current s = Some t \<and> (\<not> is_user_process t \<or> state t \<noteq> TASK_RUNNABLE)"
    | (child) par a dir stack s1 s2 s3 where "get_current s = Some par" "is_user_process par" "state par = TASK_RUNNABLE"
      "r = next_pid s"
      "clone_directory (kmalloc_ap (kernel_alloc n)) (current_directory s) s = Some (dir, s1)"
      "kmalloc (kernel_alloc n) sizeof_task s1 = Some (a, s2)"
      "kmalloc_a (kernel_alloc n) KERNEL_STACK_SIZE (s2\<lparr>next_pid := next_pid s + 1\<rparr>) = Some (stack, s3)"
      "s' = append_ready_task a (set_task a (forked par (next_pid s) dir stack resume)
         (s3\<lparr>mem := store_words (mem s3) (stack + KERNEL_STACK_SIZE - sizeof_registers) (reg_words (regs\<lparr>eax := 0\<rparr>))\<rparr>))"
      "tasks s3 = tasks s" "ready_queue s3 = ready_queue s" "current_task s3 = current_task s" "next_pid s3 = next_pid s + 1"
proof (cases "current_task s = 0")
  case True
  then show thesis using r refused by (simp add: task_fork_from_frame_def)
next
  case False
  then obtain par where par: "get_current s = Some par" using r by (auto simp: task_fork_from_frame_def bind_Some_iff)
  show thesis
  proof (cases "is_user_process par \<and> state par = TASK_RUNNABLE")
    case False
    then show thesis using r refused [of par] \<open>current_task s \<noteq> 0\<close> par by (auto simp: task_fork_from_frame_def)
  next
    case True
    have k: "keeps_alloc (kernel_alloc n :: 'a tstate_scheme alloc_op)" by (rule kernel_alloc_keeps)
    obtain dir s1 a s2 stack s3 s4 where
      c: "clone_directory (kmalloc_ap (kernel_alloc n)) (current_directory s) s = Some (dir, s1)"
      and a: "kmalloc (kernel_alloc n) sizeof_task s1 = Some (a, s2)"
      and st: "kmalloc_a (kernel_alloc n) KERNEL_STACK_SIZE (s2\<lparr>next_pid := next_pid s2 + 1\<rparr>) = Some (stack, s3)"
      and no: "notify_open (descriptors par) s3 = Some s4" and "r = next_pid s2"
      and s': "s' = append_ready_task a (set_task a (forked par (next_pid s2) dir stack resume)
         (s4\<lparr>mem := store_words (mem s4) (stack + KERNEL_STACK_SIZE - sizeof_registers) (reg_words (regs\<lparr>eax := 0\<rparr>))\<rparr>))"
      using r par True \<open>current_task s \<noteq> 0\<close>
      by (auto simp: task_fork_from_frame_def bind_Some_iff Let_def task_signal_inherit_def forked_def zero_task_def)
    have k1: "keeps s s1" using keeperD [OF clone_directory_keeps c] kmalloc_keeps(3) [OF k] by auto
    have k2: "keeps s1 s2" using keeperD [OF kmalloc_keeps(1) [OF k] a] by simp
    have k3: "keeps (s2\<lparr>next_pid := next_pid s2 + 1\<rparr>) s3" using keeperD [OF kmalloc_keeps(2) [OF k] st] by simp
    note k12 = keeps_tstate [OF keeps_trans [OF k1 k2]] and k3 = keeps_tstate [OF k3]
    show thesis
      by (rule child [OF par _ _ _ c a]) (use True st no notify_open_same s' k12 k3 \<open>r = next_pid s2\<close> in auto)
  qed
qed

lemma proc_inv_add:
  assumes inv: "proc_inv s" and new: "tasks s a = None" "a \<noteq> 0" and np: "next_pid s \<noteq> 0xFFFFFFFF"
    and t: "task_ok t" "task_id t = next_pid s" "is_user_process t"
    and s': "tasks s' = (tasks s)(a \<mapsto> t)" "ready_queue s' = ready_queue s @ [a]" "current_task s' = current_task s"
      "next_pid s' = next_pid s + 1"
  shows "proc_inv s'"
proof -
  have a: "a \<notin> set (ready_queue s)" using proc_invD(3) [OF inv] new(1) by blast
  have "unat (next_pid s) \<noteq> 4294967295" using np by (simp add: word_unat_eq_iff)
  then have "unat (next_pid s) < 4294967295" using unat_lt_2_32 [of "next_pid s"] by linarith
  then have n: "unat (next_pid s + 1) = unat (next_pid s) + 1" using unat_add32 [of "next_pid s" 1] by simp
  obtain h where h: "tasks s (hd (ready_queue s)) = Some h" by (rule proc_inv_head [OF inv])
  have p0: "next_pid s \<noteq> 0" using proc_invD(6) [OF inv h] by auto
  have hd: "hd (ready_queue s @ [a]) = hd (ready_queue s)" "hd (ready_queue s) \<noteq> a" using proc_invD(5) [OF inv] a by auto
  have ids: "task_id u \<noteq> next_pid s" if "tasks s b = Some u" for b u using proc_invD(6) [OF inv that] by auto
  show ?thesis
  proof (rule proc_invI; (unfold s')?)
    fix b u assume "((tasks s)(a \<mapsto> t)) b = Some u"
    then show "task_ok u \<and> unat (task_id u) < unat (next_pid s + 1) \<and>
        (if b = hd (ready_queue s @ [a]) then task_id u = 0 \<and> state u = TASK_RUNNABLE \<and> \<not> is_user_process u
         else task_id u \<noteq> 0 \<and> is_user_process u)"
      using t p0 hd proc_invD(6,7) [OF inv, of b u] proc_invD(8) [OF inv, of u] unfolding n by (auto split: if_splits)
  next
    fix b c u v assume "((tasks s)(a \<mapsto> t)) b = Some u" "((tasks s)(a \<mapsto> t)) c = Some v" "task_id u = task_id v"
    then show "b = c" using ids t(2) proc_invD(9) [OF inv, of b u c v] by (auto split: if_splits)
  qed (use proc_invD(1-5) [OF inv] a new in auto)
qed

lemma proc_wf_add:
  assumes wf: "proc_wf s" and new: "tasks s a = None" "a \<noteq> 0" and np: "next_pid s \<noteq> 0xFFFFFFFF"
    and t: "task_ok t" "task_id t = next_pid s" "is_user_process t"
    and s': "tasks s' = (tasks s)(a \<mapsto> t)" "ready_queue s' = ready_queue s @ [a]" "current_task s' = current_task s"
      "next_pid s' = next_pid s + 1"
  shows "proc_wf s'"
proof -
  have "proc_inv s'" by (rule proc_inv_add [OF _ new np t s']) (use wf in \<open>simp add: proc_wf_def\<close>)
  then show ?thesis using wf new(1) s' by (auto simp: proc_wf_def runnable_at_def)
qed

lemma append_ready_task_sel [simp]:
  "tasks (append_ready_task a s) = tasks s" "ready_queue (append_ready_task a s) = ready_queue s @ [a]"
  "current_task (append_ready_task a s) = current_task s" "next_pid (append_ready_task a s) = next_pid s"
  by (simp_all add: append_ready_task_def)

lemma task_ok_forked: "task_ok par \<Longrightarrow> is_user_process par \<Longrightarrow> state par = TASK_RUNNABLE \<Longrightarrow> task_ok (forked par pid dir stack resume)"
  by (simp add: task_ok_def heap_ok_def std_ok_def forked_def)

text \<open>A new task lies at an address at which there is no task yet.\<close>

definition fresh_task :: "'a tstate_scheme \<Rightarrow> 'b tstate_scheme \<Rightarrow> bool" where
  "fresh_task s s' \<longleftrightarrow> (ready_queue s' \<noteq> ready_queue s \<longrightarrow> last (ready_queue s') \<noteq> 0 \<and> tasks s (last (ready_queue s')) = None)"

lemma fork_wf:
  fixes s :: "'a tstate_scheme"
  assumes wf: "proc_wf s" and r: "task_fork_from_frame (kernel_alloc n) resume regs s = Some (r, s')"
    and fresh: "fresh_task s s'" and np: "next_pid s \<noteq> 0xFFFFFFFF"
  shows "proc_wf s'"
  using r
proof (cases rule: fork_cases)
  case (child par a dir stack s1 s2 s3)
  have a: "tasks s a = None" "a \<noteq> 0" using fresh unfolding child(8) by (auto simp: fresh_task_def child(10))
  show ?thesis
    by (rule proc_wf_add [OF wf a np task_ok_forked [OF current_task_ok [OF wf child(1)] child(2,3)]])
      (simp_all add: child forked_def)
qed (use wf in simp)

lemma create_initial_cases:
  fixes s :: "'a tstate_scheme"
  assumes r: "create_initial_user_process (kernel_alloc n) entry s = Some (r, s')"
  obtains a t cur s3 where "get_current s = Some cur" "r = next_pid s" "entry \<noteq> 0"
      "t = zero_task\<lparr>page_directory := page_directory t, task_id := next_pid s, parent_id := 0, state := TASK_RUNNABLE,
        t_esp := USER_STACK_TOP, t_ebp := USER_STACK_TOP, t_eip := entry, kernel_stack := kernel_stack t, is_user_process := True,
        heap_start := USER_HEAP_START, heap_break := USER_HEAP_START, heap_mapped_end := USER_HEAP_START,
        heap_limit := USER_HEAP_LIMIT, descriptors := descriptors cur, working_directory := working_directory cur\<rparr>"
      "s' = append_ready_task a (set_task a t s3)"
      "tasks s3 = tasks s" "ready_queue s3 = ready_queue s" "current_task s3 = current_task s" "next_pid s3 = next_pid s + 1"
proof -
  have k: "keeps_alloc (kernel_alloc n :: 'a tstate_scheme alloc_op)" by (rule kernel_alloc_keeps)
  obtain a dir stack s1 s2 s3 s4 cur where
    a: "kmalloc (kernel_alloc n) sizeof_task s = Some (a, s1)"
    and c: "clone_directory (kmalloc_ap (kernel_alloc n)) (kernel_directory s1) s1 = Some (dir, s2)"
    and m: "map_range (map_user_page (kernel_alloc n) dir) stack_bottom USER_STACK_TOP s2 = Some s3"
    and st: "kmalloc_a (kernel_alloc n) KERNEL_STACK_SIZE (s3\<lparr>next_pid := next_pid s3 + 1\<rparr>) = Some (stack, s4)"
    and cur: "get_current s4 = Some cur" and e: "entry \<noteq> 0" "r = next_pid s3"
      "s' = append_ready_task a (set_task a (zero_task\<lparr>page_directory := dir, task_id := next_pid s3, parent_id := 0, state := TASK_RUNNABLE,
        t_esp := USER_STACK_TOP, t_ebp := USER_STACK_TOP, t_eip := entry, kernel_stack := stack, is_user_process := True,
        heap_start := USER_HEAP_START, heap_break := USER_HEAP_START, heap_mapped_end := USER_HEAP_START,
        heap_limit := USER_HEAP_LIMIT, descriptors := descriptors cur, working_directory := working_directory cur\<rparr>) s4)"
    using r unfolding create_initial_user_process_def by (auto simp: bind_Some_iff Let_def split: if_splits)
  have k1: "keeps s s1" using keeperD [OF kmalloc_keeps(1) [OF k] a] by simp
  have k2: "keeps s1 s2" using keeperD [OF clone_directory_keeps c] kmalloc_keeps(3) [OF k] by auto
  have k3: "keeps s2 s3" by (rule keeperD [OF map_range_keeps [OF map_user_page_keeps [OF k]] m])
  have k4: "keeps (s3\<lparr>next_pid := next_pid s3 + 1\<rparr>) s4" using keeperD [OF kmalloc_keeps(2) [OF k] st] by simp
  note k123 = keeps_tstate [OF keeps_trans [OF k1 keeps_trans [OF k2 k3]]] and k4 = keeps_tstate [OF k4]
  have "get_current (s3\<lparr>next_pid := next_pid s3 + 1\<rparr>) = get_current s3" by (simp add: get_current_def)
  then have "get_current s = Some cur" using cur k4(8) k123(8) by simp
  then show thesis by (rule that [where a = a and ?s3.0 = s4, OF _ _ e(1) _ e(3)]) (use e k123 k4 in simp_all)
qed

lemma create_initial_wf:
  fixes s :: "'a tstate_scheme"
  assumes wf: "proc_wf s" and r: "create_initial_user_process (kernel_alloc n) entry s = Some (r, s')"
    and fresh: "fresh_task s s'" and np: "next_pid s \<noteq> 0xFFFFFFFF"
  shows "proc_wf s'"
  using r
proof (cases rule: create_initial_cases)
  case (1 a t cur s3)
  have a: "tasks s a = None" "a \<noteq> 0" using fresh unfolding 1(5) by (auto simp: fresh_task_def 1(7))
  have "state cur = TASK_RUNNABLE" using wf 1(1) by (auto simp: proc_wf_def runnable_at_def get_current_def split: if_splits)
  then have ok: "length (descriptors cur) = MAX_FILE_DESCRIPTORS" "std_ok cur" using current_task_ok [OF wf 1(1)] by (auto simp: task_ok_def)
  have "task_ok t" by (subst 1(4)) (use ok in \<open>simp add: task_ok_def heap_ok_def std_ok_def zero_task_def SIGNAL_COUNT_def USER_HEAP_START_def USER_HEAP_LIMIT_def\<close>)
  moreover have "task_id t = next_pid s" "is_user_process t" by (subst 1(4), simp)+
  ultimately show ?thesis by (intro proc_wf_add [OF wf a np]) (simp_all add: 1(5-9))
qed

section \<open>Exit\<close>

lemma send_inv:
  assumes inv: "proc_inv s" and r: "task_signal_send pid n s = Some (r, s')"
  shows "proc_inv s'" "ready_queue s' = ready_queue s" "current_task s' = current_task s"
    "tasks s a = Some t \<Longrightarrow> state t = TASK_ZOMBIE \<Longrightarrow> tasks s' a = Some t"
proof -
  have "proc_inv s' \<and> ready_queue s' = ready_queue s \<and> current_task s' = current_task s \<and>
    (tasks s a = Some t \<and> state t = TASK_ZOMBIE \<longrightarrow> tasks s' a = Some t)"
    using r
  proof (cases rule: send_cases)
    case (2 b u u')
    have "proc_inv (set_task b u' s)"
      by (rule proc_inv_set_task [OF inv 2(1,3,4)]) (use 2 proc_invD(6,8) [OF inv] in auto)
    then show ?thesis using 2 by auto
  qed (use inv in simp)
  then show "proc_inv s'" "ready_queue s' = ready_queue s" "current_task s' = current_task s"
    "tasks s a = Some t \<Longrightarrow> state t = TASK_ZOMBIE \<Longrightarrow> tasks s' a = Some t" by blast+
qed

text \<open>The process after \<open>task_exit\<close>.\<close>

definition zombie :: "s32int \<Rightarrow> task_t \<Rightarrow> task_t" where
  "zombie status t = t\<lparr>descriptors := replicate MAX_FILE_DESCRIPTORS free_descriptor, exit_status := status, state := TASK_ZOMBIE\<rparr>"

lemma zombie_sel [simp]: "task_id (zombie x t) = task_id t" "is_user_process (zombie x t) = is_user_process t"
  "state (zombie x t) = TASK_ZOMBIE" "parent_id (zombie x t) = parent_id t" "exit_status (zombie x t) = x"
  by (simp_all add: zombie_def)

lemma task_ok_zombie: "task_ok t \<Longrightarrow> task_ok (zombie status t)"
  by (simp add: task_ok_def heap_ok_def std_ok_def zombie_def)

lemma exit_cases:
  assumes r: "task_exit c status s = Some (c', s')"
  obtains t s1 where "get_current s = Some t" "task_id t \<noteq> 0" "is_user_process t"
    "s1 = set_current (zombie status t) s \<or> (\<exists>v. task_signal_send (parent_id t) (of_nat SIGNAL_CHLD) (set_current (zombie status t) s) = Some (v, s1))"
    "switch_task c s1 = Some (c', s')" "current_task s' \<noteq> current_task s1"
proof -
  obtain t s0 where t: "get_current s = Some t" "task_id t \<noteq> 0" "is_user_process t" "close_all (descriptors t) s = Some s0"
    using r unfolding task_exit_def by (auto simp: bind_Some_iff split: if_splits)
  have "s0 = s" using close_all_same [OF t(4)] by simp
  then obtain s1 where "s1 = set_current (zombie status t) s \<or> (\<exists>v. task_signal_send (parent_id t) (of_nat SIGNAL_CHLD) (set_current (zombie status t) s) = Some (v, s1))"
    "switch_task c s1 = Some (c', s')" "current_task s' \<noteq> current_task s1"
    using r t unfolding task_exit_def
    by (simp add: zombie_def [symmetric] Let_def) (auto simp: bind_Some_iff zombie_def PANIC_def split: if_splits)
  then show thesis using that t by blast
qed

lemma exit_inv:
  assumes wf: "proc_wf s" and t: "get_current s = Some t" "is_user_process t"
    and s1: "s1 = set_current (zombie status t) s \<or> (\<exists>v. task_signal_send p n (set_current (zombie status t) s) = Some (v, s1))"
  shows "proc_inv s1" "2 \<le> length (ready_queue s1)" "current_task s1 = current_task s" "ready_queue s1 = ready_queue s"
    "tasks s1 (current_task s) = Some (zombie status t)"
proof -
  have inv: "proc_inv s" using wf by (simp add: proc_wf_def)
  let ?z = "set_current (zombie status t) s"
  have ok: "task_ok (zombie status t)" by (rule task_ok_zombie [OF current_task_ok [OF wf t(1)]])
  have l: "proc_inv ?z" "2 \<le> length (ready_queue ?z)"
    by (rule leave_inv [OF inv t]; use ok t(2) in simp)+
  have z: "tasks ?z (current_task s) = Some (zombie status t)" "current_task ?z = current_task s" "ready_queue ?z = ready_queue s"
    by (simp_all add: set_current_def)
  have "proc_inv s1 \<and> 2 \<le> length (ready_queue s1) \<and> current_task s1 = current_task s \<and> ready_queue s1 = ready_queue s \<and>
    tasks s1 (current_task s) = Some (zombie status t)"
    using s1
  proof
    assume "\<exists>v. task_signal_send p n ?z = Some (v, s1)"
    then obtain v where v: "task_signal_send p n ?z = Some (v, s1)" by blast
    show ?thesis using send_inv(1-3) [OF l(1) v] send_inv(4) [OF l(1) v z(1)] l(2) z by simp
  qed (use l z in simp)
  then show "proc_inv s1" "2 \<le> length (ready_queue s1)" "current_task s1 = current_task s" "ready_queue s1 = ready_queue s"
    "tasks s1 (current_task s) = Some (zombie status t)" by blast+
qed

lemma exit_wf:
  assumes wf: "proc_wf s" and r: "task_exit c status s = Some (c', s')"
  shows "proc_wf s'"
  using r
proof (cases rule: exit_cases)
  case (1 t s1)
  show ?thesis by (rule switch_proc_wf [OF exit_inv(1) [OF wf 1(1,3,4)] 1(5)]) (use exit_inv(2) [OF wf 1(1,3,4)] in simp)
qed

section \<open>Collecting a child\<close>

lemma waitpid_cases:
  fixes s :: "'a tstate_scheme"
  assumes r: "task_waitpid pid s = Some (r, st, s')"
  obtains (none) "s' = s" "r = -1 \<or> r = 0" "st = None"
    | (collect) par a t s2 where "get_current s = Some par" "0 < sint pid" "a \<noteq> 0" "a = find_task pid s" "tasks s a = Some t" "parent_id t = task_id par"
      "state t = TASK_ZOMBIE" "a \<noteq> hd (ready_queue s)" "r = pid" "st = Some (exit_status t)"
      "s' = s2\<lparr>tasks := (tasks s)(a := None)\<rparr>" "keeps (s\<lparr>ready_queue := remove1 a (ready_queue s)\<rparr>) s2"
proof (cases "current_task s = 0 \<or> sint pid \<le> 0 \<or> find_task pid s = 0")
  case True
  then show thesis using r none by (auto simp: task_waitpid_def bind_Some_iff Let_def split: if_splits)
next
  case False
  then obtain par t where t: "get_current s = Some par" "tasks s (find_task pid s) = Some t"
    using r by (auto simp: task_waitpid_def bind_Some_iff Let_def)
  let ?a = "find_task pid s" and ?s = "s\<lparr>ready_queue := remove1 (find_task pid s) (ready_queue s)\<rparr>"
  show thesis
  proof (cases "parent_id t = task_id par \<and> state t = TASK_ZOMBIE")
    case False
    then show thesis using r none t \<open>\<not> (current_task s = 0 \<or> _)\<close> by (auto simp: task_waitpid_def Let_def split: if_splits)
  next
    case True
    then obtain s0 s1 s2 where s: "destroy_directory kfree (page_directory t) ?s = Some s0" "kfree (kernel_stack t) s0 = Some s1"
        "kfree ?a s1 = Some s2" "?a \<noteq> hd (ready_queue s)" "r = pid" "st = Some (exit_status t)" "s' = s2\<lparr>tasks := (tasks s2)(?a := None)\<rparr>"
      using r t \<open>\<not> (current_task s = 0 \<or> _)\<close> by (auto simp: task_waitpid_def bind_Some_iff Let_def split: if_splits)
    have k: "keeps ?s s2"
      by (rule keeps_trans [OF keeperD [OF destroy_directory_keeps s(1)] keeps_trans [OF keeperD [OF kfree_keeps s(2)] keeperD [OF kfree_keeps s(3)]]])
    have "tasks s2 = tasks s" using keeps_tstate(1) [OF k] by simp
    then show thesis using s t True k False by (intro collect [of par ?a t s2]) auto
  qed
qed

lemma waitpid_wf:
  fixes s :: "'a tstate_scheme"
  assumes wf: "proc_wf s" and r: "task_waitpid pid s = Some (r, st, s')"
  shows "proc_wf s'"
  using r
proof (cases rule: waitpid_cases)
  case (collect par a t s2)
  have inv: "proc_inv s" using wf by (simp add: proc_wf_def)
  have s': "tasks s' = (tasks s)(a := None)" "ready_queue s' = remove1 a (ready_queue s)" "current_task s' = current_task s" "next_pid s' = next_pid s"
    unfolding collect(11) using keeps_tstate(2-4) [OF collect(12)] by simp_all
  have cur: "current_task s \<noteq> a" using wf collect(5,7) by (auto simp: proc_wf_def runnable_at_def)
  have hd: "hd (remove1 a (ready_queue s)) = hd (ready_queue s)" "remove1 a (ready_queue s) \<noteq> []"
    using collect(8) proc_invD(5) [OF inv] by (cases "ready_queue s"; simp)+
  have set: "set (remove1 a (ready_queue s)) = set (ready_queue s) - {a}" using proc_invD(1) [OF inv] by simp
  have "proc_inv s'"
  proof (rule proc_invI; (unfold s' hd set)?)
    fix b u assume "((tasks s)(a := None)) b = Some u"
    then show "task_ok u \<and> unat (task_id u) < unat (next_pid s) \<and>
        (if b = hd (ready_queue s) then task_id u = 0 \<and> state u = TASK_RUNNABLE \<and> \<not> is_user_process u
         else task_id u \<noteq> 0 \<and> is_user_process u)"
      using proc_invD(6,7) [OF inv, of b u] proc_invD(8) [OF inv, of u] by (auto split: if_splits)
  next
    fix b c u v assume "((tasks s)(a := None)) b = Some u" "((tasks s)(a := None)) c = Some v" "task_id u = task_id v"
    then show "b = c" using proc_invD(9) [OF inv, of b u c v] by (auto split: if_splits)
  qed (use proc_invD(1-4) [OF inv] cur hd in auto)
  then show ?thesis using wf cur s' by (simp add: proc_wf_def runnable_at_def)
qed (use wf in simp)

section \<open>Delivery\<close>

lemma take_pending_from_keeps:
  "take_pending_from n t = (m, t') \<Longrightarrow> \<exists>p. t' = t\<lparr>pending_signals := p\<rparr>"
proof (induction n t rule: take_pending_from.induct)
  case (1 n t)
  have same: "\<exists>p. t = t\<lparr>pending_signals := p\<rparr>" by (rule exI [of _ "pending_signals t"]) simp
  consider "\<not> n < SIGNAL_COUNT" | "n < SIGNAL_COUNT" "pending_signals t AND bit_mask n = 0" | "n < SIGNAL_COUNT" "pending_signals t AND bit_mask n \<noteq> 0"
    by blast
  then show ?case
  proof cases
    case 1
    then show ?thesis using "1.prems" same by (simp add: take_pending_from.simps [of n t])
  next
    case 2
    then show ?thesis using "1.prems" "1.IH" by (simp add: take_pending_from.simps [of n t])
  next
    case 3
    then show ?thesis using "1.prems" by (auto simp: take_pending_from.simps [of n t])
  qed
qed

lemma deliver_cases:
  assumes r: "task_signal_deliver c regs s = Some out"
  obtains (unchanged) "out = Returns regs s"
    | (ignored) t n t' where "get_current s = Some t" "take_next_pending_signal t = (n, t')" "out = Returns regs (set_current t' s)"
    | (killed) t n t' c' s' where "get_current s = Some t" "take_next_pending_signal t = (n, t')" "n \<noteq> 0"
       "task_exit c (of_nat (128 + n)) (set_current t' s) = Some (c', s')" "out = Switched c' s'"
    | (handled) t n t' fa s1 where "get_current s = Some t" "is_user_process t" "state t = TASK_RUNNABLE" "\<not> signal_active t" "reg_cs regs AND 3 = 3"
       "take_next_pending_signal t = (n, t')" "n \<noteq> 0" "n \<noteq> SIGNAL_KILL"
       "signal_handlers t' ! n \<noteq> SIGNAL_IGNORE" "signal_handlers t' ! n \<noteq> SIGNAL_DEFAULT"
       "fa = (useresp regs - sizeof_signal_frame) AND NOT 0xF" "stack_bottom + sizeof_signal_frame \<le> useresp regs" "useresp regs \<le> USER_STACK_TOP"
       "stack_bottom \<le> fa" "signal_trampoline t' \<noteq> 0"
       "user_store fa (concat (map word_bytes (signal_frame_words (signal_trampoline t') n regs))) (set_current t' s) = Some s1"
       "out = Returns (regs\<lparr>eip := signal_handlers t' ! n, useresp := fa\<rparr>) (set_current (t'\<lparr>signal_active := True, active_signal := of_nat n\<rparr>) s1)"
proof (cases "current_task s = 0")
  case True
  then show thesis using r unchanged by (simp add: task_signal_deliver_def)
next
  case False
  then obtain t where t: "get_current s = Some t" using r by (auto simp: task_signal_deliver_def bind_Some_iff)
  obtain n t' where n: "take_next_pending_signal t = (n, t')" by fastforce
  show thesis
  proof (cases "\<not> is_user_process t \<or> state t \<noteq> TASK_RUNNABLE \<or> signal_active t \<or> reg_cs regs AND 3 \<noteq> 3")
    case True
    then show thesis using r t False unchanged by (auto simp: task_signal_deliver_def)
  next
    case active: False
    let ?h = "signal_handlers t' ! n" and ?fa = "(useresp regs - sizeof_signal_frame) AND NOT 0xF"
      and ?exit = "do { (c, s) \<leftarrow> task_exit c (of_nat (128 + n)) (set_current t' s); Some (Switched c s) }"
    have eq: "task_signal_deliver c regs s =
      (if n = 0 then Some (Returns regs (set_current t' s))
       else if ?h = SIGNAL_IGNORE \<or> (?h = SIGNAL_DEFAULT \<and> signal_default_is_ignore n) then Some (Returns regs (set_current t' s))
       else if ?h = SIGNAL_DEFAULT \<or> n = SIGNAL_KILL then ?exit
       else if useresp regs < stack_bottom + sizeof_signal_frame \<or> useresp regs > USER_STACK_TOP \<or> signal_trampoline t' = 0 then ?exit
       else if ?fa < stack_bottom then ?exit
       else do {
         s \<leftarrow> user_store ?fa (concat (map word_bytes (signal_frame_words (signal_trampoline t') n regs))) (set_current t' s);
         Some (Returns (regs\<lparr>eip := ?h, useresp := ?fa\<rparr>)
           (set_current (t'\<lparr>signal_active := True, active_signal := of_nat n\<rparr>) s)) })"
      unfolding task_signal_deliver_def using False t active n by (simp only: if_False bind.bind_lunit simp_thms Let_def prod.case)
    have ex: thesis if "?exit = Some out" "n \<noteq> 0"
      using that killed [OF t n] by (auto simp: bind_Some_iff)
    consider "out = Returns regs (set_current t' s)" | "n \<noteq> 0" "?exit = Some out"
      | s1 where "n \<noteq> 0" "n \<noteq> SIGNAL_KILL" "?h \<noteq> SIGNAL_IGNORE" "?h \<noteq> SIGNAL_DEFAULT"
        "\<not> (useresp regs < stack_bottom + sizeof_signal_frame \<or> useresp regs > USER_STACK_TOP \<or> signal_trampoline t' = 0)"
        "\<not> ?fa < stack_bottom"
        "user_store ?fa (concat (map word_bytes (signal_frame_words (signal_trampoline t') n regs))) (set_current t' s) = Some s1"
        "out = Returns (regs\<lparr>eip := ?h, useresp := ?fa\<rparr>) (set_current (t'\<lparr>signal_active := True, active_signal := of_nat n\<rparr>) s1)"
      using r unfolding eq by (fastforce simp: bind_Some_iff simp del: split_paired_Ex split: if_split_asm)
    then show thesis
    proof cases
      case 1
      then show thesis by (rule ignored [OF t n])
    next
      case 2
      then show thesis by (rule ex [rotated])
    next
      case (3 s1)
      show thesis using active 3(5,6) by (intro handled [OF t _ _ _ _ n 3(1-4) refl _ _ _ _ 3(7,8)]) (simp_all add: not_less)
    qed
  qed
qed

primrec outcome_state :: "'s outcome \<Rightarrow> 's" where
  "outcome_state (Returns regs s) = s"
| "outcome_state (Switched c s) = s"

lemma set_pending_wf:
  assumes wf: "proc_wf s" and t: "get_current s = Some t" "take_next_pending_signal t = (n, t')"
  shows "proc_wf (set_current t' s)" "get_current (set_current t' s) = Some t'" "task_ok t'"
    "\<exists>p. t' = t\<lparr>pending_signals := p\<rparr>"
proof -
  show p: "\<exists>p. t' = t\<lparr>pending_signals := p\<rparr>" using take_pending_from_keeps t(2) by (simp add: take_next_pending_signal_def)
  then show ok: "task_ok t'" using current_task_ok [OF wf t(1)] by auto
  show "proc_wf (set_current t' s)" by (rule proc_wf_set_current [OF wf t(1)]) (use p ok in auto)
  show "get_current (set_current t' s) = Some t'" using t(1) by (auto simp: get_current_def set_current_def split: if_splits)
qed

lemma deliver_wf:
  assumes wf: "proc_wf s" and r: "task_signal_deliver c regs s = Some out"
  shows "proc_wf (outcome_state out)"
  using r
proof (cases rule: deliver_cases)
  case (ignored t n t')
  then show ?thesis using set_pending_wf(1) [OF wf ignored(1,2)] by simp
next
  case (killed t n t' c' s')
  then show ?thesis using exit_wf [OF set_pending_wf(1) [OF wf killed(1,2)] killed(4)] by simp
next
  case (handled t n t' fa s1)
  note p = set_pending_wf [OF wf handled(1,6)]
  have k: "keeps (set_current t' s) s1" by (rule keeperD [OF user_store_keeps handled(16)])
  have "get_current s1 = Some t'" using keeps_tstate(8) [OF k] p(2) by simp
  then have "proc_wf (set_current (t'\<lparr>signal_active := True, active_signal := of_nat n\<rparr>) s1)"
    by (rule proc_wf_set_current [OF proc_wf_keeps [OF p(1) k]]) (use p(3) in simp_all)
  then show ?thesis using handled(17) by simp
qed (use wf in simp)

section \<open>The step relation\<close>

text \<open>One call into the process layer: what a system call, the timer or the keyboard does to the
  process table. A creation takes an address at which no task lies, and ids have not run out.\<close>

inductive proc_step :: "'a tstate_scheme \<Rightarrow> 'a tstate_scheme \<Rightarrow> bool" where
  switch: "switch_task c s = Some (c', s') \<Longrightarrow> proc_step s s'"
| sbrk: "task_sbrk (kernel_alloc n) inc s = Some (r, s') \<Longrightarrow> proc_step s s'"
| open_fd: "task_open_descriptor node fl s = Some (r, s') \<Longrightarrow> proc_step s s'"
| close_fd: "task_close_descriptor fd s = Some (r, s') \<Longrightarrow> proc_step s s'"
| seek_fd: "task_seek_descriptor fd off origin s = Some (r, s') \<Longrightarrow> proc_step s s'"
| chdir: "task_set_working_directory d s = Some s' \<Longrightarrow> proc_step s s'"
| wake: "proc_step s (task_wake_keyboard_waiters s)"
| wait_input: "task_wait_for_keyboard c s = Some (c', s') \<Longrightarrow> proc_step s s'"
| handler: "task_signal_set_handler sig h tr s = Some (r, s') \<Longrightarrow> proc_step s s'"
| send: "task_signal_send pid sig s = Some (r, s') \<Longrightarrow> proc_step s s'"
| sigreturn: "task_signal_return ca regs s = Some (r, regs', s') \<Longrightarrow> proc_step s s'"
| exec_reset: "task_signal_exec_reset s = Some s' \<Longrightarrow> proc_step s s'"
| deliver: "task_signal_deliver c regs s = Some out \<Longrightarrow> proc_step s (outcome_state out)"
| create: "\<lbrakk>create_initial_user_process (kernel_alloc n) entry s = Some (r, s'); fresh_task s s'; next_pid s \<noteq> 0xFFFFFFFF\<rbrakk> \<Longrightarrow> proc_step s s'"
| fork: "\<lbrakk>task_fork_from_frame (kernel_alloc n) resume regs s = Some (r, s'); fresh_task s s'; next_pid s \<noteq> 0xFFFFFFFF\<rbrakk> \<Longrightarrow> proc_step s s'"
| exit: "task_exit c status s = Some (c', s') \<Longrightarrow> proc_step s s'"
| wait: "task_waitpid pid s = Some (r, st, s') \<Longrightarrow> proc_step s s'"
| exec: "process_execve (kernel_alloc n) path argv envp regs s = Some (r, regs', s') \<Longrightarrow> proc_step s s'"
| memory: "keeps s s' \<Longrightarrow> proc_step s s'"

lemma switch_wf: "\<lbrakk>proc_wf s; switch_task c s = Some (c', s')\<rbrakk> \<Longrightarrow> proc_wf s'"
  by (rule switch_proc_wf [of s c c' s']) (auto simp: proc_wf_def)

lemmas operation_wf = switch_wf sbrk_wf open_descriptor_wf close_descriptor_wf seek_descriptor_wf set_working_directory_wf
  wake_wf wait_for_keyboard_wf set_handler_wf send_wf signal_return_wf exec_reset_wf deliver_wf create_initial_wf fork_wf
  exit_wf waitpid_wf proc_wf_keeps execve_wf

lemma proc_step_wf: "\<lbrakk>proc_step s s'; proc_wf s\<rbrakk> \<Longrightarrow> proc_wf s'"
  by (cases rule: proc_step.cases) (blast intro: operation_wf)+

lemma proc_steps_wf: "\<lbrakk>proc_step\<^sup>*\<^sup>* s s'; proc_wf s\<rbrakk> \<Longrightarrow> proc_wf s'"
  by (induction rule: rtranclp_induct) (auto intro: proc_step_wf)

section \<open>The start\<close>

lemma map_stack_keeps: "keeps_alloc al \<Longrightarrow> keeper (\<lambda>s. s) (map_stack al n i)"
proof (induction n arbitrary: i)
  case (Suc n)
  show ?case
    unfolding keeper_def
  proof (intro allI impI)
    fix s s' :: "'a pstate_scheme" assume "map_stack al (Suc n) i s = Some s'"
    then obtain p s1 s2 where s: "get_page (kmalloc_ap al) i True (current_directory s) s = Some (p, s1)" "alloc_frame p False True s1 = Some s2"
        "map_stack al n (i - 0x1000) s2 = Some s'"
      by (auto simp: bind_Some_iff)
    have "keeper snd (get_page (kmalloc_ap al) i True (current_directory s))"
      by (rule get_page_keeps) (use kmalloc_keeps(3) [OF Suc.prems] in blast)
    from keeperD [OF this s(1)] keeperD [OF alloc_frame_keeps s(2)] keeperD [OF Suc.IH [OF Suc.prems] s(3)]
    show "keeps s s'" by (simp add: keeps_def)
  qed
qed (simp add: keeper_def)

lemma rebase_stack_keeps: "keeper (\<lambda>s. s) (rebase_stack lo hi off n i)"
proof (induction n arbitrary: i)
  case (Suc n)
  show ?case
    unfolding keeper_def
  proof (intro allI impI)
    fix s s' :: "'a pstate_scheme" assume "rebase_stack lo hi off (Suc n) i s = Some s'"
    then obtain s1 where "s1 = s \<or> (\<exists>v. user_store i v s = Some s1)" "rebase_stack lo hi off n (i - 4) s1 = Some s'"
      by (auto simp: bind_Some_iff Let_def split: if_splits)
    then show "keeps s s'" using keeperD [OF Suc.IH] keeperD [OF user_store_keeps] by (fastforce simp: keeps_def)
  qed
qed (simp add: keeper_def)

lemma initialise_tasking_wf:
  fixes s :: "'a tstate_scheme"
  assumes r: "initialise_tasking (kernel_alloc n) initial_esp c s = Some (c', s')"
    and s: "tasks s = Map.empty" "next_pid s = 1" "current_task s' \<noteq> 0"
  shows "proc_wf s'"
proof -
  have k: "keeps_alloc (kernel_alloc n :: 'a tstate_scheme alloc_op)" by (rule kernel_alloc_keeps)
  obtain s1 s2 s3 a stack where m: "move_stack (kernel_alloc n) initial_esp 0xE0000000 0x2000 c s = Some (c', s1)"
      and a: "kmalloc (kernel_alloc n) sizeof_task s1 = Some (a, s2)" and st: "kmalloc_a (kernel_alloc n) KERNEL_STACK_SIZE s2 = Some (stack, s3)"
      and s': "s' = set_task a (initialise_standard_descriptors (zero_task\<lparr>parent_id := -1,
               page_directory := current_directory s3, kernel_stack := stack\<rparr>)) (s3\<lparr>current_task := a, ready_queue := [a]\<rparr>)"
    using r by (auto simp: initialise_tasking_def bind_Some_iff Let_def)
  obtain u v where u: "map_stack (kernel_alloc n) (unat (0x2000 :: u32int) div 0x1000 + 1) 0xE0000000 s = Some u" "keeps u v"
      "rebase_stack (cpu_esp c) initial_esp (0xE0000000 - initial_esp) (unat (0x2000 :: u32int) div 4) 0xE0000000 v = Some s1"
    using m keeperD [OF user_store_keeps] by (fastforce simp: move_stack_def bind_Some_iff Let_def)
  have "keeps s s3"
    by (rule keeps_trans [OF keeperD [OF map_stack_keeps [OF k] u(1)] keeps_trans [OF u(2) keeps_trans [OF keeperD [OF rebase_stack_keeps u(3)]
       keeps_trans [OF keeperD [OF kmalloc_keeps(1) [OF k] a, simplified] keeperD [OF kmalloc_keeps(2) [OF k] st, simplified]]]]])
  then have t: "tasks s3 = Map.empty" "next_pid s3 = 1" using keeps_tstate(1,4) s by fastforce+
  have "a \<noteq> 0" using s(3) s' by simp
  then show ?thesis using t
    by (auto simp: s' proc_wf_def proc_inv_def runnable_at_def task_ok_def std_ok_def zero_task_def initialise_standard_descriptors_def
        SIGNAL_COUNT_def MAX_FILE_DESCRIPTORS_def split: if_splits)
qed

end
