(* ===== verification/Kernel_Life.thy ===== *)
theory Kernel_Life
  imports Interrupts Process_Life
begin

text \<open>
  The whole kernel keeps the invariant of the process table: every system call, the clock and
  the keyboard (\<open>src/syscall.c\<close>, \<open>src/isr.c\<close>, \<open>src/timer.c\<close>, \<open>src/keyboard.c\<close>), and the boot
  sequence (\<open>src/main.c\<close>) establishes it.
\<close>

section \<open>The console leaves processes alone\<close>

definition proc_part :: "'a tstate_scheme \<Rightarrow> (u32int \<rightharpoonup> task_t) \<times> u32int list \<times> u32int \<times> u32int" where
  "proc_part s = (tasks s, ready_queue s, current_task s, next_pid s)"

lemma proc_wf_part:
  fixes s :: "'a tstate_scheme" and s' :: "'b tstate_scheme"
  assumes wf: "proc_wf s" and part: "proc_part s' = proc_part s"
  shows "proc_wf s'"
proof -
  have e: "tasks s' = tasks s" "ready_queue s' = ready_queue s" "current_task s' = current_task s" "next_pid s' = next_pid s"
    using part by (simp_all add: proc_part_def)
  show ?thesis using wf unfolding proc_wf_def proc_inv_def e .
qed

lemma keeps_part: "keeps s s' \<Longrightarrow> proc_part s' = proc_part s" for s s' :: "'a tstate_scheme"
  using keeps_tstate [of s s'] by (simp add: proc_part_def)

lemma console_part [simp]:
  "proc_part (outb p v s) = proc_part s" "proc_part (move_cursor s) = proc_part s" "proc_part (scroll s) = proc_part s"
  "proc_part (put_char ch s) = proc_part s" "proc_part (monitor_put ch s) = proc_part s" "proc_part (monitor_clear s) = proc_part s"
  by (simp_all add: proc_part_def outb_def move_cursor_def scroll_def put_char_def monitor_put_def monitor_clear_def Let_def)

lemma monitor_write_part [simp]: "proc_part (monitor_write bs s) = proc_part s"
  by (induction bs arbitrary: s) simp_all

lemma monitor_puts_part [simp]: "proc_part (fold monitor_put bs s) = proc_part s"
  by (induction bs arbitrary: s) simp_all

lemma hex_loop_part [simp]: "proc_part (hex_loop n z v s) = proc_part s"
  by (induction n arbitrary: z s) (simp_all add: Let_def)

lemma monitor_number_part [simp]: "proc_part (monitor_write_hex v s) = proc_part s" "proc_part (monitor_write_dec v s) = proc_part s"
  by (simp_all add: monitor_write_hex_def monitor_write_dec_def Let_def)

lemma keyboard_getchar_part [simp]: "proc_part (snd (keyboard_getchar s)) = proc_part s"
  by (simp add: keyboard_getchar_def proc_part_def Let_def)

lemma small_updates_part [simp]:
  "proc_part (s\<lparr>tick := n\<rparr>) = proc_part s" "proc_part (acknowledge k s) = proc_part s" "proc_part (register_interrupt_handler v h s) = proc_part s"
  by (simp_all add: proc_part_def acknowledge_def outb_def register_interrupt_handler_def)

lemma get_current_part: "proc_part s' = proc_part s \<Longrightarrow> get_current s' = get_current s"
  by (simp add: proc_part_def get_current_def)

section \<open>The file system leaves processes alone\<close>

definition fkeeps :: "'a fstate_scheme \<Rightarrow> 'a fstate_scheme \<Rightarrow> bool" where
  "fkeeps s s' \<longleftrightarrow> fstate.more s' = fstate.more s"

lemma fkeeps_refl [simp, intro]: "fkeeps s s" by (simp add: fkeeps_def)
lemma fkeeps_trans: "\<lbrakk>fkeeps s t; fkeeps t u\<rbrakk> \<Longrightarrow> fkeeps s u" by (simp add: fkeeps_def)

lemma keeps_fkeeps: "keeps s s' \<Longrightarrow> fkeeps s s'"
  by (cases s; cases s') (simp add: keeps_def fkeeps_def)

lemma fkeeps_part: "fkeeps s s' \<Longrightarrow> proc_part s' = proc_part s" for s s' :: "'a tstate_scheme"
  by (cases s; cases s') (simp add: fkeeps_def proc_part_def)

lemma fkeeps_upd [simp]:
  "fkeeps s (s'\<lparr>fs_nodes := x\<rparr>) = fkeeps s s'" "fkeeps s (s'\<lparr>fs_root := r\<rparr>) = fkeeps s s'"
  "fkeeps s (s'\<lparr>initrd_root := r\<rparr>) = fkeeps s s'" "fkeeps s (s'\<lparr>initrd_dev := r\<rparr>) = fkeeps s s'"
  "fkeeps s (s'\<lparr>file_headers := h\<rparr>) = fkeeps s s'" "fkeeps s (s'\<lparr>initrd_location := r\<rparr>) = fkeeps s s'"
  "fkeeps s (s'\<lparr>initrd_end := r\<rparr>) = fkeeps s s'"
  by (simp_all add: fkeeps_def)

text \<open>An allocator of nodes that leaves processes alone.\<close>

definition quiet_nodes :: "'a fstate_scheme node_alloc \<Rightarrow> bool" where
  "quiet_nodes km \<longleftrightarrow> (\<forall>sz s r. km sz s = Some r \<longrightarrow> fkeeps s (snd r))"

lemma quiet_kmalloc:
  fixes al :: "'a fstate_scheme alloc_op"
  assumes "keeps_alloc al" shows "quiet_nodes (kmalloc al)"
  unfolding quiet_nodes_def using keeps_fkeeps keeperD [OF kmalloc_keeps(1) [OF assms]] by blast

lemma new_tree_node_fkeeps:
  assumes "quiet_nodes km" "new_tree_node km nm fl s = Some (a, s')" shows "fkeeps s s'"
proof -
  obtain s1 x where "km sizeof_tree_node s = Some (a, s1)" "s' = s1\<lparr>fs_nodes := x\<rparr>"
    using assms(2) by (auto simp: new_tree_node_def bind_Some_iff split: if_splits)
  then show ?thesis using assms(1) by (fastforce simp: quiet_nodes_def)
qed

lemma attach_child_fkeeps: "attach_child p c s = Some s' \<Longrightarrow> fkeeps s s'"
  by (auto simp: attach_child_def bind_Some_iff Let_def split: if_splits)

lemma configure_directory_fkeeps: "configure_directory a s = Some s' \<Longrightarrow> fkeeps s s'"
  by (auto simp: configure_directory_def bind_Some_iff)

lemma new_directory_fkeeps:
  assumes "quiet_nodes km" "new_tree_node km nm fl s = Some (a, s1)" "configure_directory a s1 = Some s2" "attach_child p a s2 = Some s3"
  shows "fkeeps s s3"
  using fkeeps_trans [OF new_tree_node_fkeeps [OF assms(1,2)] fkeeps_trans [OF configure_directory_fkeeps [OF assms(3)] attach_child_fkeeps [OF assms(4)]]] .

lemma mkdir_fs_fkeeps:
  assumes km: "quiet_nodes km" and r: "mkdir_fs km p nm s = Some (r, s')"
  shows "fkeeps s s'"
proof -
  have "s' = s \<or> (\<exists>a s1 s2. new_tree_node km nm FS_DIRECTORY s = Some (a, s1) \<and> configure_directory a s1 = Some s2 \<and> attach_child p a s2 = Some s')"
    using r by (fastforce simp: mkdir_fs_def initrd_mkdir_def bind_Some_iff split: if_splits option.splits)
  then show ?thesis using new_directory_fkeeps [OF km] by blast
qed

lemma path_rest_shorter:
  assumes "takeWhile not_slash path \<noteq> []"
  shows "length (dropWhile is_slash (dropWhile not_slash path)) < length path"
proof -
  have "length (takeWhile not_slash path) + length (dropWhile not_slash path) = length path"
    by (metis length_append takeWhile_dropWhile_id)
  then show ?thesis using assms length_dropWhile_le [of is_slash "dropWhile not_slash path"] by (cases "takeWhile not_slash path") auto
qed

lemma mkdir_loop_post:
  assumes km: "quiet_nodes km"
  shows "post (\<lambda>r. fkeeps s (snd r)) (mkdir_loop km root d path s)"
proof (induction "length path" arbitrary: d path rule: less_induct)
  case less
  have fs: "post (\<lambda>r. fkeeps s (snd r)) (mkdir_fs km d nm s)" for nm
    using mkdir_fs_fkeeps [OF km] by (auto simp: post_def)
  have IH: "takeWhile not_slash path \<noteq> [] \<Longrightarrow>
      post (\<lambda>r. fkeeps s (snd r)) (mkdir_loop km root d' (dropWhile is_slash (dropWhile not_slash path)) s)" for d'
    by (rule less.hyps [OF path_rest_shorter])
  show ?case
    apply (subst mkdir_loop.simps)
    apply (unfold Let_def)
    apply (rule post_if, simp only: post_Some snd_conv fkeeps_refl)
    apply (rule post_if, simp only: post_Some snd_conv fkeeps_refl)
    apply (rule post_if)
    apply (rule post_if, simp only: post_Some snd_conv fkeeps_refl, rule fs)
    apply (rule post_if, rule IH, assumption)
    apply (rule post_if, rule IH, assumption)
    apply (rule post_option, simp only: post_Some snd_conv fkeeps_refl)
    apply (rule post_if, simp only: post_Some snd_conv fkeeps_refl)
    apply (rule IH, assumption)
    done
qed

lemma mkdir_loop_fkeeps: "\<lbrakk>quiet_nodes km; mkdir_loop km root d path s = Some (r, s')\<rbrakk> \<Longrightarrow> fkeeps s s'"
  using postD [OF mkdir_loop_post] by fastforce

lemma mkdir_path_fkeeps: "\<lbrakk>quiet_nodes km; mkdir_path_fs km root wd path s = Some (r, s')\<rbrakk> \<Longrightarrow> fkeeps s s'"
  by (auto simp: mkdir_path_fs_def Let_def dest: mkdir_loop_fkeeps split: if_splits)

section \<open>The services keep the invariant\<close>

primrec result_state :: "'s service_result \<Rightarrow> 's" where
  "result_state (Done v s) = s"
| "result_state (Sleeps c s) = s"

abbreviation wf_result :: "'a mstate_scheme service_result option \<Rightarrow> bool" where
  "wf_result m \<equiv> post (\<lambda>r. proc_wf (result_state r)) m"

lemma post_store:
  assumes "proc_wf s" "\<And>s'. \<lbrakk>keeps s s'; proc_wf s'\<rbrakk> \<Longrightarrow> post P (f s')" shows "post P (user_store a bs s \<bind> f)"
  by (rule post_value, rule assms(2)) (use keeperD [OF user_store_keeps] proc_wf_keeps [OF assms(1)] in blast)+

lemma post_store8:
  assumes "proc_wf s" "\<And>s'. \<lbrakk>keeps s s'; proc_wf s'\<rbrakk> \<Longrightarrow> post P (f s')" shows "post P (user_store8 a b s \<bind> f)"
proof (rule post_value)
  fix s' assume "user_store8 a b s = Some s'"
  then have "user_store a [b] s = Some s'" by simp
  then show "post P (f s')" using assms keeperD [OF user_store_keeps] proc_wf_keeps [OF assms(1)] by blast
qed

text \<open>A step that returns a value and a state of the invariant.\<close>

lemma post_step:
  assumes "\<And>r s'. m = Some (r, s') \<Longrightarrow> proc_wf s'" "\<And>r s'. proc_wf s' \<Longrightarrow> post P (f r s')"
  shows "post P (m \<bind> (\<lambda>(r, s'). f r s'))"
  using assms by (auto simp: post_def bind_Some_iff)

named_theorems services "the services keep the invariant"

lemma console_services [services]:
  assumes "proc_wf s"
  shows "wf_result (service_write a s)" "wf_result (service_putchar a s)" "wf_result (service_clear s)" "wf_result (service_hex a s)"
    "wf_result (service_dec a s)" "wf_result (service_getpid s)" "wf_result (service_ticks s)" "wf_result (service_memory s)"
  using assms
  by (auto simp: service_write_def service_putchar_def service_clear_def service_hex_def service_dec_def service_getpid_def
      service_ticks_def service_memory_def post_def bind_Some_iff intro: proc_wf_part)

lemma keyboard_wf: "proc_wf s \<Longrightarrow> proc_wf (snd (keyboard_getchar s))"
  by (rule proc_wf_part) simp_all

lemma service_getchar_wf [services]: "proc_wf s \<Longrightarrow> wf_result (service_getchar s)"
  using keyboard_wf [of s] by (cases "keyboard_getchar s") (simp add: service_getchar_def)

lemma service_readdir_wf [services]: "proc_wf s \<Longrightarrow> wf_result (service_readdir i a n s)"
  unfolding service_readdir_def Let_def by (intro post_rules post_store) auto

lemma service_readfile_wf [services]: "proc_wf s \<Longrightarrow> wf_result (service_readfile a b n s)"
  unfolding service_readfile_def Let_def by (intro post_rules post_store post_value) auto

lemma service_chdir_wf [services]: "proc_wf s \<Longrightarrow> wf_result (service_chdir a s)"
  unfolding service_chdir_def by (intro post_rules post_value) (auto intro: set_working_directory_wf)

lemma service_getcwd_wf [services]: "proc_wf s \<Longrightarrow> wf_result (service_getcwd a n s)"
  unfolding service_getcwd_def Let_def by (intro post_rules post_store) auto

lemma service_mkdir_wf [services]:
  fixes s :: "'a mstate_scheme"
  assumes "proc_wf s" shows "wf_result (service_mkdir (kernel_alloc n) a s)"
proof -
  have q: "quiet_nodes (kmalloc (kernel_alloc n :: 'a mstate_scheme alloc_op))" by (rule quiet_kmalloc [OF kernel_alloc_keeps])
  show ?thesis
    unfolding service_mkdir_def
    by (intro post_rules post_value)
      (use assms proc_wf_part [OF assms fkeeps_part [OF mkdir_path_fkeeps [OF q]]] in \<open>simp_all add: result_state_def\<close>)
qed

lemma service_open_wf [services]: "proc_wf s \<Longrightarrow> wf_result (service_open a fl s)"
  unfolding service_open_def by (intro post_rules post_value) (auto intro: open_descriptor_wf)

lemma service_close_wf [services]: "proc_wf s \<Longrightarrow> wf_result (service_close fd s)"
  unfolding service_close_def by (intro post_rules post_value) (auto intro: close_descriptor_wf)

lemma service_lseek_wf [services]: "proc_wf s \<Longrightarrow> wf_result (service_lseek fd off org s)"
  unfolding service_lseek_def by (intro post_rules post_value) (auto intro: seek_descriptor_wf)

lemma fill_file_status_wf: "proc_wf s \<Longrightarrow> wf_result (fill_file_status k nd a s)"
  unfolding fill_file_status_def Let_def by (rule post_value, intro post_rules post_store) auto

lemma status_services [services]:
  assumes "proc_wf s"
  shows "wf_result (service_fstat fd a s)" "wf_result (service_stat p a s)" "wf_result (service_isatty fd s)"
  using assms unfolding service_fstat_def service_stat_def service_isatty_def
  by (intro post_rules post_value fill_file_status_wf; simp)+

lemma service_sbrk_wf [services]: "proc_wf s \<Longrightarrow> wf_result (service_sbrk (kernel_alloc n) inc s)"
  unfolding service_sbrk_def by (intro post_rules post_value) (auto intro: sbrk_wf)

lemma service_waitpid_wf [services]: "proc_wf s \<Longrightarrow> wf_result (service_waitpid pid a s)"
proof -
  assume wf: "proc_wf s"
  show ?thesis
    unfolding service_waitpid_def
  proof (rule post_value, rule post_pair, rule post_pair)
    fix x r y st s1 assume "task_waitpid pid s = Some x" "x = (r, y)" "y = (st, s1)"
    then have w: "proc_wf s1" using waitpid_wf [OF wf] by simp
    show "wf_result (do { s2 \<leftarrow> (case st of Some v \<Rightarrow> (if a \<noteq> 0 then user_store a (word_bytes v) s1 else Some s1) | None \<Rightarrow> Some s1);
        Some (Done (if sint r < 0 then SYSCALL_ERROR ERRNO_ECHILD else r) s2) })"
      by (rule post_bind [where Q = proc_wf])
        (use w proc_wf_keeps [OF w keeperD [OF user_store_keeps]] in \<open>auto simp: post_def split: option.splits if_splits\<close>)
  qed
qed

lemma signal_services [services]:
  assumes "proc_wf s"
  shows "wf_result (service_signal n h tr s)" "wf_result (service_kill pid n s)"
  using assms unfolding service_signal_def service_kill_def
  by (intro post_rules post_value; auto intro: set_handler_wf send_wf)+

lemma keyboard_getchar_wf: "\<lbrakk>proc_wf s; keyboard_getchar s = (ch, s')\<rbrakk> \<Longrightarrow> proc_wf s'"
  using keyboard_wf [of s] by simp

lemma drain_keyboard_wf: "proc_wf s \<Longrightarrow> post (\<lambda>r. proc_wf (snd r)) (drain_keyboard n b s)"
proof (induction n arbitrary: b s)
  case (Suc n)
  show ?case
    unfolding drain_keyboard.simps Let_def
  proof (rule post_pair, rule post_if)
    fix ch s1 assume "keyboard_getchar s = (ch, s1)"
    then have w: "proc_wf s1" by (rule keyboard_getchar_wf [OF Suc.prems])
    then show "post (\<lambda>r. proc_wf (snd r)) (Some (0, s1))" by simp
    show "post (\<lambda>r. proc_wf (snd r)) (do { s \<leftarrow> user_store8 b (of_int ch) s1; (amount, s) \<leftarrow> drain_keyboard n (b + 1) s; Some (amount + 1, s) })"
      by (rule post_store8 [OF w], rule post_bind [OF Suc.IH], assumption, intro post_rules) simp
  qed
qed simp

lemma keyboard_read_wf:
  assumes wf: "proc_wf s" shows "wf_result (keyboard_read c b n s)"
  unfolding keyboard_read_def Let_def
proof (rule post_pair, rule post_if)
  fix ch s1 assume "keyboard_getchar s = (ch, s1)"
  then have w: "proc_wf s1" by (rule keyboard_getchar_wf [OF wf])
  show "wf_result (do { (c, s) \<leftarrow> task_wait_for_keyboard c s1; Some (Sleeps c s) })"
    by (intro post_value post_rules) (use wait_for_keyboard_wf [OF w] in simp)
  show "wf_result (do { s \<leftarrow> user_store8 b (of_int ch) s1; (amount, s) \<leftarrow> drain_keyboard (unat n - 1) (b + 1) s;
      Some (Done (of_nat (amount + 1)) s) })"
    by (rule post_store8 [OF w], rule post_bind [OF drain_keyboard_wf], assumption, intro post_rules) simp
qed

lemma set_offset_wf:
  assumes "proc_wf s" "get_current s = Some t"
  shows "proc_wf (set_current (t\<lparr>descriptors := (descriptors t)[i := (descriptors t ! i)\<lparr>fd_offset := x\<rparr>]\<rparr>) s)"
proof (rule proc_wf_set_current [OF assms])
  let ?ds = "(descriptors t)[i := (descriptors t ! i)\<lparr>fd_offset := x\<rparr>]"
  have "kind (?ds ! j) = kind (descriptors t ! j)" if "j < length (descriptors t)" for j
    using that by (cases "i = j") simp_all
  then have "length (descriptors t) = MAX_FILE_DESCRIPTORS \<Longrightarrow> kind (?ds ! j) = kind (descriptors t ! j)" if "j < 3" for j
    using that by (simp add: MAX_FILE_DESCRIPTORS_def)
  then show "task_ok (t\<lparr>descriptors := ?ds\<rparr>)"
    using current_task_ok [OF assms] by (auto simp: task_ok_def heap_ok_def std_ok_def)
qed simp_all

lemma service_fd_read_wf [services]:
  assumes wf: "proc_wf s" shows "wf_result (service_fd_read c fd b n s)"
  unfolding service_fd_read_def Let_def
proof (rule post_if, use wf in simp, rule post_option, use wf in simp, rule post_value, intro post_if)
  fix i t assume t: "get_current s = Some t"
  show "wf_result (keyboard_read c b n s)" by (rule keyboard_read_wf [OF wf])
  show "wf_result (Some (Done (SYSCALL_ERROR ERRNO_EBADF) s))" using wf by simp
  show "wf_result (do { (bytes, bs) \<leftarrow> read_fs (fd_node (descriptors t ! i)) (fd_offset (descriptors t ! i)) n False s;
      s \<leftarrow> user_store b bs s;
      Some (Done bytes (set_current (t\<lparr>descriptors := (descriptors t)
        [i := (descriptors t ! i)\<lparr>fd_offset := fd_offset (descriptors t ! i) + bytes\<rparr>]\<rparr>) s)) })"
  proof (rule post_value, rule post_pair, rule post_store [OF wf])
    fix x bytes bs s1 assume "keeps s s1" "proc_wf s1"
    then show "wf_result (Some (Done bytes (set_current (t\<lparr>descriptors := (descriptors t)
        [i := (descriptors t ! i)\<lparr>fd_offset := fd_offset (descriptors t ! i) + bytes\<rparr>]\<rparr>) s1)))"
      using set_offset_wf [of s1 t] t keeps_tstate(8) [of s s1] by simp
  qed
qed

lemma service_fd_write_wf [services]:
  assumes wf: "proc_wf s" shows "wf_result (service_fd_write fd b n s)"
  unfolding service_fd_write_def Let_def
  by (intro post_rules post_value)
    (use wf set_offset_wf [OF wf] proc_wf_part [OF wf monitor_puts_part] in simp_all)

lemma service_wf:
  "proc_wf s \<Longrightarrow> wf_result (service (kernel_alloc n) c k a b d s)"
  unfolding service_def by (intro post_if services) simp_all

section \<open>System calls and interrupts\<close>

abbreviation wf_outcome :: "'a mstate_scheme outcome option \<Rightarrow> bool" where
  "wf_outcome m \<equiv> post (\<lambda>out. proc_wf (outcome_state out)) m"

lemma deliver_post: "proc_wf s \<Longrightarrow> wf_outcome (task_signal_deliver c regs s)"
  using deliver_wf by (auto simp: post_def)

lemma finish_service_wf: "proc_wf (result_state r) \<Longrightarrow> wf_outcome (finish_service c regs r)"
  by (cases r) (simp_all add: finish_service_def deliver_post)

text \<open>A fork finds a fresh address for the new task, and the process ids have not run out.\<close>

definition can_fork :: "'a mstate_scheme alloc_op \<Rightarrow> u32int \<Rightarrow> registers_t \<Rightarrow> 'a mstate_scheme \<Rightarrow> bool" where
  "can_fork al resume regs s \<longleftrightarrow> next_pid s \<noteq> 0xFFFFFFFF \<and>
     (\<forall>r s'. task_fork_from_frame al resume regs s = Some (r, s') \<longrightarrow> fresh_task s s')"

lemma syscall_handler_wf:
  assumes wf: "proc_wf s" and fork: "eax regs = SYSCALL_FORK \<Longrightarrow> can_fork (kernel_alloc n) resume regs s"
  shows "wf_outcome (syscall_handler (kernel_alloc n) resume c regs s)"
  unfolding syscall_handler_def
proof (intro post_if)
  show "wf_outcome (task_signal_deliver c (regs\<lparr>eax := SYSCALL_ERROR ERRNO_ENOSYS\<rparr>) s)" by (rule deliver_post [OF wf])
  show "wf_outcome (do { (r, regs, s) \<leftarrow> process_execve (kernel_alloc n) (ebx regs) (ecx regs) (edx regs) regs s;
      task_signal_deliver c (if r < 0 then regs\<lparr>eax := SYSCALL_ERROR ERRNO_ENOEXEC\<rparr> else regs) s })"
    by (rule post_value, rule post_pair, rule post_pair, rule deliver_post) (use execve_wf [OF wf] in simp)
  show "wf_outcome (do { (child, s) \<leftarrow> task_fork_from_frame (kernel_alloc n) resume regs s;
      task_signal_deliver c (regs\<lparr>eax := (if sint child < 0 then SYSCALL_ERROR ERRNO_ENOMEM else child)\<rparr>) s })"
    if "eax regs = SYSCALL_FORK"
    by (rule post_value, rule post_pair, rule deliver_post) (use fork_wf [OF wf] fork [OF that] in \<open>simp add: can_fork_def\<close>)
  show "wf_outcome (do { (c, s) \<leftarrow> task_exit c (ebx regs) s; Some (Switched c s) })"
    by (intro post_value post_rules) (use exit_wf [OF wf] in simp)
  show "wf_outcome (do { (r, regs, s) \<leftarrow> task_signal_return (ebx regs) regs s;
      task_signal_deliver c (if r < 0 then regs\<lparr>eax := -1\<rparr> else regs) s })"
    by (rule post_value, rule post_pair, rule post_pair, rule deliver_post) (use signal_return_wf [OF wf] in simp)
  show "wf_outcome (do { r \<leftarrow> service (kernel_alloc n) c (eax regs) (ebx regs) (ecx regs) (edx regs) s; finish_service c regs r })"
    by (rule post_bind [OF service_wf [OF wf]], rule finish_service_wf)
qed

lemma syscall_resumed_wf: "proc_wf s \<Longrightarrow> wf_outcome (syscall_resumed c regs s)"
proof -
  assume wf: "proc_wf s"
  have "wf_result (keyboard_read_resumed c (ecx regs) (edx regs) s)"
    unfolding keyboard_read_resumed_def by (intro post_value post_if keyboard_read_wf [OF wf]) (use wf in simp)
  then show ?thesis unfolding syscall_resumed_def by (rule post_bind) (rule finish_service_wf)
qed

lemma timer_callback_wf: "proc_wf s \<Longrightarrow> wf_outcome (timer_callback c regs s)"
proof -
  assume wf: "proc_wf s"
  have w: "proc_wf (s\<lparr>tick := tick s + 1\<rparr>)" by (rule proc_wf_part [OF wf]) simp
  show ?thesis
    unfolding timer_callback_def Let_def
    by (rule post_bind [OF deliver_post [OF w]])
      (auto simp: post_def bind_Some_iff split: outcome.splits intro: switch_wf)
qed

lemma enqueue_key_wf: "proc_wf s \<Longrightarrow> proc_wf (enqueue_key k s)"
proof -
  assume wf: "proc_wf s"
  have "proc_wf (s\<lparr>input_buffer := b, write_index := n\<rparr>)" for b n by (rule proc_wf_part [OF wf]) (simp add: proc_part_def)
  then show ?thesis using wf by (simp add: enqueue_key_def Let_def wake_wf)
qed

lemma keyboard_interrupt_wf: "proc_wf s \<Longrightarrow> proc_wf (keyboard_interrupt k s)"
proof -
  assume wf: "proc_wf s"
  have "proc_wf (s\<lparr>shift_pressed := b\<rparr>)" for b by (rule proc_wf_part [OF wf]) (simp add: proc_part_def)
  then show ?thesis using wf enqueue_key_wf [OF wf] by (simp add: keyboard_interrupt_def Let_def)
qed

lemma run_handler_wf:
  assumes wf: "proc_wf s" and fork: "\<lbrakk>h = syscall_handler_isr; eax regs = SYSCALL_FORK\<rbrakk> \<Longrightarrow> can_fork (kernel_alloc n) resume regs s"
  shows "wf_outcome (run_handler (kernel_alloc n) resume k h c regs s)"
  using syscall_handler_wf [OF wf fork] timer_callback_wf [OF wf] keyboard_interrupt_wf [OF wf]
  by (cases h) (simp_all add: run_handler_def page_fault_def PANIC_def)

end
