(* ===== verification/Paging_Frames.thy ===== *)
theory Paging_Frames
  imports Paging
begin

text \<open>
  Frame ownership (src/paging.c): every present page-table entry names a frame that the bitmap
  marks as occupied, and no frame stands behind two entries. \<open>alloc_frame\<close>, \<open>free_frame\<close>,
  \<open>get_page\<close> and the table copy of \<open>clone_directory\<close> keep this.
\<close>

section \<open>The invariant\<close>

definition owns :: "'a pstate_scheme \<Rightarrow> page_ptr \<Rightarrow> nat \<Rightarrow> bool" where
  "owns s p f \<longleftrightarrow> (\<exists>pg. read_page p s = Some pg \<and> present pg \<and> unat (frame pg) = f)"

definition paging_wf :: "'a pstate_scheme \<Rightarrow> bool" where
  "paging_wf s \<longleftrightarrow> frame_map_wf (fmap s) \<and> (\<forall>t tab. page_tables s t = Some tab \<longrightarrow> length tab = 1024) \<and>
     (\<forall>p f. owns s p f \<longrightarrow> f \<in> used (fmap s)) \<and> (\<forall>p p' f. owns s p f \<longrightarrow> owns s p' f \<longrightarrow> p = p')"

lemma paging_wfD:
  assumes "paging_wf s"
  shows "frame_map_wf (fmap s)" "\<And>t tab. page_tables s t = Some tab \<Longrightarrow> length tab = 1024"
    "\<And>p f. owns s p f \<Longrightarrow> f \<in> used (fmap s)" "\<And>p p' f. \<lbrakk>owns s p f; owns s p' f\<rbrakk> \<Longrightarrow> p = p'"
  using assms by (auto simp: paging_wf_def)

lemma read_write_page:
  assumes "write_page p pg s = Some s'"
  shows "read_page q s' = (if q = p then Some pg else read_page q s)"
  using assms by (cases p; cases q)
    (auto simp: write_page_def read_page_def bind_Some_iff nth_list_update split: if_splits)

lemma write_page_frame:
  assumes "write_page p pg s = Some s'"
  shows "fmap s' = fmap s" "directories s' = directories s" "kernel_directory s' = kernel_directory s"
    "current_directory s' = current_directory s" "mem s' = mem s" "kheap s' = kheap s" "pmem s' = pmem s"
    "placement_address s' = placement_address s"
    "\<And>t. map_option length (page_tables s' t) = map_option length (page_tables s t)"
  using assms by (auto simp: write_page_def bind_Some_iff split: if_splits)

lemma write_page_ok:
  "read_page p s = Some pg \<Longrightarrow> \<exists>s'. write_page p pg' s = Some s'"
  by (auto simp: read_page_def write_page_def bind_Some_iff split: if_splits)

lemma owns_write:
  assumes "write_page p pg s = Some s'"
  shows "owns s' q f \<longleftrightarrow> (if q = p then present pg \<and> unat (frame pg) = f else owns s q f)"
  unfolding owns_def read_write_page [OF assms] by auto

lemma fmap_update_reads [simp]:
  "read_page p (s\<lparr>fmap := fm\<rparr>) = read_page p s" "owns (s\<lparr>fmap := fm\<rparr>) p f = owns s p f"
  by (simp_all add: read_page_def owns_def)

lemma write_page_tables:
  assumes "write_page p pg s = Some s'" "\<And>t tab. page_tables s t = Some tab \<Longrightarrow> length tab = 1024"
  shows "page_tables s' t = Some tab \<Longrightarrow> length tab = 1024"
  using assms by (auto simp: write_page_def bind_Some_iff split: if_splits)

section \<open>Words of frames\<close>

lemma frame_address:
  fixes f :: nat shows "(of_nat f * 0x1000 :: u32int) = of_nat (f * 4096)"
  by simp

lemma unat_frame_field:
  assumes "f < 0x100000" shows "unat (ucast (of_nat f :: u32int) :: 20 word) = f"
proof -
  have "unat (ucast (of_nat f :: u32int) :: 20 word) = take_bit 20 (unat (of_nat f :: u32int))"
    by (simp add: unsigned_ucast_eq)
  also have "\<dots> = f" using assms by (simp add: unat_of_nat32 take_bit_nat_eq_self_iff)
  finally show ?thesis .
qed

lemma unat_frame_lt: "unat (frame pg) < 0x100000"
  using unsigned_less [of "frame pg", where ?'a = nat] by simp

lemma frame_base_nat: "frame_base pg = of_nat (unat (frame pg) * 4096)"
proof -
  have "unat (ucast (frame pg) :: u32int) = take_bit 32 (unat (frame pg))"
    by (simp add: unsigned_ucast_eq)
  also have "\<dots> = unat (frame pg)" using unat_frame_lt [of pg] by (simp add: take_bit_nat_eq_self_iff)
  finally have "(ucast (frame pg) :: u32int) = of_nat (unat (frame pg))"
    using unat_frame_lt [of pg] by (simp add: word32_eq_iff_unat unat_of_nat32)
  then show ?thesis by (simp add: frame_base_def)
qed

section \<open>Allocation of a frame\<close>

lemma free_frames_bound:
  assumes "frame_map_wf fm" "f \<in> free_frames fm"
  shows "f < unat (nframes fm)" "f < 0x100000" "f \<notin> used fm"
  using assms by (auto simp: free_frames_def frame_map_wf_def)

lemma alloc_frame_present:
  assumes "read_page p s = Some pg" "present pg"
  shows "alloc_frame (Some p) k w s = Some s"
  using assms by (simp add: alloc_frame_def)

lemma alloc_frame_fresh:
  assumes wf: "frame_map_wf (fmap s)" and p: "read_page p s = Some pg" "\<not> present pg"
    and free: "free_frames (fmap s) \<noteq> {}"
  defines "f \<equiv> Min (free_frames (fmap s))"
  obtains s' fm pg' where "alloc_frame (Some p) k w s = Some s'" "write_page p pg' (s\<lparr>fmap := fm\<rparr>) = Some s'"
    "pg' = pg\<lparr>present := True, rw := w, user := \<not> k, frame := ucast (of_nat f :: u32int)\<rparr>"
    "unat (frame pg') = f" "frame_map_wf fm" "used fm = insert f (used (fmap s))" "nframes fm = nframes (fmap s)"
    "f \<in> free_frames (fmap s)"
proof -
  have fin: "finite (free_frames (fmap s))" by (simp add: free_frames_def)
  have f: "f \<in> free_frames (fmap s)" unfolding f_def using fin free by (rule Min_in)
  note fb = free_frames_bound [OF wf f]
  have ff: "first_frame (fmap s) = Some (of_nat f)" using first_frame_spec [OF wf] free by (simp add: f_def)
  have ne: "(of_nat f :: u32int) \<noteq> 0xFFFFFFFF"
  proof
    assume "(of_nat f :: u32int) = 0xFFFFFFFF"
    then have "unat (of_nat f :: u32int) = unat (0xFFFFFFFF :: u32int)" by simp
    then show False using fb(2) unat_of_nat32 [of f] by simp
  qed
  have t: "test_frame (of_nat f * 0x1000) (fmap s) = Some 0"
    unfolding frame_address using test_frame_ok [OF wf fb(1)] fb(3) by auto
  from set_frame_ok [OF wf fb(1)] obtain fm where fm: "set_frame (of_nat (f * 4096)) (fmap s) = Some fm"
    "frame_map_wf fm" "used fm = insert f (used (fmap s))" "nframes fm = nframes (fmap s)" by metis
  define pg' where "pg' = pg\<lparr>present := True, rw := w, user := \<not> k, frame := ucast (of_nat f :: u32int)\<rparr>"
  obtain s' where s': "write_page p pg' (s\<lparr>fmap := fm\<rparr>) = Some s'"
    using write_page_ok [of p "s\<lparr>fmap := fm\<rparr>" pg pg'] p(1) by auto
  have "alloc_frame (Some p) k w s = Some s'"
    using p ff ne t fm(1) s' unfolding alloc_frame_def pg'_def frame_address by (simp add: PANIC_def)
  then show thesis
    by (rule that [OF _ s' pg'_def]) (use fb fm f in \<open>simp_all add: pg'_def unat_frame_field\<close>)
qed

lemma alloc_frame_exhausted:
  assumes "frame_map_wf (fmap s)" "read_page p s = Some pg" "\<not> present pg" "free_frames (fmap s) = {}"
  shows "alloc_frame (Some p) k w s = None"
  using assms first_frame_spec [OF assms(1)] by (simp add: alloc_frame_def PANIC_def)

lemma alloc_frame_cases:
  assumes wf: "paging_wf s" and a: "alloc_frame p k w s = Some s'"
  obtains (same) q pg where "p = Some q" "read_page q s = Some pg" "present pg" "s' = s"
  | (fresh) q pg fm pg' f where "p = Some q" "read_page q s = Some pg" "\<not> present pg"
    "write_page q pg' (s\<lparr>fmap := fm\<rparr>) = Some s'" "f \<in> free_frames (fmap s)" "frame_map_wf fm"
    "used fm = insert f (used (fmap s))" "nframes fm = nframes (fmap s)"
    "present pg'" "unat (frame pg') = f" "pg' = pg\<lparr>present := True, rw := w, user := \<not> k, frame := frame pg'\<rparr>"
proof -
  obtain q pg where q: "p = Some q" "read_page q s = Some pg"
    using a by (auto simp: alloc_frame_def bind_Some_iff)
  show thesis
  proof (cases "present pg")
    case True
    then show thesis using same [OF q True] alloc_frame_present [OF q(2) True] a q(1) by simp
  next
    case False
    have "free_frames (fmap s) \<noteq> {}"
      using alloc_frame_exhausted [OF paging_wfD(1) [OF wf] q(2) False] a q(1) by fastforce
    then show thesis
    proof (rule alloc_frame_fresh [OF paging_wfD(1) [OF wf] q(2) False, where k = k and w = w], goal_cases)
      case (1 s1 fm pg')
      then have "s1 = s'" using a q(1) by simp
      then show ?case
        using 1(2,4-) by (intro fresh [OF q False, where fm = fm and pg' = pg']) (simp_all add: 1(3))
    qed
  qed
qed

lemma alloc_frame_wf:
  assumes wf: "paging_wf s" and a: "alloc_frame p k w s = Some s'"
  shows "paging_wf s'"
  using wf a
proof (cases rule: alloc_frame_cases)
  case (fresh q pg fm pg' f)
  note fm = write_page_frame [OF fresh(4)] and ow = owns_write [OF fresh(4)]
  have f: "f \<notin> used (fmap s)" using fresh(5) by (simp add: free_frames_def)
  show ?thesis unfolding paging_wf_def
  proof (intro conjI allI impI)
    show "frame_map_wf (fmap s')" using fm(1) fresh(6) by simp
    show "length tab = 1024" if "page_tables s' t = Some tab" for t tab
      using write_page_tables [OF fresh(4) _ that] paging_wfD(2) [OF wf] by simp
    show "g \<in> used (fmap s')" if "owns s' r g" for r g
      using that ow [of r g] paging_wfD(3) [OF wf] fm(1) fresh(7,10) by (auto split: if_splits)
    show "r = r'" if "owns s' r g" "owns s' r' g" for r r' g
      using that ow [of r g] ow [of r' g] paging_wfD(3,4) [OF wf] f fresh(10) by (auto split: if_splits)
  qed
qed (use wf in simp)

section \<open>Release of a frame\<close>

lemma free_frame_cases:
  assumes wf: "paging_wf s" and p: "read_page p s = Some pg"
  obtains (absent) "\<not> present pg" "free_frame (Some p) s = Some s"
  | (freed) s' fm pg' where "present pg" "free_frame (Some p) s = Some s'"
    "write_page p pg' (s\<lparr>fmap := fm\<rparr>) = Some s'" "\<not> present pg'"
    "frame_map_wf fm" "used fm = used (fmap s) - {unat (frame pg)}" "nframes fm = nframes (fmap s)"
proof (cases "present pg")
  case False
  then show thesis using absent p by (simp add: free_frame_def)
next
  case True
  let ?f = "unat (frame pg)"
  have "owns s p ?f" using p True by (auto simp: owns_def)
  then have f: "?f < unat (nframes (fmap s))" using paging_wfD(3) [OF wf] by (auto simp: used_def)
  from clear_frame_ok [OF paging_wfD(1) [OF wf] f] obtain fm where fm:
    "clear_frame (of_nat (?f * 4096)) (fmap s) = Some fm" "frame_map_wf fm" "used fm = used (fmap s) - {?f}"
    "nframes fm = nframes (fmap s)" by metis
  define pg' where "pg' = pg\<lparr>present := False, rw := True, user := False, accessed := False, dirty := False, frame := 0\<rparr>"
  obtain s' where s': "write_page p pg' (s\<lparr>fmap := fm\<rparr>) = Some s'"
    using write_page_ok [of p "s\<lparr>fmap := fm\<rparr>" pg pg'] p by auto
  have "free_frame (Some p) s = Some s'"
    using p True fm(1) s' by (simp add: free_frame_def frame_base_nat pg'_def del: of_nat_mult)
  then show thesis by (rule freed [OF True _ s']) (use fm in \<open>simp_all add: pg'_def\<close>)
qed

lemma free_frame_wf:
  assumes wf: "paging_wf s" and p: "read_page p s = Some pg"
  obtains s' where "free_frame (Some p) s = Some s'" "paging_wf s'"
    "used (fmap s') = used (fmap s) - (if present pg then {unat (frame pg)} else {})"
proof (rule free_frame_cases [OF wf p], goal_cases)
  case 1
  note 1 = 1(2-)
  then show ?case using that [of s] wf by simp
next
  case (2 s' fm pg')
  note 2 = 2(2-)
  note fm = write_page_frame [OF 2(3)] and ow = owns_write [OF 2(3)]
  have own: "owns s p (unat (frame pg))" using p 2(1) by (auto simp: owns_def)
  have "paging_wf s'" unfolding paging_wf_def
  proof (intro conjI allI impI)
    show "frame_map_wf (fmap s')" using fm(1) 2(5) by simp
    show "length tab = 1024" if "page_tables s' t = Some tab" for t tab
      using write_page_tables [OF 2(3) _ that] paging_wfD(2) [OF wf] by simp
    show "g \<in> used (fmap s')" if "owns s' r g" for r g
    proof -
      have r: "r \<noteq> p" "owns s r g" using that ow [of r g] 2(4) by (auto split: if_splits)
      then have "g \<noteq> unat (frame pg)" using paging_wfD(4) [OF wf _ own] by blast
      then show ?thesis using paging_wfD(3) [OF wf r(2)] fm(1) 2(6) by simp
    qed
    show "r = r'" if "owns s' r g" "owns s' r' g" for r r' g
      using that ow [of r g] ow [of r' g] paging_wfD(4) [OF wf] 2(4) by (auto split: if_splits)
  qed
  then show ?case using that [OF 2(2)] fm(1) 2(1,6) by simp
qed

end
