(* ===== verification/Signal_Frames.thy ===== *)
theory Signal_Frames
  imports Process_Life Paging_Frames
begin

text \<open>
  The kernel's access to user memory and the signal frame (\<open>src/signal.c\<close>): what is stored at
  addresses that share no physical byte is loaded back, \<open>take_next_pending_signal\<close> picks the
  lowest pending signal, and \<open>task_signal_deliver\<close> writes a frame from which
  \<open>task_signal_return\<close> restores the interrupted registers.
\<close>

section \<open>Access to user memory\<close>

lemma read_page_pmem [simp]: "read_page p (s\<lparr>pmem := m\<rparr>) = read_page p s"
  by (cases p) (simp add: read_page_def)

lemma translate_pmem [simp]: "translate a (s\<lparr>pmem := m\<rparr>) = translate a s"
  by (simp add: translate_def Let_def cong: if_cong)

definition unaliased :: "u32int \<Rightarrow> nat \<Rightarrow> 'a pstate_scheme \<Rightarrow> bool" where
  "unaliased a n s \<longleftrightarrow>
     (\<forall>i<n. \<forall>j<n. \<forall>p. translate (a + of_nat i) s = Some p \<and> translate (a + of_nat j) s = Some p \<longrightarrow> i = j)"

lemma user_store_spec:
  assumes "user_store a bs s = Some s'"
  shows "\<exists>pm. s' = s\<lparr>pmem := pm\<rparr> \<and> (\<forall>i<length bs. \<exists>p. translate (a + of_nat i) s = Some p) \<and>
     (\<forall>p. (\<forall>i<length bs. translate (a + of_nat i) s \<noteq> Some p) \<longrightarrow> pm p = pmem s p) \<and>
     (unaliased a (length bs) s \<longrightarrow> (\<forall>i<length bs. \<forall>p. translate (a + of_nat i) s = Some p \<longrightarrow> pm p = bs ! i))"
  using assms
proof (induction bs arbitrary: a s)
  case Nil
  then show ?case by (intro exI [of _ "pmem s"]) simp
next
  case (Cons b bs)
  then obtain p where p: "translate a s = Some p" "user_store (a + 1) bs (s\<lparr>pmem := (pmem s)(p := b)\<rparr>) = Some s'"
    by (auto simp: user_store8_def bind_Some_iff)
  have sh: "a + 1 + of_nat i = a + of_nat (Suc i)" for i :: nat by simp
  from Cons.IH [OF p(2)] obtain pm where pm: "s' = s\<lparr>pmem := pm\<rparr>"
      "\<forall>i<length bs. \<exists>q. translate (a + of_nat (Suc i)) s = Some q"
      "\<forall>q. (\<forall>i<length bs. translate (a + of_nat (Suc i)) s \<noteq> Some q) \<longrightarrow> pm q = ((pmem s)(p := b)) q"
      "unaliased (a + 1) (length bs) s \<Longrightarrow> \<forall>i<length bs. \<forall>q. translate (a + of_nat (Suc i)) s = Some q \<longrightarrow> pm q = bs ! i"
    unfolding unaliased_def sh by auto
  have mapped: "\<exists>q. translate (a + of_nat i) s = Some q" if "i < length (b # bs)" for i
    using that p(1) pm(2) by (cases i) auto
  have other: "pm q = pmem s q" if "\<forall>i<length (b # bs). translate (a + of_nat i) s \<noteq> Some q" for q
  proof -
    have "q \<noteq> p" using that [rule_format, of 0] p(1) by auto
    moreover have "\<forall>i<length bs. translate (a + of_nat (Suc i)) s \<noteq> Some q" using that by auto
    ultimately show ?thesis using pm(3) by simp
  qed
  have stored: "pm q = (b # bs) ! i" if u: "unaliased a (length (b # bs)) s" and i: "i < length (b # bs)" "translate (a + of_nat i) s = Some q" for i q
  proof (cases i)
    case 0
    then have "q = p" using i(2) p(1) by simp
    moreover have "translate (a + of_nat (Suc j)) s \<noteq> Some p" if "j < length bs" for j
      using u [unfolded unaliased_def, rule_format, of 0 "Suc j" p] that p(1) by auto
    ultimately show ?thesis using pm(3) 0 by simp
  next
    case (Suc j)
    have "unaliased (a + 1) (length bs) s"
      unfolding unaliased_def sh
    proof (intro allI impI)
      fix k l p assume "k < length bs" "l < length bs" "translate (a + of_nat (Suc k)) s = Some p \<and> translate (a + of_nat (Suc l)) s = Some p"
      then show "k = l" using u [unfolded unaliased_def, rule_format, of "Suc k" "Suc l" p] by simp
    qed
    then show ?thesis using pm(4) i Suc by simp
  qed
  show ?case using pm(1) mapped other stored by (intro exI [of _ pm]) blast
qed

lemma user_load_bytes:
  assumes "\<And>i. i < length bs \<Longrightarrow> user_load8 (a + of_nat i) s = Some (bs ! i)"
  shows "user_load a (length bs) s = Some bs"
  using assms
proof (induction bs arbitrary: a)
  case (Cons b bs)
  have "user_load8 (a + 1 + of_nat i) s = Some (bs ! i)" if "i < length bs" for i
    using Cons.prems [of "Suc i"] that by (simp add: add.assoc)
  then show ?case using Cons.IH [of "a + 1"] Cons.prems [of 0] by simp
qed simp

lemma user_load_nth:
  assumes "user_load a n s = Some bs" shows "length bs = n \<and> (\<forall>i<n. user_load8 (a + of_nat i) s = Some (bs ! i))"
  using assms
proof (induction n arbitrary: a bs)
  case (Suc n)
  then obtain b cs where b: "bs = b # cs" "user_load8 a s = Some b" "user_load (a + 1) n s = Some cs" by (auto simp: bind_Some_iff)
  have "user_load8 (a + of_nat i) s = Some (bs ! i)" if "i < Suc n" for i
    using Suc.IH [OF b(3)] b(1,2) that by (cases i) (auto simp: add.assoc)
  then show ?case using Suc.IH [OF b(3)] b(1) by simp
qed simp

lemma user_load_part:
  assumes "user_load a n s = Some bs" "k + m \<le> n"
  shows "user_load (a + of_nat k) m s = Some (take m (drop k bs))"
proof -
  note n = user_load_nth [OF assms(1)]
  have "user_load8 (a + of_nat k + of_nat i) s = Some (take m (drop k bs) ! i)" if "i < m" for i
    using n assms(2) that by (simp add: add.assoc flip: of_nat_add)
  then show ?thesis using user_load_bytes [of "take m (drop k bs)" "a + of_nat k" s] n assms(2) by simp
qed

lemma user_load_store:
  assumes "user_store a bs s = Some s'" "unaliased a (length bs) s"
  shows "user_load a (length bs) s' = Some bs"
proof -
  obtain pm where "s' = s\<lparr>pmem := pm\<rparr>" "\<forall>i<length bs. \<exists>p. translate (a + of_nat i) s = Some p"
      "\<forall>i<length bs. \<forall>p. translate (a + of_nat i) s = Some p \<longrightarrow> pm p = bs ! i"
    using user_store_spec [OF assms(1)] assms(2) by blast
  then show ?thesis by (intro user_load_bytes) (fastforce simp: user_load8_def)
qed

text \<open>The two pages of the user stack share a page table, and no frame belongs to two pages.\<close>

lemma translate_stack:
  assumes "stack_bottom \<le> a" "a < USER_STACK_TOP" "translate a s = Some p"
  obtains f where "owns s (tables (the (directories s (current_directory s))) ! 767, unat a div 4096 mod 1024) f" "unat p = 4096 * f + unat a mod 4096"
proof -
  have u: "3221217280 \<le> unat a" "unat a < 3221225472"
    using assms(1,2) by (simp_all add: word_le_nat_alt word_less_nat_alt stack_bottom_def USER_STACK_TOP_def TASK_STACK_SIZE_def)
  have "unat (a div 0x1000 div 1024) = unat a div 4096 div 1024" by (simp add: unat_div)
  also have "\<dots> = 767" using u by (simp add: div_mult2_eq [symmetric])
  finally have i: "unat (a div 0x1000 div 1024) = 767" .
  have j: "unat (a div 0x1000 mod 1024) = unat a div 4096 mod 1024" by (simp add: unat_div unat_mod)
  obtain pg where pg: "read_page (tables (the (directories s (current_directory s))) ! 767, unat a div 4096 mod 1024) s = Some pg" "present pg"
      "p = frame_base pg + (a AND 0xFFF)"
    using assms(3) unfolding translate_def by (auto simp: bind_Some_iff Let_def i j split: if_splits)
  have f: "unat (frame pg) < 1048576" using unsigned_less [of "frame pg"] by simp
  have "unat (frame_base pg) = 4096 * unat (frame pg)" unfolding frame_base_nat by (subst unat_of_nat32) (use f in simp_all)
  then have "unat p = 4096 * unat (frame pg) + unat a mod 4096"
    using f pg(3) unat_add32 [of "frame_base pg" "a AND 0xFFF"] by (simp add: unat_and_FFF)
  then show thesis using that [of "unat (frame pg)"] pg by (simp add: owns_def)
qed

lemma stack_unaliased:
  assumes wf: "paging_wf s" and a: "stack_bottom \<le> a" "unat a + n \<le> unat USER_STACK_TOP"
  shows "unaliased a n s"
  unfolding unaliased_def
proof (intro allI impI)
  fix i j p assume ij: "i < n" "j < n" and t: "translate (a + of_nat i) s = Some p \<and> translate (a + of_nat j) s = Some p"
  have top: "unat USER_STACK_TOP = 3221225472" "unat stack_bottom = 3221217280"
    by (simp_all add: stack_bottom_def USER_STACK_TOP_def TASK_STACK_SIZE_def)
  have u: "unat (a + of_nat k) = unat a + k" if "k < n" for k
    using that a(2) top unat_of_nat32 [of k] unat_add32 [of a "of_nat k"] by simp
  have r: "stack_bottom \<le> a + of_nat k" "a + of_nat k < USER_STACK_TOP" if "k < n" for k
    using u [OF that] that a by (simp_all add: word_le_nat_alt word_less_nat_alt)
  let ?t = "tables (the (directories s (current_directory s))) ! 767"
  obtain f where f: "owns s (?t, (unat a + i) div 4096 mod 1024) f" "unat p = 4096 * f + (unat a + i) mod 4096"
    using translate_stack [OF r [OF ij(1)]] t u [OF ij(1)] by metis
  obtain g where g: "owns s (?t, (unat a + j) div 4096 mod 1024) g" "unat p = 4096 * g + (unat a + j) mod 4096"
    using translate_stack [OF r [OF ij(2)]] t u [OF ij(2)] by metis
  have fg: "g = f" using arg_cong [where f = "\<lambda>x. x div 4096", OF f(2)] arg_cong [where f = "\<lambda>x. x div 4096", OF g(2)] by simp
  then have d: "(unat a + i) div 4096 mod 1024 = (unat a + j) div 4096 mod 1024" using paging_wfD(4) [OF wf f(1), of "(?t, (unat a + j) div 4096 mod 1024)"] g(1) by simp
  have m: "(unat a + i) mod 4096 = (unat a + j) mod 4096" using f(2) g(2) fg by simp
  have q: "786430 \<le> (unat a + k) div 4096" "(unat a + k) div 4096 < 786432" if "k < n" for k
    using that a top by (auto simp: word_le_nat_alt)
  have two: "x = 786430 \<or> x = 786431" if "786430 \<le> x" "x < 786432" for x :: nat using that by linarith
  have "(unat a + i) div 4096 = (unat a + j) div 4096" using d two [OF q [OF ij(1)]] two [OF q [OF ij(2)]] by auto
  then show "i = j" using m by (metis add_left_cancel div_mult_mod_eq)
qed

section \<open>Words as bytes\<close>

lemma bytes_word_bytes [simp]: "bytes_word (word_bytes w) = w"
  using bytes_of_word32 [of w] by (simp add: bytes_word_def word_bytes_def)

lemma length_word_bytes [simp]: "length (word_bytes w) = 4" by (simp add: word_bytes_def)

lemma bytes_words_bytes [simp]: "bytes_words (concat (map word_bytes ws)) = ws"
proof (induction ws)
  case (Cons w ws)
  have "word_bytes w = [word_bytes w ! 0, word_bytes w ! 1, word_bytes w ! 2, word_bytes w ! 3]" by (simp add: word_bytes_def)
  then have "bytes_words (word_bytes w @ r) = bytes_word (word_bytes w) # bytes_words r" for r
    by (metis append_Cons append_Nil bytes_words.simps(1))
  then show ?case using Cons by simp
qed simp

lemma length_concat_word_bytes [simp]: "length (concat (map word_bytes ws)) = 4 * length ws"
  by (induction ws) simp_all

lemma drop_word_bytes: "drop (4 * k) (concat (map word_bytes ws)) = concat (map word_bytes (drop k ws))"
  by (induction k arbitrary: ws) (simp, case_tac ws, simp_all add: add.commute)

lemma words_reg_words [simp]: "words_reg (reg_words r) = r" "length (reg_words r) = 16"
  by (simp_all add: words_reg_def reg_words_def)


section \<open>The signal frame\<close>

lemma translate_set_task [simp]: "translate a (set_task b t s) = translate a s"
  by (simp add: translate_def read_page_def set_task_def Let_def cong: if_cong)

lemma unaliased_set_current [simp]: "unaliased a n (set_current t s) = unaliased a n s"
  by (simp add: unaliased_def set_current_def)

lemma user_load_set_task [simp]: "user_load a n (set_task b t s) = user_load a n s"
  by (induction n arbitrary: a) (simp_all add: user_load8_def set_task_def translate_set_task [unfolded set_task_def])

lemma length_signal_frame_words [simp]: "length (signal_frame_words tr n regs) = 19"
  by (simp add: signal_frame_words_def)

text \<open>A signal frame in user memory.\<close>

definition frame_at :: "u32int \<Rightarrow> u32int \<Rightarrow> nat \<Rightarrow> registers_t \<Rightarrow> 'a pstate_scheme \<Rightarrow> bool" where
  "frame_at fa tr n regs s \<longleftrightarrow> user_load fa 76 s = Some (concat (map word_bytes (signal_frame_words tr n regs)))"

lemma frame_at_load:
  assumes "frame_at fa tr n regs s"
  shows "user_load (fa + 4) 4 s = Some (word_bytes (of_nat n))" "user_load (fa + 8) 4 s = Some (word_bytes SIGNAL_FRAME_MAGIC)"
    "user_load (fa + 12) 64 s = Some (concat (map word_bytes (reg_words regs)))"
proof -
  note l = user_load_part [OF assms [unfolded frame_at_def]]
  have d: "drop (4 * k) (concat (map word_bytes (signal_frame_words tr n regs))) =
     concat (map word_bytes (drop k (signal_frame_words tr n regs)))" for k by (rule drop_word_bytes)
  show "user_load (fa + 4) 4 s = Some (word_bytes (of_nat n))"
    using l [of 4 4] d [of 1] by (simp add: signal_frame_words_def)
  show "user_load (fa + 8) 4 s = Some (word_bytes SIGNAL_FRAME_MAGIC)"
    using l [of 8 4] d [of 2] by (simp add: signal_frame_words_def)
  show "user_load (fa + 12) 64 s = Some (concat (map word_bytes (reg_words regs)))"
    using l [of 12 64] d [of 3] by (simp add: signal_frame_words_def)
qed

lemma signal_return_frame:
  assumes t: "get_current s = Some t" "signal_active t" "active_signal t = of_nat n" "n < SIGNAL_COUNT"
    and fa: "stack_bottom \<le> fa" "unat fa + 76 \<le> unat USER_STACK_TOP" and f: "frame_at fa tr n regs s"
  shows "task_signal_return (fa + 4) r s = Some (0, regs, set_current (t\<lparr>signal_active := False, active_signal := 0\<rparr>) s)"
proof -
  have u: "unat stack_bottom = 3221217280" "unat USER_STACK_TOP = 3221225472" by (simp_all add: stack_bottom_def USER_STACK_TOP_def TASK_STACK_SIZE_def)
  have fl: "3221217280 \<le> unat fa" using fa(1) u(1) by (simp add: word_le_nat_alt)
  have f4: "unat (fa + 4) = unat fa + 4" using fa(2) u unat_add32 [of fa 4] by simp
  have "\<not> fa + 4 < stack_bottom + 4"
    using fl f4 u(1) unat_add32 [of stack_bottom 4] by (simp add: word_less_nat_alt)
  moreover have "\<not> fa + 4 > USER_STACK_TOP - (sizeof_signal_frame - 4)"
    using fa(2) f4 u(2) by (simp add: word_less_nat_alt USER_STACK_TOP_def sizeof_signal_frame_def)
  moreover have "(ucast (of_nat n :: u8int) :: u32int) = of_nat n"
  proof -
    have "n < 32" using t(4) by (simp add: SIGNAL_COUNT_def)
    then have "unat (ucast (of_nat n :: u8int) :: u32int) = unat (of_nat n :: u32int)"
      by (simp add: unsigned_of_nat take_bit_nat_eq_self)
    then show ?thesis by (simp only: word_unat_eq_iff)
  qed
  moreover have "current_task s \<noteq> 0" using t(1) by (auto simp: get_current_def)
  ultimately show ?thesis
    using t frame_at_load [OF f] by (simp add: task_signal_return_def Let_def)
qed

section \<open>The choice of the next signal\<close>

lemma take_pending_from_spec:
  assumes "take_pending_from m t = (n, t')"
  shows "n = 0 \<and> t' = t \<and> (\<forall>k. m \<le> k \<and> k < SIGNAL_COUNT \<longrightarrow> \<not> bit (pending_signals t) k) \<or>
     m \<le> n \<and> n < SIGNAL_COUNT \<and> bit (pending_signals t) n \<and> (\<forall>k. m \<le> k \<and> k < n \<longrightarrow> \<not> bit (pending_signals t) k) \<and>
     t' = t\<lparr>pending_signals := pending_signals t AND NOT (bit_mask n)\<rparr>"
  using assms
proof (induction m t rule: take_pending_from.induct)
  case (1 m t)
  have b: "m < SIGNAL_COUNT \<Longrightarrow> pending_signals t AND bit_mask m = 0 \<longleftrightarrow> \<not> bit (pending_signals t) m"
    by (rule and_single_bit) (simp add: SIGNAL_COUNT_def)
  consider "\<not> m < SIGNAL_COUNT" | "m < SIGNAL_COUNT" "\<not> bit (pending_signals t) m" | "m < SIGNAL_COUNT" "bit (pending_signals t) m"
    by blast
  then show ?case
  proof cases
    case 1
    then have "take_pending_from m t = (0, t)" by (simp add: take_pending_from.simps [of m t])
    then have "n = 0" "t' = t" using "1.prems" by simp_all
    then show ?thesis using 1 by (intro disjI1) auto
  next
    case 2
    then have IH: "n = 0 \<and> t' = t \<and> (\<forall>k. m + 1 \<le> k \<and> k < SIGNAL_COUNT \<longrightarrow> \<not> bit (pending_signals t) k) \<or>
       m + 1 \<le> n \<and> n < SIGNAL_COUNT \<and> bit (pending_signals t) n \<and> (\<forall>k. m + 1 \<le> k \<and> k < n \<longrightarrow> \<not> bit (pending_signals t) k) \<and>
       t' = t\<lparr>pending_signals := pending_signals t AND NOT (bit_mask n)\<rparr>"
      using "1.prems" "1.IH" b by (simp add: take_pending_from.simps [of m t])
    have "\<not> bit (pending_signals t) k" if "m \<le> k" "m + 1 \<le> k \<Longrightarrow> \<not> bit (pending_signals t) k" for k
      using that 2(2) by (cases "k = m") auto
    then show ?thesis using IH by (meson add_leD1)
  next
    case 3
    then have "take_pending_from m t = (m, t\<lparr>pending_signals := pending_signals t AND NOT (bit_mask m)\<rparr>)"
      using b by (simp add: take_pending_from.simps [of m t])
    then have "n = m" "t' = t\<lparr>pending_signals := pending_signals t AND NOT (bit_mask m)\<rparr>" using "1.prems" by simp_all
    then show ?thesis using 3 by (intro disjI2) auto
  qed
qed

lemma take_next_spec:
  assumes "take_next_pending_signal t = (n, t')"
  shows "n = 0 \<and> t' = t \<and> (\<forall>k. 1 \<le> k \<and> k < SIGNAL_COUNT \<longrightarrow> \<not> bit (pending_signals t) k) \<or>
     1 \<le> n \<and> n < SIGNAL_COUNT \<and> bit (pending_signals t) n \<and> (\<forall>k. 1 \<le> k \<and> k < n \<longrightarrow> \<not> bit (pending_signals t) k) \<and>
     t' = t\<lparr>pending_signals := pending_signals t AND NOT (bit_mask n)\<rparr>"
  using take_pending_from_spec [of 1] assms by (simp add: take_next_pending_signal_def)

section \<open>Delivery writes a frame that sigreturn restores\<close>

lemma and_not_F: "unat (x AND NOT 0xF :: u32int) = unat x - unat x mod 16"
proof -
  have "(0xF :: u32int) = mask 4" by (simp add: mask_eq_exp_minus_1)
  then show ?thesis using unat_and_not_mask [of x 4] by simp
qed

lemma deliver_frame:
  fixes s :: "'a tstate_scheme"
  assumes r: "task_signal_deliver c regs s = Some (Returns regs' s')" and ne: "regs' \<noteq> regs"
    and wf: "paging_wf s"
  obtains t n where "get_current s = Some t" "1 \<le> n" "n < SIGNAL_COUNT" "n \<noteq> SIGNAL_KILL" "bit (pending_signals t) n"
    "\<forall>k. 1 \<le> k \<and> k < n \<longrightarrow> \<not> bit (pending_signals t) k"
    "regs' = regs\<lparr>eip := signal_handlers t ! n, useresp := useresp regs'\<rparr>" "unat (useresp regs') mod 16 = 0"
    "signal_handlers t ! n \<noteq> SIGNAL_IGNORE" "signal_handlers t ! n \<noteq> SIGNAL_DEFAULT"
    "stack_bottom \<le> useresp regs'" "unat (useresp regs') + 76 \<le> unat (useresp regs)" "useresp regs \<le> USER_STACK_TOP"
    "frame_at (useresp regs') (signal_trampoline t) n regs s'"
    "get_current s' = Some (t\<lparr>pending_signals := pending_signals t AND NOT (bit_mask n), signal_active := True, active_signal := of_nat n\<rparr>)"
  using r
proof (cases rule: deliver_cases)
  case (handled t n t' fa s1)
  have n: "1 \<le> n" "n < SIGNAL_COUNT" "bit (pending_signals t) n" "\<forall>k. 1 \<le> k \<and> k < n \<longrightarrow> \<not> bit (pending_signals t) k"
      "t' = t\<lparr>pending_signals := pending_signals t AND NOT (bit_mask n)\<rparr>"
    using take_next_spec [OF handled(6)] handled(7) by auto
  have out: "regs' = regs\<lparr>eip := signal_handlers t' ! n, useresp := fa\<rparr>"
    "s' = set_current (t'\<lparr>signal_active := True, active_signal := of_nat n\<rparr>) s1" using handled(17) by simp_all
  have fa: "useresp regs' = fa" using out(1) by simp
  let ?w = "concat (map word_bytes (signal_frame_words (signal_trampoline t') n regs))"
  have sb: "unat (stack_bottom + sizeof_signal_frame) = unat stack_bottom + 76" "unat stack_bottom = 3221217280"
    by (simp_all add: stack_bottom_def USER_STACK_TOP_def TASK_STACK_SIZE_def sizeof_signal_frame_def)
  then have u: "unat stack_bottom + 76 \<le> unat (useresp regs)" using handled(12) by (simp add: word_le_nat_alt)
  then have d: "unat (useresp regs - sizeof_signal_frame) = unat (useresp regs) - 76"
    using unat_sub32 [of sizeof_signal_frame "useresp regs"] by (simp add: sizeof_signal_frame_def)
  have fu: "unat fa = unat (useresp regs) - 76 - (unat (useresp regs) - 76) mod 16" unfolding handled(11) and_not_F d ..
  have "unaliased fa (length ?w) (set_current t' s)" using stack_unaliased [OF wf handled(14)] fu u handled(13) by (simp add: word_le_nat_alt)
  then have "user_load fa (length ?w) s1 = Some ?w" by (rule user_load_store [OF handled(16)])
  then have f: "frame_at fa (signal_trampoline t) n regs s'" using out(2) n(5) by (simp add: frame_at_def set_current_def)
  have k: "keeps (set_current t' s) s1" by (rule keeperD [OF user_store_keeps handled(16)])
  have "get_current (set_current t' s) = Some t'" using handled(1) by (auto simp: get_current_def set_current_def split: if_splits)
  then have cur: "get_current s' = Some (t'\<lparr>signal_active := True, active_signal := of_nat n\<rparr>)"
    using keeps_tstate(8) [OF k] out(2) by (auto simp: get_current_def set_current_def split: if_splits)
  show thesis
    by (rule that [OF handled(1) n(1,2) handled(8) n(3,4)])
      (use handled n(5) out fa f cur fu u in \<open>simp_all add: minus_mod_eq_div_mult\<close>)
qed (use ne in auto)

section \<open>The frame of a forked child\<close>

lemma store_words_below:
  assumes "n + 4 * length ws \<le> 4294967296" "k + 4 \<le> n"
  shows "load32 (store_words m (of_nat n) ws) (of_nat k) = load32 m (of_nat k)"
  using assms
proof (induction ws arbitrary: m n)
  case (Cons w ws)
  have "load32 (store_words (store32 m (of_nat n) w) (of_nat (n + 4)) ws) (of_nat k) = load32 (store32 m (of_nat n) w) (of_nat k)"
    by (rule Cons.IH) (use Cons.prems in simp_all)
  also have "\<dots> = load32 m (of_nat k)" by (rule load32_store32_frame) (use Cons.prems in simp_all)
  finally show ?case by (simp add: add.commute)
qed simp

lemma load_store_words:
  assumes "n + 4 * length ws \<le> 4294967296" "i < length ws"
  shows "load32 (store_words m (of_nat n) ws) (of_nat (n + 4 * i)) = ws ! i"
  using assms
proof (induction ws arbitrary: m n i)
  case (Cons w ws)
  have sh: "store_words m (of_nat n) (w # ws) = store_words (store32 m (of_nat n) w) (of_nat (n + 4)) ws" by (simp add: add.commute)
  show ?case
  proof (cases i)
    case 0
    have "load32 (store_words (store32 m (of_nat n) w) (of_nat (n + 4)) ws) (of_nat n) = load32 (store32 m (of_nat n) w) (of_nat n)"
      by (rule store_words_below) (use Cons.prems in simp_all)
    then show ?thesis unfolding sh using 0 by simp
  next
    case (Suc j)
    have "load32 (store_words (store32 m (of_nat n) w) (of_nat (n + 4)) ws) (of_nat (n + 4 + 4 * j)) = ws ! j"
      by (rule Cons.IH) (use Cons.prems Suc in simp_all)
    then show ?thesis unfolding sh using Suc by (simp add: algebra_simps)
  qed
qed simp

lemma load_frame:
  assumes "unat a + 64 \<le> 4294967296"
  shows "words_reg (map (\<lambda>i. load32 (store_words m a (reg_words regs)) (a + of_nat (4 * i))) [0..<16]) = regs"
proof -
  have "load32 (store_words m a (reg_words regs)) (a + of_nat (4 * i)) = reg_words regs ! i" if "i < 16" for i
    using load_store_words [of "unat a" "reg_words regs" i m] assms that by simp
  then have "map (\<lambda>i. load32 (store_words m a (reg_words regs)) (a + of_nat (4 * i))) [0..<16] = map (\<lambda>i. reg_words regs ! i) [0..<16]"
    by simp
  also have "\<dots> = reg_words regs" by (rule nth_equalityI) simp_all
  finally show ?thesis by simp
qed

end
