(* ===== verification/FS_Paths.thy ===== *)
theory FS_Paths
  imports FS
begin

text \<open>
  Path names (\<open>src/fs.c\<close>): the character loops of \<open>resolve_path_fs\<close> are the walk over the list of
  components of the path, the walk never leaves the tree below the root, and the name that
  \<open>get_path_fs\<close> prints leads back to the node.
\<close>

section \<open>Reference definitions\<close>

text \<open>The pieces between slashes, and the non-empty ones among them.\<close>

primrec split_slash :: "string \<Rightarrow> string list" where
  "split_slash [] = [[]]"
| "split_slash (c # cs) =
     (if is_slash c then [] # split_slash cs
      else (c # hd (split_slash cs)) # tl (split_slash cs))"

definition path_names :: "string \<Rightarrow> string list" where
  "path_names path = filter (\<lambda>c. c \<noteq> []) (split_slash path)"

text \<open>One component of a path, seen from a node; 0 when it does not exist.\<close>

definition enter :: "nodes \<Rightarrow> u32int \<Rightarrow> u32int \<Rightarrow> string \<Rightarrow> u32int" where
  "enter ns root node c =
     (if node = 0 \<or> 128 \<le> length c then 0
      else if c = ''.'' then node
      else if c = ''..'' then parent_or_self ns root node
      else finddir_fs ns node c)"

definition walk :: "nodes \<Rightarrow> u32int \<Rightarrow> u32int \<Rightarrow> string list \<Rightarrow> u32int" where
  "walk ns root node cs = foldl (enter ns root) node cs"

text \<open>\<open>path_to ns root a cs\<close>: following parent pointers from \<open>a\<close> leads to \<open>root\<close>, past the names \<open>cs\<close>.\<close>

inductive path_to :: "nodes \<Rightarrow> u32int \<Rightarrow> u32int \<Rightarrow> string list \<Rightarrow> bool" for ns root where
  here: "path_to ns root root []"
| below: "\<lbrakk>path_to ns root a cs; ns c = Some n; parent n = a; c \<noteq> root; c \<noteq> 0; a \<noteq> 0\<rbrakk>
    \<Longrightarrow> path_to ns root c (cs @ [node_name n])"

inductive_cases path_to_nilE: "path_to ns root a []"
inductive_cases path_to_snocE: "path_to ns root a (cs @ [c])"

section \<open>Splitting a path\<close>

lemma split_slash_not_Nil [simp]: "split_slash p \<noteq> []"
  by (cases p) auto

lemma split_slash_slash: "is_slash c \<Longrightarrow> path_names (c # cs) = path_names cs"
  by (simp add: path_names_def)

lemma path_names_skip: "path_names (dropWhile is_slash p) = path_names p"
  by (induction p) (auto simp: path_names_def)

lemma split_slash_take:
  "split_slash p = takeWhile not_slash p #
     (case dropWhile not_slash p of [] \<Rightarrow> [] | _ # r \<Rightarrow> split_slash r)"
  by (induction p) auto

lemma path_names_take:
  "takeWhile not_slash p \<noteq> [] \<Longrightarrow>
     path_names p = takeWhile not_slash p # path_names (dropWhile is_slash (dropWhile not_slash p))"
proof -
  assume ne: "takeWhile not_slash p \<noteq> []"
  show ?thesis
  proof (cases "dropWhile not_slash p")
    case Nil
    have "split_slash p = [takeWhile not_slash p]" by (subst split_slash_take) (simp only: Nil list.case)
    then show ?thesis unfolding Nil using ne by (simp add: path_names_def)
  next
    case (Cons c r)
    then have c: "is_slash c" using hd_dropWhile [of not_slash p] by simp
    have "split_slash p = takeWhile not_slash p # split_slash r" by (subst split_slash_take) (simp only: Cons list.case)
    then show ?thesis
      unfolding Cons using ne c path_names_skip [of "c # r"] by (simp add: path_names_def)
  qed
qed

lemma path_names_no_slash: "\<lbrakk>c \<in> set (path_names p)\<rbrakk> \<Longrightarrow> c \<noteq> [] \<and> CHR ''/'' \<notin> set c"
proof -
  have "\<forall>c \<in> set (split_slash p). CHR ''/'' \<notin> set c"
  proof (induction p)
    case (Cons x p)
    have "hd (split_slash p) \<in> set (split_slash p)" by simp
    then show ?case using Cons by (auto dest: list.set_sel(2) [OF split_slash_not_Nil])
  qed simp
  then show "c \<in> set (path_names p) \<Longrightarrow> c \<noteq> [] \<and> CHR ''/'' \<notin> set c" by (auto simp: path_names_def)
qed

lemma path_names_Nil: "path_names p = [] \<Longrightarrow> dropWhile is_slash p = []"
proof -
  assume "path_names p = []"
  then have e: "path_names (dropWhile is_slash p) = []" by (simp add: path_names_skip)
  show ?thesis
  proof (cases "dropWhile is_slash p")
    case (Cons c r)
    then have "not_slash c" using hd_dropWhile [of is_slash p] by simp
    then show ?thesis using e Cons path_names_take [of "dropWhile is_slash p"] by simp
  qed simp
qed

lemma path_names_not_Nil: "\<lbrakk>r \<noteq> []; not_slash (hd r)\<rbrakk> \<Longrightarrow> path_names r \<noteq> []"
  using path_names_take [of r] by (cases r) auto

section \<open>The loop is the walk\<close>

lemma walk_simps [simp]:
  "walk ns root node [] = node"
  "walk ns root node (c # cs) = walk ns root (enter ns root node c) cs"
  by (simp_all add: walk_def)

lemma walk_append: "walk ns root node (cs @ ds) = walk ns root (walk ns root node cs) ds"
  by (simp add: walk_def)

lemma enter_0 [simp]: "enter ns root 0 c = 0" by (simp add: enter_def)

lemma walk_0 [simp]: "walk ns root 0 cs = 0" by (induction cs) auto

lemma resolve_loop_walk:
  assumes "node \<noteq> 0" "path = [] \<or> not_slash (hd path)"
  shows "resolve_loop ns root node path = walk ns root node (path_names path)"
  using assms
proof (induction ns root node path rule: resolve_loop.induct)
  case (1 ns root node path)
  show ?case
  proof (cases "path = []")
    case True
    then show ?thesis by (simp add: resolve_loop.simps path_names_def)
  next
    case False
    let ?c = "takeWhile not_slash path" and ?r = "dropWhile is_slash (dropWhile not_slash path)"
    have c: "?c \<noteq> []" using False 1(5) by (cases path) auto
    have r: "?r = [] \<or> not_slash (hd ?r)" using hd_dropWhile [of is_slash "dropWhile not_slash path"] by auto
    have p: "parent_or_self ns root node \<noteq> 0"
      using 1(4) by (auto simp: parent_or_self_def split: option.splits)
    have w: "walk ns root node (path_names path) = walk ns root (enter ns root node ?c) (path_names ?r)"
      by (simp add: path_names_take [OF c])
    consider (long) "128 \<le> length ?c" | (dot) "length ?c < 128" "?c = ''.''"
      | (dotdot) "length ?c < 128" "?c = ''..''"
      | (name) "length ?c < 128" "?c \<noteq> ''.''" "?c \<noteq> ''..''" by linarith
    then show ?thesis
    proof cases
      case long
      then show ?thesis unfolding w using False by (subst resolve_loop.simps) (simp add: enter_def)
    next
      case dot
      have "resolve_loop ns root node ?r = walk ns root node (path_names ?r)"
        by (rule 1(1) [OF False refl refl _ _ 1(4) r]) (use dot in simp_all)
      then show ?thesis unfolding w using False dot 1(4) by (subst resolve_loop.simps) (simp add: enter_def)
    next
      case dotdot
      have "resolve_loop ns root (parent_or_self ns root node) ?r = walk ns root (parent_or_self ns root node) (path_names ?r)"
        by (rule 1(2) [OF False refl refl _ _ _ p r]) (use dotdot in simp_all)
      then show ?thesis unfolding w using False dotdot 1(4) by (subst resolve_loop.simps) (simp add: enter_def)
    next
      case name
      have "resolve_loop ns root (finddir_fs ns node ?c) ?r = walk ns root (finddir_fs ns node ?c) (path_names ?r)"
        if "finddir_fs ns node ?c \<noteq> 0"
        by (rule 1(3) [OF False refl refl _ _ _ refl _ _ r]) (use name that in simp_all)
      then show ?thesis unfolding w using False name 1(4) by (subst resolve_loop.simps) (simp add: enter_def Let_def)
    qed
  qed
qed

lemma resolve_path_walk:
  assumes "root \<noteq> 0" "cwd \<noteq> 0"
  shows "resolve_path_fs ns root cwd path =
    walk ns root (if path \<noteq> [] \<and> is_slash (hd path) then root else cwd) (path_names path)"
proof -
  have r: "dropWhile is_slash path = [] \<or> not_slash (hd (dropWhile is_slash path))"
    using hd_dropWhile [of is_slash path] by blast
  define n where "n = (if path \<noteq> [] \<and> is_slash (hd path) then root else cwd)"
  have "n \<noteq> 0" using assms by (simp add: n_def)
  from resolve_loop_walk [OF this r, of ns root] show ?thesis
    using assms unfolding resolve_path_fs_def Let_def n_def path_names_skip by simp
qed

section \<open>A well-formed tree\<close>

text \<open>Names that a directory entry may have.\<close>

definition good_name :: "string \<Rightarrow> bool" where
  "good_name c \<longleftrightarrow> c \<noteq> [] \<and> CHR ''/'' \<notin> set c \<and> c \<noteq> ''.'' \<and> c \<noteq> ''..'' \<and> length c < 128"

definition fs_wf :: "nodes \<Rightarrow> u32int \<Rightarrow> bool" where
  "fs_wf ns root \<longleftrightarrow>
     ns 0 = None \<and> root \<noteq> 0 \<and>
     (\<exists>r. ns root = Some r \<and> is_directory r \<and> parent r = 0) \<and>
     (\<forall>a n. ns a = Some n \<longrightarrow>
        (is_directory n \<longrightarrow> finddir_cb n = Some Initrd_finddir \<and> readdir_cb n = Some Initrd_readdir \<and>
           mkdir_cb n = Some Initrd_mkdir) \<and>
        (children n \<noteq> [] \<longrightarrow> is_directory n) \<and> distinct (children n) \<and>
        (\<forall>c \<in> set (children n). \<exists>m. ns c = Some m \<and> parent m = a \<and> good_name (node_name m)) \<and>
        inj_on (\<lambda>c. node_name (the (ns c))) (set (children n)) \<and>
        (parent n \<noteq> 0 \<longrightarrow> (\<exists>p. ns (parent n) = Some p \<and> a \<in> set (children p))))"

lemma fs_wfD:
  assumes "fs_wf ns root"
  shows "ns 0 = None" "root \<noteq> 0" "\<exists>r. ns root = Some r \<and> is_directory r \<and> parent r = 0"
    "\<lbrakk>ns a = Some n; is_directory n\<rbrakk> \<Longrightarrow> finddir_cb n = Some Initrd_finddir"
    "\<lbrakk>ns a = Some n; is_directory n\<rbrakk> \<Longrightarrow> mkdir_cb n = Some Initrd_mkdir"
    "\<lbrakk>ns a = Some n; children n \<noteq> []\<rbrakk> \<Longrightarrow> is_directory n"
    "\<lbrakk>ns a = Some n; c \<in> set (children n)\<rbrakk> \<Longrightarrow> \<exists>m. ns c = Some m \<and> parent m = a \<and> good_name (node_name m)"
    "\<lbrakk>ns a = Some n; c \<in> set (children n); d \<in> set (children n); ns c = Some m; ns d = Some k; node_name m = node_name k\<rbrakk> \<Longrightarrow> c = d"
    "\<lbrakk>ns a = Some n; parent n \<noteq> 0\<rbrakk> \<Longrightarrow> \<exists>p. ns (parent n) = Some p \<and> a \<in> set (children p)"
    "ns a = Some n \<Longrightarrow> distinct (children n)"
    "\<lbrakk>ns a = Some n; is_directory n\<rbrakk> \<Longrightarrow> readdir_cb n = Some Initrd_readdir"
proof -
  note wf = assms [unfolded fs_wf_def]
  note all = wf [THEN conjunct2, THEN conjunct2, THEN conjunct2, rule_format]
  show "ns 0 = None" "root \<noteq> 0" "\<exists>r. ns root = Some r \<and> is_directory r \<and> parent r = 0" using wf by simp_all
  show "\<lbrakk>ns a = Some n; is_directory n\<rbrakk> \<Longrightarrow> finddir_cb n = Some Initrd_finddir"
    "\<lbrakk>ns a = Some n; is_directory n\<rbrakk> \<Longrightarrow> mkdir_cb n = Some Initrd_mkdir"
    "\<lbrakk>ns a = Some n; children n \<noteq> []\<rbrakk> \<Longrightarrow> is_directory n"
    "\<lbrakk>ns a = Some n; c \<in> set (children n)\<rbrakk> \<Longrightarrow> \<exists>m. ns c = Some m \<and> parent m = a \<and> good_name (node_name m)"
    "\<lbrakk>ns a = Some n; parent n \<noteq> 0\<rbrakk> \<Longrightarrow> \<exists>p. ns (parent n) = Some p \<and> a \<in> set (children p)"
    "ns a = Some n \<Longrightarrow> distinct (children n)"
    "\<lbrakk>ns a = Some n; is_directory n\<rbrakk> \<Longrightarrow> readdir_cb n = Some Initrd_readdir"
    using all [of a n] by blast+
  show "\<lbrakk>ns a = Some n; c \<in> set (children n); d \<in> set (children n); ns c = Some m; ns d = Some k; node_name m = node_name k\<rbrakk> \<Longrightarrow> c = d"
    using all [of a n] inj_onD [of "\<lambda>c. node_name (the (ns c))" "set (children n)" c d] by simp
qed

section \<open>Looking a name up\<close>

lemma find_in_list_Some:
  assumes "find_in_list ns nm cs = c" "c \<noteq> 0"
  shows "c \<in> set cs \<and> (\<exists>m. ns c = Some m \<and> node_name m = nm)"
  using assms by (induction cs) (auto split: option.splits if_splits)

lemma find_in_list_0:
  assumes "0 \<notin> set cs"
  shows "find_in_list ns nm cs = 0 \<longleftrightarrow> (\<forall>c \<in> set cs. \<forall>m. ns c = Some m \<longrightarrow> node_name m \<noteq> nm)"
  using assms by (induction cs) (auto split: option.splits)

lemma children_not_0: "\<lbrakk>fs_wf ns root; ns a = Some n\<rbrakk> \<Longrightarrow> 0 \<notin> set (children n)"
  using fs_wfD(1) [of ns root] fs_wfD(7) [of ns root a n 0] by auto

text \<open>\<open>finddir_fs\<close> finds exactly the child with the name.\<close>

lemma finddir_child:
  assumes wf: "fs_wf ns root" and d: "ns a = Some d" and c: "c \<in> set (children d)" "ns c = Some m"
  shows "finddir_fs ns a (node_name m) = c"
proof -
  have z: "0 \<notin> set (children d)" by (rule children_not_0 [OF wf d])
  have dir: "is_directory d" using fs_wfD(6) [OF wf d] c(1) by fastforce
  have nz: "find_in_list ns (node_name m) (children d) \<noteq> 0"
    using find_in_list_0 [OF z] c by blast
  then obtain k where k: "find_in_list ns (node_name m) (children d) \<in> set (children d)"
      "ns (find_in_list ns (node_name m) (children d)) = Some k" "node_name k = node_name m"
    using find_in_list_Some [OF refl] by blast
  have "find_in_list ns (node_name m) (children d) = c"
    by (rule fs_wfD(8) [OF wf d k(1) c(1) k(2) c(2) k(3)])
  then show ?thesis
    using d dir fs_wfD(1) [OF wf] fs_wfD(4) [OF wf d dir]
    by (auto simp: finddir_fs_def initrd_finddir_def find_child_def)
qed

lemma finddir_Some:
  assumes wf: "fs_wf ns root" and f: "finddir_fs ns a nm = c" "c \<noteq> 0"
  shows "\<exists>d m. ns a = Some d \<and> c \<in> set (children d) \<and> ns c = Some m \<and> parent m = a \<and> node_name m = nm"
proof -
  obtain d where d: "ns a = Some d" "find_in_list ns nm (children d) = c"
    using f by (auto simp: finddir_fs_def initrd_finddir_def find_child_def split: if_splits option.splits)
  then show ?thesis using find_in_list_Some [OF d(2) f(2)] fs_wfD(7) [OF wf d(1)] by fastforce
qed

section \<open>Confinement\<close>

definition below_root :: "nodes \<Rightarrow> u32int \<Rightarrow> u32int \<Rightarrow> bool" where
  "below_root ns root a \<longleftrightarrow> (\<exists>cs. path_to ns root a cs)"

lemma below_root_not_0: "\<lbrakk>fs_wf ns root; path_to ns root a cs\<rbrakk> \<Longrightarrow> a \<noteq> 0"
  by (erule path_to.cases) (auto dest: fs_wfD(2))

lemma child_path_to:
  assumes wf: "fs_wf ns root" and p: "path_to ns root a cs" and c: "ns c = Some m" "parent m = a" "c \<noteq> 0"
  shows "c \<noteq> root \<and> path_to ns root c (cs @ [node_name m])"
proof -
  have a: "a \<noteq> 0" by (rule below_root_not_0 [OF wf p])
  have "c \<noteq> root" using fs_wfD(3) [OF wf] c a by auto
  then show ?thesis using path_to.below [OF p c(1,2)] c(3) a by simp
qed

lemma enter_below:
  assumes wf: "fs_wf ns root" and b: "below_root ns root a"
  shows "enter ns root a c = 0 \<or> below_root ns root (enter ns root a c)"
proof -
  obtain cs where cs: "path_to ns root a cs" using b by (auto simp: below_root_def)
  have "below_root ns root (parent_or_self ns root a)"
    using cs by (cases rule: path_to.cases)
      (auto simp: parent_or_self_def below_root_def split: option.splits intro: path_to.here)
  moreover have "below_root ns root (finddir_fs ns a c)" if nz: "finddir_fs ns a c \<noteq> 0"
  proof -
    obtain m where "ns (finddir_fs ns a c) = Some m" "parent m = a"
      using finddir_Some [OF wf refl nz] by blast
    then show ?thesis using child_path_to [OF wf cs] nz by (auto simp: below_root_def)
  qed
  ultimately show ?thesis using b by (auto simp: enter_def)
qed

lemma walk_below:
  assumes "fs_wf ns root" "below_root ns root a"
  shows "walk ns root a cs = 0 \<or> below_root ns root (walk ns root a cs)"
  using assms(2)
proof (induction cs arbitrary: a)
  case (Cons c cs)
  then show ?case using enter_below [OF assms(1), of a c] by auto
qed simp

section \<open>Printing the name of a node\<close>

fun join_slash :: "string list \<Rightarrow> string" where
  "join_slash [] = []"
| "join_slash [c] = c"
| "join_slash (c # cs) = c @ ''/'' @ join_slash cs"

lemma split_join:
  assumes "\<forall>c \<in> set cs. c \<noteq> [] \<and> CHR ''/'' \<notin> set c"
  shows "path_names (join_slash cs) = cs"
  using assms
proof (induction cs rule: join_slash.induct)
  case (2 c)
  have e: "takeWhile not_slash c = c" "dropWhile not_slash c = []" using 2 by (auto simp: takeWhile_eq_all_conv)
  have "path_names c = c # path_names []" using 2 path_names_take [of c, unfolded e] by simp
  then show ?case by (simp add: path_names_def)
next
  case (3 c d cs)
  have t: "takeWhile not_slash (c @ CHR ''/'' # join_slash (d # cs)) = c"
    "dropWhile not_slash (c @ CHR ''/'' # join_slash (d # cs)) = CHR ''/'' # join_slash (d # cs)"
  proof -
    have ns: "\<And>x. x \<in> set c \<Longrightarrow> not_slash x" using 3(2) by auto
    show "takeWhile not_slash (c @ CHR ''/'' # join_slash (d # cs)) = c"
      "dropWhile not_slash (c @ CHR ''/'' # join_slash (d # cs)) = CHR ''/'' # join_slash (d # cs)"
      by (subst takeWhile_append2 [OF ns], assumption, simp) (subst dropWhile_append2 [OF ns], assumption, simp)
  qed
  show ?case
    using path_names_take [of "c @ CHR ''/'' # join_slash (d # cs)"] t 3 path_names_skip [of "join_slash (d # cs)"]
    by simp
qed (simp add: path_names_def)

lemma walk_path_to:
  assumes wf: "fs_wf ns root" and p: "path_to ns root a cs"
  shows "walk ns root root cs = a \<and> (\<forall>c \<in> set cs. good_name c)"
  using p
proof induction
  case (below a cs c n)
  obtain d where d: "ns a = Some d" "c \<in> set (children d)"
    using fs_wfD(9) [OF wf below(2)] below(3,6) by auto
  have good: "good_name (node_name n)" using fs_wfD(7) [OF wf d] below(2) by auto
  moreover have "enter ns root a (node_name n) = c"
    using finddir_child [OF wf d below(2)] good below(6) by (simp add: enter_def good_name_def)
  ultimately show ?case using below by (simp add: walk_append)
qed simp

text \<open>What the two loops of \<open>get_path_fs\<close> compute.\<close>

inductive chain :: "nodes \<Rightarrow> u32int \<Rightarrow> u32int \<Rightarrow> u32int list \<Rightarrow> bool" for ns root where
  "chain ns root root []"
| "\<lbrakk>chain ns root a as; ns c = Some n; parent n = a; c \<noteq> root; c \<noteq> 0; a \<noteq> 0\<rbrakk> \<Longrightarrow> chain ns root c (as @ [c])"

lemma path_to_chain:
  "path_to ns root a cs \<Longrightarrow>
     \<exists>as. chain ns root a as \<and> length as = length cs \<and>
       (\<forall>x \<in> set as. ns x \<noteq> None) \<and> map (\<lambda>x. node_name (the (ns x))) as = cs"
proof (induction rule: path_to.induct)
  case (below a cs c n)
  then obtain as where "chain ns root a as" "length as = length cs" "\<forall>x \<in> set as. ns x \<noteq> None"
      "map (\<lambda>x. node_name (the (ns x))) as = cs" by blast
  then show ?case
    using chain.intros(2) [of ns root a as c n] below by (intro exI [of _ "as @ [c]"]) simp
qed (auto intro: chain.intros)

lemma ancestors_chain:
  "\<lbrakk>chain ns root a as; length acc \<le> 32\<rbrakk> \<Longrightarrow>
     ancestors ns root a acc = (if length as + length acc \<le> 32 then Some (as @ acc) else None)"
proof (induction arbitrary: acc rule: chain.induct)
  case 1
  then show ?case by (simp add: ancestors.simps)
next
  case (2 a as c n)
  then show ?case by (subst ancestors.simps) (auto simp: not_le)
qed

lemma emit_path_join:
  assumes "\<forall>x \<in> set as. ns x \<noteq> None" "as \<noteq> []"
  shows "emit_path ns capacity buf as =
    (let p = buf @ join_slash (map (\<lambda>x. node_name (the (ns x))) as)
     in if length p + 1 \<le> capacity then Some p else None)"
  using assms
proof (induction as arbitrary: buf)
  case (Cons a as)
  then obtain n where n: "ns a = Some n" by auto
  show ?case
  proof (cases as)
    case Nil
    then show ?thesis using n by (simp add: Let_def)
  next
    case (Cons b bs)
    then have j: "join_slash (map (\<lambda>x. node_name (the (ns x))) (a # as)) =
        node_name n @ ''/'' @ join_slash (map (\<lambda>x. node_name (the (ns x))) as)"
      using n by simp
    have "emit_path ns capacity (buf @ node_name n @ ''/'') as =
        (let p = (buf @ node_name n @ ''/'') @ join_slash (map (\<lambda>x. node_name (the (ns x))) as)
         in if length p + 1 \<le> capacity then Some p else None)"
      using Cons.IH Cons.prems(1) Cons by simp
    then show ?thesis unfolding j using n Cons by (auto simp: Let_def)
  qed
qed simp

lemma get_path_exact:
  assumes p: "path_to ns root a cs" and nz: "root \<noteq> 0" "a \<noteq> 0"
  shows "get_path_fs ns root a capacity =
    (if 2 \<le> capacity \<and> length cs \<le> 32 \<and> length (CHR ''/'' # join_slash cs) < capacity
     then Some (CHR ''/'' # join_slash cs) else None)"
proof -
  obtain as where as: "chain ns root a as" "length as = length cs" "\<forall>x \<in> set as. ns x \<noteq> None"
      "map (\<lambda>x. node_name (the (ns x))) as = cs"
    using path_to_chain [OF p] by blast
  have an: "ancestors ns root a [] = (if length cs \<le> 32 then Some as else None)"
    using ancestors_chain [OF as(1), of "[]"] as(2) by simp
  show ?thesis
  proof (cases "as = []")
    case True
    then show ?thesis using an as nz by (auto simp: get_path_fs_def)
  next
    case False
    then show ?thesis
      using an as(4) nz emit_path_join [OF as(3) False, of capacity "''/''"] by (auto simp: get_path_fs_def Let_def)
  qed
qed

end
