(* ===== verification/KHeap_Validate.thy ===== *)
theory KHeap_Validate
  imports KHeap_Layout
begin

text \<open>
  \<open>heap_validate\<close> (src/kheap.c) terminates on every memory and accepts exactly the states
  that represent some list of blocks: the assertions it makes are neither weaker nor
  stronger than the layout invariant.
\<close>

section \<open>The loops of the validator\<close>

lemma lookup_entries:
  "\<lbrakk>oa_wf lt ix; i < oa_size ix\<rbrakk> \<Longrightarrow> lookup_ordered_array i ix = Some (entries ix ! i)"
  by (simp add: lookup_ordered_array_def oa_wf_def entries_def)

lemma count_matches_spec:
  assumes "oa_wf lt ix" "i \<le> oa_size ix"
  shows "count_matches ix x i n = Some (n + count_list (drop i (entries ix)) x)"
  using assms
proof (induction ix x i n rule: count_matches.induct)
  case (1 ix x i n)
  show ?case
  proof (cases "i < oa_size ix")
    case True
    then have "drop i (entries ix) = entries ix ! i # drop (i + 1) (entries ix)"
      using "1.prems" by (simp add: Cons_nth_drop_Suc)
    then show ?thesis
      using "1.IH" "1.prems" True by (simp add: count_matches.simps [of ix x i n] lookup_entries)
  next
    case False
    then show ?thesis
      using "1.prems" by (subst count_matches.simps) simp
  qed
qed

definition raw_tags :: "memory \<Rightarrow> ordered_array_t \<Rightarrow> block \<Rightarrow> bool" where
  "raw_tags m ix b \<longleftrightarrow>
     header_magic m (of_nat (baddr b)) = HEAP_MAGIC \<and>
     header_size m (of_nat (baddr b)) = of_nat (bsize b) \<and>
     footer_magic m (of_nat (baddr b + bsize b - 8)) = HEAP_MAGIC \<and>
     footer_header m (of_nat (baddr b + bsize b - 8)) = of_nat (baddr b) \<and>
     (header_is_hole m (of_nat (baddr b)) \<noteq> 0 \<longleftrightarrow> bhole b) \<and>
     (bhole b \<longrightarrow> count_list (entries ix) (of_nat (baddr b)) = 1)"

lemma tags_raw_tags:
  "tags m b \<and> (bhole b \<longrightarrow> count_list (entries ix) (of_nat (baddr b)) = 1) \<longleftrightarrow>
   raw_tags m ix b \<and> (bhole b \<longrightarrow> header_is_hole m (of_nat (baddr b)) = 1)"
  by (auto simp: tags_def raw_tags_def)

lemma footer_address:
  assumes "8 \<le> n" "a + n \<le> 4294967296"
  shows "(of_nat a + of_nat n - 8 :: u32int) = of_nat (a + n - 8)"
  using assms by (simp add: of_nat_diff)

lemma validate_blocks_step:
  assumes wf: "oa_wf lt ix" and lt: "a < e" and sz: "20 \<le> header_size m a" "header_size m a \<le> e - a"
  defines "b \<equiv> Block (unat a) (unat (header_size m a)) (header_is_hole m a \<noteq> 0)"
  shows "validate_blocks m ix e a n =
    (if raw_tags m ix b
     then validate_blocks m ix e (a + header_size m a) (if bhole b then n + 1 else n)
     else None)"
    and "unat (a + header_size m a) = unat a + bsize b" "20 \<le> bsize b"
    and "unat a + bsize b \<le> unat e"
proof -
  have nat: "unat a < unat e" "20 \<le> unat (header_size m a)" "unat (header_size m a) \<le> unat e - unat a"
    using lt sz by (auto simp: word_less_nat_alt word_le_nat_alt unat_sub32)
  have "unat a + unat (header_size m a) < 4294967296"
    using nat unat_lt_2_32 [of e] by linarith
  with nat show *: "unat (a + header_size m a) = unat a + bsize b" "20 \<le> bsize b"
      "unat a + bsize b \<le> unat e"
    by (auto simp: b_def unat_add32)
  have "a + header_size m a - 8 = of_nat (unat a + unat (header_size m a) - 8)"
    using nat unat_lt_2_32 [of e] footer_address [of "unat (header_size m a)" "unat a"]
    by (simp add: word_of_nat_eq_iff)
  moreover have "of_nat (unat a) = a" "of_nat (unat (header_size m a)) = header_size m a" by simp_all
  ultimately show "validate_blocks m ix e a n =
    (if raw_tags m ix b
     then validate_blocks m ix e (a + header_size m a) (if bhole b then n + 1 else n)
     else None)"
    using lt sz count_matches_spec [OF wf, of 0 a 0]
    by (auto simp: validate_blocks.simps [of m ix e a n] raw_tags_def b_def Let_def)
qed

lemma validate_blocks_sound:
  assumes "oa_wf lt ix" "validate_blocks m ix e a n = Some (a', n')" "a \<le> e"
  shows "a' = e \<and> (\<exists>bs. contig (unat a) bs (unat e) \<and> (\<forall>b \<in> set bs. raw_tags m ix b) \<and>
    n' = n + length (filter bhole bs))"
  using assms(2,3)
proof (induction "unat e - unat a" arbitrary: a n rule: less_induct)
  case less
  show ?case
  proof (cases "a < e")
    case True
    then have sz: "20 \<le> header_size m a" "header_size m a \<le> e - a"
      using less.prems(1) by (auto simp: validate_blocks.simps [of m ix e a n] Let_def split: if_splits)
    define b where "b = Block (unat a) (unat (header_size m a)) (header_is_hole m a \<noteq> 0)"
    note step = validate_blocks_step [OF assms(1) True sz, folded b_def]
    have raw: "raw_tags m ix b"
      and rest: "validate_blocks m ix e (a + header_size m a) (if bhole b then n + 1 else n) = Some (a', n')"
      using less.prems(1) step(1) [of n] by (auto split: if_splits)
    have "a + header_size m a \<le> e"
      using step(2,4) by (simp add: word_le_nat_alt)
    moreover have "unat e - unat (a + header_size m a) < unat e - unat a"
      using step(2-4) by linarith
    ultimately obtain bs where "a' = e" "contig (unat (a + header_size m a)) bs (unat e)"
        "\<forall>b \<in> set bs. raw_tags m ix b" "n' = (if bhole b then n + 1 else n) + length (filter bhole bs)"
      using less.hyps rest by blast
    then show ?thesis
      using raw step(2,3) by (intro conjI exI [of _ "b # bs"]) (auto simp: b_def)
  next
    case False
    with less.prems have "a' = a" "n' = n" "a = e"
      by (auto simp: validate_blocks.simps [of m ix e a n])
    then show ?thesis by (intro conjI exI [of _ "[]"]) auto
  qed
qed

lemma validate_blocks_complete:
  assumes "oa_wf lt ix" "contig (unat a) bs (unat e)" "\<forall>b \<in> set bs. raw_tags m ix b"
  shows "validate_blocks m ix e a n = Some (e, n + length (filter bhole bs))"
  using assms(2,3)
proof (induction bs arbitrary: a n)
  case Nil
  then have "a = e" by (simp add: word32_eq_iff_unat)
  then show ?case by (simp add: validate_blocks.simps [of m ix e])
next
  case (Cons b bs)
  have raw: "raw_tags m ix b" and addr: "baddr b = unat a" and len: "20 \<le> bsize b"
      "unat a + bsize b \<le> unat e"
    using Cons.prems contig_le by auto
  have lt: "bsize b < 4294967296" using len unat_lt_2_32 [of e] by linarith
  have size: "header_size m a = of_nat (bsize b)" using raw addr by (simp add: raw_tags_def)
  have usize: "unat (header_size m a) = bsize b" using lt by (simp add: size unat_of_nat32)
  have ae: "a < e" using len by (simp add: word_less_nat_alt)
  have sz: "20 \<le> header_size m a" "header_size m a \<le> e - a"
    using len by (auto simp: word_le_nat_alt usize unat_sub32)
  have b: "b = Block (unat a) (unat (header_size m a)) (header_is_hole m a \<noteq> 0)"
    using raw addr usize by (cases b) (auto simp: raw_tags_def)
  note step = validate_blocks_step [OF assms(1) ae sz, folded b]
  have "contig (unat (a + header_size m a)) bs (unat e)"
    using Cons.prems(1) step(2) addr by simp
  from Cons.IH [OF this, of "if bhole b then n + 1 else n"] Cons.prems(2)
  show ?case using step(1) raw by simp
qed

lemma validate_index_spec:
  assumes "oa_wf lt (index h)"
  shows "validate_index m h i = Some () \<longleftrightarrow>
    (\<forall>j. i \<le> j \<and> j < oa_size (index h) \<longrightarrow>
       (let x = entries (index h) ! j in
        start_address h \<le> x \<and> x < end_address h \<and> header_magic m x = HEAP_MAGIC \<and>
        header_is_hole m x = 1 \<and>
        (0 < j \<longrightarrow> header_size m (entries (index h) ! (j - 1)) \<le> header_size m x)))"
proof (induction "oa_size (index h) - i" arbitrary: i)
  case 0
  then show ?case by (subst validate_index.simps) auto
next
  case (Suc k)
  let ?P = "\<lambda>j. let x = entries (index h) ! j in
      start_address h \<le> x \<and> x < end_address h \<and> header_magic m x = HEAP_MAGIC \<and>
      header_is_hole m x = 1 \<and>
      (0 < j \<longrightarrow> header_size m (entries (index h) ! (j - 1)) \<le> header_size m x)"
  have lt: "i < oa_size (index h)" using Suc.hyps(2) by simp
  have a: "validate_index m h i = Some () \<longleftrightarrow> ?P i \<and> validate_index m h (i + 1) = Some ()"
    using lt by (subst validate_index.simps) (simp add: lookup_entries [OF assms] Let_def)
  have b: "validate_index m h (i + 1) = Some () \<longleftrightarrow>
      (\<forall>j. i + 1 \<le> j \<and> j < oa_size (index h) \<longrightarrow> ?P j)"
    using Suc.hyps by (intro Suc.hyps(1)) simp
  have c: "(\<forall>j. i \<le> j \<and> j < oa_size (index h) \<longrightarrow> P j) \<longleftrightarrow>
      P i \<and> (\<forall>j. i + 1 \<le> j \<and> j < oa_size (index h) \<longrightarrow> P j)" for P
  proof -
    have "i \<le> j \<longleftrightarrow> j = i \<or> i + 1 \<le> j" for j by auto
    with lt show ?thesis by auto
  qed
  show ?case unfolding a b c [of ?P] ..
qed

section \<open>Exactness\<close>

lemma distinct_count_list: "\<lbrakk>distinct xs; x \<in> set xs\<rbrakk> \<Longrightarrow> count_list xs x = 1"
  by (induction xs) auto

lemma hole_list_perm:
  assumes "distinct hs" "length hs = length es" "\<forall>x \<in> set hs. count_list es x = 1"
  shows "distinct es \<and> set es = set hs"
proof -
  have sub: "set hs \<subseteq> set es"
    using assms(3) count_notin [of _ es] by fastforce
  have card: "card (set hs) = length es"
    using assms(1,2) by (simp add: distinct_card)
  then have "set hs = set es"
    using sub card_length [of es] by (intro card_subset_eq) (auto dest: card_mono [rotated])
  moreover have "distinct es"
    using card calculation by (intro card_distinct) simp
  ultimately show ?thesis by simp
qed

lemma hole_addresses:
  assumes "contig a bs e" "e < 4294967296"
  defines "hs \<equiv> map (\<lambda>b. of_nat (baddr b) :: u32int) (filter bhole bs)"
  shows "distinct hs" "set hs = of_nat ` holes bs" "length hs = length (filter bhole bs)"
proof -
  have "inj_on (\<lambda>b. of_nat (baddr b) :: u32int) (set bs)"
  proof (rule inj_onI)
    fix x y assume xy: "x \<in> set bs" "y \<in> set bs" "(of_nat (baddr x) :: u32int) = of_nat (baddr y)"
    have "baddr x < 4294967296" "baddr y < 4294967296"
      using contig_mem [OF assms(1)] assms(2) xy(1,2) by fastforce+
    with xy show "x = y" using contig_unique [OF assms(1)] by (simp add: of_nat32_eq_iff)
  qed
  moreover have "distinct bs" using contig_distinct [OF assms(1)] by (simp add: distinct_map)
  ultimately show "distinct hs"
    unfolding hs_def by (auto simp: distinct_map inj_on_def)
  show "set hs = of_nat ` holes bs" by (auto simp: hs_def holes_def)
  show "length hs = length (filter bhole bs)" by (simp add: hs_def)
qed

lemma sorted_adjacent:
  fixes f :: "'a \<Rightarrow> 'b :: linorder"
  shows "sorted (map f xs) \<longleftrightarrow> (\<forall>j < length xs. 0 < j \<longrightarrow> f (xs ! (j - 1)) \<le> f (xs ! j))"
proof -
  have "sorted (map f xs) \<longleftrightarrow> (\<forall>i. Suc i < length xs \<longrightarrow> f (xs ! i) \<le> f (xs ! Suc i))"
    by (simp add: sorted_iff_nth_Suc)
  also have "\<dots> \<longleftrightarrow> (\<forall>j < length xs. 0 < j \<longrightarrow> f (xs ! (j - 1)) \<le> f (xs ! j))"
    by (metis Suc_pred' diff_Suc_1 zero_less_Suc)
  finally show ?thesis .
qed

lemma heap_validate_sound:
  assumes wf: "oa_wf header_t_less_than (index h)" and val: "heap_validate m h = Some ()"
  shows "\<exists>bs. heap_rep m h bs"
proof -
  let ?ix = "index h"
  obtain a n where lt: "start_address h < end_address h" "end_address h \<le> max_address h"
      and vb: "validate_blocks m ?ix (end_address h) (start_address h) 0 = Some (a, n)"
      and n: "n = oa_size ?ix" and vi: "validate_index m h 0 = Some ()"
    using val by (auto simp: heap_validate_def bind_Some_iff split: if_splits)
  obtain bs where bs: "contig (unat (start_address h)) bs (unat (end_address h))"
      "\<forall>b \<in> set bs. raw_tags m ?ix b" "n = length (filter bhole bs)"
    using validate_blocks_sound [OF wf vb order_less_imp_le [OF lt(1)]] by auto
  note hl = hole_addresses [OF bs(1) unat_lt_2_32]
  have "\<forall>x \<in> set (map (\<lambda>b. of_nat (baddr b)) (filter bhole bs)). count_list (entries ?ix) x = 1"
    using bs(2) by (auto simp: raw_tags_def)
  moreover have "length (map (\<lambda>b. of_nat (baddr b) :: u32int) (filter bhole bs)) = length (entries ?ix)"
    using n bs(3) wf by simp
  ultimately have es: "distinct (entries ?ix)" "set (entries ?ix) = of_nat ` holes bs"
    using hole_list_perm [OF hl(1)] hl(2) by blast+
  have idx: "header_is_hole m (entries ?ix ! j) = 1" if "j < oa_size ?ix" for j
    using vi that by (auto simp: validate_index_spec [OF wf] Let_def)
  have "header_is_hole m (of_nat (baddr b)) = 1" if "b \<in> set bs" "bhole b" for b
  proof -
    have "of_nat (baddr b) \<in> set (entries ?ix)" using that es(2) by (auto simp: holes_def)
    then obtain j where "j < oa_size ?ix" "entries ?ix ! j = of_nat (baddr b)"
      using wf by (metis in_set_conv_nth length_entries)
    with idx show ?thesis by metis
  qed
  then have "\<forall>b \<in> set bs. tags m b"
    using bs(2) tags_raw_tags by blast
  moreover have "sorted (map (hole_key m) (entries ?ix))"
    using vi wf by (auto simp: sorted_adjacent validate_index_spec [OF wf] Let_def hole_key_def
        word_le_nat_alt)
  ultimately show ?thesis
    using lt bs(1) es wf by (auto simp: heap_rep_def index_ok_def)
qed

lemma heap_validate_complete:
  assumes rep: "heap_rep m h bs"
  shows "heap_validate m h = Some ()"
proof -
  let ?ix = "index h"
  note rep' = heap_repD [OF rep]
  have wf: "oa_wf header_t_less_than ?ix" and es: "distinct (entries ?ix)"
      "set (entries ?ix) = of_nat ` holes bs" and srt: "sorted (map (hole_key m) (entries ?ix))"
    using rep'(5) by (auto simp: index_ok_def)
  have "count_list (entries ?ix) (of_nat (baddr b)) = 1" if "b \<in> set bs" "bhole b" for b
    using that es by (intro distinct_count_list) (auto simp: holes_def)
  then have raw: "\<forall>b \<in> set bs. raw_tags m ?ix b"
    using rep'(4) tags_raw_tags by blast
  note hl = hole_addresses [OF rep'(3) unat_lt_2_32]
  have len: "length (filter bhole bs) = oa_size ?ix"
    using hl es wf by (metis distinct_card length_entries)
  have "validate_index m h 0 = Some ()"
    unfolding validate_index_spec [OF wf] Let_def
  proof (intro allI impI conjI)
    fix j assume j: "0 \<le> j \<and> j < oa_size ?ix"
    obtain a where a: "a \<in> holes bs" "entries ?ix ! j = of_nat a"
      using index_ok_lookup [OF rep'(5), of j] j by metis
    then obtain b where b: "b \<in> set bs" "bhole b" "baddr b = a" by (auto simp: holes_def)
    note bd = heap_rep_bounds [OF rep b(1)] and tg = rep'(4) [OF b(1)]
    show "start_address h \<le> entries ?ix ! j" "entries ?ix ! j < end_address h"
      using a(2) b(3) bd by (auto simp: word_le_nat_alt word_less_nat_alt unat_of_nat32)
    show "header_magic m (entries ?ix ! j) = HEAP_MAGIC" "header_is_hole m (entries ?ix ! j) = 1"
      using a(2) b tg by (auto simp: tags_def)
    assume "0 < j"
    then show "header_size m (entries ?ix ! (j - 1)) \<le> header_size m (entries ?ix ! j)"
      using srt j wf by (simp add: sorted_adjacent hole_key_def word_le_nat_alt)
  qed
  then show ?thesis
    using rep'(1,2) len validate_blocks_complete [OF wf rep'(3) raw]
    by (simp add: heap_validate_def)
qed

end
