(* ===== verification/KHeap_Alloc.thy ===== *)
theory KHeap_Alloc
  imports KHeap_Validate
begin

text \<open>
  Allocation (src/kheap.c): the alignment padding, best fit, and the effect of \<open>alloc\<close> on the
  list of blocks: one hole is replaced by an optional leading hole, the new block and an
  optional trailing hole; everything else in memory stays as it was.
\<close>

section \<open>Alignment and rounding\<close>

lemma page_alignment_offset_spec:
  assumes "a + 12 < 4294967296"
  defines "off \<equiv> unat (page_alignment_offset (of_nat a))"
  shows "(a + off + 12) mod 4096 = 0" "off = 0 \<or> 20 \<le> off" "off < 4116"
proof -
  define r where "r = (a + 12) mod 4096"
  define o1 where "o1 = (4096 - r) mod 4096"
  have r: "r < 4096" by (simp add: r_def)
  have "unat (of_nat a + 12 :: u32int) = a + 12"
    using unat_of_nat32 [OF assms(1)] by simp
  then have ur: "unat ((of_nat a + 12 :: u32int) AND 0xFFF) = r"
    by (simp add: unat_and_FFF r_def)
  then have "unat (0x1000 - ((of_nat a + 12 :: u32int) AND 0xFFF)) = 4096 - r"
    using r by (simp add: unat_sub32)
  then have uo: "unat ((0x1000 - ((of_nat a + 12 :: u32int) AND 0xFFF)) AND 0xFFF) = o1"
    by (simp add: unat_and_FFF o1_def)
  have o1: "o1 < 4096" by (simp add: o1_def)
  have off: "off = (if o1 \<noteq> 0 \<and> o1 < 20 then o1 + 4096 else o1)"
  proof -
    let ?w = "(0x1000 - ((of_nat a + 12 :: u32int) AND 0xFFF)) AND 0xFFF"
    have "?w \<noteq> 0 \<and> ?w < 20 \<longleftrightarrow> o1 \<noteq> 0 \<and> o1 < 20"
      using uo by (simp add: word_less_nat_alt unat_eq_0 [symmetric])
    moreover have "unat (?w + 0x1000) = o1 + 4096"
      using uo o1 by (subst unat_add32) auto
    ultimately show ?thesis
      using uo by (simp add: off_def page_alignment_offset_def Let_def)
  qed
  have o1r: "o1 = (if r = 0 then 0 else 4096 - r)" using r by (simp add: o1_def)
  have "a + 12 = 4096 * ((a + 12) div 4096) + r" by (simp add: r_def)
  then have d1: "4096 dvd a + 12 + o1"
    using o1r r by (auto simp: dvd_def intro: exI [of _ "(a + 12) div 4096 + 1"])
  then have "4096 dvd (a + 12 + o1) + 4096" by (rule dvd_add) simp
  with d1 have "4096 dvd a + off + 12"
    unfolding off by (auto simp: ac_simps)
  then show "(a + off + 12) mod 4096 = 0" by (rule dvd_imp_mod_0)
  show "off = 0 \<or> 20 \<le> off" "off < 4116" using off o1 by auto
qed

lemma unat_round_up_page:
  assumes "unat n \<le> 0xFFFFF000"
  shows "unat (round_up_page n) = (unat n + 4095) div 4096 * 4096"
proof -
  define q where "q = unat n div 4096"
  define r where "r = unat n mod 4096"
  have n: "unat n = 4096 * q + r" and r: "r < 4096" by (simp_all add: q_def r_def)
  show ?thesis
  proof (cases "r = 0")
    case True
    then have "n AND 0xFFF = 0" by (simp add: unat_eq_0 [symmetric] unat_and_FFF r_def)
    then have "unat (round_up_page n) = 4096 * q" using n True by (simp add: round_up_page_def)
    moreover have "(4096 * q + 4095) div 4096 = q" by simp
    ultimately show ?thesis using n True by simp
  next
    case False
    then have "n AND 0xFFF \<noteq> 0" by (metis r_def unat_0 unat_and_FFF)
    moreover have "unat (n AND 0xFFFFF000) = 4096 * q"
      by (simp add: unat_and_F000 minus_mod_eq_mult_div q_def)
    moreover have "4096 * q + 4096 < 4294967296"
      using assms n False by simp
    ultimately have "unat (round_up_page n) = 4096 * q + 4096"
      by (simp add: round_up_page_def unat_add32)
    moreover have "(4096 * q + r + 4095) div 4096 = q + 1"
      using False r by (intro div_nat_eqI) auto
    ultimately show ?thesis using n by simp
  qed
qed

section \<open>Best fit\<close>

lemma find_hole_from_spec:
  assumes "oa_wf lt ix" "it \<le> oa_size ix"
  shows "find_hole_from m sz al ix it = Some None \<and>
      (\<forall>j. it \<le> j \<and> j < oa_size ix \<longrightarrow> \<not> hole_fits m sz al (entries ix ! j)) \<or>
    (\<exists>i. find_hole_from m sz al ix it = Some (Some i) \<and> it \<le> i \<and> i < oa_size ix \<and>
      hole_fits m sz al (entries ix ! i) \<and>
      (\<forall>j. it \<le> j \<and> j < i \<longrightarrow> \<not> hole_fits m sz al (entries ix ! j)))"
  using assms(2)
proof (induction "oa_size ix - it" arbitrary: it)
  case 0
  then show ?case by (subst find_hole_from.simps) auto
next
  case (Suc k)
  have lt: "it < oa_size ix" using Suc.hyps(2) by simp
  have unf: "find_hole_from m sz al ix it =
      (if hole_fits m sz al (entries ix ! it) then Some (Some it)
       else find_hole_from m sz al ix (it + 1))"
    using lt by (subst find_hole_from.simps) (simp add: lookup_entries [OF assms(1)])
  show ?case
  proof (cases "hole_fits m sz al (entries ix ! it)")
    case True
    then show ?thesis using lt unf by auto
  next
    case False
    then have up: "(\<forall>j. it \<le> j \<and> j < n \<longrightarrow> \<not> hole_fits m sz al (entries ix ! j)) \<longleftrightarrow>
        (\<forall>j. it + 1 \<le> j \<and> j < n \<longrightarrow> \<not> hole_fits m sz al (entries ix ! j))" for n
      by (metis Suc_eq_plus1 Suc_leD Suc_leI le_neq_implies_less)
    have "k = oa_size ix - (it + 1)" "it + 1 \<le> oa_size ix" using Suc.hyps(2) lt by auto
    from Suc.hyps(1) [OF this] show ?thesis
      unfolding unf up using False by (auto dest: Suc_leD)
  qed
qed

lemma find_smallest_hole_cases:
  assumes "oa_wf lt (index h)"
  obtains (none) "find_smallest_hole m sz al h = Some None"
      "\<forall>x \<in> set (entries (index h)). \<not> hole_fits m sz al x"
  | (found) i where "find_smallest_hole m sz al h = Some (Some i)" "i < oa_size (index h)"
      "hole_fits m sz al (entries (index h) ! i)"
      "\<forall>j < i. \<not> hole_fits m sz al (entries (index h) ! j)"
proof -
  have "\<forall>x \<in> set (entries (index h)). \<not> P x"
    if "\<forall>j < oa_size (index h). \<not> P (entries (index h) ! j)" for P
    using that assms by (metis in_set_conv_nth length_entries)
  with find_hole_from_spec [OF assms, of 0 m sz al] show thesis
    using none found by (auto simp: find_smallest_hole_def)
qed

section \<open>Cutting a hole\<close>

definition changes_in :: "memory \<Rightarrow> memory \<Rightarrow> nat \<Rightarrow> nat \<Rightarrow> bool" where
  "changes_in m m' lo hi \<longleftrightarrow> same_on m m' 0 lo \<and> same_on m m' hi 4294967296"

lemma changes_in_trans [trans]:
  "\<lbrakk>changes_in m m' lo hi; changes_in m' m'' lo hi\<rbrakk> \<Longrightarrow> changes_in m m'' lo hi"
  by (auto simp: changes_in_def intro: same_on_trans)

lemma changes_in_mono: "\<lbrakk>changes_in m m' lo hi; lo' \<le> lo; hi \<le> hi'\<rbrakk> \<Longrightarrow> changes_in m m' lo' hi'"
  by (auto simp: changes_in_def intro: same_on_sub)

lemma changes_in_refl [simp, intro]: "changes_in m m lo hi"
  by (simp add: changes_in_def)

lemma changes_in_same_on:
  "\<lbrakk>changes_in m m' lo hi; hi' \<le> lo \<or> hi \<le> lo'; hi' \<le> 4294967296\<rbrakk> \<Longrightarrow> same_on m m' lo' hi'"
  by (auto simp: changes_in_def intro: same_on_sub)

lemma changes_in_set_header:
  "n + 12 \<le> 4294967296 \<Longrightarrow> changes_in m (set_header m (of_nat n) hole sz) n (n + 12)"
  by (auto simp: changes_in_def intro!: same_on_set_header)

lemma changes_in_set_footer:
  "n + 8 \<le> 4294967296 \<Longrightarrow> changes_in m (set_footer m (of_nat n) hdr) n (n + 8)"
  by (auto simp: changes_in_def intro!: same_on_set_footer)

lemma write_block:
  fixes m :: memory and hole :: bool
  assumes "20 \<le> sz" "a + sz \<le> 4294967296"
  defines "m' \<equiv> set_footer (set_header m (of_nat a) (if hole then 1 else 0) (of_nat sz))
    (of_nat (a + sz - 8)) (of_nat a)"
  shows "tags m' (Block a sz hole)" "changes_in m m' a (a + sz)"
proof -
  show "tags m' (Block a sz hole)" using tags_written assms by blast
  let ?m1 = "set_header m (of_nat a) (if hole then 1 else 0) (of_nat sz)"
  have "changes_in m ?m1 a (a + sz)"
    using assms(1,2) by (intro changes_in_mono [OF changes_in_set_header]) auto
  also have "changes_in ?m1 m' a (a + sz)"
    using assms(1,2) unfolding m'_def
    by (intro changes_in_mono [OF changes_in_set_footer]) auto
  finally show "changes_in m m' a (a + sz)" .
qed

lemma tags_frame:
  assumes "tags m b" "changes_in m m' lo hi" "20 \<le> bsize b" "baddr b + bsize b \<le> 4294967296"
    "baddr b + bsize b \<le> lo \<or> hi \<le> baddr b"
  shows "tags m' b"
  using assms same_on_tags changes_in_same_on by blast

lemma index_ok_frame:
  assumes "index_ok m ix H" "changes_in m m' lo hi"
    "\<And>x. x \<in> H \<Longrightarrow> x + 12 \<le> 4294967296 \<and> (x + 12 \<le> lo \<or> hi \<le> x)"
  shows "index_ok m' ix H"
proof (rule index_ok_mem [OF assms(1)])
  fix x assume "x \<in> H"
  with assms(3) have "same_on m m' x (x + 12)"
    by (intro changes_in_same_on [OF assms(2)]) auto
  then show "header_size m' (of_nat x) = header_size m (of_nat x)"
    by (rule same_on_header_size) auto
qed

text \<open>A set \<open>H\<close> of hole addresses that stay clear of the range \<open>[lo, hi)\<close>.\<close>

definition clear_of :: "nat set \<Rightarrow> nat \<Rightarrow> nat \<Rightarrow> bool" where
  "clear_of H lo hi \<longleftrightarrow> (\<forall>x \<in> H. x + 12 \<le> 4294967296 \<and> (x + 12 \<le> lo \<or> hi \<le> x))"

lemma clear_of_sub: "\<lbrakk>clear_of H lo hi; lo \<le> lo'; hi' \<le> hi\<rbrakk> \<Longrightarrow> clear_of H lo' hi'"
  by (fastforce simp: clear_of_def)

lemma clear_of_insert [simp]:
  "clear_of (insert x H) lo hi \<longleftrightarrow>
     x + 12 \<le> 4294967296 \<and> (x + 12 \<le> lo \<or> hi \<le> x) \<and> clear_of H lo hi"
  by (auto simp: clear_of_def)

lemma cut_leading_spec:
  assumes ix: "index_ok m ix H" "clear_of H a (a + n)" "oa_size ix < max_size ix"
    and l: "l = 0 \<or> 20 \<le> l" "l + 20 \<le> n" "a + n \<le> 4294967296"
  obtains m' ix' where
    "cut_leading (of_nat l) (of_nat a) (of_nat n) m ix
       = Some (m', ix', of_nat (a + l), of_nat (n - l))"
    "changes_in m m' a (a + l)" "l \<noteq> 0 \<Longrightarrow> tags m' (Block a l True)"
    "index_ok m' ix' (if l = 0 then H else insert a H)"
    "oa_size ix' = (if l = 0 then oa_size ix else oa_size ix + 1)" "max_size ix' = max_size ix"
proof (cases "l = 0")
  case True
  then show thesis using that [of m ix] ix by (simp add: cut_leading_def)
next
  case False
  then have l20: "20 \<le> l" using l(1) by simp
  define m' where "m' = set_footer (set_header m (of_nat a) 1 (of_nat l)) (of_nat (a + l - 8)) (of_nat a)"
  have w: "tags m' (Block a l True)" "changes_in m m' a (a + l)"
    using write_block [of l a m True] l20 l by (simp_all add: m'_def)
  have H: "index_ok m' ix H"
    using ix(1) w(2) by (rule index_ok_frame) (use ix(2) l(2) in \<open>fastforce simp: clear_of_def\<close>)
  have "a \<notin> H" "\<forall>x \<in> H. x < 4294967296" "a < 4294967296"
    using ix(2) l by (fastforce simp: clear_of_def)+
  then obtain ix' where ix': "insert_ordered_array m' (of_nat a) ix = Some ix'"
      "index_ok m' ix' (insert a H)" "oa_size ix' = oa_size ix + 1" "max_size ix' = max_size ix"
    using index_ok_insert [OF H _ _ _ ix(3), of a] by metis
  have nz: "(of_nat l :: u32int) \<noteq> 0"
    using of_nat32_eq_iff [of l 0] l l20 by auto
  have "(of_nat a + of_nat l - 8 :: u32int) = of_nat (a + l - 8)"
    using l20 l by (intro footer_address) auto
  moreover have "(of_nat n - of_nat l :: u32int) = of_nat (n - l)"
    using l by (simp add: of_nat_diff)
  ultimately have "cut_leading (of_nat l) (of_nat a) (of_nat n) m ix
       = Some (m', ix', of_nat (a + l), of_nat (n - l))"
    using nz ix'(1) by (simp add: cut_leading_def m'_def Let_def)
  then show thesis using that [of m' ix'] w ix' False by simp
qed

lemma cut_trailing_spec:
  assumes ix: "index_ok m ix H" "clear_of H a (a + n)" "oa_size ix < max_size ix"
    and sz: "k + 20 \<le> n" "a + n \<le> unat e"
  obtains m' ix' where
    "cut_trailing e (of_nat a) (of_nat k) (of_nat (k + 20)) (of_nat n) m ix = Some (m', ix')"
    "changes_in m m' (a + k + 20) (a + n)"
    "k + 40 \<le> n \<Longrightarrow> tags m' (Block (a + k + 20) (n - k - 20) True)"
    "index_ok m' ix' (if k + 40 \<le> n then insert (a + k + 20) H else H)"
    "max_size ix' = max_size ix"
proof -
  have bnd: "a + n < 4294967296" using sz(2) unat_lt_2_32 [of e] by linarith
  have diff: "(of_nat n - of_nat (k + 20) :: u32int) = of_nat (n - k - 20)"
    using sz by (simp add: of_nat_diff)
  have ge: "20 \<le> (of_nat (n - k - 20) :: u32int) \<longleftrightarrow> k + 40 \<le> n"
  proof -
    have u: "unat (of_nat (n - k - 20) :: u32int) = n - k - 20" "unat (20 :: u32int) = 20"
      using bnd by (auto intro!: unat_of_nat32)
    show ?thesis unfolding word_le_nat_alt u using sz by linarith
  qed
  show thesis
  proof (cases "k + 40 \<le> n")
    case False
    then have "cut_trailing e (of_nat a) (of_nat k) (of_nat (k + 20)) (of_nat n) m ix = Some (m, ix)"
      unfolding cut_trailing_def diff ge by simp
    with False show thesis using that [of m ix] ix by simp
  next
    case True
    let ?a = "a + k + 20" and ?n = "n - k - 20"
    define m' where "m' = set_footer (set_header m (of_nat ?a) 1 (of_nat ?n))
        (of_nat (?a + ?n - 8)) (of_nat ?a)"
    have w: "tags m' (Block ?a ?n True)" "changes_in m m' ?a (?a + ?n)"
      using write_block [of ?n ?a m True] True bnd by (simp_all add: m'_def)
    have H: "index_ok m' ix H"
      using ix(1) w(2) by (rule index_ok_frame) (use ix(2) True in \<open>fastforce simp: clear_of_def\<close>)
    have "?a \<notin> H" "\<forall>x \<in> H. x < 4294967296" "?a < 4294967296"
      using ix(2) True bnd by (fastforce simp: clear_of_def)+
    then obtain ix' where ix': "insert_ordered_array m' (of_nat ?a) ix = Some ix'"
        "index_ok m' ix' (insert ?a H)" "max_size ix' = max_size ix"
      using index_ok_insert [OF H _ _ _ ix(3), of ?a] by metis
    have hole: "(of_nat a + 12 + of_nat k + 8 :: u32int) = of_nat ?a" by simp
    have foot: "(of_nat ?a + of_nat n - of_nat (k + 20) - 8 :: u32int) = of_nat (?a + ?n - 8)"
      using True by (simp add: of_nat_diff algebra_simps)
    have less: "(of_nat (?a + ?n - 8) :: u32int) < e"
    proof -
      have u: "unat (of_nat (?a + ?n - 8) :: u32int) = ?a + ?n - 8"
        using bnd sz by (intro unat_of_nat32) linarith
      show ?thesis unfolding word_less_nat_alt u using True sz by linarith
    qed
    have "cut_trailing e (of_nat a) (of_nat k) (of_nat (k + 20)) (of_nat n) m ix = Some (m', ix')"
      unfolding cut_trailing_def hole foot Let_def diff
      using ge True less ix'(1) by (simp add: m'_def)
    then show thesis using that [of m' ix'] w ix' True by simp
  qed
qed

section \<open>Taking a block out of a hole\<close>

definition carved :: "nat \<Rightarrow> nat \<Rightarrow> nat \<Rightarrow> nat \<Rightarrow> block list" where
  "carved a n l k =
     (if l = 0 then [] else [Block a l True]) @ [Block (a + l) (k + 20) False] @
     (if l + k + 40 \<le> n then [Block (a + l + k + 20) (n - l - k - 20) True] else [])"

text \<open>The payload the block really gets: a remainder too small for a hole is added to it.\<close>

definition granted :: "nat \<Rightarrow> nat \<Rightarrow> nat \<Rightarrow> nat" where
  "granted n l k = (if n - l - (k + 20) < 20 then n - l - 20 else k)"

lemma granted_bounds:
  assumes "l + k + 20 \<le> n"
  shows "k \<le> granted n l k" "l + granted n l k + 20 \<le> n"
    "l + granted n l k + 20 = n \<or> l + granted n l k + 40 \<le> n"
  using assms by (auto simp: granted_def)

lemma contig_carved:
  assumes "l = 0 \<or> 20 \<le> l" "l + k + 20 = n \<or> l + k + 40 \<le> n"
  shows "contig a (carved a n l k) (a + n)"
  using assms by (auto simp: carved_def)

lemma granted_words:
  assumes "l + k + 20 \<le> n" "n < 4294967296"
  shows "(if of_nat (n - l) - of_nat (k + 20) < (20 :: u32int)
          then (of_nat k + (of_nat (n - l) - of_nat (k + 20)) :: u32int, of_nat (n - l))
          else (of_nat k, of_nat (k + 20)))
       = (of_nat (granted n l k), of_nat (granted n l k + 20) :: u32int)"
proof -
  have d: "(of_nat (n - l) - of_nat (k + 20) :: u32int) = of_nat (n - l - (k + 20))"
    using assms by (simp add: of_nat_diff)
  have u: "unat (of_nat (n - l - (k + 20)) :: u32int) = n - l - (k + 20)" "unat (20 :: u32int) = 20"
    using assms unat_of_nat32 [of "n - l - (k + 20)"] by (simp_all del: of_nat_diff)
  have lt: "of_nat (n - l - (k + 20)) < (20 :: u32int) \<longleftrightarrow> n - l - (k + 20) < 20"
    unfolding word_less_nat_alt u ..
  have g: "of_nat k + of_nat (n - l - (k + 20)) = (of_nat (n - l - 20) :: u32int)"
    unfolding of_nat_add [symmetric] using assms by simp
  have g20: "n - l - 20 + 20 = n - l" using assms by simp
  show ?thesis unfolding d lt granted_def using g g20 by simp
qed

lemma heap_rep_clear:
  assumes "heap_rep m h (xs @ Block a n hole # ys)"
  shows "clear_of (holes xs \<union> holes ys) a (a + n)"
proof -
  have "x + 12 \<le> 4294967296 \<and> (x + 12 \<le> a \<or> a + n \<le> x)"
    if x: "x \<in> holes xs \<union> holes ys" for x
  proof -
    obtain b where b: "b \<in> set xs \<union> set ys" "baddr b = x"
      using x unfolding holes_def by blast
    then have "b \<in> set (xs @ Block a n hole # ys)" by auto
    from heap_rep_bounds [OF assms this] contig_disjoint [OF heap_repD(3) [OF assms] b(1)] b(2)
    show ?thesis by auto
  qed
  then show ?thesis by (auto simp: clear_of_def)
qed

lemma carve_hole_spec:
  fixes s :: "'a kstate_scheme"
  assumes h: "kheap s = Some h" and rep: "heap_rep (mem s) h (xs @ Block a n True # ys)"
    and i: "i < oa_size (index h)" "entries (index h) ! i = of_nat a"
    and l: "l = (if al then unat (page_alignment_offset (of_nat a)) else 0)" "l = 0 \<or> 20 \<le> l"
    and fit: "l + unat sz + 20 \<le> n" and space: "oa_size (index h) < max_size (index h)"
  defines "g \<equiv> granted n l (unat sz)"
  obtains s' h' where "carve_hole i sz al s = Some (of_nat (a + l + 12), s')"
    "kheap s' = Some h'" "heap_rep (mem s') h' (xs @ carved a n l g @ ys)"
    "changes_in (mem s) (mem s') a (a + n)" "s' = s\<lparr>mem := mem s', kheap := Some h'\<rparr>"
    "h' = h\<lparr>index := index h'\<rparr>" "max_size (index h') = max_size (index h)"
proof -
  let ?m = "mem s" and ?H = "holes xs \<union> holes ys" and ?ix = "index h"
  have b_in: "Block a n True \<in> set (xs @ Block a n True # ys)" by simp
  note bd = heap_rep_bounds [OF rep b_in, simplified] and rep' = heap_repD [OF rep]
  have an: "a + n < 4294967296" using bd by simp
  have hsz: "header_size ?m (of_nat a) = of_nat n"
    using rep'(4) [OF b_in] by (simp add: tags_def)
  have clear: "clear_of ?H a (a + n)" using rep by (rule heap_rep_clear)
  have aH: "a \<notin> ?H"
  proof
    assume "a \<in> ?H"
    then have "a + 12 \<le> a \<or> a + n \<le> a" using clear unfolding clear_of_def by blast
    then show False using bd(3) by simp
  qed
  have g: "unat sz \<le> g" "l + g + 20 \<le> n" "l + g + 20 = n \<or> l + g + 40 \<le> n"
    using granted_bounds [OF fit] by (simp_all add: g_def)
  have lookup: "lookup_ordered_array i ?ix = Some (of_nat a)"
    using rep'(5) i lookup_entries by (metis index_ok_def)
  obtain ix0 where ix0: "remove_ordered_array i ?ix = Some ix0" "index_ok ?m ix0 (holes (xs @ Block a n True # ys) - {a})"
      "oa_size ix0 + 1 = oa_size ?ix" "max_size ix0 = max_size ?ix"
    using index_ok_remove [OF rep'(5) i bd(5) heap_rep_holes_bounds [OF rep]] by metis
  have H0: "holes (xs @ Block a n True # ys) - {a} = ?H" using aH by auto
  have lead: "(if al then page_alignment_offset (of_nat a) else 0) = of_nat l" by (simp add: l(1))
  obtain m1 ix1 where cl: "cut_leading (of_nat l) (of_nat a) (of_nat n) ?m ix0
        = Some (m1, ix1, of_nat (a + l), of_nat (n - l))"
      and ch1: "changes_in ?m m1 a (a + l)" and t1: "l \<noteq> 0 \<Longrightarrow> tags m1 (Block a l True)"
      and ok1: "index_ok m1 ix1 (if l = 0 then ?H else insert a ?H)"
      and sz1: "oa_size ix1 = (if l = 0 then oa_size ix0 else oa_size ix0 + 1)" "max_size ix1 = max_size ix0"
    using cut_leading_spec [of ?m ix0 ?H a n l] ix0 H0 clear l(2) g(2) fit an space by (auto; metis)
  define m2 where "m2 = set_footer (set_header m1 (of_nat (a + l)) 0 (of_nat (g + 20)))
      (of_nat (a + l + (g + 20) - 8)) (of_nat (a + l))"
  have w2: "tags m2 (Block (a + l) (g + 20) False)" "changes_in m1 m2 (a + l) (a + l + (g + 20))"
    using write_block [of "g + 20" "a + l" m1 False] g(2) an by (simp_all add: m2_def)
  let ?H1 = "if l = 0 then ?H else insert a ?H"
  have clear1: "clear_of ?H1 (a + l) (a + l + (n - l))"
    using clear_of_sub [OF clear, of "a + l" "a + l + (n - l)"] l(2) g(2) an by auto
  have ok2: "index_ok m2 ix1 ?H1"
    using ok1 w2(2) by (rule index_ok_frame) (use clear1 g(2) in \<open>fastforce simp: clear_of_def\<close>)
  have space1: "oa_size ix1 < max_size ix1" using sz1 ix0(3,4) space by auto
  have fits1: "g + 20 \<le> n - l" "a + l + (n - l) \<le> unat (end_address h)"
    using g(2) bd(2) by auto
  obtain m3 ix3 where ct: "cut_trailing (end_address h) (of_nat (a + l)) (of_nat g) (of_nat (g + 20))
        (of_nat (n - l)) m2 ix1 = Some (m3, ix3)"
      and ch3: "changes_in m2 m3 (a + l + g + 20) (a + l + (n - l))"
      and t3: "g + 40 \<le> n - l \<Longrightarrow> tags m3 (Block (a + l + g + 20) (n - l - g - 20) True)"
      and ok3: "index_ok m3 ix3 (if g + 40 \<le> n - l then insert (a + l + g + 20) ?H1 else ?H1)"
      and sz3: "max_size ix3 = max_size ix1"
    using cut_trailing_spec [OF ok2 clear1 space1 fits1] by blast
  have "changes_in ?m m1 a (a + n)" using ch1 by (rule changes_in_mono) (use g(2) in auto)
  also have "changes_in m1 m2 a (a + n)" using w2(2) by (rule changes_in_mono) (use g(2) in auto)
  also have "changes_in m2 m3 a (a + n)" using ch3 by (rule changes_in_mono) (use g(2) in auto)
  finally have ch: "changes_in ?m m3 a (a + n)" .
  have words: "(of_nat (unat sz) :: u32int) = sz" "(of_nat (unat sz + 20) :: u32int) = sz + 12 + 8"
    by simp_all
  have n32: "n < 4294967296" using an by simp
  have pos: "(of_nat (a + l) + 12 + of_nat g :: u32int) = of_nat (a + l + (g + 20) - 8)" by simp
  have sizes: "(if of_nat (n - l) - (sz + 12 + 8) < 20
       then (sz + (of_nat (n - l) - (sz + 12 + 8)), of_nat (n - l)) else (sz, sz + 12 + 8))
     = (of_nat g, of_nat (g + 20))"
    using granted_words [OF fit n32] unfolding words g_def .
  let ?h' = "h\<lparr>index := ix3\<rparr>" and ?zs = "carved a n l g"
  have tl: "tags m3 (Block a l True)" if "l \<noteq> 0"
  proof -
    have "tags m2 (Block a l True)"
      by (rule tags_frame [OF t1 [OF that] w2(2)]) (use that l(2) g(2) an in auto)
    then show ?thesis by (rule tags_frame [OF _ ch3]) (use that l(2) g(2) an in auto)
  qed
  have "tags m3 (Block (a + l) (g + 20) False)"
    by (rule tags_frame [OF w2(1) ch3]) (use g(2) an in auto)
  then have tags3: "\<forall>z \<in> set ?zs. tags m3 z"
    using tl t3 g(2) by (auto simp: carved_def split: if_splits)
  have "index_ok m3 ix3 (holes xs \<union> holes ?zs \<union> holes ys)"
  proof -
    have "holes xs \<union> holes ?zs \<union> holes ys
      = (if g + 40 \<le> n - l then insert (a + l + g + 20) ?H1 else ?H1)"
      using g(2) by (auto simp: carved_def)
    then show ?thesis using ok3 by simp
  qed
  moreover have "same_on ?m m3 (unat (start_address h)) a"
    "same_on ?m m3 (a + n) (unat (end_address h))"
    using changes_in_same_on [OF ch] bd(5) order_less_imp_le [OF unat_lt_2_32] by auto
  ultimately have rep3: "heap_rep m3 ?h' (xs @ ?zs @ ys)"
    using contig_carved [OF l(2) g(3), of a] tags3 by (intro heap_rep_replace [OF rep]) simp_all
  have "carve_hole i sz al s = Some (of_nat (a + l) + 12, s\<lparr>mem := m3, kheap := Some ?h'\<rparr>)"
    unfolding carve_hole_def h lookup bind.simps hsz Let_def ix0(1) lead cl prod.case sizes pos
    using ct heap_validate_complete [OF rep3] by (simp add: m2_def)
  then show thesis
    using rep3 ch sz3 sz1(2) ix0(4) by (intro that [of "s\<lparr>mem := m3, kheap := Some ?h'\<rparr>" ?h']) simp_all
qed

end
