(* ===== verification/KHeap_Grow.thy ===== *)
theory KHeap_Grow
  imports KHeap_Alloc
begin

text \<open>
  Growth of the heap at its upper end, and the complete \<open>alloc\<close> (src/kheap.c): what it
  guarantees when it returns, and when it returns.

  The page mapper is a parameter; \<open>quiet_mapper\<close> is the contract under which growth is sound:
  mapping a page changes neither the bytes of the heap nor the heap structure.
\<close>

section \<open>Replacing a suffix of the arena\<close>

lemma heap_rep_suffix:
  assumes rep: "heap_rep m h (xs @ ys)" and xs: "contig (unat (start_address h)) xs c"
    and zs: "contig c zs (unat e)" "\<forall>z \<in> set zs. tags m' z"
    and ch: "same_on m m' (unat (start_address h)) c"
    and ix: "index_ok m' ix' (holes xs \<union> holes zs)"
    and e: "start_address h < e" "e \<le> max_address h"
  shows "heap_rep m' (h\<lparr>end_address := e, index := ix'\<rparr>) (xs @ zs)"
proof -
  have "tags m' b" if "b \<in> set xs" for b
  proof -
    have b: "b \<in> set (xs @ ys)" using that by simp
    note bd = heap_rep_bounds [OF rep b] and c = contig_mem [OF xs that]
    have "same_on m m' (baddr b) (baddr b + bsize b)"
      using ch c by (auto intro: same_on_sub)
    then show ?thesis using same_on_tags [of m m' b] c heap_repD(4) [OF rep b] by simp
  qed
  then show ?thesis
    using xs zs ix e by (auto simp: heap_rep_def contig_append)
qed

lemma contig_last_block:
  assumes "contig a bs e" "b \<in> set bs" "baddr b + bsize b = e"
  obtains xs where "bs = xs @ [b]"
proof -
  obtain xs ys where sp: "bs = xs @ b # ys" using assms(2) by (auto dest: split_list)
  then have "contig e ys e" using assms(1,3) by (auto simp: contig_append)
  then have "ys = []" by (cases ys) (auto dest: contig_le)
  with sp that show thesis by simp
qed

section \<open>The endmost hole\<close>

lemma endmost_from_spec:
  assumes "oa_wf lt ix" "i \<le> oa_size ix"
  shows "\<exists>r. endmost_from ix i idx v = Some r \<and>
    (r = idx \<and> (\<forall>j. i \<le> j \<and> j < oa_size ix \<longrightarrow> entries ix ! j \<le> v) \<or>
     (\<exists>k. r = Some k \<and> i \<le> k \<and> k < oa_size ix \<and> v < entries ix ! k \<and>
        (\<forall>j. i \<le> j \<and> j < oa_size ix \<longrightarrow> entries ix ! j \<le> entries ix ! k)))"
  using assms(2)
proof (induction "oa_size ix - i" arbitrary: i idx v)
  case 0
  then show ?case by (subst endmost_from.simps) auto
next
  case (Suc n)
  let ?x = "entries ix ! i"
  have lt: "i < oa_size ix" using Suc.hyps(2) by simp
  have unf: "endmost_from ix i idx v =
      (if v < ?x then endmost_from ix (i + 1) (Some i) ?x else endmost_from ix (i + 1) idx v)"
    using lt by (subst endmost_from.simps) (simp add: lookup_entries [OF assms(1)])
  have up: "(\<forall>j. i \<le> j \<and> j < oa_size ix \<longrightarrow> P j) \<longleftrightarrow>
      P i \<and> (\<forall>j. i + 1 \<le> j \<and> j < oa_size ix \<longrightarrow> P j)" for P
  proof -
    have "i \<le> j \<longleftrightarrow> j = i \<or> i + 1 \<le> j" for j by auto
    with lt show ?thesis by auto
  qed
  have n: "n = oa_size ix - (i + 1)" "i + 1 \<le> oa_size ix" using Suc.hyps(2) lt by auto
  show ?case
  proof (cases "v < ?x")
    case True
    from Suc.hyps(1) [OF n, of "Some i" ?x] obtain r where
      r: "endmost_from ix (i + 1) (Some i) ?x = Some r"
      "r = Some i \<and> (\<forall>j. i + 1 \<le> j \<and> j < oa_size ix \<longrightarrow> entries ix ! j \<le> ?x) \<or>
       (\<exists>k. r = Some k \<and> i + 1 \<le> k \<and> k < oa_size ix \<and> ?x < entries ix ! k \<and>
        (\<forall>j. i + 1 \<le> j \<and> j < oa_size ix \<longrightarrow> entries ix ! j \<le> entries ix ! k))" by blast
    from r(2) have "\<exists>k. r = Some k \<and> i \<le> k \<and> k < oa_size ix \<and> v < entries ix ! k \<and>
        (\<forall>j. i \<le> j \<and> j < oa_size ix \<longrightarrow> entries ix ! j \<le> entries ix ! k)"
      unfolding up using True lt by (auto intro: less_trans less_imp_le)
    then show ?thesis using r(1) unf True by auto
  next
    case False
    from Suc.hyps(1) [OF n, of idx v] obtain r where
      r: "endmost_from ix (i + 1) idx v = Some r"
      "r = idx \<and> (\<forall>j. i + 1 \<le> j \<and> j < oa_size ix \<longrightarrow> entries ix ! j \<le> v) \<or>
       (\<exists>k. r = Some k \<and> i + 1 \<le> k \<and> k < oa_size ix \<and> v < entries ix ! k \<and>
        (\<forall>j. i + 1 \<le> j \<and> j < oa_size ix \<longrightarrow> entries ix ! j \<le> entries ix ! k))" by blast
    from r(2) show ?thesis
      unfolding up unf using r(1) False by (auto simp: not_less)
  qed
qed

section \<open>The two ways a heap grows\<close>

definition allocated :: "block list \<Rightarrow> block set" where
  "allocated bs = {b \<in> set bs. \<not> bhole b}"

lemma allocated_simps [simp]:
  "allocated [] = {}"
  "allocated (b # bs) = (if bhole b then allocated bs else insert b (allocated bs))"
  "allocated (xs @ ys) = allocated xs \<union> allocated ys"
  by (auto simp: allocated_def)

lemma insert_needs_space:
  assumes "insert_ordered_array m x ix = Some ix'" "oa_wf header_t_less_than ix"
  shows "oa_size ix < max_size ix"
  using hole_index.ins_full [OF assms(2), of m x] assms by fastforce

lemma add_tail_hole:
  assumes rep: "heap_rep m h bs" and e: "unat e = unat (end_address h) + d" "e \<le> max_address h"
    and d: "20 \<le> d"
  defines "m' \<equiv> set_footer (set_header m (end_address h) 1 (of_nat d))
    (of_nat (unat (end_address h) + d - 8)) (end_address h)"
  assumes ins: "insert_ordered_array m' (end_address h) (index h) = Some ix'"
  shows "heap_rep m' (h\<lparr>end_address := e, index := ix'\<rparr>)
           (bs @ [Block (unat (end_address h)) d True])"
    and "changes_in m m' (unat (end_address h)) (unat (end_address h) + d)"
    and "max_size ix' = max_size (index h)"
proof -
  let ?E = "unat (end_address h)"
  note rep' = heap_repD [OF rep]
  have Ed: "?E + d < 4294967296" using e(1) unat_lt_2_32 [of e] by linarith
  have E: "(of_nat ?E :: u32int) = end_address h" by simp
  have w: "tags m' (Block ?E d True)" "changes_in m m' ?E (?E + d)"
    using write_block [of d ?E m True] d Ed by (simp_all add: m'_def)
  have "x + 12 \<le> 4294967296 \<and> x + 12 \<le> ?E" if x: "x \<in> holes bs" for x
  proof -
    obtain b where "b \<in> set bs" "baddr b = x" using x unfolding holes_def by blast
    with heap_rep_bounds [OF rep, of b] show ?thesis using Ed by simp
  qed
  then have H: "index_ok m' (index h) (holes bs)" and Eno: "?E \<notin> holes bs"
    using index_ok_frame [OF rep'(5) w(2)] by fastforce+
  have "oa_size (index h) < max_size (index h)"
    using insert_needs_space [OF ins] rep'(5) by (simp add: index_ok_def)
  then obtain ix2 where "insert_ordered_array m' (of_nat ?E) (index h) = Some ix2"
      "index_ok m' ix2 (insert ?E (holes bs))" "max_size ix2 = max_size (index h)"
    using index_ok_insert [OF H Eno _ heap_rep_holes_bounds [OF rep]] Ed by (metis add_lessD1)
  then have ok: "index_ok m' ix' (insert ?E (holes bs))" and mx: "max_size ix' = max_size (index h)"
    using ins by auto
  have "start_address h < e" using rep'(1) e(1) by (simp add: word_less_nat_alt)
  moreover have "same_on m m' (unat (start_address h)) ?E"
    by (rule changes_in_same_on [OF w(2)]) (use Ed in auto)
  ultimately show "heap_rep m' (h\<lparr>end_address := e, index := ix'\<rparr>) (bs @ [Block ?E d True])"
    using w(1) e d ok rep'(3) by (intro heap_rep_suffix [where ys = "[]"]) (use rep in auto)
  show "changes_in m m' ?E (?E + d)" "max_size ix' = max_size (index h)" by fact+
qed

lemma enlarge_tail_hole:
  assumes rep: "heap_rep m h (xs @ [Block a n True])"
    and e: "unat e = unat (end_address h) + d" "e \<le> max_address h"
    and i: "i < oa_size (index h)" "entries (index h) ! i = of_nat a"
    and ix: "remove_ordered_array i (index h) = Some ix"
  defines "m' \<equiv> set_footer (set_header_size m (of_nat a) (of_nat (n + d)))
    (of_nat (a + (n + d) - 8)) (of_nat a)"
  assumes ins: "insert_ordered_array m' (of_nat a) ix = Some ix'"
  shows "heap_rep m' (h\<lparr>end_address := e, index := ix'\<rparr>) (xs @ [Block a (n + d) True])"
    and "changes_in m m' a (a + (n + d))"
    and "max_size ix' = max_size (index h)"
proof -
  note rep' = heap_repD [OF rep]
  have b: "Block a n True \<in> set (xs @ [Block a n True])" by simp
  note bd = heap_rep_bounds [OF rep b, simplified]
  have an: "a + n = unat (end_address h)" "contig (unat (start_address h)) xs a"
    using rep'(3) by (auto simp: contig_append)
  have lim: "a + (n + d) < 4294967296" using an e(1) unat_lt_2_32 [of e] by linarith
  have t: "tags m' (Block a (n + d) True)"
    using rep'(4) [OF b] bd lim unfolding m'_def
    by (intro tags_resized) (auto simp: tags_def)
  have ch: "changes_in m m' a (a + (n + d))"
  proof -
    let ?m1 = "set_header_size m (of_nat a) (of_nat (n + d))"
    have "changes_in m ?m1 a (a + (n + d))"
      unfolding changes_in_def using bd lim by (auto intro!: same_on_set_header_size)
    also have "changes_in ?m1 m' a (a + (n + d))"
      unfolding m'_def by (rule changes_in_mono [OF changes_in_set_footer]) (use bd lim in auto)
    finally show ?thesis .
  qed
  have clear: "clear_of (holes xs) a (a + n)" using heap_rep_clear [of m h xs a n True "[]"] rep by simp
  have clear': "x + 12 \<le> a" if x: "x \<in> holes xs" for x
  proof -
    obtain b' where "b' \<in> set xs" "baddr b' = x" using x unfolding holes_def by blast
    with contig_mem [OF an(2), of b'] show ?thesis by simp
  qed
  then have ano: "a \<notin> holes xs" by fastforce
  obtain ix2 where "remove_ordered_array i (index h) = Some ix2"
      "index_ok m ix2 (holes (xs @ [Block a n True]) - {a})"
      "oa_size ix2 + 1 = oa_size (index h)" "max_size ix2 = max_size (index h)"
    using index_ok_remove [OF rep'(5) i bd(5) heap_rep_holes_bounds [OF rep]] by metis
  then have ok: "index_ok m ix (holes xs)" and mx: "max_size ix = max_size (index h)"
    using ix ano by auto
  have "\<And>x. x \<in> holes xs \<Longrightarrow> x + 12 \<le> 4294967296 \<and> (x + 12 \<le> a \<or> a + (n + d) \<le> x)"
    using clear' lim by fastforce
  then have ok': "index_ok m' ix (holes xs)" by (rule index_ok_frame [OF ok ch])
  have "oa_size ix < max_size ix" using insert_needs_space [OF ins] ok by (simp add: index_ok_def)
  then obtain ix3 where "insert_ordered_array m' (of_nat a) ix = Some ix3"
      "index_ok m' ix3 (insert a (holes xs))" "max_size ix3 = max_size ix"
    using index_ok_insert [OF ok' ano bd(5)] heap_rep_holes_bounds [OF rep] by auto
  then have ok3: "index_ok m' ix' (holes xs \<union> holes [Block a (n + d) True])"
      and mx3: "max_size ix' = max_size (index h)"
    using ins mx by auto
  have "start_address h < e" using rep'(1) e(1) by (simp add: word_less_nat_alt)
  moreover have "same_on m m' (unat (start_address h)) a"
    by (rule changes_in_same_on [OF ch]) (use lim in auto)
  ultimately show "heap_rep m' (h\<lparr>end_address := e, index := ix'\<rparr>) (xs @ [Block a (n + d) True])"
    using t e an ok3 bd by (intro heap_rep_suffix [OF rep an(2)]) auto
  show "changes_in m m' a (a + (n + d))" "max_size ix' = max_size (index h)" by fact+
qed

text \<open>A hole at the end of a heap above address zero is the endmost hole.\<close>

lemma no_tail_hole:
  assumes rep: "heap_rep m h bs" and pos: "0 < unat (start_address h)"
    and top: "\<And>x. x \<in> set (entries (index h)) \<Longrightarrow> x \<le> eh"
    and eh: "eh = 0 \<or> eh \<in> set (entries (index h))"
    and no: "eh = 0 \<or> eh + header_size m eh \<noteq> end_address h"
  shows "\<forall>xs a n. bs \<noteq> xs @ [Block a n True]"
proof (intro allI notI)
  fix xs a n assume bs: "bs = xs @ [Block a n True]"
  then have b: "Block a n True \<in> set bs" by simp
  note bd = heap_rep_bounds [OF rep b, simplified] and rep' = heap_repD [OF rep]
  have en: "set (entries (index h)) = of_nat ` holes bs" using rep'(5) by (simp add: index_ok_def)
  have "(of_nat a :: u32int) \<le> eh" using top en bs by simp
  then have le: "a \<le> unat eh" using bd(5) by (simp add: word_le_nat_alt unat_of_nat32)
  then have nz: "eh \<noteq> 0" using bd(1) pos by auto
  then obtain a' where a': "a' \<in> holes bs" "eh = of_nat a'" using eh en by auto
  then obtain b' where b': "b' \<in> set bs" "baddr b' = a'" unfolding holes_def by blast
  have c: "contig (unat (start_address h)) xs a" "a + n = unat (end_address h)"
    using rep'(3) by (auto simp: bs contig_append)
  have "a \<le> a'" using le a'(2) heap_rep_bounds(5) [OF rep b'(1)] b'(2) by (simp add: unat_of_nat32)
  then have "b' \<notin> set xs" using contig_mem [OF c(1), of b'] b'(2) by fastforce
  then have "a' = a" using b' bs by auto
  then have "eh + header_size m eh = of_nat (a + n)"
    using rep'(4) [OF b] a'(2) by (simp add: tags_def)
  then show False using no nz c(2) by simp
qed

definition grown_blocks :: "heap_t \<Rightarrow> block list \<Rightarrow> nat \<Rightarrow> block list \<Rightarrow> bool" where
  "grown_blocks h bs d bs' \<longleftrightarrow>
     bs' = bs @ [Block (unat (end_address h)) d True] \<and>
       (0 < unat (start_address h) \<longrightarrow> (\<forall>xs a n. bs \<noteq> xs @ [Block a n True])) \<or>
     (\<exists>xs a n. bs = xs @ [Block a n True] \<and> bs' = xs @ [Block a (n + d) True])"

lemma grown_blocks_allocated: "grown_blocks h bs d bs' \<Longrightarrow> allocated bs' = allocated bs"
  by (auto simp: grown_blocks_def)

lemma publish_growth_spec:
  assumes pub: "publish_growth ol (end_address h) s = Some s'" and s: "kheap s = Some (h\<lparr>end_address := e\<rparr>)"
    and rep: "heap_rep (mem s) h bs" and e: "unat e = unat (end_address h) + d" "e \<le> max_address h"
    and ol: "e - start_address h - ol = of_nat d" and d20: "20 \<le> d"
  obtains h' bs' where "kheap s' = Some h'" "heap_rep (mem s') h' bs'" "grown_blocks h bs d bs'"
    "\<And>b. b \<in> allocated bs \<Longrightarrow> same_on (mem s) (mem s') (baddr b) (baddr b + bsize b)"
    "h' = h\<lparr>end_address := e, index := index h'\<rparr>" "max_size (index h') = max_size (index h)"
proof -
  let ?E = "unat (end_address h)" and ?h1 = "h\<lparr>end_address := e\<rparr>"
  note rep' = heap_repD [OF rep]
  have Ed: "?E + d < 4294967296" using e(1) unat_lt_2_32 [of e] by linarith
  have wf: "oa_wf header_t_less_than (index h)" using rep'(5) by (simp add: index_ok_def)
  have foot: "end_address h + of_nat d - 8 = of_nat (?E + d - 8)"
    using footer_address [of d ?E] d20 Ed by simp
  obtain idx where idx: "endmost_from (index h) 0 None 0 = Some idx"
      "idx = None \<and> (\<forall>j < oa_size (index h). entries (index h) ! j \<le> 0) \<or>
       (\<exists>k. idx = Some k \<and> k < oa_size (index h) \<and> 0 < entries (index h) ! k \<and>
          (\<forall>j < oa_size (index h). entries (index h) ! j \<le> entries (index h) ! k))"
    using endmost_from_spec [OF wf, of 0 None 0] by auto
  define eh where "eh = (case idx of None \<Rightarrow> 0 | Some k \<Rightarrow> entries (index h) ! k)"
  have top: "x \<le> eh" if "x \<in> set (entries (index h))" for x
    using that idx(2) wf by (auto simp: eh_def in_set_conv_nth)
  have k_or_zero: "eh = 0 \<or> eh \<in> set (entries (index h))"
    using idx(2) wf by (auto simp: eh_def in_set_conv_nth)
  have look: "(case idx of None \<Rightarrow> Some 0 | Some i \<Rightarrow> lookup_ordered_array i (index ?h1)) = Some eh"
    using idx(2) lookup_entries [OF wf] by (auto simp: eh_def)
  have eq: "publish_growth ol (end_address h) s =
     (if eh = 0 \<or> eh + header_size (mem s) eh \<noteq> end_address h
      then do {
        let m = set_footer (set_header (mem s) (end_address h) 1 (of_nat d))
                  (of_nat (?E + d - 8)) (end_address h);
        ix \<leftarrow> insert_ordered_array m (end_address h) (index h);
        Some (s\<lparr>mem := m, kheap := Some (?h1\<lparr>index := ix\<rparr>)\<rparr>)
      }
      else do {
        i \<leftarrow> idx;
        ix \<leftarrow> remove_ordered_array i (index h);
        let m = set_header_size (mem s) eh (header_size (mem s) eh + of_nat d);
        let m = set_footer m (eh + header_size m eh - sizeof_footer) eh;
        ix \<leftarrow> insert_ordered_array m eh ix;
        Some (s\<lparr>mem := m, kheap := Some (?h1\<lparr>index := ix\<rparr>)\<rparr>)
      })"
    unfolding foot [symmetric]
    by (simp add: publish_growth_def s idx(1) look Let_def ol)
  show thesis
  proof (cases "eh = 0 \<or> eh + header_size (mem s) eh \<noteq> end_address h")
    case True
    let ?m = "set_footer (set_header (mem s) (end_address h) 1 (of_nat d)) (of_nat (?E + d - 8)) (end_address h)"
    obtain ix where ix: "insert_ordered_array ?m (end_address h) (index h) = Some ix"
        "s' = s\<lparr>mem := ?m, kheap := Some (?h1\<lparr>index := ix\<rparr>)\<rparr>"
      using pub [unfolded eq if_P [OF True] Let_def] by (auto simp: bind_Some_iff)
    note add = add_tail_hole [OF rep e d20 ix(1)]
    have "\<forall>xs a n. bs \<noteq> xs @ [Block a n True]" if "0 < unat (start_address h)"
      using no_tail_hole [OF rep that top] idx(2) k_or_zero True by blast
    then have "grown_blocks h bs d (bs @ [Block ?E d True])" by (simp add: grown_blocks_def)
    moreover have "same_on (mem s) ?m (baddr b) (baddr b + bsize b)" if "b \<in> allocated bs" for b
      using heap_rep_bounds(2,4) [OF rep, of b] that
      by (intro changes_in_same_on [OF add(2)]) (auto simp: allocated_def)
    ultimately show thesis
      using that [of "?h1\<lparr>index := ix\<rparr>" "bs @ [Block ?E d True]"] ix(2) add(1,3) by simp
  next
    case False
    then obtain k where k: "idx = Some k" "k < oa_size (index h)" "eh = entries (index h) ! k"
      using idx(2) by (auto simp: eh_def)
    obtain a where a: "a \<in> holes bs" "eh = of_nat a" "entries (index h) ! k = of_nat a"
      using index_ok_lookup [OF rep'(5) k(2)] k(3) by metis
    obtain xs ys n where sp: "bs = xs @ Block a n True # ys"
      using heap_rep_hole_block [OF rep a(1)] by metis
    then have b: "Block a n True \<in> set bs" by simp
    note bd = heap_rep_bounds [OF rep b, simplified]
    have hs: "header_size (mem s) eh = of_nat n" using rep'(4) [OF b] a(2) by (simp add: tags_def)
    have "(of_nat (a + n) :: u32int) = end_address h" using False hs a(2) by simp
    then have "a + n = ?E" using bd(4) by (metis unat_of_nat32)
    then have "contig (a + n) ys (a + n)" using rep'(3) by (auto simp: sp contig_append)
    then have bs: "bs = xs @ [Block a n True]"
      using sp by (cases ys) (auto dest: contig_le)
    let ?m = "set_footer (set_header_size (mem s) (of_nat a) (of_nat (n + d))) (of_nat (a + (n + d) - 8)) (of_nat a)"
    have foot2: "(of_nat (a + (n + d)) - 8 :: u32int) = of_nat (a + (n + d) - 8)"
      using footer_address [of "n + d" a] d20 Ed \<open>a + n = ?E\<close> by simp
    have hs2: "header_size (set_header_size (mem s) (of_nat a) v) (of_nat a) = v" for v
      by (simp add: header_size_def set_header_size_def)
    obtain ix0 ix where ix: "remove_ordered_array k (index h) = Some ix0"
        "insert_ordered_array ?m (of_nat a) ix0 = Some ix"
        "s' = s\<lparr>mem := ?m, kheap := Some (?h1\<lparr>index := ix\<rparr>)\<rparr>"
      using pub [unfolded eq if_not_P [OF False] Let_def k(1) bind.simps,
          unfolded a(2) hs [unfolded a(2)] hs2 of_nat_add [symmetric], unfolded foot2]
      by (auto simp: bind_Some_iff simp del: of_nat_add)
    note en = enlarge_tail_hole [OF rep [unfolded bs] e k(2) a(3) ix(1,2)]
    have "grown_blocks h bs d (xs @ [Block a (n + d) True])" by (auto simp: grown_blocks_def bs)
    moreover have "same_on (mem s) ?m (baddr b) (baddr b + bsize b)" if "b \<in> allocated bs" for b
    proof -
      have "b \<in> set xs" using that by (auto simp: bs allocated_def)
      moreover have "contig (unat (start_address h)) xs a" using rep'(3) by (auto simp: bs contig_append)
      ultimately have "baddr b + bsize b \<le> a" using contig_mem by blast
      then show ?thesis
        using bd(5) by (intro changes_in_same_on [OF en(2)]) auto
    qed
    ultimately show thesis
      using that [of "?h1\<lparr>index := ix\<rparr>" "xs @ [Block a (n + d) True]"] ix(3) en(1,3) by simp
  qed
qed

section \<open>The page mapper\<close>

locale quiet_mapper =
  fixes map_page :: "bool \<Rightarrow> bool \<Rightarrow> u32int \<Rightarrow> 'a kstate_scheme \<Rightarrow> 'a kstate_scheme option"
  assumes map_mem: "map_page su wr a s = Some s' \<Longrightarrow> mem s' = mem s"
    and map_kheap: "map_page su wr a s = Some s' \<Longrightarrow> kheap s' = kheap s"
begin

lemma expand_pages_quiet:
  "expand_pages (map_page su wr) start i n s = Some s' \<Longrightarrow> mem s' = mem s \<and> kheap s' = kheap s"
proof (induction "n - i" arbitrary: i s rule: less_induct)
  case less
  show ?case
  proof (cases "i < n")
    case True
    then obtain s1 where s1: "map_page su wr (start + of_nat i) s = Some s1"
        "expand_pages (map_page su wr) start (i + 0x1000) n s1 = Some s'"
      using less.prems by (subst (asm) expand_pages.simps) (auto simp: bind_Some_iff)
    then show ?thesis
      using less.hyps [of "i + 0x1000" s1] True map_mem [OF s1(1)] map_kheap [OF s1(1)] by simp
  next
    case False
    then show ?thesis using less.prems by (subst (asm) expand_pages.simps) simp
  qed
qed

lemma expand_facts:
  assumes "expand map_page new_size s = Some s'" "kheap s = Some h"
  shows "mem s' = mem s"
    "kheap s' = Some (h\<lparr>end_address := start_address h + round_up_page new_size\<rparr>)"
    "round_up_page new_size \<le> max_address h - start_address h"
    "end_address h - start_address h < new_size" "unat new_size \<le> 0xFFFFF000"
proof -
  obtain s1 where s1: "expand_pages (map_page (supervisor h) (\<not> readonly h)) (start_address h)
        (unat (end_address h - start_address h)) (unat (round_up_page new_size)) s = Some s1"
      and s': "kheap s1 = Some h \<Longrightarrow>
        s' = s1\<lparr>kheap := Some (h\<lparr>end_address := start_address h + round_up_page new_size\<rparr>)\<rparr>"
      and b: "round_up_page new_size \<le> max_address h - start_address h"
        "end_address h - start_address h < new_size"
      and al: "new_size AND 0xFFF \<noteq> 0 \<longrightarrow> new_size \<le> 0xFFFFF000"
    using assms by (auto simp: expand_def bind_Some_iff Let_def split: if_splits)
  from expand_pages_quiet [OF s1] assms(2) s' show "mem s' = mem s"
    "kheap s' = Some (h\<lparr>end_address := start_address h + round_up_page new_size\<rparr>)" by simp_all
  show "round_up_page new_size \<le> max_address h - start_address h"
    "end_address h - start_address h < new_size" by (fact b)+
  show "unat new_size \<le> 0xFFFFF000"
  proof (cases "new_size AND 0xFFF = 0")
    case True
    then have "unat new_size mod 4096 = 0" by (metis unat_0 unat_and_FFF)
    then obtain q where q: "unat new_size = 4096 * q" by (auto simp: mod_eq_0_iff_dvd)
    then show ?thesis using unat_lt_2_32 [of new_size] by simp
  next
    case False
    then show ?thesis using al by (simp add: word_le_nat_alt)
  qed
qed

lemma grow_heap_spec:
  assumes grow: "grow_heap map_page new_size s = Some s'" and h: "kheap s = Some h"
    and rep: "heap_rep (mem s) h bs" and ns: "20 \<le> unat new_size"
  obtains h' bs' d where "kheap s' = Some h'" "heap_rep (mem s') h' bs'" "allocated bs' = allocated bs"
    "\<And>b. b \<in> allocated bs \<Longrightarrow> same_on (mem s) (mem s') (baddr b) (baddr b + bsize b)"
    "unat new_size \<le> d" "unat (end_address h') = unat (end_address h) + d"
    "start_address h' = start_address h" "max_address h' = max_address h"
    "grown_blocks h bs d bs'" "max_size (index h') = max_size (index h)"
proof -
  let ?S = "unat (start_address h)" and ?E = "unat (end_address h)" and ?k = "unat new_size"
  note rep' = heap_repD [OF rep]
  have SE: "?S < ?E" using rep'(1) by (simp add: word_less_nat_alt)
  define len where "len = end_address h - start_address h"
  have len: "unat len = ?E - ?S" using SE by (simp add: len_def unat_sub32)
  obtain s1 where bound: "len \<le> 0xFFFFFFFF - new_size" and ex: "expand map_page (len + new_size) s = Some s1"
    using grow h by (auto simp: grow_heap_def Let_def len_def bind_Some_iff split: if_splits)
  note ef = expand_facts [OF ex h]
  have sum: "unat (len + new_size) = unat len + ?k"
  proof (rule unat_add32)
    have "unat len \<le> 0xFFFFFFFF - ?k" using bound by (simp add: word_le_nat_alt unat_sub32)
    then show "unat len + ?k < 4294967296" using unat_le_max32 [of new_size] by linarith
  qed
  define d where "d = unat (round_up_page (len + new_size)) - unat len"
  have ru: "unat (round_up_page (len + new_size)) = (unat len + ?k + 4095) div 4096 * 4096"
    using unat_round_up_page [OF ef(5)] sum by simp
  then have "unat len + ?k \<le> unat (round_up_page (len + new_size))" by linarith
  then have d: "?k \<le> d" "unat (round_up_page (len + new_size)) = unat len + d"
    by (auto simp: d_def)
  define e where "e = start_address h + round_up_page (len + new_size)"
  have mx: "unat (round_up_page (len + new_size)) \<le> unat (max_address h) - ?S"
    using ef(3) rep'(1,2) by (simp add: word_le_nat_alt word_less_nat_alt unat_sub32)
  have le: "?S + unat (round_up_page (len + new_size)) \<le> unat (max_address h)"
    using mx rep'(1,2) by (simp add: word_le_nat_alt word_less_nat_alt)
  have ue: "unat e = ?E + d"
    unfolding e_def using le unat_lt_2_32 [of "max_address h"] len d SE by (subst unat_add32) linarith+
  have e_max: "e \<le> max_address h" using le ue len d SE by (simp add: word_le_nat_alt)
  let ?h1 = "h\<lparr>end_address := e\<rparr>"
  have h1: "kheap s1 = Some ?h1" "mem s1 = mem s" using ef(1,2) by (simp_all add: e_def)
  have grown: "e - start_address h - (end_address h - start_address h) = of_nat d"
  proof -
    have "unat (e - end_address h) = d" using ue by (simp add: unat_sub32)
    then show ?thesis by (simp add: word32_eq_iff_unat unat_of_nat32 flip: \<open>unat (e - end_address h) = d\<close>)
  qed
  have "publish_growth len (end_address h) s1 = Some s'"
    using grow bound ex h by (simp add: grow_heap_def Let_def flip: len_def)
  then obtain h' bs' where p: "kheap s' = Some h'" "heap_rep (mem s') h' bs'" "grown_blocks h bs d bs'"
    "\<And>b. b \<in> allocated bs \<Longrightarrow> same_on (mem s1) (mem s') (baddr b) (baddr b + bsize b)"
    "h' = h\<lparr>end_address := e, index := index h'\<rparr>" "max_size (index h') = max_size (index h)"
    using publish_growth_spec [OF _ h1(1) _ ue e_max grown [folded len_def], of s' bs] rep h1(2) ns d(1)
    by auto
  have fields: "end_address h' = e" "start_address h' = start_address h" "max_address h' = max_address h"
    by (subst p(5), simp)+
  show thesis
    by (rule that [OF p(1,2) grown_blocks_allocated [OF p(3)] _ d(1) _ fields(2,3) p(3,6)])
      (use p(4) h1(2) ue fields(1) in auto)
qed

end

end
