(* ===== verification/KHeap_Correct.thy ===== *)
theory KHeap_Correct
  imports KHeap_Grow
begin

text \<open>
  What \<open>alloc\<close> (src/kheap.c) promises its callers. \<open>alloc_ok\<close> is the contract: the returned
  payload lies in a fresh block that is large enough and, on request, page aligned; the
  other allocated blocks keep their place and their contents; no block disappears.
\<close>

section \<open>The contract\<close>

definition alloc_ok ::
  "memory \<Rightarrow> block list \<Rightarrow> u32int \<Rightarrow> bool \<Rightarrow> u32int \<Rightarrow> memory \<Rightarrow> block list \<Rightarrow> bool" where
  "alloc_ok m bs sz al p m' bs' \<longleftrightarrow>
     (\<exists>tot. unat sz + 20 \<le> tot \<and> 12 \<le> unat p \<and>
        Block (unat p - 12) tot False \<notin> allocated bs \<and>
        allocated bs' = insert (Block (unat p - 12) tot False) (allocated bs)) \<and>
     (al \<longrightarrow> unat p mod 4096 = 0) \<and>
     (\<forall>b \<in> allocated bs. same_on m m' (baddr b) (baddr b + bsize b))"

lemma alloc_ok_after:
  assumes "alloc_ok m1 bs1 sz al p m' bs'" "allocated bs1 = allocated bs"
    "\<And>b. b \<in> allocated bs \<Longrightarrow> same_on m m1 (baddr b) (baddr b + bsize b)"
  shows "alloc_ok m bs sz al p m' bs'"
proof -
  have "same_on m m' (baddr b) (baddr b + bsize b)" if "b \<in> allocated bs" for b
    using assms(1,2) that assms(3) [OF that] by (auto simp: alloc_ok_def intro: same_on_trans)
  then show ?thesis using assms(1,2) by (simp add: alloc_ok_def)
qed

lemma index_size:
  assumes "heap_rep m h bs" shows "oa_size (index h) = card (holes bs)"
proof -
  have ok: "index_ok m (index h) (holes bs)" using assms by (rule heap_repD)
  have "inj_on (of_nat :: nat \<Rightarrow> u32int) (holes bs)"
    using heap_rep_holes_bounds [OF assms] by (auto simp: inj_on_def of_nat32_eq_iff)
  then have "card (set (entries (index h))) = card (holes bs)"
    using ok by (simp add: index_ok_def card_image)
  moreover have "length (entries (index h)) = card (set (entries (index h)))"
    using ok by (metis index_ok_def distinct_card)
  moreover have "length (entries (index h)) = oa_size (index h)"
    using ok by (metis index_ok_def length_entries)
  ultimately show ?thesis by simp
qed

section \<open>Fitting\<close>

text \<open>The padding of an aligned request at a hole, as a number.\<close>

definition padding :: "bool \<Rightarrow> nat \<Rightarrow> nat" where
  "padding al a = (if al then unat (page_alignment_offset (of_nat a)) else 0)"

lemma hole_fits_nat:
  assumes "header_size m (of_nat a) = of_nat n" "n < 4294967296"
  shows "hole_fits m sz al (of_nat a) \<longleftrightarrow> padding al a + unat sz \<le> n"
proof -
  let ?o = "page_alignment_offset (of_nat a)"
  have "?o \<le> 0xFFFFFFFF - sz \<and> sz + ?o \<le> of_nat n \<longleftrightarrow> unat ?o + unat sz \<le> n"
  proof (cases "unat ?o + unat sz < 4294967296")
    case True
    then have "unat (sz + ?o) = unat sz + unat ?o" by (simp add: unat_add32 add.commute)
    moreover have "?o \<le> 0xFFFFFFFF - sz"
      using True unat_le_max32 [of sz] by (simp add: word_le_nat_alt unat_sub32)
    ultimately show ?thesis
      unfolding word_le_nat_alt unat_of_nat32 [OF assms(2)] by (simp add: add.commute)
  next
    case False
    then have "\<not> unat ?o \<le> 0xFFFFFFFF - unat sz" using unat_le_max32 [of sz] by linarith
    then have "\<not> ?o \<le> 0xFFFFFFFF - sz"
      using unat_le_max32 [of sz] by (simp add: word_le_nat_alt unat_sub32)
    with False assms(2) show ?thesis by simp
  qed
  then show ?thesis
    using assms by (simp add: hole_fits_def padding_def Let_def word_le_nat_alt unat_of_nat32)
qed

lemma padding_spec:
  assumes "a + 12 < 4294967296"
  shows "padding al a = 0 \<or> 20 \<le> padding al a" "padding al a < 4116"
    "al \<Longrightarrow> (a + padding al a + 12) mod 4096 = 0"
  using page_alignment_offset_spec [OF assms] by (auto simp: padding_def)

lemma carve_ok:
  fixes s :: "'a kstate_scheme"
  assumes h: "kheap s = Some h" and rep: "heap_rep (mem s) h bs"
    and i: "i < oa_size (index h)" "hole_fits (mem s) (sz + 12 + 8) al (entries (index h) ! i)"
    and sz: "unat sz + 20 < 4294967296" and space: "card (holes bs) < max_size (index h)"
  obtains p s' h' bs' where "carve_hole i sz al s = Some (p, s')" "kheap s' = Some h'"
    "heap_rep (mem s') h' bs'" "alloc_ok (mem s) bs sz al p (mem s') bs'"
    "s' = s\<lparr>mem := mem s', kheap := Some h'\<rparr>" "h' = h\<lparr>index := index h'\<rparr>"
    "max_size (index h') = max_size (index h)"
proof -
  obtain a where a: "a \<in> holes bs" "entries (index h) ! i = of_nat a"
    using index_ok_lookup [OF heap_repD(5) [OF rep] i(1)] by metis
  obtain xs ys n where bs: "bs = xs @ Block a n True # ys"
    using heap_rep_hole_block [OF rep a(1)] by metis
  then have b: "Block a n True \<in> set bs" by simp
  note bd = heap_rep_bounds [OF rep b, simplified]
  have hs: "header_size (mem s) (of_nat a) = of_nat n"
    using heap_repD(4) [OF rep b] by (simp add: tags_def)
  have usz: "unat (sz + 12 + 8) = unat sz + 20"
    using sz by (simp add: add.assoc unat_add32)
  let ?l = "padding al a"
  have fit: "?l + unat sz + 20 \<le> n"
    using i(2) hole_fits_nat [OF hs, of "sz + 12 + 8" al] bd(4) unfolding a(2) usz by linarith
  note pad = padding_spec [of a al]
  have pad': "?l = 0 \<or> 20 \<le> ?l" using pad(1) bd by simp
  have space': "oa_size (index h) < max_size (index h)" using space index_size [OF rep] by simp
  let ?g = "granted n ?l (unat sz)"
  note g = granted_bounds [OF fit]
  obtain s' h' where c: "carve_hole i sz al s = Some (of_nat (a + ?l + 12), s')" "kheap s' = Some h'"
      "heap_rep (mem s') h' (xs @ carved a n ?l ?g @ ys)" "changes_in (mem s) (mem s') a (a + n)"
      "s' = s\<lparr>mem := mem s', kheap := Some h'\<rparr>" "h' = h\<lparr>index := index h'\<rparr>"
      "max_size (index h') = max_size (index h)"
    by (rule carve_hole_spec [OF h rep [unfolded bs] i(1) a(2) padding_def pad' fit space'])
  have p: "unat (of_nat (a + ?l + 12) :: u32int) = a + ?l + 12"
    using bd fit by (intro unat_of_nat32) linarith
  let ?new = "Block (a + ?l) (?g + 20) False"
  have dis: "baddr b' + bsize b' \<le> a \<or> a + n \<le> baddr b'" "20 \<le> bsize b'" "baddr b' + bsize b' < 4294967296"
    if b': "b' \<in> allocated bs" for b'
  proof -
    have "b' \<in> set xs \<union> set ys" "b' \<in> set bs" using b' by (auto simp: bs allocated_def)
    then show "baddr b' + bsize b' \<le> a \<or> a + n \<le> baddr b'" "20 \<le> bsize b'"
      "baddr b' + bsize b' < 4294967296"
      using contig_disjoint [OF heap_repD(3) [OF rep, unfolded bs]] heap_rep_bounds [OF rep] by auto
  qed
  have "?new \<notin> allocated bs" using dis [of ?new] g(2) by auto
  moreover have "allocated (xs @ carved a n ?l ?g @ ys) = insert ?new (allocated bs)"
    by (auto simp: bs carved_def)
  moreover have "\<forall>b \<in> allocated bs. same_on (mem s) (mem s') (baddr b) (baddr b + bsize b)"
    using changes_in_same_on [OF c(4)] dis by (meson less_imp_le)
  moreover have "al \<longrightarrow> (a + ?l + 12) mod 4096 = 0" using pad(3) bd by simp
  ultimately have "alloc_ok (mem s) bs sz al (of_nat (a + ?l + 12)) (mem s') (xs @ carved a n ?l ?g @ ys)"
    unfolding alloc_ok_def p using g(1) by (auto intro!: exI [of _ "?g + 20"])
  with c show thesis by (intro that)
qed

section \<open>Allocation from an existing hole\<close>

lemma size_guard:
  fixes sz :: u32int
  shows "sz \<le> 0xFFFFFFFF - 12 - 8 \<longleftrightarrow> unat sz + 20 < 4294967296"
  by (auto simp: word_le_nat_alt)

text \<open>\<open>fitting\<close>: the holes an allocation may use, as abstract blocks.\<close>

definition fitting :: "nat \<Rightarrow> bool \<Rightarrow> block \<Rightarrow> bool" where
  "fitting k al b \<longleftrightarrow> bhole b \<and> padding al (baddr b) + k + 20 \<le> bsize b"

lemma hole_fits_fitting:
  assumes rep: "heap_rep m h bs" and b: "b \<in> set bs" "bhole b" and sz: "unat sz + 20 < 4294967296"
  shows "hole_fits m (sz + 12 + 8) al (of_nat (baddr b)) \<longleftrightarrow> fitting (unat sz) al b"
proof -
  have "unat (sz + 12 + 8) = unat sz + 20" using sz by (simp add: add.assoc unat_add32)
  moreover have "header_size m (of_nat (baddr b)) = of_nat (bsize b)"
    using heap_repD(4) [OF rep b(1)] by (simp add: tags_def)
  moreover have "bsize b < 4294967296" using heap_rep_bounds(4) [OF rep b(1)] by simp
  ultimately show ?thesis using hole_fits_nat [of m "baddr b" "bsize b" "sz + 12 + 8" al] b(2)
    by (simp add: fitting_def add.assoc)
qed

text \<open>The two ways \<open>alloc\<close> proceeds, over the abstract blocks.\<close>

lemma alloc_body_cases:
  assumes h: "kheap s = Some h" and rep: "heap_rep (mem s) h bs"
    and sz: "0 < sz" "unat sz + 20 < 4294967296"
  obtains (grow) "\<forall>b \<in> set bs. \<not> fitting (unat sz) al b"
      "alloc_body map_page again sz al s
         = do { s \<leftarrow> grow_heap map_page (sz + 12 + 8) s; again sz al s }"
  | (carve) i b where "b \<in> set bs" "fitting (unat sz) al b"
      "\<forall>b' \<in> set bs. fitting (unat sz) al b' \<longrightarrow> bsize b \<le> bsize b'"
      "i < oa_size (index h)" "entries (index h) ! i = of_nat (baddr b)"
      "alloc_body map_page again sz al s = carve_hole i sz al s"
proof -
  note ok = heap_repD(5) [OF rep]
  then have wf: "oa_wf header_t_less_than (index h)" by (simp add: index_ok_def)
  have body: "alloc_body map_page again sz al s = do {
     it \<leftarrow> find_smallest_hole (mem s) (sz + 12 + 8) al h;
     (case it of
        None \<Rightarrow> do { s \<leftarrow> grow_heap map_page (sz + 12 + 8) s; again sz al s }
      | Some i \<Rightarrow> carve_hole i sz al s) }"
    using sz heap_validate_complete [OF rep] size_guard [of sz]
    by (simp add: alloc_body_def Let_def h del: word_add_def cong: option.case_cong)
  have entry: "\<exists>j < oa_size (index h). entries (index h) ! j = of_nat (baddr b)"
    if "b \<in> set bs" "bhole b" for b
  proof -
    have "of_nat (baddr b) \<in> set (entries (index h))"
      using ok that by (auto simp: index_ok_def holes_def)
    then show ?thesis using wf by (auto simp: in_set_conv_nth)
  qed
  from wf show thesis
  proof (cases rule: find_smallest_hole_cases [where m = "mem s" and sz = "sz + 12 + 8" and al = al])
    case none
    have "\<not> fitting (unat sz) al b" if b: "b \<in> set bs" for b
    proof (cases "bhole b")
      case True
      then have "of_nat (baddr b) \<in> set (entries (index h))"
        using ok b by (auto simp: index_ok_def holes_def)
      then show ?thesis using none(2) hole_fits_fitting [OF rep b True sz(2)] by blast
    qed (simp add: fitting_def)
    moreover have "alloc_body map_page again sz al s
         = do { s \<leftarrow> grow_heap map_page (sz + 12 + 8) s; again sz al s }"
      unfolding body none(1) by simp
    ultimately show thesis by (intro grow) auto
  next
    case (found i)
    obtain a where a: "a \<in> holes bs" "entries (index h) ! i = of_nat a"
      using index_ok_lookup [OF ok found(2)] by metis
    obtain b where b: "b \<in> set bs" "bhole b" "baddr b = a" using a(1) by (auto simp: holes_def)
    have fit: "fitting (unat sz) al b"
      using found(3) a(2) b hole_fits_fitting [OF rep b(1,2) sz(2)] by simp
    have "bsize b \<le> bsize b'" if b': "b' \<in> set bs" "fitting (unat sz) al b'" for b'
    proof -
      have hole': "bhole b'" using b'(2) by (simp add: fitting_def)
      obtain j where j: "j < oa_size (index h)" "entries (index h) ! j = of_nat (baddr b')"
        using entry [OF b'(1) hole'] by blast
      have "\<not> j < i" using found(4) j(2) hole_fits_fitting [OF rep b'(1) hole' sz(2)] b'(2) by auto
      then have "hole_key (mem s) (entries (index h) ! i) \<le> hole_key (mem s) (entries (index h) ! j)"
        using ok j(1) wf sorted_nth_mono [of "map (hole_key (mem s)) (entries (index h))" i j]
        by (simp add: index_ok_def)
      moreover have "hole_key (mem s) (of_nat (baddr x)) = bsize x" if "x \<in> set bs" for x
        using heap_repD(4) [OF rep that] heap_rep_bounds(4) [OF rep that]
        by (simp add: hole_key_def tags_def unat_of_nat32)
      ultimately show ?thesis using j(2) a(2) b(1) b'(1) b(3) [symmetric] by simp
    qed
    moreover have "alloc_body map_page again sz al s = carve_hole i sz al s"
      unfolding body found(1) by simp
    ultimately show thesis using carve [of b i] b fit found(2) a(2) by simp
  qed
qed

lemma alloc_fits:
  fixes s :: "'a kstate_scheme"
  assumes h: "kheap s = Some h" and rep: "heap_rep (mem s) h bs"
    and sz: "0 < sz" "unat sz + 20 < 4294967296"
    and fit: "\<exists>b \<in> set bs. fitting (unat sz) al b" and space: "card (holes bs) < max_size (index h)"
  obtains b xs ys s' h' where "bs = xs @ b # ys" "fitting (unat sz) al b"
    "\<forall>b' \<in> set bs. fitting (unat sz) al b' \<longrightarrow> bsize b \<le> bsize b'"
    "alloc_body map_page again sz al s = Some (of_nat (baddr b + padding al (baddr b) + 12), s')"
    "kheap s' = Some h'"
    "heap_rep (mem s') h' (xs @ carved (baddr b) (bsize b) (padding al (baddr b))
       (granted (bsize b) (padding al (baddr b)) (unat sz)) @ ys)"
    "changes_in (mem s) (mem s') (baddr b) (baddr b + bsize b)"
    "s' = s\<lparr>mem := mem s', kheap := Some h'\<rparr>" "h' = h\<lparr>index := index h'\<rparr>"
    "max_size (index h') = max_size (index h)"
proof (rule alloc_body_cases [OF h rep sz, of al map_page again], goal_cases)
  case 1
  note grow = 1
  then show ?thesis using fit by blast
next
  case (2 i b)
  note carve = 2(2-)
  obtain xs ys where bs: "bs = xs @ b # ys" using split_list [OF carve(1)] by blast
  have b: "b = Block (baddr b) (bsize b) True"
    using carve(2) by (metis block.collapse fitting_def)
  note bd = heap_rep_bounds [OF rep carve(1)]
  have pad: "padding al (baddr b) = 0 \<or> 20 \<le> padding al (baddr b)"
    using padding_spec(1) [of "baddr b"] bd by simp
  have fits: "padding al (baddr b) + unat sz + 20 \<le> bsize b" using carve(2) by (simp add: fitting_def)
  have space': "oa_size (index h) < max_size (index h)" using space index_size [OF rep] by simp
  have rep': "heap_rep (mem s) h (xs @ Block (baddr b) (bsize b) True # ys)" using rep bs b by simp
  obtain s' h' where c: "carve_hole i sz al s = Some (of_nat (baddr b + padding al (baddr b) + 12), s')"
      "kheap s' = Some h'"
      "heap_rep (mem s') h' (xs @ carved (baddr b) (bsize b) (padding al (baddr b))
         (granted (bsize b) (padding al (baddr b)) (unat sz)) @ ys)"
      "changes_in (mem s) (mem s') (baddr b) (baddr b + bsize b)"
      "s' = s\<lparr>mem := mem s', kheap := Some h'\<rparr>" "h' = h\<lparr>index := index h'\<rparr>"
      "max_size (index h') = max_size (index h)"
    by (rule carve_hole_spec [OF h rep' carve(4,5) padding_def pad fits space'])
  then show ?thesis using 2(1) [OF bs carve(2,3) _ c(2-7)] carve(6) c(1) by simp
qed

lemma alloc_fits_returns:
  fixes s :: "'a kstate_scheme"
  assumes "kheap s = Some h" "heap_rep (mem s) h bs" "0 < sz" "unat sz + 20 < 4294967296"
    "\<exists>b \<in> set bs. fitting (unat sz) al b" "card (holes bs) < max_size (index h)"
  shows "\<exists>p s'. alloc_body map_page again sz al s = Some (p, s')"
  by (rule alloc_fits [OF assms]) blast

section \<open>Allocation with growth\<close>

lemma card_holes_grown:
  assumes "grown_blocks h bs d bs'" shows "card (holes bs') \<le> card (holes bs) + 1"
proof -
  have "finite (holes bs)" by (simp add: holes_def)
  then show ?thesis using assms by (auto simp: grown_blocks_def card_insert_if)
qed

context quiet_mapper
begin

lemma alloc_sound:
  assumes "alloc map_page fuel sz al s = Some (p, s')" "kheap s = Some h" "heap_rep (mem s) h bs"
    "card (holes bs) + fuel \<le> max_size (index h)"
  obtains h' bs' where "kheap s' = Some h'" "heap_rep (mem s') h' bs'"
    "alloc_ok (mem s) bs sz al p (mem s') bs'"
  using assms
proof (induction fuel arbitrary: s h bs thesis)
  case 0
  then show ?case by simp
next
  case (Suc fuel)
  have body: "alloc_body map_page (alloc map_page fuel) sz al s = Some (p, s')"
    using Suc.prems(2) by simp
  have sz: "0 < sz" "unat sz + 20 < 4294967296"
    using body Suc.prems(3) size_guard [of sz] by (auto simp: alloc_body_def bind_Some_iff split: if_splits)
  note h = Suc.prems(3) and rep = Suc.prems(4)
  from h rep sz show ?case
  proof (cases rule: alloc_body_cases [where al = al and map_page = map_page and again = "alloc map_page fuel"])
    case grow
    then obtain s1 where s1: "grow_heap map_page (sz + 12 + 8) s = Some s1"
        "alloc map_page fuel sz al s1 = Some (p, s')"
      using body unfolding grow(2) bind_Some_iff by blast
    have "20 \<le> unat (sz + 12 + 8)" using sz by (simp add: add.assoc unat_add32)
    then obtain h1 bs1 d where g: "kheap s1 = Some h1" "heap_rep (mem s1) h1 bs1"
        "allocated bs1 = allocated bs" "grown_blocks h bs d bs1" "max_size (index h1) = max_size (index h)"
        "\<And>b. b \<in> allocated bs \<Longrightarrow> same_on (mem s) (mem s1) (baddr b) (baddr b + bsize b)"
      using grow_heap_spec [OF s1(1) h rep] by metis
    have "card (holes bs1) + fuel \<le> max_size (index h1)"
      using card_holes_grown [OF g(4)] Suc.prems(5) g(5) by simp
    then obtain h' bs' where "kheap s' = Some h'" "heap_rep (mem s') h' bs'"
        "alloc_ok (mem s1) bs1 sz al p (mem s') bs'"
      using Suc.IH [OF _ s1(2) g(1,2)] by blast
    then show ?thesis using Suc.prems(1) alloc_ok_after g(3,6) by blast
  next
    case (carve i b)
    have space: "card (holes bs) < max_size (index h)" using Suc.prems(5) by simp
    have fits: "hole_fits (mem s) (sz + 12 + 8) al (entries (index h) ! i)"
      using hole_fits_fitting [OF rep carve(1) _ sz(2)] carve(2,5) by (simp add: fitting_def)
    show ?thesis
    proof (rule carve_ok [OF h rep carve(4) fits sz(2) space], goal_cases)
      case (1 p1 s1 h1 bs1)
      then have "p1 = p" "s1 = s'" using body carve(6) by simp_all
      then show ?thesis using Suc.prems(1) [of h1 bs1] 1(2-4) by simp
    qed
  qed
qed

end

end
