(* ===== verification/FS_Tree.thy ===== *)
theory FS_Tree
  imports FS_Paths KHeap_Correct
begin

text \<open>
  The tree of the boot archive (\<open>src/initrd.c\<close>) as an abstract name space: \<open>fs_view\<close> maps every
  absolute path to a directory or to the index of an archived file. Adding a node below a
  directory keeps the tree well formed and extends the name space by one path; \<open>mkdir\<close> and
  \<open>add_archived_file\<close> are sequences of that step.
\<close>

section \<open>The name space\<close>

datatype entry = Dir | File nat

definition follow :: "nodes \<Rightarrow> u32int \<Rightarrow> string list \<Rightarrow> u32int" where
  "follow ns a cs = foldl (finddir_fs ns) a cs"

definition entry_of :: "fs_node_t \<Rightarrow> entry" where
  "entry_of n = (if is_directory n then Dir else File (unat (inode n)))"

definition fs_view :: "nodes \<Rightarrow> u32int \<Rightarrow> string list \<Rightarrow> entry option" where
  "fs_view ns root cs = map_option entry_of (ns (follow ns root cs))"

lemma follow_simps [simp]:
  "follow ns a [] = a" "follow ns a (cs @ [c]) = finddir_fs ns (follow ns a cs) c"
  by (simp_all add: follow_def)

lemma follow_append: "follow ns a (cs @ ds) = follow ns (follow ns a cs) ds"
  by (simp add: follow_def)

lemma finddir_0 [simp]: "finddir_fs ns 0 c = 0" by (simp add: finddir_fs_def)

lemma follow_0 [simp]: "follow ns 0 cs = 0"
  by (induction cs rule: rev_induct) simp_all

lemma follow_Cons: "follow ns a (c # cs) = follow ns (finddir_fs ns a c) cs"
  using follow_append [of ns a "[c]" cs] by (simp add: follow_def)

lemma follow_path_to:
  assumes wf: "fs_wf ns root"
  shows "follow ns root cs \<noteq> 0 \<Longrightarrow> path_to ns root (follow ns root cs) cs"
proof (induction cs rule: rev_induct)
  case Nil
  then show ?case by (simp add: path_to.here)
next
  case (snoc c cs)
  let ?a = "follow ns root cs"
  have nz: "finddir_fs ns ?a c \<noteq> 0" using snoc by simp
  then have "?a \<noteq> 0" by (auto simp: finddir_fs_def)
  then have p: "path_to ns root ?a cs" by (rule snoc.IH)
  obtain m where "ns (finddir_fs ns ?a c) = Some m" "parent m = ?a" "node_name m = c"
    using finddir_Some [OF wf refl nz] by blast
  then show ?case using child_path_to [OF wf p] nz by fastforce
qed

lemma path_to_follow:
  assumes wf: "fs_wf ns root"
  shows "path_to ns root a cs \<Longrightarrow> follow ns root cs = a"
proof (induction rule: path_to.induct)
  case (below a cs c n)
  obtain d where "ns a = Some d" "c \<in> set (children d)" using fs_wfD(9) [OF wf below(2)] below(3,6) by auto
  then show ?case using finddir_child [OF wf _ _ below(2)] below by simp
qed simp

lemma path_to_unique:
  assumes wf: "fs_wf ns root"
  shows "\<lbrakk>path_to ns root a cs; path_to ns root a ds\<rbrakk> \<Longrightarrow> cs = ds"
proof (induction arbitrary: ds rule: path_to.induct)
  case here
  then show ?case by (cases rule: path_to.cases) auto
next
  case (below a cs c n)
  note hy = below.hyps and ih = below.IH
  from below.prems show ?case
  proof (cases rule: path_to.cases)
    case here
    then show ?thesis using hy by simp
  next
    case (below b es m)
    then show ?thesis using hy ih [of es] by simp
  qed
qed

section \<open>Adding a node\<close>

definition link :: "nodes \<Rightarrow> u32int \<Rightarrow> u32int \<Rightarrow> fs_node_t \<Rightarrow> nodes" where
  "link ns d a n = (case ns d of
     Some p \<Rightarrow> ns(a \<mapsto> n\<lparr>parent := d\<rparr>, d \<mapsto> p\<lparr>children := a # children p\<rparr>)
   | None \<Rightarrow> ns)"

text \<open>What the new node must be.\<close>

definition linkable :: "nodes \<Rightarrow> u32int \<Rightarrow> u32int \<Rightarrow> u32int \<Rightarrow> fs_node_t \<Rightarrow> bool" where
  "linkable ns root d a n \<longleftrightarrow>
     fs_wf ns root \<and> a \<noteq> 0 \<and> ns a = None \<and> (\<exists>p. ns d = Some p \<and> is_directory p) \<and>
     children n = [] \<and> good_name (node_name n) \<and> finddir_fs ns d (node_name n) = 0 \<and>
     (is_directory n \<longrightarrow> finddir_cb n = Some Initrd_finddir \<and> readdir_cb n = Some Initrd_readdir \<and>
        mkdir_cb n = Some Initrd_mkdir)"

lemma finddir_eq:
  assumes "fs_wf ns root" "ns d = Some p" "is_directory p"
  shows "finddir_fs ns d c = find_in_list ns c (children p)"
  using assms fs_wfD(1) [OF assms(1)] fs_wfD(4) [OF assms]
  by (auto simp: finddir_fs_def initrd_finddir_def find_child_def)

lemma linkable_fresh:
  assumes "linkable ns root d a n" "ns x = Some k"
  shows "a \<noteq> x" "a \<notin> set (children k)" "parent k \<noteq> a"
proof -
  have wf: "fs_wf ns root" and a: "a \<noteq> 0" "ns a = None" using assms(1) by (auto simp: linkable_def)
  show "a \<noteq> x" using a assms(2) by auto
  show "a \<notin> set (children k)" using fs_wfD(7) [OF wf assms(2)] a by fastforce
  show "parent k \<noteq> a" using fs_wfD(9) [OF wf assms(2)] a by fastforce
qed

lemma linkable_names:
  assumes "linkable ns root d a n" "ns d = Some p" "c \<in> set (children p)" "ns c = Some k"
  shows "node_name k \<noteq> node_name n"
proof -
  have wf: "fs_wf ns root" and f: "finddir_fs ns d (node_name n) = 0" and p: "is_directory p"
    using assms(1,2) by (auto simp: linkable_def)
  show ?thesis
    using f find_in_list_0 [OF children_not_0 [OF wf assms(2)], of ns "node_name n"] assms(3,4)
    by (auto simp: finddir_eq [OF wf assms(2) p])
qed

lemma link_nodes:
  assumes "linkable ns root d a n" "ns d = Some p"
  shows "link ns d a n x =
    (if x = d then Some (p\<lparr>children := a # children p\<rparr>) else if x = a then Some (n\<lparr>parent := d\<rparr>) else ns x)"
  using assms by (simp add: link_def)

lemma is_directory_upd [simp]:
  "is_directory (n\<lparr>parent := x\<rparr>) = is_directory n" "is_directory (n\<lparr>children := cs\<rparr>) = is_directory n"
  by (simp_all add: is_directory_def)

lemma fs_wf_link:
  assumes l: "linkable ns root d a n"
  shows "fs_wf (link ns d a n) root"
proof -
  obtain p where p: "ns d = Some p" "is_directory p" using l by (auto simp: linkable_def)
  have wf: "fs_wf ns root" and a: "a \<noteq> 0" "ns a = None" and n: "children n = []" "good_name (node_name n)"
      "is_directory n \<longrightarrow> finddir_cb n = Some Initrd_finddir \<and> readdir_cb n = Some Initrd_readdir \<and> mkdir_cb n = Some Initrd_mkdir"
    using l by (auto simp: linkable_def)
  let ?ns = "link ns d a n"
  note nodes = link_nodes [OF l p(1)]
  have d0: "d \<noteq> 0" "d \<noteq> a" using p(1) a fs_wfD(1) [OF wf] by auto
  have c1: "?ns 0 = None" using nodes d0 a fs_wfD(1) [OF wf] by simp
  obtain r where r: "ns root = Some r" "is_directory r" "parent r = 0" using fs_wfD(3) [OF wf] by auto
  then have c2: "\<exists>r. ?ns root = Some r \<and> is_directory r \<and> parent r = 0"
    using nodes [of root] p a by (cases "root = d") auto
  have keep: "\<exists>k'. ?ns c = Some k' \<and> parent k' = parent k \<and> node_name k' = node_name k \<and>
      set (children k) \<subseteq> set (children k')" if "ns c = Some k" for c k
    using that nodes [of c] p(1) linkable_fresh(1) [OF l that] by (cases "c = d") auto
  have node: "(is_directory k \<longrightarrow> finddir_cb k = Some Initrd_finddir \<and> readdir_cb k = Some Initrd_readdir \<and> mkdir_cb k = Some Initrd_mkdir) \<and>
        (children k \<noteq> [] \<longrightarrow> is_directory k) \<and> distinct (children k) \<and>
        (\<forall>c \<in> set (children k). \<exists>m. ?ns c = Some m \<and> parent m = x \<and> good_name (node_name m)) \<and>
        inj_on (\<lambda>c. node_name (the (?ns c))) (set (children k)) \<and>
        (parent k \<noteq> 0 \<longrightarrow> (\<exists>p. ?ns (parent k) = Some p \<and> x \<in> set (children p)))"
    (is "?P k x") if node: "?ns x = Some k" for x k
  proof (cases "x = a")
    case True
    then have "k = n\<lparr>parent := d\<rparr>" using node nodes [of a] d0 by simp
    then show ?thesis using n d0 nodes [of d] True by simp
  next
    case False
    obtain k0 where k0: "ns x = Some k0" "k = (if x = d then k0\<lparr>children := a # children k0\<rparr> else k0)"
      using node nodes [of x] p(1) False by (cases "x = d") auto
    have cb: "is_directory k \<longrightarrow> finddir_cb k = Some Initrd_finddir \<and> readdir_cb k = Some Initrd_readdir \<and> mkdir_cb k = Some Initrd_mkdir"
      "children k \<noteq> [] \<longrightarrow> is_directory k"
      using fs_wfD(4,5,6,11) [OF wf k0(1)] k0 p by auto
    have dis: "distinct (children k)" using fs_wfD(10) [OF wf k0(1)] linkable_fresh(2) [OF l k0(1)] k0(2) by simp
    have old: "\<exists>m. ?ns c = Some m \<and> parent m = x \<and> good_name (node_name m)" if "c \<in> set (children k0)" for c
      using fs_wfD(7) [OF wf k0(1) that] keep by fastforce
    then have ch: "\<forall>c \<in> set (children k). \<exists>m. ?ns c = Some m \<and> parent m = x \<and> good_name (node_name m)"
      using k0(2) nodes [of a] d0 n by auto
    have name: "node_name (the (?ns c)) = node_name (the (ns c))" if c: "c \<in> set (children k0)" for c
    proof -
      obtain m where m: "ns c = Some m" using fs_wfD(7) [OF wf k0(1) c] by blast
      then show ?thesis using keep [OF m] by auto
    qed
    have "inj_on (\<lambda>c. node_name (the (?ns c))) (set (children k0))"
    proof (rule inj_onI)
      fix c e assume c: "c \<in> set (children k0)" "e \<in> set (children k0)"
        and eq: "node_name (the (?ns c)) = node_name (the (?ns e))"
      obtain m m' where m: "ns c = Some m" "ns e = Some m'"
        using fs_wfD(7) [OF wf k0(1) c(1)] fs_wfD(7) [OF wf k0(1) c(2)] by blast
      have "node_name m = node_name m'" using eq unfolding name [OF c(1)] name [OF c(2)] m by simp
      then show "c = e" by (rule fs_wfD(8) [OF wf k0(1) c m])
    qed
    moreover have "node_name (the (?ns c)) \<noteq> node_name (the (?ns a))" if c: "c \<in> set (children k0)" and "x = d" for c
    proof -
      obtain m where m: "ns c = Some m" using fs_wfD(7) [OF wf k0(1) c] by blast
      show ?thesis unfolding name [OF c] m using linkable_names [OF l k0(1) [unfolded \<open>x = d\<close>] c m] nodes [of a] d0 by simp
    qed
    ultimately have inj: "inj_on (\<lambda>c. node_name (the (?ns c))) (set (children k))"
      using k0(2) by (cases "x = d") (force simp: inj_on_insert)+
    have par: "\<exists>q. ?ns (parent k) = Some q \<and> x \<in> set (children q)" if nz: "parent k \<noteq> 0"
    proof -
      have "parent k = parent k0" using k0(2) by simp
      moreover obtain q where "ns (parent k0) = Some q" "x \<in> set (children q)"
        using fs_wfD(9) [OF wf k0(1)] nz calculation by auto
      ultimately show ?thesis using keep by fastforce
    qed
    show ?thesis using cb dis ch inj par by blast
  qed
  show ?thesis unfolding fs_wf_def using c1 c2 fs_wfD(2) [OF wf] node by blast
qed

text \<open>Looking a name up in the extended tree.\<close>

lemma find_in_list_cong:
  "(\<And>c. c \<in> set cs \<Longrightarrow> map_option node_name (ns c) = map_option node_name (ns' c)) \<Longrightarrow>
     find_in_list ns nm cs = find_in_list ns' nm cs"
proof (induction cs)
  case (Cons c cs)
  then show ?case using Cons.prems [of c] by (cases "ns c"; cases "ns' c") auto
qed simp

lemma finddir_link:
  assumes l: "linkable ns root d a n"
  shows "finddir_fs (link ns d a n) x c =
    (if x = d \<and> c = node_name n then a else if x = a then 0 else finddir_fs ns x c)"
proof -
  obtain p where p: "ns d = Some p" "is_directory p" using l by (auto simp: linkable_def)
  have wf: "fs_wf ns root" and a: "a \<noteq> 0" "ns a = None" and n: "children n = []" using l by (auto simp: linkable_def)
  let ?ns = "link ns d a n"
  note nodes = link_nodes [OF l p(1)] and wf' = fs_wf_link [OF l]
  have d0: "d \<noteq> 0" "d \<noteq> a" using p(1) a fs_wfD(1) [OF wf] by auto
  have cong: "find_in_list ?ns c (children k) = find_in_list ns c (children k)" if "ns y = Some k" for y k
    by (rule find_in_list_cong) (use nodes linkable_fresh(2) [OF l that] p(1) in auto)
  consider "x = d" | "x = a" | "x \<noteq> d" "x \<noteq> a" by blast
  then show ?thesis
  proof cases
    case 1
    have "finddir_fs ?ns d c = find_in_list ?ns c (a # children p)"
      using finddir_eq [OF wf', of d] nodes [of d] p(2) by simp
    then show ?thesis using 1 d0 nodes [of a] cong [OF p(1)] finddir_eq [OF wf p] by simp
  next
    case 2
    have "children (n\<lparr>parent := d\<rparr>) = []" using n by simp
    then show ?thesis using 2 d0 nodes [of a] by (simp add: finddir_fs_def initrd_finddir_def find_child_def)
  next
    case 3
    have "finddir_fs ?ns x c = finddir_fs ns x c"
    proof (cases "ns x")
      case None
      then show ?thesis using 3 nodes [of x] by (simp add: finddir_fs_def)
    next
      case (Some k)
      then show ?thesis using 3 nodes [of x] cong [OF Some] by (auto simp: finddir_fs_def initrd_finddir_def find_child_def)
    qed
    then show ?thesis using 3 by simp
  qed
qed

lemma follow_link:
  assumes l: "linkable ns root d a n" and d: "path_to ns root d ds"
  shows "follow (link ns d a n) root cs =
    (if cs = ds @ [node_name n] then a else follow ns root cs)"
proof (induction cs rule: rev_induct)
  case (snoc c cs)
  have wf: "fs_wf ns root" and a: "a \<noteq> 0" "ns a = None" and f: "finddir_fs ns d (node_name n) = 0"
    using l by (auto simp: linkable_def)
  obtain p where p: "ns d = Some p" using l by (auto simp: linkable_def)
  have d0: "d \<noteq> 0" using p fs_wfD(1) [OF wf] by auto
  have fd: "follow ns root cs = d \<longleftrightarrow> cs = ds"
    using path_to_follow [OF wf d] follow_path_to [OF wf, of cs] path_to_unique [OF wf _ d] d0 by metis
  show ?case
  proof (cases "cs = ds @ [node_name n]")
    case True
    have "follow ns root (ds @ [node_name n]) = 0" using path_to_follow [OF wf d] f by simp
    then have "finddir_fs ns (follow ns root cs) c = 0" unfolding True by (simp only: finddir_0)
    moreover have "finddir_fs (link ns d a n) a c = 0" using finddir_link [OF l, of a c] a p by auto
    moreover have "follow (link ns d a n) root cs = a" using snoc True by (simp only: if_True simp_thms)
    moreover have "cs @ [c] \<noteq> ds @ [node_name n]" using True by simp
    ultimately show ?thesis by (simp only: follow_simps if_False simp_thms)
  next
    case False
    then have e: "follow (link ns d a n) root cs = follow ns root cs" using snoc by simp
    have "finddir_fs ns a c = 0" using a by (simp add: finddir_fs_def)
    moreover have "follow ns root cs = d \<and> c = node_name n \<longleftrightarrow> cs @ [c] = ds @ [node_name n]" using fd by simp
    ultimately show ?thesis using e finddir_link [OF l, of "follow ns root cs" c] by auto
  qed
qed simp

lemma fs_view_link:
  assumes l: "linkable ns root d a n" and d: "path_to ns root d ds"
  shows "fs_view (link ns d a n) root = (fs_view ns root)(ds @ [node_name n] \<mapsto> entry_of n)"
proof
  fix cs
  obtain p where p: "ns d = Some p" "is_directory p" using l by (auto simp: linkable_def)
  have a: "a \<noteq> 0" "ns a = None" "d \<noteq> a" using l p by (auto simp: linkable_def)
  have e: "map_option entry_of (link ns d a n x) = map_option entry_of (ns x)" if "x \<noteq> a" for x
    using link_nodes [OF l p(1), of x] that p by (simp add: entry_of_def is_directory_def)
  show "fs_view (link ns d a n) root cs = ((fs_view ns root)(ds @ [node_name n] \<mapsto> entry_of n)) cs"
  proof (cases "cs = ds @ [node_name n]")
    case True
    then show ?thesis
      using follow_link [OF l d, of cs] link_nodes [OF l p(1), of a] a
      by (simp add: fs_view_def entry_of_def is_directory_def)
  next
    case False
    show ?thesis
    proof (cases "follow ns root cs = a")
      case True
      have wf: "fs_wf ns root" using l by (simp add: linkable_def)
      have "path_to ns root a cs" using follow_path_to [OF wf, of cs] True a by simp
      then have "a = root" using a by (cases rule: path_to.cases) auto
      then show ?thesis using fs_wfD(3) [OF wf] a by simp
    next
      case False
      then show ?thesis using \<open>cs \<noteq> _\<close> follow_link [OF l d, of cs] e by (simp add: fs_view_def)
    qed
  qed
qed

lemma path_to_link:
  assumes l: "linkable ns root d a n"
  shows "path_to ns root x cs \<Longrightarrow> path_to (link ns d a n) root x cs"
    "path_to ns root d ds \<Longrightarrow> path_to (link ns d a n) root a (ds @ [node_name n])"
proof -
  have a: "a \<noteq> 0" "ns a = None" and wf: "fs_wf ns root" using l by (auto simp: linkable_def)
  obtain p where p: "ns d = Some p" using l by (auto simp: linkable_def)
  show "path_to (link ns d a n) root x cs" if "path_to ns root x cs"
    using that
  proof induction
    case (below b cs c m)
    have "\<exists>m'. link ns d a n c = Some m' \<and> parent m' = b \<and> node_name m' = node_name m"
      using link_nodes [OF l p, of c] below(2,3) p linkable_fresh(1) [OF l below(2)] by auto
    then show ?case using path_to.below [of "link ns d a n" root b cs c] below by metis
  qed (rule path_to.here)
  show "path_to (link ns d a n) root a (ds @ [node_name n])" if d: "path_to ns root d ds"
    using follow_link [OF l d, of "ds @ [node_name n]"] follow_path_to [OF fs_wf_link [OF l], of "ds @ [node_name n]"] a
    by simp
qed

end
