(* ===== verification/FS_Archive.thy ===== *)
theory FS_Archive
  imports FS_Tree
begin

text \<open>
  Building the tree (\<open>src/initrd.c\<close>, \<open>src/fs.c\<close>): \<open>mkdir\<close>, archived files and the whole boot archive,
  over the contract of the allocator that provides the nodes. The contract is met by
  \<open>kmalloc\<close> on a valid kernel heap.
\<close>

section \<open>The contract of the node allocator\<close>

text \<open>\<open>ready n s\<close>: the next \<open>n\<close> nodes can be allocated.\<close>

locale node_allocator =
  fixes km :: "'a fstate_scheme node_alloc" and ready :: "nat \<Rightarrow> 'a fstate_scheme \<Rightarrow> bool"
  assumes alloc: "ready (Suc n) s \<Longrightarrow> \<exists>a s'. km sizeof_tree_node s = Some (a, s') \<and> a \<noteq> 0 \<and> fs_nodes s a = None \<and>
      pstate.more s' = pstate.more s \<and>
      (\<forall>s''. mem s'' = mem s' \<and> kheap s'' = kheap s' \<and> dom (fs_nodes s'') \<subseteq> insert a (dom (fs_nodes s)) \<longrightarrow> ready n s'')"
    and ready_cong: "\<lbrakk>ready n s; mem s' = mem s; kheap s' = kheap s; dom (fs_nodes s') \<subseteq> dom (fs_nodes s)\<rbrakk> \<Longrightarrow> ready n s'"
    and ready_le: "\<lbrakk>ready n s; k \<le> n\<rbrakk> \<Longrightarrow> ready k s"

definition fs_same :: "'a fstate_scheme \<Rightarrow> 'a fstate_scheme \<Rightarrow> bool" where
  "fs_same s s' \<longleftrightarrow> fs_root s' = fs_root s \<and> initrd_root s' = initrd_root s \<and> initrd_dev s' = initrd_dev s \<and>
     file_headers s' = file_headers s \<and> initrd_location s' = initrd_location s \<and> initrd_end s' = initrd_end s \<and>
     fstate.more s' = fstate.more s"

lemma fs_same_refl [simp]: "fs_same s s" by (simp add: fs_same_def)
lemma fs_same_trans: "\<lbrakk>fs_same s t; fs_same t u\<rbrakk> \<Longrightarrow> fs_same s u" by (simp add: fs_same_def)
lemma fs_same_nodes [simp]: "fs_same s (s'\<lparr>fs_nodes := x\<rparr>) = fs_same s s'" by (simp add: fs_same_def)

lemma more_same:
  assumes "pstate.more s' = pstate.more (s :: 'a fstate_scheme)"
  shows "fs_nodes s' = fs_nodes s" "fs_same s s'"
  using assms by (cases s; cases s'; simp add: fs_same_def)+

text \<open>The nodes that the driver makes.\<close>

definition directory_node :: "string \<Rightarrow> fs_node_t" where
  "directory_node nm = empty_node\<lparr>node_name := nm, flags := FS_DIRECTORY, readdir_cb := Some Initrd_readdir,
     finddir_cb := Some Initrd_finddir, mkdir_cb := Some Initrd_mkdir\<rparr>"

definition file_node :: "string \<Rightarrow> nat \<Rightarrow> u32int \<Rightarrow> fs_node_t" where
  "file_node nm i len = empty_node\<lparr>node_name := nm, flags := FS_FILE, inode := of_nat i,
     node_length := len, read_cb := Some Initrd_read\<rparr>"

lemma made_nodes [simp]:
  "is_directory (directory_node nm)" "\<not> is_directory (file_node nm i len)"
  "node_name (directory_node nm) = nm" "node_name (file_node nm i len) = nm"
  "children (directory_node nm) = []" "children (file_node nm i len) = []"
  by (simp_all add: directory_node_def file_node_def empty_node_def is_directory_def FS_DIRECTORY_def FS_FILE_def)

lemma is_directory_name: "is_directory p \<Longrightarrow> ns d = Some p \<Longrightarrow> fs_wf ns root \<Longrightarrow>
   find_child ns d nm = finddir_fs ns d nm"
  using fs_wfD(1) [of ns root] fs_wfD(4) [of ns root d p]
  by (auto simp: finddir_fs_def initrd_finddir_def)

text \<open>Everything an extension of the tree by one node guarantees.\<close>

definition extends :: "nat \<Rightarrow> u32int \<Rightarrow> u32int \<Rightarrow> fs_node_t \<Rightarrow> u32int \<Rightarrow> 'a fstate_scheme \<Rightarrow> 'a fstate_scheme \<Rightarrow> bool" where
  "extends n root d k a s s' \<longleftrightarrow> linkable (fs_nodes s) root d a k \<and> fs_nodes s' = link (fs_nodes s) d a k \<and> fs_same s s'"

context node_allocator
begin

lemma new_node:
  assumes "ready (Suc n) s" "length nm < 128"
  obtains a s' where "new_tree_node km nm fl s = Some (a, s'\<lparr>fs_nodes := (fs_nodes s)(a \<mapsto> empty_node\<lparr>node_name := nm, flags := fl\<rparr>)\<rparr>)"
    "a \<noteq> 0" "fs_nodes s a = None" "fs_same s s'"
    "\<And>s''. \<lbrakk>mem s'' = mem s'; kheap s'' = kheap s'; dom (fs_nodes s'') \<subseteq> insert a (dom (fs_nodes s))\<rbrakk> \<Longrightarrow> ready n s''"
proof -
  obtain a s' where a: "km sizeof_tree_node s = Some (a, s')" "a \<noteq> 0" "fs_nodes s a = None"
      "pstate.more s' = pstate.more s"
      "\<forall>s''. mem s'' = mem s' \<and> kheap s'' = kheap s' \<and> dom (fs_nodes s'') \<subseteq> insert a (dom (fs_nodes s)) \<longrightarrow> ready n s''"
    using alloc [OF assms(1)] by blast
  show thesis
    by (rule that [of a s']) (use a more_same [OF a(4)] assms(2) in \<open>simp_all add: new_tree_node_def\<close>)
qed

lemma attach_new:
  assumes ns: "fs_nodes s = ns0(a \<mapsto> k)" and k: "parent k = 0"
    and fresh: "ns0 a = None" "a \<noteq> 0" and d: "ns0 d = Some p" "d \<noteq> 0"
  shows "attach_child d a s = Some (s\<lparr>fs_nodes := link ns0 d a k\<rparr>)"
proof -
  have "d \<noteq> a" using fresh d by auto
  then show ?thesis using assms by (simp add: attach_child_def link_def)
qed

lemma make_directory:
  assumes wf: "fs_wf (fs_nodes s) root" and d: "fs_nodes s d = Some p" "is_directory p"
    and nm: "good_name nm" "finddir_fs (fs_nodes s) d nm = 0" and ready: "ready (Suc n) s"
  obtains a s' where
    "do { (x, s) \<leftarrow> new_tree_node km nm FS_DIRECTORY s; s \<leftarrow> configure_directory x s; s \<leftarrow> attach_child d x s; Some (x, s) }
       = Some (a, s')"
    "extends n root d (directory_node nm) a s s'" "ready n s'"
proof -
  have len: "length nm < 128" using nm(1) by (simp add: good_name_def)
  obtain a s1 where a: "new_tree_node km nm FS_DIRECTORY s
        = Some (a, s1\<lparr>fs_nodes := (fs_nodes s)(a \<mapsto> empty_node\<lparr>node_name := nm, flags := FS_DIRECTORY\<rparr>)\<rparr>)"
      "a \<noteq> 0" "fs_nodes s a = None" "fs_same s s1"
      "\<And>s''. \<lbrakk>mem s'' = mem s1; kheap s'' = kheap s1; dom (fs_nodes s'') \<subseteq> insert a (dom (fs_nodes s))\<rbrakk> \<Longrightarrow> ready n s''"
    by (rule new_node [OF ready len]) blast
  let ?s2 = "s1\<lparr>fs_nodes := (fs_nodes s)(a \<mapsto> directory_node nm)\<rparr>"
  have conf: "configure_directory a (s1\<lparr>fs_nodes := (fs_nodes s)(a \<mapsto> empty_node\<lparr>node_name := nm, flags := FS_DIRECTORY\<rparr>)\<rparr>)
      = Some ?s2"
    by (simp add: configure_directory_def directory_node_def)
  have d0: "d \<noteq> 0" using d(1) fs_wfD(1) [OF wf] by auto
  let ?s3 = "s1\<lparr>fs_nodes := link (fs_nodes s) d a (directory_node nm)\<rparr>"
  have att: "attach_child d a ?s2 = Some ?s3"
    using attach_new [of ?s2 "fs_nodes s" a "directory_node nm" d p] a(2,3) d d0
    by (simp add: directory_node_def empty_node_def)
  have ext: "extends n root d (directory_node nm) a s ?s3"
    using wf d nm a by (auto simp: extends_def linkable_def directory_node_def empty_node_def)
  have "dom (fs_nodes ?s3) \<subseteq> insert a (dom (fs_nodes s))" using d(1) by (auto simp: link_def split: if_splits)
  then have "ready n ?s3" by (intro a(5)) simp_all
  with ext show thesis using that [of a ?s3] a(1) conf att by simp
qed

end

section \<open>The kernel heap meets the contract\<close>

text \<open>One node takes at most 243 bytes of a hole.\<close>

definition heap_ready :: "nat \<Rightarrow> 'a fstate_scheme \<Rightarrow> bool" where
  "heap_ready n s \<longleftrightarrow> (\<exists>h bs. kheap s = Some h \<and> heap_rep (mem s) h bs \<and> card (holes bs) < max_size (index h) \<and>
     (n = 0 \<or> (\<exists>b \<in> set bs. bhole b \<and> 248 * n \<le> bsize b)) \<and>
     (\<forall>a \<in> dom (fs_nodes s). \<exists>tot. Block (unat a - 12) tot False \<in> set bs \<and> 12 \<le> unat a))"

lemma carved_node:
  assumes "224 \<le> sz"
  defines "g \<equiv> granted sz 0 204"
  shows "Block a (g + 20) False \<in> set (carved a sz 0 g)"
    "b \<in> set (carved a sz 0 g) \<Longrightarrow> bhole b \<Longrightarrow> baddr b = a + g + 20"
    "248 * Suc n \<le> sz \<Longrightarrow> 0 < n \<Longrightarrow> \<exists>b \<in> set (carved a sz 0 g). bhole b \<and> 248 * n \<le> bsize b"
  using assms by (auto simp: carved_def g_def granted_def split: if_splits)

lemma heap_ready_alloc:
  fixes s :: "'a fstate_scheme"
  assumes "heap_ready (Suc n) s"
  shows "\<exists>a s'. kmalloc (kernel_alloc (Suc dep)) sizeof_tree_node s = Some (a, s') \<and> a \<noteq> 0 \<and> fs_nodes s a = None \<and>
      pstate.more s' = pstate.more s \<and>
      (\<forall>s'' :: 'a fstate_scheme. mem s'' = mem s' \<and> kheap s'' = kheap s' \<and> dom (fs_nodes s'') \<subseteq> insert a (dom (fs_nodes s)) \<longrightarrow> heap_ready n s'') \<and>
      (\<exists>h h'. kheap s = Some h \<and> kheap s' = Some h' \<and> start_address h' = start_address h \<and>
         same_on (mem s) (mem s') 0 (unat (start_address h)))"
proof -
  obtain h bs big where h: "kheap s = Some h" "heap_rep (mem s) h bs" "card (holes bs) < max_size (index h)"
    and big: "big \<in> set bs" "bhole big" "248 * Suc n \<le> bsize big"
    and backed: "\<And>a. a \<in> dom (fs_nodes s) \<Longrightarrow> \<exists>tot. Block (unat a - 12) tot False \<in> set bs \<and> 12 \<le> unat a"
    using assms by (auto simp: heap_ready_def)
  have sz: "(0 :: u32int) < 204" "unat (204 :: u32int) + 20 < 4294967296" by simp_all
  have fit: "\<exists>b \<in> set bs. fitting (unat (204 :: u32int)) False b"
    using big by (intro bexI [of _ big]) (auto simp: fitting_def padding_def)
  show ?thesis
  proof (rule alloc_fits [OF h(1,2) sz fit h(3), where map_page = "heap_map_page (kernel_alloc dep)" and again = "kernel_alloc dep"], goal_cases)
    case (1 b xs ys s' h')
    define g where "g = granted (bsize b) 0 204"
    have pad: "padding False x = 0" for x by (simp add: padding_def)
    have bh: "bhole b" "224 \<le> bsize b" using 1(2) by (auto simp: fitting_def pad)
    let ?p = "of_nat (baddr b + 12) :: u32int"
    let ?bs = "xs @ carved (baddr b) (bsize b) 0 g @ ys"
    have b: "b \<in> set bs" using 1(1) by simp
    note bd = heap_rep_bounds [OF h(2) b]
    have p: "unat ?p = baddr b + 12" by (rule unat_of_nat32) (use bd bh in linarith)
    have rep: "heap_rep (mem s') h' ?bs" using 1(6) by (simp add: pad g_def)
    have other: "c \<in> set xs \<union> set ys" if "c \<in> set bs" "\<not> bhole c \<or> c \<noteq> b" for c
      using that 1(1) bh by auto
    have disj: "baddr c \<noteq> baddr b" if c: "c \<in> set xs \<union> set ys" for c
    proof -
      have "20 \<le> bsize c" using heap_rep_bounds(3) [OF h(2), of c] c 1(1) by auto
      then show ?thesis using contig_disjoint [OF heap_repD(3) [OF h(2), unfolded 1(1)] c] bd(3) by linarith
    qed
    have "fs_nodes s ?p = None"
    proof (rule ccontr)
      assume "fs_nodes s ?p \<noteq> None"
      then obtain tot where "Block (baddr b) tot False \<in> set bs" using backed [of ?p] p by auto
      then have "Block (baddr b) tot False \<in> set xs \<union> set ys" by (rule other) simp
      then show False using disj by fastforce
    qed
    moreover have "kmalloc (kernel_alloc (Suc dep)) sizeof_tree_node s = Some (?p, s')"
      using 1(4) h(1) by (simp add: kmalloc_def kmalloc_int_def sizeof_tree_node_def pad)
    moreover have "pstate.more s' = pstate.more s" by (subst 1(8)) simp
    moreover have "heap_ready n s''" if s'': "mem s'' = mem s'" "kheap s'' = kheap s'" "dom (fs_nodes s'') \<subseteq> insert ?p (dom (fs_nodes s))"
      for s'' :: "'a fstate_scheme"
    proof -
      note cv = carved_node [OF bh(2), where a = "baddr b", folded g_def]
      have "holes ?bs \<subseteq> insert (baddr b + g + 20) (holes bs - {baddr b})"
      proof
        fix x assume "x \<in> holes ?bs"
        then obtain c where c: "c \<in> set ?bs" "bhole c" "x = baddr c" by (auto simp: holes_def)
        show "x \<in> insert (baddr b + g + 20) (holes bs - {baddr b})"
        proof (cases "c \<in> set xs \<union> set ys")
          case True
          then show ?thesis using c(2,3) disj [OF True] 1(1) by (auto simp: holes_def)
        next
          case False
          then show ?thesis using c cv(2) [of c] by simp
        qed
      qed
      moreover have fin: "finite (holes bs)" by (simp add: holes_def)
      ultimately have "card (holes ?bs) \<le> card (insert (baddr b + g + 20) (holes bs - {baddr b}))"
        by (intro card_mono) auto
      also have "\<dots> \<le> Suc (card (holes bs - {baddr b}))" using fin by (simp add: card_insert_if)
      also have "\<dots> = card (holes bs)" using b bh(1) fin by (intro card_Suc_Diff1) (auto simp: holes_def)
      finally have hl: "card (holes ?bs) < max_size (index h')" using h(3) 1(10) by simp
      have bg: "n = 0 \<or> (\<exists>b \<in> set ?bs. bhole b \<and> 248 * n \<le> bsize b)"
      proof (cases "big = b")
        case True
        then show ?thesis using cv(3) big(3) by (cases "n = 0") auto
      next
        case False
        then show ?thesis using other [OF big(1)] big by (intro disjI2 bexI [of _ big]) auto
      qed
      have "\<exists>tot. Block (unat a - 12) tot False \<in> set ?bs \<and> 12 \<le> unat a" if a: "a \<in> dom (fs_nodes s'')" for a
      proof (cases "a = ?p")
        case True
        then show ?thesis using cv(1) p by auto
      next
        case False
        then obtain tot where "Block (unat a - 12) tot False \<in> set bs" "12 \<le> unat a"
          using backed [of a] a s''(3) by blast
        then show ?thesis using other [of "Block (unat a - 12) tot False"] by auto
      qed
      then show ?thesis
        unfolding heap_ready_def s''(1,2) by (intro exI [of _ h'] exI [of _ ?bs] conjI ballI 1(5) rep hl bg) blast
    qed
    moreover have "?p \<noteq> 0" using p by (metis add_is_0 unat_0 zero_neq_numeral)
    moreover have "same_on (mem s) (mem s') 0 (unat (start_address h))"
      using 1(7) bd(1) by (auto simp: same_on_def changes_in_def)
    moreover have "start_address h' = start_address h" by (subst 1(9)) simp
    ultimately show ?case using h(1) 1(5) by (intro exI [of _ ?p] exI [of _ s']) blast
  qed
qed

interpretation kernel_nodes: node_allocator "kmalloc (kernel_alloc (Suc dep))" heap_ready
proof
  fix n and s :: "'a fstate_scheme"
  assume "heap_ready (Suc n) s"
  then show "\<exists>a s'. kmalloc (kernel_alloc (Suc dep)) sizeof_tree_node s = Some (a, s') \<and> a \<noteq> 0 \<and> fs_nodes s a = None \<and>
      pstate.more s' = pstate.more s \<and>
      (\<forall>s'' :: 'a fstate_scheme. mem s'' = mem s' \<and> kheap s'' = kheap s' \<and> dom (fs_nodes s'') \<subseteq> insert a (dom (fs_nodes s)) \<longrightarrow> heap_ready n s'')"
    using heap_ready_alloc [of n s dep] by blast
next
  fix n and s s' :: "'a fstate_scheme"
  assume a: "heap_ready n s" "mem s' = mem s" "kheap s' = kheap s" "dom (fs_nodes s') \<subseteq> dom (fs_nodes s)"
  then show "heap_ready n s'" unfolding heap_ready_def a(2,3) using a(4) by (meson subsetD)
next
  fix n k and s :: "'a fstate_scheme"
  assume a: "heap_ready n s" "k \<le> n"
  have "248 * k \<le> 248 * n" using a(2) by simp
  then have "k = 0 \<or> (\<exists>b \<in> set bs. bhole b \<and> 248 * k \<le> bsize b)"
    if "n = 0 \<or> (\<exists>b \<in> set bs. bhole b \<and> 248 * n \<le> bsize b)" for bs
    using that a(2) by (auto intro: order_trans)
  then show "heap_ready k s" using a(1) unfolding heap_ready_def by blast
qed

text \<open>The same contract with the memory below the heap, where the module lies, held fixed.\<close>

definition module_ready :: "memory \<Rightarrow> nat \<Rightarrow> nat \<Rightarrow> 'a fstate_scheme \<Rightarrow> bool" where
  "module_ready m0 lim n s \<longleftrightarrow> heap_ready n s \<and> same_on m0 (mem s) 0 lim \<and>
     (\<exists>h. kheap s = Some h \<and> lim \<le> unat (start_address h))"

interpretation module_nodes: node_allocator "kmalloc (kernel_alloc (Suc dep))" "module_ready m0 lim"
proof
  fix n and s :: "'a fstate_scheme"
  assume r: "module_ready m0 lim (Suc n) s"
  then obtain h where h: "heap_ready (Suc n) s" "same_on m0 (mem s) 0 lim" "kheap s = Some h" "lim \<le> unat (start_address h)"
    by (auto simp: module_ready_def)
  from heap_ready_alloc [OF h(1), of dep] h(3) obtain a s' h' where
    a: "kmalloc (kernel_alloc (Suc dep)) sizeof_tree_node s = Some (a, s')" "a \<noteq> 0" "fs_nodes s a = None"
      "pstate.more s' = pstate.more s"
      "\<And>s'' :: 'a fstate_scheme. \<lbrakk>mem s'' = mem s'; kheap s'' = kheap s'; dom (fs_nodes s'') \<subseteq> insert a (dom (fs_nodes s))\<rbrakk> \<Longrightarrow> heap_ready n s''"
      "kheap s' = Some h'" "start_address h' = start_address h" "same_on (mem s) (mem s') 0 (unat (start_address h))" by auto
  have same: "same_on m0 (mem s') 0 lim" using h(2,4) a(8) by (auto simp: same_on_def)
  have "module_ready m0 lim n s''"
    if "mem s'' = mem s'" "kheap s'' = kheap s'" "dom (fs_nodes s'') \<subseteq> insert a (dom (fs_nodes s))" for s'' :: "'a fstate_scheme"
    using a(5) [OF that] that(1,2) same a(6,7) h(4) by (simp add: module_ready_def)
  then show "\<exists>a s'. kmalloc (kernel_alloc (Suc dep)) sizeof_tree_node s = Some (a, s') \<and> a \<noteq> 0 \<and> fs_nodes s a = None \<and>
      pstate.more s' = pstate.more s \<and>
      (\<forall>s'' :: 'a fstate_scheme. mem s'' = mem s' \<and> kheap s'' = kheap s' \<and> dom (fs_nodes s'') \<subseteq> insert a (dom (fs_nodes s)) \<longrightarrow> module_ready m0 lim n s'')"
    using a(1-4) by blast
next
  fix n and s s' :: "'a fstate_scheme"
  assume a: "module_ready m0 lim n s" "mem s' = mem s" "kheap s' = kheap s" "dom (fs_nodes s') \<subseteq> dom (fs_nodes s)"
  then show "module_ready m0 lim n s'"
    using kernel_nodes.ready_cong [of n s s'] by (simp add: module_ready_def)
next
  fix n k and s :: "'a fstate_scheme"
  assume "module_ready m0 lim n s" "k \<le> n"
  then show "module_ready m0 lim k s" using kernel_nodes.ready_le [of n s k] by (simp add: module_ready_def)
qed

end
