(* ===== verification/FS_Build.thy ===== *)
theory FS_Build
  imports FS_Archive
begin

text \<open>
  \<open>mkdir_path_fs\<close> (\<open>src/fs.c\<close>), \<open>add_archived_file\<close> and \<open>initialise_initrd\<close> (\<open>src/initrd.c\<close>) as operations on
  the name space: which path they add, when they refuse, and that the tree stays well
  formed. Every file node refers to an entry of the header table.
\<close>

section \<open>Directories along a path\<close>

definition enter_dir :: "nodes \<Rightarrow> u32int \<Rightarrow> u32int \<Rightarrow> string \<Rightarrow> u32int" where
  "enter_dir ns root node c =
     (let x = enter ns root node c
      in case ns x of Some k \<Rightarrow> (if is_directory k then x else 0) | None \<Rightarrow> 0)"

definition start_of :: "u32int \<Rightarrow> u32int \<Rightarrow> string \<Rightarrow> u32int" where
  "start_of root cwd path = (if path \<noteq> [] \<and> is_slash (hd path) then root else cwd)"

text \<open>Where \<open>mkdir\<close> puts the new directory, when the request is valid.\<close>

definition mkdir_target :: "nodes \<Rightarrow> u32int \<Rightarrow> u32int \<Rightarrow> string \<Rightarrow> (u32int \<times> string) option" where
  "mkdir_target ns root cwd path =
     (let cs = path_names path; d = foldl (enter_dir ns root) (start_of root cwd path) (butlast cs)
      in if cs = [] \<or> d = 0 \<or> last cs = ''.'' \<or> last cs = ''..'' \<or> 128 \<le> length (last cs) \<or> finddir_fs ns d (last cs) \<noteq> 0
         then None else Some (d, last cs))"

definition dir_at :: "nodes \<Rightarrow> u32int \<Rightarrow> bool" where
  "dir_at ns a \<longleftrightarrow> (\<exists>k. ns a = Some k \<and> is_directory k)"

lemma dir_at_root: "fs_wf ns root \<Longrightarrow> dir_at ns root"
  using fs_wfD(3) by (auto simp: dir_at_def)

lemma parent_dir_at:
  assumes "fs_wf ns root" "dir_at ns a"
  shows "dir_at ns (parent_or_self ns root a)"
proof -
  obtain k where k: "ns a = Some k" "is_directory k" using assms(2) by (auto simp: dir_at_def)
  show ?thesis
  proof (cases "a \<noteq> root \<and> parent k \<noteq> 0")
    case True
    then obtain p where "ns (parent k) = Some p" "a \<in> set (children p)" using fs_wfD(9) [OF assms(1) k(1)] by blast
    then have "is_directory p" using fs_wfD(6) [OF assms(1)] by fastforce
    then show ?thesis using k True \<open>ns (parent k) = Some p\<close> by (simp add: dir_at_def parent_or_self_def)
  next
    case False
    then show ?thesis using k by (auto simp: dir_at_def parent_or_self_def)
  qed
qed

lemma enter_dir_eq:
  assumes "fs_wf ns root" "dir_at ns a" "length c < 128"
  shows "enter_dir ns root a c = (if c = ''.'' then a else if c = ''..'' then parent_or_self ns root a
     else (let x = finddir_fs ns a c in case ns x of Some k \<Rightarrow> (if is_directory k then x else 0) | None \<Rightarrow> 0))"
proof -
  have "a \<noteq> 0" using assms(2) fs_wfD(1) [OF assms(1)] by (auto simp: dir_at_def)
  moreover have "\<exists>k. ns a = Some k \<and> is_directory k" "\<exists>k. ns (parent_or_self ns root a) = Some k \<and> is_directory k"
    using assms(2) parent_dir_at [OF assms(1,2)] by (auto simp: dir_at_def)
  ultimately show ?thesis using assms(3) by (auto simp: enter_dir_def enter_def)
qed

lemma enter_dir_at: "enter_dir ns root a c \<noteq> 0 \<Longrightarrow> dir_at ns (enter_dir ns root a c)"
  by (auto simp: enter_dir_def dir_at_def Let_def split: option.splits if_splits)

lemma enter_dir_0: "fs_wf ns root \<Longrightarrow> enter_dir ns root 0 c = 0"
  using fs_wfD(1) [of ns root] by (simp add: enter_dir_def)

lemma fold_enter_dir_0: "fs_wf ns root \<Longrightarrow> foldl (enter_dir ns root) 0 cs = 0"
  by (induction cs) (simp_all add: enter_dir_0)

lemma fold_enter_dir_at:
  "\<lbrakk>dir_at ns a; foldl (enter_dir ns root) a cs \<noteq> 0\<rbrakk> \<Longrightarrow> dir_at ns (foldl (enter_dir ns root) a cs)"
  using enter_dir_at by (cases cs rule: rev_cases) auto

lemma enter_dir_enter: "enter_dir ns root a c \<noteq> 0 \<Longrightarrow> enter ns root a c = enter_dir ns root a c"
  by (auto simp: enter_dir_def Let_def split: option.splits if_splits)

text \<open>A walk through directories is the same in an extended tree.\<close>

lemma enter_link:
  assumes l: "linkable ns root d x n" and a: "dir_at ns a" and e: "enter_dir ns root a c \<noteq> 0"
  shows "enter (link ns d x n) root a c = enter_dir ns root a c"
proof -
  obtain k where k: "ns a = Some k" using a by (auto simp: dir_at_def)
  obtain p where p: "ns d = Some p" using l by (auto simp: linkable_def)
  have f: "finddir_fs ns d (node_name n) = 0" using l by (simp add: linkable_def)
  have par: "parent_or_self (link ns d x n) root a = parent_or_self ns root a"
    using link_nodes [OF l p, of a] linkable_fresh(1) [OF l k] k p by (auto simp: parent_or_self_def)
  have "finddir_fs (link ns d x n) a c = finddir_fs ns a c" if "finddir_fs ns a c \<noteq> 0"
    using finddir_link [OF l, of a c] that f linkable_fresh(1) [OF l k] by auto
  moreover have "enter ns root a c \<noteq> 0" using e enter_dir_enter [OF e] by simp
  ultimately have "enter (link ns d x n) root a c = enter ns root a c"
    using par by (auto simp: enter_def split: if_splits)
  then show ?thesis using enter_dir_enter [OF e] by simp
qed

lemma walk_link:
  assumes l: "linkable ns root d x n"
  shows "\<lbrakk>dir_at ns a; foldl (enter_dir ns root) a cs \<noteq> 0\<rbrakk> \<Longrightarrow> walk (link ns d x n) root a cs = foldl (enter_dir ns root) a cs"
proof (induction cs rule: rev_induct)
  case (snoc c cs)
  have wf: "fs_wf ns root" using l by (simp add: linkable_def)
  have nz: "foldl (enter_dir ns root) a cs \<noteq> 0" using snoc.prems(2) enter_dir_0 [OF wf] by auto
  then have "dir_at ns (foldl (enter_dir ns root) a cs)" by (rule fold_enter_dir_at [OF snoc.prems(1)])
  then show ?case using snoc nz enter_link [OF l] by (simp add: walk_append)
qed simp

definition mkdir_outcome ::
  "'a fstate_scheme node_alloc \<Rightarrow> u32int \<Rightarrow> u32int \<Rightarrow> string list \<Rightarrow> 'a fstate_scheme \<Rightarrow> (int \<times> 'a fstate_scheme) option" where
  "mkdir_outcome km root a cs s =
     (let d = foldl (enter_dir (fs_nodes s) root) a (butlast cs)
      in if d = 0 \<or> last cs = ''.'' \<or> last cs = ''..'' \<or> 128 \<le> length (last cs) then Some (-1, s)
         else mkdir_fs km d (last cs) s)"

lemma mkdir_outcome_Cons:
  assumes "cs \<noteq> []" "enter_dir (fs_nodes s) root a c = x"
  shows "mkdir_outcome km root a (c # cs) s = mkdir_outcome km root x cs s"
  using assms by (simp add: mkdir_outcome_def Let_def)

lemma mkdir_outcome_0: "fs_wf (fs_nodes s) root \<Longrightarrow> mkdir_outcome km root 0 cs s = Some (-1, s)"
  by (simp add: mkdir_outcome_def fold_enter_dir_0)

lemma mkdir_loop_step:
  assumes "takeWhile not_slash path = c" "dropWhile is_slash (dropWhile not_slash path) = r" "c \<noteq> []" "r \<noteq> []" "length c < 128"
  shows "mkdir_loop km root a path s =
    (if c = ''.'' then mkdir_loop km root a r s
     else if c = ''..'' then mkdir_loop km root (parent_or_self (fs_nodes s) root a) r s
     else (case fs_nodes s (finddir_fs (fs_nodes s) a c) of
             Some d \<Rightarrow> (if finddir_fs (fs_nodes s) a c = 0 \<or> \<not> is_directory d then Some (-1, s)
                        else mkdir_loop km root (finddir_fs (fs_nodes s) a c) r s)
           | None \<Rightarrow> Some (-1, s)))"
proof -
  have "\<not> 128 \<le> length c" using assms(5) by simp
  then show ?thesis
    by (subst mkdir_loop.simps) (simp only: assms(1-4) Let_def if_False simp_thms)
qed

lemma mkdir_loop_outcome:
  assumes "fs_wf (fs_nodes s) root" "dir_at (fs_nodes s) a" "path \<noteq> []" "not_slash (hd path)"
  shows "mkdir_loop km root a path s = mkdir_outcome km root a (path_names path) s"
  using assms
proof (induction km root a path s rule: mkdir_loop.induct)
  case (1 km root a path s)
  let ?c = "takeWhile not_slash path" and ?r = "dropWhile is_slash (dropWhile not_slash path)" and ?ns = "fs_nodes s"
  note wf = 1(4) and dir = 1(5)
  have c: "?c \<noteq> []" using 1(6,7) by (cases path) auto
  have names: "path_names path = ?c # path_names ?r" by (rule path_names_take [OF c])
  have a0: "a \<noteq> 0" using dir fs_wfD(1) [OF wf] by (auto simp: dir_at_def)
  show ?case
  proof (cases "?r = []")
    case True
    have "path_names path = [?c]" unfolding names True by (simp add: path_names_def)
    then have "mkdir_outcome km root a (path_names path) s =
        (if 128 \<le> length ?c \<or> ?c = ''.'' \<or> ?c = ''..'' then Some (-1, s) else mkdir_fs km a ?c s)"
      using a0 by (simp add: mkdir_outcome_def)
    moreover have "mkdir_loop km root a path s =
        (if 128 \<le> length ?c \<or> ?c = ''.'' \<or> ?c = ''..'' then Some (-1, s) else mkdir_fs km a ?c s)"
      by (subst mkdir_loop.simps) (simp only: True Let_def c if_True if_False simp_thms split: if_split, blast)
    ultimately show ?thesis by simp
  next
    case False
    have hr: "not_slash (hd ?r)" using hd_dropWhile [of is_slash "dropWhile not_slash path"] False by blast
    have nr: "path_names ?r \<noteq> []" by (rule path_names_not_Nil [OF False hr])
    let ?loop = "\<lambda>x. mkdir_loop km root x ?r s" and ?out = "\<lambda>x. mkdir_outcome km root x (path_names ?r) s"
    have out: "mkdir_outcome km root a (path_names path) s = ?out (enter_dir ?ns root a ?c)"
      unfolding names by (rule mkdir_outcome_Cons [OF nr refl])
    consider (long) "128 \<le> length ?c" | (dot) "length ?c < 128" "?c = ''.''" | (dotdot) "length ?c < 128" "?c = ''..''"
      | (name) "length ?c < 128" "?c \<noteq> ''.''" "?c \<noteq> ''..''" by linarith
    then show ?thesis
    proof cases
      case long
      then have "enter_dir ?ns root a ?c = 0" using fs_wfD(1) [OF wf] by (simp add: enter_dir_def enter_def)
      then show ?thesis unfolding out using long mkdir_outcome_0 [OF wf] by (subst mkdir_loop.simps) simp
    next
      case dot
      have "?loop a = ?out a"
        by (rule 1(1) [OF refl refl _ _ _ _ wf dir False hr]) (use dot c False in simp_all)
      then show ?thesis unfolding out enter_dir_eq [OF wf dir dot(1)]
        mkdir_loop_step [OF refl refl c False dot(1)] unfolding dot(2) by simp
    next
      case dotdot
      have "?loop (parent_or_self ?ns root a) = ?out (parent_or_self ?ns root a)"
        by (rule 1(2) [OF refl refl _ _ _ _ _ wf parent_dir_at [OF wf dir] False hr]) (use dotdot c False in simp_all)
      then show ?thesis unfolding out enter_dir_eq [OF wf dir dotdot(1)]
        mkdir_loop_step [OF refl refl c False dotdot(1)] unfolding dotdot(2) by simp
    next
      case name
      let ?x = "finddir_fs ?ns a ?c"
      have step: "mkdir_loop km root a path s = (case ?ns ?x of
          Some d \<Rightarrow> (if ?x = 0 \<or> \<not> is_directory d then Some (-1, s) else ?loop ?x) | None \<Rightarrow> Some (-1, s))"
        unfolding mkdir_loop_step [OF refl refl c False name(1)] using name(2,3) by simp
      show ?thesis
      proof (cases "?x \<noteq> 0 \<and> dir_at ?ns ?x")
        case True
        then obtain k where k: "?ns ?x = Some k" "is_directory k" "?x \<noteq> 0" by (auto simp: dir_at_def)
        have "?loop ?x = ?out ?x"
          by (rule 1(3) [OF refl refl _ _ _ _ _ refl k(1) _ wf _ False hr]) (use True name c False k in simp_all)
        then show ?thesis unfolding out enter_dir_eq [OF wf dir name(1)] step using k name by simp
      next
        case f: False
        then have "enter_dir ?ns root a ?c = 0"
          unfolding enter_dir_eq [OF wf dir name(1)] using name fs_wfD(1) [OF wf]
          by (auto simp: dir_at_def Let_def split: option.splits)
        moreover have "mkdir_loop km root a path s = Some (-1, s)"
          unfolding step using f fs_wfD(1) [OF wf] by (auto simp: dir_at_def split: option.splits)
        ultimately show ?thesis unfolding out using mkdir_outcome_0 [OF wf] by simp
      qed
    qed
  qed
qed

lemma mkdir_path_target:
  assumes wf: "fs_wf (fs_nodes s) root" and cwd: "dir_at (fs_nodes s) cwd"
  shows "mkdir_path_fs km root cwd path s =
    (case mkdir_target (fs_nodes s) root cwd path of None \<Rightarrow> Some (-1, s) | Some (d, nm) \<Rightarrow> initrd_mkdir km d nm s)"
proof -
  let ?ns = "fs_nodes s" and ?p = "dropWhile is_slash path" and ?a = "start_of root cwd path"
  have nz: "root \<noteq> 0" "cwd \<noteq> 0" using cwd fs_wfD(1,2) [OF wf] by (auto simp: dir_at_def)
  have a: "dir_at ?ns ?a" using cwd dir_at_root [OF wf] by (simp add: start_of_def)
  show ?thesis
  proof (cases "?p = []")
    case True
    then have "path_names path = []" using path_names_skip [of path, unfolded True] by (simp add: path_names_def)
    moreover have "mkdir_path_fs km root cwd path s = Some (-1, s)"
      unfolding mkdir_path_fs_def Let_def True by simp
    ultimately show ?thesis by (simp add: mkdir_target_def)
  next
    case False
    have hp: "not_slash (hd ?p)" using hd_dropWhile [of is_slash path] False by blast
    have cs: "path_names path \<noteq> []" using path_names_Nil False by blast
    have "mkdir_path_fs km root cwd path s = mkdir_loop km root ?a ?p s"
      using nz False by (auto simp: mkdir_path_fs_def Let_def start_of_def)
    also have "\<dots> = mkdir_outcome km root ?a (path_names path) s"
      using mkdir_loop_outcome [OF wf a False hp] by (simp only: path_names_skip)
    finally have e: "mkdir_path_fs km root cwd path s = mkdir_outcome km root ?a (path_names path) s" .
    define d where "d = foldl (enter_dir ?ns root) ?a (butlast (path_names path))"
    define c where "c = last (path_names path)"
    have c_ne: "c \<noteq> []" unfolding c_def using path_names_no_slash [of "last (path_names path)" path] cs by simp
    have dd: "\<exists>k. ?ns d = Some k \<and> is_directory k \<and> mkdir_cb k = Some Initrd_mkdir \<and> find_child ?ns d c = finddir_fs ?ns d c" if "d \<noteq> 0"
      using fold_enter_dir_at [OF a, of root "butlast (path_names path)"] that fs_wfD(5) [OF wf] is_directory_name [OF _ _ wf]
      unfolding dir_at_def d_def [symmetric] by blast
    show ?thesis
      unfolding e mkdir_outcome_def mkdir_target_def Let_def d_def [symmetric] c_def [symmetric]
      using cs dd c_ne by (auto simp: mkdir_fs_def initrd_mkdir_def)
  qed
qed

section \<open>Archived files\<close>

text \<open>The name space after an archived file has been added: its directories and the file.\<close>

fun add_path :: "(string list \<rightharpoonup> entry) \<Rightarrow> string list \<Rightarrow> string list \<Rightarrow> nat \<Rightarrow> (string list \<rightharpoonup> entry)" where
  "add_path v ds [] i = v"
| "add_path v ds [c] i = v(ds @ [c] \<mapsto> File i)"
| "add_path v ds (c # cs) i = add_path (v(ds @ [c] \<mapsto> Dir)) (ds @ [c]) cs i"

text \<open>The path is new, and no proper prefix of it is a file.\<close>

fun path_free :: "(string list \<rightharpoonup> entry) \<Rightarrow> string list \<Rightarrow> string list \<Rightarrow> bool" where
  "path_free v ds [] = False"
| "path_free v ds [c] \<longleftrightarrow> v (ds @ [c]) = None"
| "path_free v ds (c # cs) \<longleftrightarrow> v (ds @ [c]) \<in> {None, Some Dir} \<and> path_free (v(ds @ [c] \<mapsto> Dir)) (ds @ [c]) cs"

text \<open>Every file node refers to an entry of the header table.\<close>

definition files_wf :: "nodes \<Rightarrow> initrd_file_header_t list \<Rightarrow> bool" where
  "files_wf ns hs \<longleftrightarrow> (\<forall>a k. ns a = Some k \<and> \<not> is_directory k \<longrightarrow>
     flags k = FS_FILE \<and> read_cb k = Some Initrd_read \<and> unat (inode k) < length hs \<and>
     node_length k = hlength (hs ! unat (inode k)))"

lemma files_wf_link:
  assumes "files_wf ns hs" "ns d = Some p" "is_directory p" "d \<noteq> a"
    "is_directory k \<or> flags k = FS_FILE \<and> read_cb k = Some Initrd_read \<and> unat (inode k) < length hs \<and>
       node_length k = hlength (hs ! unat (inode k))"
  shows "files_wf (link ns d a k) hs"
  using assms by (auto simp: files_wf_def link_def)

lemma join_slash_split:
  assumes "CHR ''/'' \<notin> set c"
  shows "takeWhile not_slash (join_slash (c # cs)) = c"
    "dropWhile not_slash (join_slash (c # cs)) = (if cs = [] then [] else CHR ''/'' # join_slash cs)"
proof -
  have ns: "\<And>x. x \<in> set c \<Longrightarrow> not_slash x" using assms by auto
  have a: "takeWhile not_slash (c @ CHR ''/'' # r) = c" "dropWhile not_slash (c @ CHR ''/'' # r) = CHR ''/'' # r" for r
    by (subst takeWhile_append2 [OF ns], assumption, simp) (subst dropWhile_append2 [OF ns], assumption, simp)
  have b: "takeWhile not_slash c = c" "dropWhile not_slash c = []" using ns by (auto simp: takeWhile_eq_all_conv)
  show "takeWhile not_slash (join_slash (c # cs)) = c"
    "dropWhile not_slash (join_slash (c # cs)) = (if cs = [] then [] else CHR ''/'' # join_slash cs)"
    by (cases cs; simp only: join_slash.simps append.simps list.distinct if_True if_False simp_thms a b)+
qed

lemma join_slash_hd:
  assumes "good_name c"
  shows "join_slash (c # cs) \<noteq> [] \<and> not_slash (hd (join_slash (c # cs)))"
proof -
  obtain x xs where "c = x # xs" "not_slash x" using assms by (cases c) (auto simp: good_name_def)
  then show ?thesis by (cases cs) simp_all
qed

lemma view_follow:
  assumes wf: "fs_wf ns root" and d: "path_to ns root d ds"
  shows "fs_view ns root (ds @ [c]) = map_option entry_of (ns (finddir_fs ns d c))"
  using path_to_follow [OF wf d] by (simp add: fs_view_def)

lemma view_None:
  assumes wf: "fs_wf ns root" and d: "path_to ns root d ds"
  shows "fs_view ns root (ds @ [c]) = None \<longleftrightarrow> finddir_fs ns d c = 0"
proof -
  have "\<exists>m. ns (finddir_fs ns d c) = Some m" if "finddir_fs ns d c \<noteq> 0"
    using finddir_Some [OF wf refl that] by blast
  then show ?thesis using view_follow [OF wf d, of c] fs_wfD(1) [OF wf] by fastforce
qed

context node_allocator
begin

lemma get_or_create:
  assumes wf: "fs_wf (fs_nodes s) root" and files: "files_wf (fs_nodes s) hs"
    and d: "path_to (fs_nodes s) root d ds" "dir_at (fs_nodes s) d"
    and nm: "good_name c" "fs_view (fs_nodes s) root (ds @ [c]) \<in> {None, Some Dir}" and ready: "ready (Suc n) s"
  obtains a s' where "get_or_create_directory km d c s = Some (a, s')" "fs_wf (fs_nodes s') root" "files_wf (fs_nodes s') hs"
    "path_to (fs_nodes s') root a (ds @ [c])" "dir_at (fs_nodes s') a"
    "fs_view (fs_nodes s') root = (fs_view (fs_nodes s) root)(ds @ [c] \<mapsto> Dir)" "fs_same s s'" "ready n s'"
proof -
  let ?ns = "fs_nodes s"
  obtain p where p: "?ns d = Some p" "is_directory p" using d(2) by (auto simp: dir_at_def)
  have fc: "find_child ?ns d c = finddir_fs ?ns d c" by (rule is_directory_name [OF p(2,1) wf])
  show thesis
  proof (cases "finddir_fs ?ns d c = 0")
    case True
    obtain a s' where a: "do { (x, s) \<leftarrow> new_tree_node km c FS_DIRECTORY s; s \<leftarrow> configure_directory x s; s \<leftarrow> attach_child d x s; Some (x, s) }
          = Some (a, s')"
        "extends n root d (directory_node c) a s s'" "ready n s'"
      by (rule make_directory [OF wf p nm(1) True ready])
    have l: "linkable ?ns root d a (directory_node c)" and ns': "fs_nodes s' = link ?ns d a (directory_node c)"
      and same: "fs_same s s'" using a(2) by (auto simp: extends_def)
    have da: "d \<noteq> a" using linkable_fresh(1) [OF l p(1)] by simp
    have "fs_view (fs_nodes s') root = (fs_view ?ns root)(ds @ [c] \<mapsto> Dir)"
      unfolding ns' fs_view_link [OF l d(1)] by (simp add: entry_of_def)
    moreover have "dir_at (fs_nodes s') a" unfolding ns' using link_nodes [OF l p(1), of a] da by (simp add: dir_at_def)
    ultimately show thesis
      using that [of a s'] a(1,3) fs_wf_link [OF l] path_to_link(2) [OF l d(1)] files_wf_link [OF files p da] same True fc
      by (simp add: get_or_create_directory_def ns')
  next
    case False
    then obtain k where k: "?ns (finddir_fs ?ns d c) = Some k" "parent k = d" "node_name k = c"
      using finddir_Some [OF wf refl] by blast
    then have dir: "is_directory k" using nm(2) view_follow [OF wf d(1), of c] by (auto simp: entry_of_def split: if_splits)
    then have v: "fs_view ?ns root (ds @ [c]) = Some Dir" using k view_follow [OF wf d(1), of c] by (simp add: entry_of_def)
    have "path_to ?ns root (finddir_fs ?ns d c) (ds @ [c])" using child_path_to [OF wf d(1) k(1,2) False] k(3) by simp
    then show thesis
      using that [of "finddir_fs ?ns d c" s] False fc k dir wf files v ready_le [OF ready]
      by (simp add: get_or_create_directory_def dir_at_def fun_upd_idem)
  qed
qed

lemma add_last:
  assumes wf: "fs_wf (fs_nodes s) root" and files: "files_wf (fs_nodes s) (file_headers s)"
    and d: "path_to (fs_nodes s) root d ds" "dir_at (fs_nodes s) d"
    and nm: "good_name c" "fs_view (fs_nodes s) root (ds @ [c]) = None"
    and i: "i < length (file_headers s)" "i < 4294967296" and n: "n + 1 \<le> MAX_PATH_COMPONENTS" and ready: "ready (Suc m) s"
  obtains s' where "add_components km i d c n s = Some s'" "fs_wf (fs_nodes s') root" "files_wf (fs_nodes s') (file_headers s)"
    "fs_view (fs_nodes s') root = (fs_view (fs_nodes s) root)(ds @ [c] \<mapsto> File i)" "fs_same s s'" "ready m s'"
proof -
  let ?ns = "fs_nodes s" and ?h = "file_headers s ! i"
  obtain p where p: "?ns d = Some p" "is_directory p" using d(2) by (auto simp: dir_at_def)
  have f0: "finddir_fs ?ns d c = 0" using nm(2) view_None [OF wf d(1)] by simp
  have fc: "find_child ?ns d c = 0" using is_directory_name [OF p(2,1) wf] f0 by simp
  have len: "length c < 128" using nm(1) by (simp add: good_name_def)
  obtain a s1 where a: "new_tree_node km c FS_FILE s
        = Some (a, s1\<lparr>fs_nodes := ?ns(a \<mapsto> empty_node\<lparr>node_name := c, flags := FS_FILE\<rparr>)\<rparr>)"
      "a \<noteq> 0" "?ns a = None" "fs_same s s1"
      "\<And>s''. \<lbrakk>mem s'' = mem s1; kheap s'' = kheap s1; dom (fs_nodes s'') \<subseteq> insert a (dom ?ns)\<rbrakk> \<Longrightarrow> ready m s''"
    by (rule new_node [OF ready len]) blast
  let ?k = "file_node c i (hlength ?h)"
  have d0: "d \<noteq> 0" "d \<noteq> a" using p(1) a(3) fs_wfD(1) [OF wf] by auto
  have l: "linkable ?ns root d a ?k" using wf p nm(1) f0 a(2,3) by (auto simp: linkable_def)
  let ?s' = "s1\<lparr>fs_nodes := link ?ns d a ?k\<rparr>"
  have att: "attach_child d a (s1\<lparr>fs_nodes := ?ns(a \<mapsto> ?k)\<rparr>) = Some ?s'"
    using attach_new [of "s1\<lparr>fs_nodes := ?ns(a \<mapsto> ?k)\<rparr>" ?ns a ?k d p] a(2,3) p(1) d0(1)
    by (simp add: file_node_def empty_node_def)
  have tw: "takeWhile not_slash c = c" "dropWhile not_slash c = []"
    using join_slash_split [of c "[]"] nm(1) by (simp_all add: good_name_def)
  have "add_components km i d c n s = Some ?s'"
    using nm(1) n fc i(1) a(1) att
    by (subst add_components.simps) (simp only: tw, simp add: good_name_def file_node_def)
  moreover have in_i: "unat (of_nat i :: u32int) = i" using i(2) by (rule unat_of_nat32)
  moreover have "files_wf (fs_nodes ?s') (file_headers s)"
    using files_wf_link [OF files p d0(2), of ?k] i(1) in_i by (simp add: file_node_def empty_node_def)
  moreover have "fs_view (fs_nodes ?s') root = (fs_view ?ns root)(ds @ [c] \<mapsto> File i)"
    using fs_view_link [OF l d(1)] in_i by (simp add: entry_of_def) (simp add: file_node_def)
  moreover have "ready m ?s'" by (rule a(5)) (use p(1) in \<open>auto simp: link_def split: if_splits\<close>)
  ultimately show thesis using that [of ?s'] fs_wf_link [OF l] a(4) by simp
qed

lemma add_components_ok:
  assumes "fs_wf (fs_nodes s) root" "files_wf (fs_nodes s) (file_headers s)" "path_to (fs_nodes s) root d ds"
    "dir_at (fs_nodes s) d" "path_free (fs_view (fs_nodes s) root) ds cs" "\<forall>c \<in> set cs. good_name c"
    "i < length (file_headers s)" "i < 4294967296" "n + length cs \<le> MAX_PATH_COMPONENTS" "ready (length cs + m) s"
  shows "\<exists>s'. add_components km i d (join_slash cs) n s = Some s' \<and> fs_wf (fs_nodes s') root \<and>
    files_wf (fs_nodes s') (file_headers s) \<and>
    fs_view (fs_nodes s') root = add_path (fs_view (fs_nodes s) root) ds cs i \<and> fs_same s s' \<and> ready m s'"
  using assms
proof (induction cs arbitrary: s d ds n)
  case (Cons c cs)
  note wf = Cons.prems(1) and files = Cons.prems(2) and d = Cons.prems(3,4)
  have good: "good_name c" using Cons.prems(6) by simp
  show ?case
  proof (cases cs)
    case Nil
    have v: "fs_view (fs_nodes s) root (ds @ [c]) = None" using Cons.prems(5) Nil by simp
    have n: "n + 1 \<le> MAX_PATH_COMPONENTS" and ready: "ready (Suc m) s" using Cons.prems(9,10) Nil by simp_all
    show ?thesis
      by (rule add_last [OF wf files d good v Cons.prems(7,8) n ready]) (auto simp: Nil)
  next
    case (Cons c2 cs2)
    have v: "fs_view (fs_nodes s) root (ds @ [c]) \<in> {None, Some Dir}"
      and free: "path_free ((fs_view (fs_nodes s) root)(ds @ [c] \<mapsto> Dir)) (ds @ [c]) cs"
      using Cons.prems(5) Cons by simp_all
    have ready: "ready (Suc (length cs + m)) s" using Cons.prems(10) by simp
    show ?thesis
    proof (rule get_or_create [OF wf files d good v ready], goal_cases)
      case (1 a s1)
      have fh: "file_headers s1 = file_headers s" using 1(7) by (simp add: fs_same_def)
      have "\<exists>s'. add_components km i a (join_slash cs) (n + 1) s1 = Some s' \<and> fs_wf (fs_nodes s') root \<and>
          files_wf (fs_nodes s') (file_headers s1) \<and>
          fs_view (fs_nodes s') root = add_path (fs_view (fs_nodes s1) root) (ds @ [c]) cs i \<and> fs_same s1 s' \<and> ready m s'"
        by (rule Cons.IH [OF 1(2) 1(3) [folded fh] 1(4,5) free [folded 1(6)]]) (use 1(8) Cons.prems fh in simp_all)
      then obtain s' where s': "add_components km i a (join_slash cs) (n + 1) s1 = Some s'" "fs_wf (fs_nodes s') root"
          "files_wf (fs_nodes s') (file_headers s)"
          "fs_view (fs_nodes s') root = add_path ((fs_view (fs_nodes s) root)(ds @ [c] \<mapsto> Dir)) (ds @ [c]) cs i"
          "fs_same s1 s'" "ready m s'" unfolding fh 1(6) by blast
      have sp: "takeWhile not_slash (join_slash (c # cs)) = c"
          "dropWhile not_slash (join_slash (c # cs)) = CHR ''/'' # join_slash cs"
        using join_slash_split [of c cs] good Cons by (simp_all add: good_name_def)
      have nxt: "join_slash cs \<noteq> [] \<and> not_slash (hd (join_slash cs))"
        using join_slash_hd [of c2 cs2] Cons Cons.prems(6) by simp
      have ne: "join_slash (c # cs) \<noteq> []" using join_slash_hd [OF good] by blast
      have c: "c \<noteq> []" "c \<noteq> ''.''" "c \<noteq> ''..''" "length c < 128" using good by (auto simp: good_name_def)
      have n: "n + 1 \<le> MAX_PATH_COMPONENTS" using Cons.prems(9) by simp
      have "add_components km i d (join_slash (c # cs)) n s = add_components km i a (join_slash cs) (n + 1) s1"
        by (subst add_components.simps) (simp only: sp ne if_False, simp add: Let_def c n [simplified] nxt 1(1))
      then show ?case
        using s' fs_same_trans [OF 1(7) s'(5)] by (auto simp: Cons)
    qed
  qed
qed simp

end

section \<open>The whole archive\<close>

primrec add_all :: "(string list \<rightharpoonup> entry) \<Rightarrow> string list list \<Rightarrow> nat \<Rightarrow> (string list \<rightharpoonup> entry)" where
  "add_all v [] i = v"
| "add_all v (cs # css) i = add_all (add_path v [] cs i) css (Suc i)"

primrec all_free :: "(string list \<rightharpoonup> entry) \<Rightarrow> string list list \<Rightarrow> nat \<Rightarrow> bool" where
  "all_free v [] i = True"
| "all_free v (cs # css) i \<longleftrightarrow> path_free v [] cs \<and> all_free (add_path v [] cs i) css (Suc i)"

lemma add_path_mono:
  "\<lbrakk>path_free v ds cs; v p = Some e\<rbrakk> \<Longrightarrow> add_path v ds cs i p = Some e"
proof (induction v ds cs rule: path_free.induct)
  case (3 v ds c d cs)
  have "(v(ds @ [c] \<mapsto> Dir)) p = Some e" using 3(2,3) by auto
  then have "add_path (v(ds @ [c] \<mapsto> Dir)) (ds @ [c]) (d # cs) i p = Some e"
    using 3(1,2) unfolding path_free.simps by blast
  then show ?case unfolding add_path.simps .
qed auto

lemma add_path_new: "cs \<noteq> [] \<Longrightarrow> add_path v ds cs i (ds @ cs) = Some (File i)"
  by (induction v ds cs i rule: add_path.induct) auto

lemma add_all_mono: "\<lbrakk>all_free v css i; v p = Some e\<rbrakk> \<Longrightarrow> add_all v css i p = Some e"
  by (induction css arbitrary: v i) (auto intro: add_path_mono)

lemma add_all_nth:
  "\<lbrakk>all_free v css i; j < length css\<rbrakk> \<Longrightarrow> add_all v css i (css ! j) = Some (File (i + j))"
proof (induction css arbitrary: v i j)
  case (Cons cs css)
  have "cs \<noteq> []" using Cons.prems(1) by auto
  then show ?case
    using Cons add_path_new [of cs v "[]" i] by (cases j) (auto intro: add_all_mono)
qed simp

text \<open>What the headers of a loadable archive contain; \<open>css\<close> are the components of the names.\<close>

definition header_ok :: "u32int \<Rightarrow> initrd_file_header_t \<Rightarrow> string list \<Rightarrow> bool" where
  "header_ok sz h cs \<longleftrightarrow> magic h = 0xBF \<and> offset h \<le> sz \<and> hlength h \<le> sz - offset h \<and>
     header_path h = join_slash cs \<and> length (header_path h) < 64 \<and> cs \<noteq> [] \<and> length cs \<le> MAX_PATH_COMPONENTS \<and>
     (\<forall>c \<in> set cs. good_name c)"

lemma join_slash_ends:
  assumes "cs \<noteq> []" "\<forall>c \<in> set cs. good_name c"
  shows "join_slash cs \<noteq> []" "not_slash (hd (join_slash cs))" "not_slash (last (join_slash cs))"
proof -
  obtain c ds where cs: "cs = c # ds" using assms(1) by (cases cs) auto
  show "join_slash cs \<noteq> []" "not_slash (hd (join_slash cs))" using join_slash_hd [of c ds] assms(2) cs by simp_all
  show "not_slash (last (join_slash cs))" using assms
  proof (induction cs rule: join_slash.induct)
    case (2 c)
    then show ?case by (metis good_name_def join_slash.simps(2) last_in_set list.set_intros(1))
  next
    case (3 c d cs)
    then show ?case using join_slash_hd [of d cs] by simp
  qed simp
qed

context node_allocator
begin

lemma add_archived_file_ok:
  assumes "fs_wf (fs_nodes s) (initrd_root s)" "files_wf (fs_nodes s) (file_headers s)"
    "path_free (fs_view (fs_nodes s) (initrd_root s)) [] cs" "i < length (file_headers s)" "i < 4294967296"
    "header_ok sz (file_headers s ! i) cs" "ready (length cs + m) s"
  shows "\<exists>s'. add_archived_file km i s = Some s' \<and> fs_wf (fs_nodes s') (initrd_root s) \<and>
    files_wf (fs_nodes s') (file_headers s) \<and>
    fs_view (fs_nodes s') (initrd_root s) = add_path (fs_view (fs_nodes s) (initrd_root s)) [] cs i \<and> fs_same s s' \<and> ready m s'"
proof -
  have cs: "header_path (file_headers s ! i) = join_slash cs" "length (join_slash cs) < 64" "cs \<noteq> []"
      "0 + length cs \<le> MAX_PATH_COMPONENTS" "\<forall>c \<in> set cs. good_name c"
    using assms(6) by (auto simp: header_ok_def)
  have "add_archived_file km i s = add_components km i (initrd_root s) (join_slash cs) 0 s"
    using join_slash_ends [OF cs(3,5)] assms(4) by (simp add: add_archived_file_def cs(1,2) Let_def)
  then show ?thesis
    using add_components_ok [OF assms(1,2) path_to.here dir_at_root [OF assms(1)] assms(3) cs(5) assms(4,5) cs(4) assms(7)]
    by simp
qed

lemma add_files_ok:
  assumes "fs_wf (fs_nodes s) (initrd_root s)" "files_wf (fs_nodes s) (file_headers s)"
    "all_free (fs_view (fs_nodes s) (initrd_root s)) css i" "i + length css \<le> length (file_headers s)"
    "length (file_headers s) < 4294967296"
    "\<forall>j < length css. header_ok (initrd_end s - initrd_location s) (file_headers s ! (i + j)) (css ! j)"
    "ready (sum_list (map length css)) s"
  shows "\<exists>s'. add_files km i (i + length css) s = Some s' \<and> fs_wf (fs_nodes s') (initrd_root s) \<and>
    files_wf (fs_nodes s') (file_headers s) \<and>
    fs_view (fs_nodes s') (initrd_root s) = add_all (fs_view (fs_nodes s) (initrd_root s)) css i \<and> fs_same s s' \<and> ready 0 s'"
  using assms
proof (induction css arbitrary: s i)
  case Nil
  then show ?case by (simp add: add_files.simps)
next
  case (Cons cs css)
  have h: "header_ok (initrd_end s - initrd_location s) (file_headers s ! i) cs" using Cons.prems(6) by force
  obtain s1 where s1: "add_archived_file km i s = Some s1" "fs_wf (fs_nodes s1) (initrd_root s)"
      "files_wf (fs_nodes s1) (file_headers s)"
      "fs_view (fs_nodes s1) (initrd_root s) = add_path (fs_view (fs_nodes s) (initrd_root s)) [] cs i" "fs_same s s1"
      "ready (sum_list (map length css)) s1"
    using add_archived_file_ok [OF Cons.prems(1,2) _ _ _ h, of "sum_list (map length css)"] Cons.prems by auto
  have same: "initrd_root s1 = initrd_root s" "file_headers s1 = file_headers s" "initrd_end s1 = initrd_end s"
      "initrd_location s1 = initrd_location s" using s1(5) by (auto simp: fs_same_def)
  have hs: "\<forall>j < length css. header_ok (initrd_end s1 - initrd_location s1) (file_headers s1 ! (Suc i + j)) (css ! j)"
    using Cons.prems(6) same by force
  have "\<exists>s'. add_files km (Suc i) (Suc i + length css) s1 = Some s' \<and> fs_wf (fs_nodes s') (initrd_root s1) \<and>
      files_wf (fs_nodes s') (file_headers s1) \<and>
      fs_view (fs_nodes s') (initrd_root s1) = add_all (fs_view (fs_nodes s1) (initrd_root s1)) css (Suc i) \<and> fs_same s1 s' \<and> ready 0 s'"
    by (rule Cons.IH) (use s1 Cons.prems same hs in simp_all)
  then obtain s' where s': "add_files km (Suc i) (i + length (cs # css)) s1 = Some s'" "fs_wf (fs_nodes s') (initrd_root s)"
      "files_wf (fs_nodes s') (file_headers s)"
      "fs_view (fs_nodes s') (initrd_root s) = add_all (add_path (fs_view (fs_nodes s) (initrd_root s)) [] cs i) css (Suc i)"
      "fs_same s1 s'" "ready 0 s'" unfolding same s1(4) by auto
  have "add_files km i (i + length (cs # css)) s = Some s'"
    using h s1(1) s'(1) Cons.prems(4) by (subst add_files.simps) (simp add: header_ok_def)
  then show ?case using s' fs_same_trans [OF s1(5) s'(5)] by auto
qed

lemma fs_wf_root: "a \<noteq> 0 \<Longrightarrow> fs_wf [a \<mapsto> directory_node nm] a"
  by (auto simp: fs_wf_def directory_node_def empty_node_def is_directory_def FS_DIRECTORY_def)

lemma initialise_initrd_ok:
  assumes loc: "location < end_addr" "4 + of_nat INITRD_HEADER_SLOTS * 76 \<le> end_addr - location"
    and hs: "hs = map (\<lambda>i. read_file_header (mem s) (location + 4 + of_nat i * 76)) [0..<INITRD_HEADER_SLOTS]"
    and n: "unat (load32 (mem s) location) = length css" "length css \<le> INITRD_HEADER_SLOTS"
    and ok: "\<forall>j < length css. header_ok (end_addr - location) (hs ! j) (css ! j)"
    and free: "all_free [[] \<mapsto> Dir, [''dev''] \<mapsto> Dir] css 0"
    and empty: "fs_nodes s = Map.empty" and ready: "ready (sum_list (map length css) + 2) s"
  shows "\<exists>root s'. initialise_initrd km location end_addr s = Some (root, s') \<and> initrd_root s' = root \<and>
    fs_wf (fs_nodes s') root \<and> files_wf (fs_nodes s') hs \<and> file_headers s' = hs \<and> initrd_location s' = location \<and>
    initrd_end s' = end_addr \<and> fs_view (fs_nodes s') root = add_all [[] \<mapsto> Dir, [''dev''] \<mapsto> Dir] css 0 \<and> ready 0 s'"
proof -
  let ?s0 = "s\<lparr>initrd_location := location, initrd_end := end_addr, file_headers := hs\<rparr>"
  let ?k = "sum_list (map length css)"
  have r0: "ready (Suc (Suc ?k)) ?s0" using ready_cong [OF ready, of ?s0] by simp
  obtain root s1 where s1: "new_tree_node km ''initrd'' FS_DIRECTORY ?s0
        = Some (root, s1\<lparr>fs_nodes := (fs_nodes ?s0)(root \<mapsto> empty_node\<lparr>node_name := ''initrd'', flags := FS_DIRECTORY\<rparr>)\<rparr>)"
      "root \<noteq> 0" "fs_same ?s0 s1"
      "\<And>s''. \<lbrakk>mem s'' = mem s1; kheap s'' = kheap s1; dom (fs_nodes s'') \<subseteq> insert root (dom (fs_nodes ?s0))\<rbrakk> \<Longrightarrow> ready (Suc ?k) s''"
    by (rule new_node [OF r0, of "''initrd''" FS_DIRECTORY]) (simp, blast)
  let ?s2 = "s1\<lparr>fs_nodes := [root \<mapsto> directory_node ''initrd'']\<rparr>"
  let ?s3 = "?s2\<lparr>initrd_root := root\<rparr>"
  have conf: "configure_directory root (s1\<lparr>fs_nodes := (fs_nodes ?s0)(root \<mapsto> empty_node\<lparr>node_name := ''initrd'', flags := FS_DIRECTORY\<rparr>)\<rparr>)
      = Some ?s2"
    using empty by (simp add: configure_directory_def directory_node_def)
  have wf3: "fs_wf (fs_nodes ?s3) root" using fs_wf_root [OF s1(2)] by simp
  have f3: "finddir_fs (fs_nodes ?s3) root ''dev'' = 0"
    by (simp add: finddir_fs_def initrd_finddir_def find_child_def directory_node_def empty_node_def)
  have r3: "ready (Suc ?k) ?s3" by (rule s1(4)) simp_all
  have gd: "good_name ''dev''" by (simp add: good_name_def)
  have root3: "fs_nodes ?s3 root = Some (directory_node ''initrd'')" by simp
  obtain dev s4 where s4: "do { (x, s) \<leftarrow> new_tree_node km ''dev'' FS_DIRECTORY ?s3; s \<leftarrow> configure_directory x s; s \<leftarrow> attach_child root x s; Some (x, s) }
        = Some (dev, s4)" "extends ?k root root (directory_node ''dev'') dev ?s3 s4" "ready ?k s4"
    by (rule make_directory [OF wf3 root3 made_nodes(1) gd f3 r3])
  have l: "linkable (fs_nodes ?s3) root root dev (directory_node ''dev'')"
    and ns4: "fs_nodes s4 = link (fs_nodes ?s3) root dev (directory_node ''dev'')" and same4: "fs_same ?s3 s4"
    using s4(2) by (auto simp: extends_def)
  let ?s5 = "s4\<lparr>initrd_dev := dev\<rparr>"
  have wf5: "fs_wf (fs_nodes ?s5) root" using fs_wf_link [OF l] ns4 by simp
  have "fs_view (fs_nodes ?s3) root = [[] \<mapsto> Dir]"
  proof
    fix cs
    have "follow [root \<mapsto> directory_node ''initrd''] root cs = 0" if "cs \<noteq> []"
      using that by (cases cs) (auto simp: follow_Cons finddir_fs_def initrd_finddir_def find_child_def)
    then show "fs_view (fs_nodes ?s3) root cs = [[] \<mapsto> Dir] cs"
      using s1(2) by (cases "cs = []") (auto simp: fs_view_def entry_of_def)
  qed
  then have v5: "fs_view (fs_nodes ?s5) root = [[] \<mapsto> Dir, [''dev''] \<mapsto> Dir]"
    using fs_view_link [OF l path_to.here] ns4 by (simp add: entry_of_def)
  have fh: "file_headers ?s5 = hs" "initrd_end ?s5 = end_addr" "initrd_location ?s5 = location" "initrd_root ?s5 = root"
    using same4 s1(3) by (auto simp: fs_same_def)
  have len: "length hs = INITRD_HEADER_SLOTS" using hs by simp
  have "files_wf (fs_nodes ?s3) hs" by (simp add: files_wf_def)
  from files_wf_link [where ns = "fs_nodes ?s3", OF this root3 made_nodes(1), of dev "directory_node ''dev''"]
  have "files_wf (link (fs_nodes ?s3) root dev (directory_node ''dev'')) hs"
    using linkable_fresh(1) [OF l root3] by simp
  then have files5: "files_wf (fs_nodes ?s5) hs" using ns4 by simp
  have r5: "ready ?k ?s5" using ready_cong [OF s4(3), of ?s5] by simp
  have "\<exists>s'. add_files km 0 (0 + length css) ?s5 = Some s' \<and> fs_wf (fs_nodes s') (initrd_root ?s5) \<and>
    files_wf (fs_nodes s') (file_headers ?s5) \<and>
    fs_view (fs_nodes s') (initrd_root ?s5) = add_all (fs_view (fs_nodes ?s5) (initrd_root ?s5)) css 0 \<and> fs_same ?s5 s' \<and> ready 0 s'"
    by (rule add_files_ok) (use wf5 files5 fh v5 free ok n(2) len r5 in \<open>simp_all add: INITRD_HEADER_SLOTS_def\<close>)
  then obtain s' where s': "add_files km 0 (length css) ?s5 = Some s'" "fs_wf (fs_nodes s') root" "files_wf (fs_nodes s') hs"
      "fs_view (fs_nodes s') root = add_all [[] \<mapsto> Dir, [''dev''] \<mapsto> Dir] css 0" "fs_same ?s5 s'" "ready 0 s'"
    unfolding fh v5 by auto
  obtain s4a s4b where steps: "new_tree_node km ''dev'' FS_DIRECTORY ?s3 = Some (dev, s4a)"
      "configure_directory dev s4a = Some s4b" "attach_child root dev s4b = Some s4"
    using s4(1) unfolding bind_Some_iff by (auto simp: bind_Some_iff)
  have "initialise_initrd km location end_addr s = Some (initrd_root s', s')"
    unfolding initialise_initrd_def Let_def hs [symmetric] n(1)
    using loc n(2) s'(1) by (simp add: s1(1) conf [simplified] steps)
  then show ?thesis using s' fh by (auto simp: fs_same_def)
qed

end

section \<open>Reading\<close>

text \<open>The bytes of an archived file.\<close>

definition file_bytes :: "'a fstate_scheme \<Rightarrow> initrd_file_header_t \<Rightarrow> u8int list" where
  "file_bytes s h = map (\<lambda>i. mem s (initrd_location s + offset h + of_nat i)) [0..<unat (hlength h)]"

lemma initrd_read_slice:
  assumes n: "fs_nodes s node = Some k" "unat (inode k) < length (file_headers s)"
    and bs: "bs = take (unat sz) (drop (unat off) (file_bytes s (file_headers s ! unat (inode k))))"
  shows "initrd_read node off sz s = Some (of_nat (length bs), bs)"
proof -
  define h where "h = file_headers s ! unat (inode k)"
  have fb: "bs = take (unat sz) (drop (unat off) (file_bytes s h))" using bs by (simp add: h_def)
  have lenb: "length (file_bytes s h) = unat (hlength h)" by (simp add: file_bytes_def)
  show ?thesis
  proof (cases "hlength h \<le> off")
    case True
    then have "bs = []" using fb lenb by (simp add: word_le_nat_alt)
    then show ?thesis using n True by (simp add: initrd_read_def h_def)
  next
    case False
    define z where "z = (if sz > hlength h - off then hlength h - off else sz)"
    have le: "unat off \<le> unat (hlength h)" using False by (simp add: word_le_nat_alt)
    have uz: "unat z = min (unat sz) (unat (hlength h) - unat off)"
      using le unat_sub32 [OF le] by (auto simp: z_def word_less_nat_alt)
    have m: "map (\<lambda>i. mem s (initrd_location s + offset h + off + of_nat i)) [0..<unat z] = bs"
      by (rule nth_equalityI) (auto simp: fb lenb uz file_bytes_def le ac_simps)
    then have "length bs = unat z" by (metis length_map length_upt minus_nat.diff_0)
    then have "of_nat (length bs) = z" by simp
    moreover have "initrd_read node off sz s = Some (z, map (\<lambda>i. mem s (initrd_location s + offset h + off + of_nat i)) [0..<unat z])"
      using n False by (simp add: initrd_read_def h_def Let_def z_def)
    ultimately show ?thesis using m by simp
  qed
qed

end
