(* ===== verification/KHeap_Total.thy ===== *)
theory KHeap_Total
  imports KHeap_Correct
begin

text \<open>
  Allocation returns (src/kheap.c). When no hole fits, \<open>alloc\<close> maps more pages and tries again;
  a page-aligned request may have to grow three times, because the padding in front of the
  payload is up to 4115 bytes and one growth adds only the pages of the request itself. The
  theory shows that this many attempts suffice when the pages can be mapped and the arena
  and the index have room.
\<close>

section \<open>One growth returns\<close>

lemma publish_growth_returns:
  fixes s :: "'a kstate_scheme"
  assumes s: "kheap s = Some h" and wf: "oa_wf header_t_less_than (index h)"
    and space: "oa_size (index h) < max_size (index h)"
  shows "\<exists>s'. publish_growth ol oe s = Some s' \<and> (\<exists>m h'. s' = s\<lparr>mem := m, kheap := Some h'\<rparr>)"
proof -
  obtain idx where idx: "endmost_from (index h) 0 None 0 = Some idx"
      "idx = None \<or> (\<exists>k. idx = Some k \<and> k < oa_size (index h))"
    using endmost_from_spec [OF wf, of 0 None 0] by auto
  have ins: "\<exists>ix'. insert_ordered_array m x ix = Some ix'"
    if "oa_wf header_t_less_than ix" "oa_size ix < max_size ix" for m x ix
    using hole_index.ins_facts [of ix m x] that by (metis length_entries)
  have rem: "\<exists>ix'. remove_ordered_array k (index h) = Some ix' \<and> oa_wf header_t_less_than ix' \<and>
      oa_size ix' < max_size ix'" if "k < oa_size (index h)" for k
  proof -
    have "k < length (entries (index h))" using that wf by simp
    from hole_index.del_facts [OF wf this, of "mem s"] obtain ix' where
      "remove_ordered_array k (index h) = Some ix'" "oa_wf header_t_less_than ix'"
      "max_size ix' = max_size (index h)" "length (entries ix') + 1 = length (entries (index h))" by metis
    then show ?thesis using wf space by auto
  qed
  show ?thesis
  proof (cases idx)
    case None
    let ?m = "set_footer (set_header (mem s) oe 1 (end_address h - start_address h - ol))
      (oe + (end_address h - start_address h - ol) - 8) oe"
    obtain ix' where "insert_ordered_array ?m oe (index h) = Some ix'" using ins [OF wf space] by blast
    then show ?thesis using s idx(1) None by (auto simp: publish_growth_def Let_def)
  next
    case (Some k)
    then have k: "k < oa_size (index h)" using idx(2) by auto
    let ?e = "entries (index h) ! k"
    have look: "lookup_ordered_array k (index h) = Some ?e" using lookup_entries [OF wf k] .
    obtain ix1 where ix1: "remove_ordered_array k (index h) = Some ix1" "oa_wf header_t_less_than ix1"
        "oa_size ix1 < max_size ix1" using rem [OF k] by blast
    let ?n = "end_address h - start_address h - ol"
    show ?thesis
    proof (cases "?e = 0 \<or> ?e + header_size (mem s) ?e \<noteq> oe")
      case True
      obtain ix' where "insert_ordered_array (set_footer (set_header (mem s) oe 1 ?n) (oe + ?n - 8) oe) oe (index h)
          = Some ix'" using ins [OF wf space] by blast
      then show ?thesis using s idx(1) Some look True by (auto simp: publish_growth_def Let_def)
    next
      case False
      let ?m = "set_header_size (mem s) ?e (header_size (mem s) ?e + ?n)"
      obtain ix' where "insert_ordered_array (set_footer ?m (?e + header_size ?m ?e - 8) ?e) ?e ix1 = Some ix'"
        using ins [OF ix1(2,3)] by blast
      then show ?thesis using s idx(1) Some look ix1(1) False by (auto simp: publish_growth_def Let_def)
    qed
  qed
qed

locale paged_mapper = quiet_mapper map_page
  for map_page :: "bool \<Rightarrow> bool \<Rightarrow> u32int \<Rightarrow> 'a kstate_scheme \<Rightarrow> 'a kstate_scheme option" +
  fixes can_map :: "u32int \<Rightarrow> nat \<Rightarrow> 'a kstate_scheme \<Rightarrow> bool"
  assumes map_ok: "can_map a (Suc k) s \<Longrightarrow> \<exists>s'. map_page su wr a s = Some s' \<and> can_map (a + 0x1000) k s'"
    and can_map_heap: "can_map a k (s\<lparr>mem := m, kheap := h\<rparr>) = can_map a k s"
begin

lemma expand_pages_ok:
  assumes "can_map (start + of_nat i) (q + k) s"
  shows "\<exists>s'. expand_pages (map_page su wr) start i (i + 4096 * q) s = Some s' \<and>
    can_map (start + of_nat (i + 4096 * q)) k s'"
  using assms
proof (induction q arbitrary: i s)
  case 0
  then show ?case by (subst expand_pages.simps) simp
next
  case (Suc q)
  then obtain s1 where s1: "map_page su wr (start + of_nat i) s = Some s1"
      "can_map (start + of_nat i + 0x1000) (q + k) s1"
    using map_ok [of "start + of_nat i" "q + k" s su wr] by auto
  have next_i: "start + of_nat i + 0x1000 = start + of_nat (i + 4096)" by simp
  from Suc.IH [of "i + 4096" s1] s1(2) obtain s' where
    "expand_pages (map_page su wr) start (i + 4096) (i + 4096 * Suc q) s1 = Some s'"
    "can_map (start + of_nat (i + 4096 * Suc q)) k s'"
    unfolding next_i by (auto simp: algebra_simps)
  then show ?case using s1(1) by (subst expand_pages.simps) auto
qed

lemma grow_heap_ok:
  assumes h: "kheap s = Some h" and rep: "heap_rep (mem s) h bs"
    and ns: "0 < unat ns" and q: "q = (unat ns + 4095) div 4096"
    and page: "unat (start_address h) mod 4096 = 0" "unat (end_address h) mod 4096 = 0"
    and room: "unat (end_address h) + 4096 * q \<le> unat (max_address h)"
    and space: "card (holes bs) < max_size (index h)" and can: "can_map (end_address h) (q + k) s"
  obtains s' where "grow_heap map_page ns s = Some s'" "can_map (end_address h + of_nat (4096 * q)) k s'"
    "\<And>h'. kheap s' = Some h' \<Longrightarrow> unat (end_address h') = unat (end_address h) + 4096 * q"
proof -
  let ?S = "unat (start_address h)" and ?E = "unat (end_address h)"
  note rep' = heap_repD [OF rep]
  have SE: "?S < ?E" using rep'(1) by (simp add: word_less_nat_alt)
  define len where "len = end_address h - start_address h"
  have ulen: "unat len = ?E - ?S" using SE by (simp add: len_def unat_sub32)
  have "4096 dvd ?E" "4096 dvd ?S" using page by (simp_all add: mod_eq_0_iff_dvd)
  then have "4096 dvd ?E - ?S" by (rule dvd_diff_nat)
  then obtain p where p: "?E - ?S = 4096 * p" by (auto simp: dvd_def)
  have nsq: "unat ns \<le> 4096 * q" unfolding q by linarith
  have M: "unat (max_address h) < 4294967296" by simp
  have sum: "unat (len + ns) = 4096 * p + unat ns"
    using unat_add32 [of len ns] ulen p nsq room M SE by linarith
  have mx: "unat (max_address h - start_address h) = unat (max_address h) - ?S"
    using room SE by (intro unat_sub32) linarith
  have bound: "len \<le> 0xFFFFFFFF - ns"
  proof -
    have "unat (0xFFFFFFFF - ns) = 4294967295 - unat ns" using unat_sub32 [of ns "0xFFFFFFFF"] by simp
    then show ?thesis unfolding word_le_nat_alt using ulen nsq room M SE by linarith
  qed
  have "4096 * p + 4096 * q < 4294967296" using p room M SE by linarith
  then have pq: "p + q \<le> 1048575" by simp
  have le: "unat (len + ns) \<le> 0xFFFFF000" using sum nsq pq by simp
  have "(4096 * p + unat ns + 4095) div 4096 = p + q"
    unfolding q using div_mult_self2 [of 4096 "unat ns + 4095" p] by (simp add: ac_simps)
  then have ru: "unat (round_up_page (len + ns)) = 4096 * (p + q)"
    using unat_round_up_page [OF le] sum by simp
  have "4096 * p + ?S = ?E" using p SE by linarith
  then have "4096 * (p + q) + ?S \<le> unat (max_address h)" using room by (simp add: distrib_left)
  then have fit: "4096 * (p + q) \<le> unat (max_address h) - ?S" by linarith
  have g: "len + ns > end_address h - start_address h"
    "round_up_page (len + ns) \<le> max_address h - start_address h"
    unfolding len_def [symmetric] word_less_nat_alt word_le_nat_alt sum ulen p ru mx
    using ns fit by auto
  have g2: "len + ns \<le> 0xFFFFF000" using le by (simp add: word_le_nat_alt)
  have E: "start_address h + of_nat (4096 * p) = end_address h" "start_address h + of_nat (4096 * (p + q)) = end_address h + of_nat (4096 * q)"
  proof -
    have "of_nat (4096 * p) = len" by (simp flip: p ulen)
    then show "start_address h + of_nat (4096 * p) = end_address h" by (simp add: len_def)
    then show "start_address h + of_nat (4096 * (p + q)) = end_address h + of_nat (4096 * q)"
      by (simp add: algebra_simps)
  qed
  have pages: "can_map (start_address h + of_nat (4096 * p)) (q + k) s" using can E(1) by simp
  from expand_pages_ok [OF this, of "supervisor h" "\<not> readonly h", folded distrib_left] obtain s1 where
    s1: "expand_pages (map_page (supervisor h) (\<not> readonly h)) (start_address h) (4096 * p) (4096 * (p + q)) s = Some s1"
      "can_map (end_address h + of_nat (4096 * q)) k s1"
    unfolding E(2) by blast
  note quiet = expand_pages_quiet [OF s1(1)]
  let ?h1 = "h\<lparr>end_address := start_address h + round_up_page (len + ns)\<rparr>"
  let ?s1 = "s1\<lparr>kheap := Some ?h1\<rparr>"
  have ex: "expand map_page (len + ns) s = Some ?s1"
    using s1(1) quiet h g g2 ulen p ru by (simp add: expand_def Let_def flip: len_def)
  have "oa_wf header_t_less_than (index ?h1)" "oa_size (index ?h1) < max_size (index ?h1)"
    using rep'(5) index_size [OF rep] space by (simp_all add: index_ok_def)
  then obtain s' m h' where s': "publish_growth len (end_address h) ?s1 = Some s'"
      "s' = ?s1\<lparr>mem := m, kheap := Some h'\<rparr>"
    using publish_growth_returns [of ?s1 ?h1] by force
  have grow: "grow_heap map_page ns s = Some s'"
    using h bound ex s'(1) by (simp add: grow_heap_def Let_def flip: len_def)
  moreover have "can_map (end_address h + of_nat (4096 * q)) k s'"
    using s1(2) s'(2) can_map_heap [where s = s1] by simp
  moreover have "unat (end_address h') = ?E + 4096 * q" if h': "kheap s' = Some h'" for h'
  proof -
    let ?e = "start_address h + round_up_page (len + ns)"
    have "0 < q" unfolding q using ns by (simp add: div_greater_zero_iff)
    then have d20: "20 \<le> 4096 * q" by simp
    have "?S + 4096 * (p + q) = ?E + 4096 * q" using p SE by (simp add: distrib_left)
    then have ue: "unat ?e = ?E + 4096 * q"
      using unat_add32 [of "start_address h" "round_up_page (len + ns)"] room M ru by linarith
    have "unat (of_nat (4096 * q) :: u32int) = 4096 * q" using room M by (intro unat_of_nat32) linarith
    then have "unat (end_address h + of_nat (4096 * q)) = ?E + 4096 * q"
      using unat_add32 [of "end_address h" "of_nat (4096 * q)"] room M by linarith
    then have "?e = end_address h + of_nat (4096 * q)" using ue word32_eq_iff_unat by metis
    then have diff: "?e - start_address h - len = of_nat (4096 * q)" by (simp add: len_def)
    have le_max: "?e \<le> max_address h" using ue room by (simp add: word_le_nat_alt)
    have rep1: "heap_rep (mem ?s1) h bs" "kheap ?s1 = Some ?h1" using rep quiet by simp_all
    show ?thesis
    proof (rule publish_growth_spec [OF s'(1) rep1(2,1) ue le_max diff d20], goal_cases)
      case (1 h'' bs')
      then have "h' = h\<lparr>end_address := ?e, index := index h''\<rparr>" using h' by simp
      then have "end_address h' = ?e" by simp
      then show ?case using ue by simp
    qed
  qed
  ultimately show thesis by (rule that)
qed

end

section \<open>Enough attempts\<close>

definition tail_hole :: "block list \<Rightarrow> nat \<Rightarrow> bool" where
  "tail_hole bs t \<longleftrightarrow> t = 0 \<or> (\<exists>xs a n. bs = xs @ [Block a n True] \<and> t \<le> n)"

lemma tail_hole_grown:
  assumes "grown_blocks h bs d bs'" "tail_hole bs t" "0 < unat (start_address h)"
  shows "tail_hole bs' (t + d)"
  using assms unfolding grown_blocks_def tail_hole_def by fastforce

lemma tail_hole_fits:
  assumes rep: "heap_rep m h bs" and tail: "tail_hole bs t" and t: "k + 20 + 4116 \<le> t"
  shows "\<exists>b \<in> set bs. fitting k al b"
proof -
  obtain xs a n where bs: "bs = xs @ [Block a n True]" "t \<le> n" using tail t by (auto simp: tail_hole_def)
  have "padding al a < 4116"
    using padding_spec(2) [of a al] heap_rep_bounds(3,4) [OF rep, of "Block a n True"] bs(1) by simp
  then have "fitting k al (Block a n True)" using bs(2) t by (simp add: fitting_def)
  then show ?thesis using bs(1) by auto
qed

context paged_mapper
begin

lemma alloc_returns:
  assumes "kheap s = Some h" "heap_rep (mem s) h bs" "0 < sz" "unat sz + 20 < 4294967296"
    and q: "q = (unat sz + 20 + 4095) div 4096"
    and page: "unat (start_address h) mod 4096 = 0" "unat (end_address h) mod 4096 = 0" "0 < unat (start_address h)"
    and room: "unat (end_address h) + 4096 * (g * q) \<le> unat (max_address h)"
    and space: "card (holes bs) + g < max_size (index h)" and can: "can_map (end_address h) (g * q + k) s"
    and tail: "tail_hole bs t" "unat sz + 20 + 4116 \<le> t + g * (4096 * q)"
  shows "\<exists>p s'. alloc map_page (Suc g) sz al s = Some (p, s')"
  using assms
proof (induction g arbitrary: s h bs t)
  case 0
  have "\<exists>b \<in> set bs. fitting (unat sz) al b"
    by (rule tail_hole_fits [OF 0(2,12)]) (use 0(13) in simp)
  with alloc_fits_returns [OF 0(1-4), of al map_page "alloc map_page 0"] 0(10) show ?case by simp
next
  case (Suc g)
  note h = Suc.prems(1) and rep = Suc.prems(2) and sz = Suc.prems(3,4)
  have usz: "unat (sz + 12 + 8) = unat sz + 20" using sz by (simp add: add.assoc unat_add32)
  show ?case
  proof (cases "\<exists>b \<in> set bs. fitting (unat sz) al b")
    case True
    then show ?thesis
      using alloc_fits_returns [OF h rep sz True, of map_page "alloc map_page (Suc g)"] Suc.prems(10) by simp
  next
    case False
    then have step: "alloc map_page (Suc (Suc g)) sz al s
        = do { s \<leftarrow> grow_heap map_page (sz + 12 + 8) s; alloc map_page (Suc g) sz al s }"
      using alloc_body_cases [OF h rep sz, of al map_page "alloc map_page (Suc g)"] by auto
    have ns: "0 < unat (sz + 12 + 8)" "q = (unat (sz + 12 + 8) + 4095) div 4096"
      using usz Suc.prems(5) by simp_all
    have room: "unat (end_address h) + 4096 * q \<le> unat (max_address h)"
      using Suc.prems(9) by (simp add: distrib_left)
    have can: "can_map (end_address h) (q + (g * q + k)) s" using Suc.prems(11) by (simp add: algebra_simps)
    have space: "card (holes bs) < max_size (index h)" using Suc.prems(10) by simp
    obtain s1 where s1: "grow_heap map_page (sz + 12 + 8) s = Some s1"
        "can_map (end_address h + of_nat (4096 * q)) (g * q + k) s1"
        "\<And>h'. kheap s1 = Some h' \<Longrightarrow> unat (end_address h') = unat (end_address h) + 4096 * q"
      using grow_heap_ok [OF h rep ns Suc.prems(6,7) room space can] by blast
    have "20 \<le> unat (sz + 12 + 8)" using usz by simp
    from grow_heap_spec [OF s1(1) h rep this] obtain h1 bs1 d where
      g1: "kheap s1 = Some h1" "heap_rep (mem s1) h1 bs1" "unat (end_address h1) = unat (end_address h) + d"
        "start_address h1 = start_address h" "max_address h1 = max_address h"
        "grown_blocks h bs d bs1" "max_size (index h1) = max_size (index h)" by metis
    have e1: "unat (end_address h1) = unat (end_address h) + 4096 * q" using s1(3) [OF g1(1)] .
    then have d: "d = 4096 * q" using g1(3) by simp
    have "unat (of_nat (4096 * q) :: u32int) = 4096 * q"
      using e1 unat_lt_2_32 [of "end_address h1"] by (intro unat_of_nat32) linarith
    then have e1w: "end_address h1 = end_address h + of_nat (4096 * q)"
      using e1 unat_lt_2_32 [of "end_address h1"] unat_add32 [of "end_address h" "of_nat (4096 * q)"]
      by (metis word32_eq_iff_unat)
    have p1: "unat (start_address h1) mod 4096 = 0" "unat (end_address h1) mod 4096 = 0" "0 < unat (start_address h1)"
      using Suc.prems(6-8) g1(4) e1 by simp_all
    have r1: "unat (end_address h1) + 4096 * (g * q) \<le> unat (max_address h1)"
      using Suc.prems(9) e1 g1(5) by (simp add: algebra_simps)
    have c1: "card (holes bs1) + g < max_size (index h1)"
      using card_holes_grown [OF g1(6)] Suc.prems(10) g1(7) by simp
    have t1: "tail_hole bs1 (t + d)" "unat sz + 20 + 4116 \<le> t + d + g * (4096 * q)"
      using tail_hole_grown [OF g1(6) Suc.prems(12,8)] Suc.prems(13) d by (simp_all add: algebra_simps)
    from Suc.IH [OF g1(1,2) sz Suc.prems(5) p1 r1 c1 s1(2) [folded e1w] t1]
    show ?thesis unfolding step s1(1) by simp
  qed
qed

lemma alloc_total:
  assumes h: "kheap s = Some h" and rep: "heap_rep (mem s) h bs" and sz: "0 < sz" "unat sz + 20 < 4294967296"
    and page: "unat (start_address h) mod 4096 = 0" "unat (end_address h) mod 4096 = 0" "0 < unat (start_address h)"
    and q: "q = (unat sz + 20 + 4095) div 4096"
    and room: "unat (end_address h) + 4096 * (3 * q) \<le> unat (max_address h)"
    and space: "card (holes bs) + 4 \<le> max_size (index h)" and can: "can_map (end_address h) (3 * q) s"
  obtains p s' h' bs' where "alloc map_page 4 sz al s = Some (p, s')" "kheap s' = Some h'"
    "heap_rep (mem s') h' bs'" "alloc_ok (mem s) bs sz al p (mem s') bs'"
proof -
  have "0 < q" unfolding q by (simp add: div_greater_zero_iff)
  moreover have "unat sz + 20 \<le> 4096 * q" unfolding q by linarith
  ultimately have "unat sz + 20 + 4116 \<le> 0 + 3 * (4096 * q)" by linarith
  then have "\<exists>p s'. alloc map_page (Suc 3) sz al s = Some (p, s')"
    using alloc_returns [OF h rep sz q page room, of 0 0 al] space can by (simp add: tail_hole_def)
  then obtain p s' where a: "alloc map_page 4 sz al s = Some (p, s')" by (auto simp: numeral_eq_Suc)
  with alloc_sound [OF _ h rep space] that show thesis by metis
qed

end

end
