(* ===== verification/KHeap_Free.thy ===== *)
theory KHeap_Free
  imports KHeap_Correct
begin

text \<open>
  Release (src/kheap.c, \<open>free\<close>): the freed block is joined with a hole on its left and a hole
  on its right, a hole at the end of the arena gives its whole pages back, and the result
  is indexed again. Between the first write and the last insertion the heap is \<open>pending\<close>: all
  blocks tile the arena and carry their tags, and the index lists every hole but one.
\<close>

section \<open>The pending state\<close>

definition pending ::
  "memory \<Rightarrow> heap_t \<Rightarrow> ordered_array_t \<Rightarrow> block list \<Rightarrow> nat \<Rightarrow> nat \<Rightarrow> block list \<Rightarrow> bool" where
  "pending m h ix xs a n ys \<longleftrightarrow>
     contig (unat (start_address h)) (xs @ Block a n True # ys) (unat (end_address h)) \<and>
     (\<forall>b \<in> set (xs @ Block a n True # ys). tags m b) \<and> index_ok m ix (holes xs \<union> holes ys)"

lemma pendingD:
  assumes "pending m h ix xs a n ys"
  shows "contig (unat (start_address h)) (xs @ Block a n True # ys) (unat (end_address h))"
    "\<And>b. b \<in> set (xs @ Block a n True # ys) \<Longrightarrow> tags m b" "index_ok m ix (holes xs \<union> holes ys)"
  using assms by (auto simp: pending_def)

lemma pending_bounds:
  assumes "pending m h ix xs a n ys" "b \<in> set (xs @ Block a n True # ys)"
  shows "unat (start_address h) \<le> baddr b" "baddr b + bsize b \<le> unat (end_address h)"
    "20 \<le> bsize b" "baddr b + bsize b < 4294967296" "baddr b < 4294967296"
proof -
  note c = contig_mem [OF pendingD(1) [OF assms(1)] assms(2)]
  then show "unat (start_address h) \<le> baddr b" "baddr b + bsize b \<le> unat (end_address h)"
    "20 \<le> bsize b" by auto
  with unat_lt_2_32 [of "end_address h"] show "baddr b + bsize b < 4294967296" by linarith
  then show "baddr b < 4294967296" by linarith
qed

lemma pending_holes_bounds:
  assumes "pending m h ix xs a n ys" shows "\<forall>x \<in> holes xs \<union> holes ys. x < 4294967296"
  using pending_bounds(5) [OF assms] by (auto simp: holes_def)

lemma pending_clear:
  assumes p: "pending m h ix xs a n ys" shows "clear_of (holes xs \<union> holes ys) a (a + n)"
proof -
  have "x + 12 \<le> 4294967296 \<and> (x + 12 \<le> a \<or> a + n \<le> x)" if x: "x \<in> holes xs \<union> holes ys" for x
  proof -
    obtain b where b: "b \<in> set xs \<union> set ys" "baddr b = x" using x unfolding holes_def by blast
    then have "b \<in> set (xs @ Block a n True # ys)" by auto
    from pending_bounds [OF p this] contig_disjoint [OF pendingD(1) [OF p] b(1)] b(2)
    show ?thesis by auto
  qed
  then show ?thesis by (auto simp: clear_of_def)
qed

text \<open>Inserting the missing entry gives a represented heap again.\<close>

lemma pending_insert:
  assumes p: "pending m h ix xs a n ys" and se: "start_address h < end_address h" "end_address h \<le> max_address h"
    and space: "oa_size ix < max_size ix"
  obtains ix' where "insert_ordered_array m (of_nat a) ix = Some ix'"
    "heap_rep m (h\<lparr>index := ix'\<rparr>) (xs @ Block a n True # ys)"
proof -
  have b: "Block a n True \<in> set (xs @ Block a n True # ys)" by simp
  note bd = pending_bounds [OF p b, simplified]
  have "a \<notin> holes xs \<union> holes ys"
  proof
    assume "a \<in> holes xs \<union> holes ys"
    then have "a + 12 \<le> a \<or> a + n \<le> a" using pending_clear [OF p] unfolding clear_of_def by blast
    then show False using bd(3) by simp
  qed
  then obtain ix' where ix': "insert_ordered_array m (of_nat a) ix = Some ix'"
      "index_ok m ix' (insert a (holes xs \<union> holes ys))"
    using index_ok_insert [OF pendingD(3) [OF p] _ bd(5) pending_holes_bounds [OF p] space] by metis
  then have "heap_rep m (h\<lparr>index := ix'\<rparr>) (xs @ Block a n True # ys)"
    using se pendingD(1,2) [OF p] by (simp add: heap_rep_def)
  with ix'(1) show thesis by (rule that)
qed

lemma mark_hole:
  assumes rep: "heap_rep m h (xs @ Block a n False # ys)"
  shows "pending (store8 m (of_nat a + 4) 1) h (index h) xs a n ys"
    "changes_in m (store8 m (of_nat a + 4) 1) a (a + n)"
proof -
  let ?m = "store8 m (of_nat (a + 4)) 1" and ?b = "Block a n False"
  have b: "?b \<in> set (xs @ ?b # ys)" by simp
  note bd = heap_rep_bounds [OF rep b, simplified] and rep' = heap_repD [OF rep]
  have ch: "changes_in m ?m a (a + n)"
    unfolding changes_in_def using bd by (intro conjI same_on_store8) auto
  have s1: "same_on m ?m a (a + 4)" "same_on m ?m (a + 5) (a + n)"
    using bd by (intro same_on_store8; simp)+
  have "load32 ?m (of_nat a) = load32 m (of_nat a)" by (rule same_on_load32 [OF s1(1)]) auto
  moreover have "load32 ?m (of_nat (a + 8)) = load32 m (of_nat (a + 8))"
    by (rule same_on_load32 [OF s1(2)]) (use bd in auto)
  moreover have "load32 ?m (of_nat (a + n - 8)) = load32 m (of_nat (a + n - 8))"
    by (rule same_on_load32 [OF s1(2)]) (use bd in auto)
  moreover have "load32 ?m (of_nat (a + n - 4)) = load32 m (of_nat (a + n - 4))"
    by (rule same_on_load32 [OF s1(2)]) (use bd in auto)
  moreover have "(of_nat (a + n - 8) + 4 :: u32int) = of_nat (a + n - 4)"
    using bd(3) by (simp add: of_nat_diff)
  moreover have "?m (of_nat a + 4) = 1" by (simp add: add.commute)
  ultimately have t: "tags ?m (Block a n True)"
    using rep'(4) [OF b] by (simp add: tags_def header_magic_def header_is_hole_def header_size_def
      footer_magic_def footer_header_def)
  have "tags ?m c" if "c \<in> set xs \<union> set ys" for c
  proof -
    have c: "c \<in> set (xs @ ?b # ys)" using that by auto
    show ?thesis
      by (rule tags_frame [OF rep'(4) [OF c] ch])
        (use heap_rep_bounds(3,4) [OF rep c] contig_disjoint [OF rep'(3) that] in auto)
  qed
  moreover have "index_ok ?m (index h) (holes xs \<union> holes ys)"
    using index_ok_frame [of m "index h" "holes xs \<union> holes ys", OF _ ch] rep'(5)
      heap_rep_clear [OF rep] by (auto simp: clear_of_def)
  ultimately have "pending ?m h (index h) xs a n ys"
    using rep'(3) t by (auto simp: pending_def contig_append)
  then show "pending (store8 m (of_nat a + 4) 1) h (index h) xs a n ys"
    "changes_in m (store8 m (of_nat a + 4) 1) a (a + n)" using ch by (simp_all add: add.commute)
qed

section \<open>Joining two blocks\<close>

lemma find_entry_from_ok:
  assumes "oa_wf lt ix" "it \<le> i" "i < oa_size ix" "entries ix ! i = x"
  shows "\<exists>k. find_entry_from ix x it = Some k \<and> k < oa_size ix \<and> entries ix ! k = x"
  using assms(2)
proof (induction "i - it" arbitrary: it)
  case 0
  then show ?case using assms by (subst find_entry_from.simps) (auto simp: lookup_entries)
next
  case (Suc d)
  then have lt: "it < oa_size ix" "it + 1 \<le> i" "d = i - (it + 1)" using assms(3) by auto
  show ?case
  proof (cases "entries ix ! it = x")
    case True
    then show ?thesis
      using lt assms(1) by (subst find_entry_from.simps) (auto simp: lookup_entries)
  next
    case False
    then show ?thesis
      using Suc.hyps(1) [OF lt(3,2)] lt(1) assms(1)
      by (subst find_entry_from.simps) (auto simp: lookup_entries)
  qed
qed

lemma index_ok_find:
  assumes "index_ok m ix H" "a \<in> H" "\<forall>x \<in> H. x < 4294967296"
  obtains k ix' where "find_entry_from ix (of_nat a) 0 = Some k" "remove_ordered_array k ix = Some ix'"
    "index_ok m ix' (H - {a})" "oa_size ix' + 1 = oa_size ix" "max_size ix' = max_size ix"
proof -
  have wf: "oa_wf header_t_less_than ix" using assms(1) by (simp add: index_ok_def)
  have "of_nat a \<in> set (entries ix)" using assms(1,2) by (simp add: index_ok_def)
  then obtain i where "i < oa_size ix" "entries ix ! i = of_nat a"
    using wf by (auto simp: in_set_conv_nth)
  then obtain k where k: "find_entry_from ix (of_nat a) 0 = Some k" "k < oa_size ix" "entries ix ! k = of_nat a"
    using find_entry_from_ok [OF wf] by blast
  from index_ok_remove [OF assms(1) k(2,3) _ assms(3)] assms(2,3) obtain ix' where
    "remove_ordered_array k ix = Some ix'" "index_ok m ix' (H - {a})"
    "oa_size ix' + 1 = oa_size ix" "max_size ix' = max_size ix" by metis
  with k(1) show thesis by (rule that)
qed

lemma store32_commute:
  assumes "a + 4 \<le> b" "b + 4 \<le> 4294967296"
  shows "store32 (store32 m (of_nat a) v) (of_nat b) w = store32 (store32 m (of_nat b) w) (of_nat a) v"
proof
  fix x :: u32int
  define n where "n = unat x"
  have n: "x = of_nat n" "n < 4294967296" by (simp_all add: n_def)
  show "store32 (store32 m (of_nat a) v) (of_nat b) w x = store32 (store32 m (of_nat b) w) (of_nat a) v x"
  proof (cases "n < a \<or> a + 4 \<le> n")
    case True
    have "store32 m' (of_nat a) v x = m' x" for m'
      unfolding n(1) using True assms n(2) by (intro store32_byte_frame) auto
    then show ?thesis by (simp add: store32_def)
  next
    case False
    have "store32 m' (of_nat b) w x = m' x" for m'
      unfolding n(1) using False assms n(2) by (intro store32_byte_frame) auto
    then show ?thesis by (simp add: store32_def)
  qed
qed

text \<open>Two adjacent blocks become one hole by giving the left header the sum of the sizes and the
  right footer the left header. The two writes commute.\<close>

lemma join_blocks:
  assumes l: "tags m (Block a n True)" "20 \<le> n" and r: "tags m (Block (a + n) k hole)" "20 \<le> k"
    and bd: "a + n + k < 4294967296"
  defines "m' \<equiv> set_footer_header (set_header_size m (of_nat a) (of_nat (n + k)))
    (of_nat (a + n + k - 8)) (of_nat a)"
  shows "tags m' (Block a (n + k) True)" "changes_in m m' a (a + (n + k))"
    "set_header_size (set_footer_header m (of_nat (a + n + k - 8)) (of_nat a)) (of_nat a) (of_nat (n + k)) = m'"
proof -
  let ?m1 = "set_header_size m (of_nat a) (of_nat (n + k))" and ?f = "a + n + k - 8"
  have f4: "(of_nat ?f + 4 :: u32int) = of_nat (?f + 4)" by simp
  have s1: "same_on m ?m1 a (a + 8)" "same_on m ?m1 (a + 12) (a + n + k)"
    using bd l(2) by (intro same_on_set_header_size; simp)+
  have s2: "same_on ?m1 m' a (?f + 4)"
    unfolding m'_def using bd l(2) r(2) by (intro same_on_set_footer_header) auto
  have s12: "same_on m m' a (a + 8)" "same_on m m' (a + 12) (?f + 4)"
    by (rule same_on_trans [OF same_on_sub [OF s1(1)] same_on_sub [OF s2]]; use l(2) r(2) in simp)
      (rule same_on_trans [OF same_on_sub [OF s1(2)] same_on_sub [OF s2]]; use l(2) r(2) in simp)
  have "header_magic m' (of_nat a) = HEAP_MAGIC" "header_is_hole m' (of_nat a) = 1"
    using l(1) same_on_load32 [OF s12(1), of a] s12(1) [unfolded same_on_def, rule_format, of "a + 4"]
    by (simp_all add: tags_def header_magic_def header_is_hole_def)
  moreover have "header_size m' (of_nat a) = of_nat (n + k)"
    using same_on_header_size [OF s2, of a] l(2) r(2) by (simp add: set_header_size_def header_size_def)
  moreover have "footer_magic m' (of_nat ?f) = HEAP_MAGIC"
    using same_on_load32 [OF s12(2), of ?f] l(2) r by (simp add: tags_def footer_magic_def)
  moreover have "footer_header m' (of_nat ?f) = of_nat a"
    by (simp add: m'_def set_footer_header_def footer_header_def)
  ultimately show "tags m' (Block a (n + k) True)" by (simp add: tags_def add.assoc)
  have "changes_in m ?m1 a (a + (n + k))" unfolding changes_in_def
    using bd l(2) by (intro conjI same_on_set_header_size) auto
  also have "changes_in ?m1 m' a (a + (n + k))" unfolding changes_in_def m'_def
    using bd l(2) r(2) by (intro conjI same_on_set_footer_header) auto
  finally show "changes_in m m' a (a + (n + k))" .
  show "set_header_size (set_footer_header m (of_nat ?f) (of_nat a)) (of_nat a) (of_nat (n + k)) = m'"
    unfolding m'_def set_header_size_def set_footer_header_def f4
    using store32_commute [of "a + 8" "?f + 4" m "of_nat (n + k)" "of_nat a"] bd l(2) r(2) by simp
qed

text \<open>The joined hole takes the place of both blocks.\<close>

lemma pending_join:
  assumes p: "\<forall>b \<in> set (xs @ Block a n True # Block (a + n) k hole # ys). tags m b"
      "contig S (xs @ Block a n True # Block (a + n) k hole # ys) (unat (end_address h))"
      "S = unat (start_address h)"
    and ix: "index_ok m ix (holes xs \<union> holes ys)"
    and t: "tags m' (Block a (n + k) True)" and ch: "changes_in m m' a (a + (n + k))"
  shows "pending m' h ix xs a (n + k) ys"
proof -
  let ?bs = "xs @ Block a (n + k) True # ys"
  have c: "contig S ?bs (unat (end_address h))" using p(2) by (auto simp: contig_append add.assoc)
  have bd: "20 \<le> bsize b" "baddr b + bsize b < 4294967296"
      "baddr b + bsize b \<le> a \<or> a + (n + k) \<le> baddr b" if "b \<in> set xs \<union> set ys" for b
  proof -
    have "b \<in> set ?bs" using that by auto
    note mem = contig_mem [OF c this]
    then show "20 \<le> bsize b" by simp
    show "baddr b + bsize b < 4294967296" using mem unat_lt_2_32 [of "end_address h"] by linarith
    show "baddr b + bsize b \<le> a \<or> a + (n + k) \<le> baddr b" using contig_disjoint [OF c that] by simp
  qed
  have "tags m' b" if b: "b \<in> set xs \<union> set ys" for b
    by (rule tags_frame [OF _ ch]) (use p(1) b bd [OF b] in auto)
  moreover have "index_ok m' ix (holes xs \<union> holes ys)"
  proof (rule index_ok_frame [OF ix ch])
    fix x assume "x \<in> holes xs \<union> holes ys"
    then obtain b where "b \<in> set xs \<union> set ys" "baddr b = x" unfolding holes_def by blast
    with bd [of b] show "x + 12 \<le> 4294967296 \<and> (x + 12 \<le> a \<or> a + (n + k) \<le> x)" by auto
  qed
  ultimately show ?thesis using c t p(3) by (auto simp: pending_def)
qed

section \<open>The two merges\<close>

lemma merge_left_none:
  assumes p: "pending m h (index h) xs a n ys" and no: "xs = [] \<or> \<not> bhole (last xs)"
  shows "merge_left (of_nat a) footer h m = Some (of_nat a, m, index h)"
proof (cases "xs = []")
  case True
  then have "a = unat (start_address h)" using pendingD(1) [OF p] by simp
  then show ?thesis by (simp add: merge_left_def)
next
  case False
  then obtain zs b where xs: "xs = zs @ [b]" by (metis rev_exhaust)
  with no have b: "b \<in> set (xs @ Block a n True # ys)" "\<not> bhole b" by simp_all
  have end_b: "baddr b + bsize b = a" using pendingD(1) [OF p] by (auto simp: xs contig_append)
  have "(of_nat a - 8 :: u32int) = of_nat (baddr b + bsize b - 8)"
    using pending_bounds(3) [OF p b(1)] by (simp add: of_nat_diff flip: end_b)
  then have "header_is_hole m (footer_header m (of_nat a - 8)) = 0"
    using pendingD(2) [OF p b(1)] b(2) by (simp add: tags_def)
  then show ?thesis by (simp add: merge_left_def Let_def)
qed

lemma merge_left_hole:
  assumes p: "pending m h (index h) (zs @ [Block c k True]) a n ys"
  obtains m' ix' where
    "merge_left (of_nat a) (of_nat (a + n - 8)) h m = Some (of_nat c, m', ix')"
    "pending m' h ix' zs c (k + n) ys" "changes_in m m' c (c + (k + n))" "c + k = a"
    "oa_size ix' + 1 = oa_size (index h)" "max_size ix' = max_size (index h)"
proof -
  have b: "Block c k True \<in> set ((zs @ [Block c k True]) @ Block a n True # ys)"
      "Block a n True \<in> set ((zs @ [Block c k True]) @ Block a n True # ys)" by simp_all
  have ca: "c + k = a" using pendingD(1) [OF p] by (auto simp: contig_append)
  note bb = pending_bounds [OF p b(1), simplified] and ba = pending_bounds [OF p b(2), simplified]
  note tb = pendingD(2) [OF p b(1)] and ta = pendingD(2) [OF p b(2)]
  have H: "c \<in> holes (zs @ [Block c k True]) \<union> holes ys" by simp
  from index_ok_find [OF pendingD(3) [OF p] H pending_holes_bounds [OF p]] obtain i ix' where
    ix: "find_entry_from (index h) (of_nat c) 0 = Some i" "remove_ordered_array i (index h) = Some ix'"
      "index_ok m ix' (holes (zs @ [Block c k True]) \<union> holes ys - {c})"
      "oa_size ix' + 1 = oa_size (index h)" "max_size ix' = max_size (index h)" by metis
  have "c \<notin> holes zs \<union> holes ys"
    using contig_distinct [OF pendingD(1) [OF p]] by (auto simp: holes_def)
  then have ok: "index_ok m ix' (holes zs \<union> holes ys)" using ix(3) by (simp add: Un_Diff)
  let ?f = "c + k + n - 8"
  have f8: "(of_nat a - 8 :: u32int) = of_nat (c + k - 8)"
    using bb(3) by (simp add: of_nat_diff flip: ca)
  have gt: "of_nat a > start_address h"
    unfolding word_less_nat_alt unat_of_nat32 [OF ba(5)] using bb ca by linarith
  define m1 where "m1 = set_footer_header m (of_nat ?f) (of_nat c)"
  define m' where "m' = set_footer_header (set_header_size m (of_nat c) (of_nat (k + n))) (of_nat ?f) (of_nat c)"
  have t2: "tags m (Block (c + k) n True)" "c + k + n < 4294967296" using ta ba(4) ca by simp_all
  note j = join_blocks [OF tb bb(3) t2(1) ba(3) t2(2), folded m'_def m1_def]
  have hs: "header_size m1 (of_nat c) = of_nat k"
  proof -
    have "same_on m m1 c (c + 12)"
      unfolding m1_def using bb ba ca by (intro same_on_set_footer_header) auto
    then show ?thesis using same_on_header_size [of m m1 c "c + 12" c] tb by (simp add: tags_def)
  qed
  have "merge_left (of_nat a) (of_nat (a + n - 8)) h m = Some (of_nat c, m', ix')"
    using gt tb ta ix(1,2) hs j(3) unfolding merge_left_def Let_def f8
    by (simp add: tags_def m1_def ca [symmetric])
  moreover have "pending m' h ix' zs c (k + n) ys"
    by (rule pending_join [where m = m and hole = True and S = "unat (start_address h)"])
      (use pendingD(1,2) [OF p] ok j(1,2) ca in auto)
  ultimately show thesis using that j(2) ca ix(4,5) by blast
qed

lemma next_header:
  assumes "20 \<le> n" shows "(of_nat (a + n - 8) + 8 :: u32int) = of_nat (a + n)"
proof -
  have "(of_nat (a + n - 8) + 8 :: u32int) = of_nat (a + n - 8 + 8)" by simp
  also have "a + n - 8 + 8 = a + n" using assms by simp
  finally show ?thesis .
qed

lemma merge_right_none:
  assumes p: "pending m h ix xs a n ys" and no: "ys = [] \<or> \<not> bhole (hd ys)"
  shows "merge_right (end_address h) (of_nat a) (of_nat (a + n - 8)) m ix = Some (of_nat (a + n - 8), m, ix)"
proof -
  have b: "Block a n True \<in> set (xs @ Block a n True # ys)" by simp
  note bd = pending_bounds [OF p b, simplified]
  show ?thesis
  proof (cases ys)
    case Nil
    then have "(of_nat (a + n) :: u32int) = end_address h"
      using pendingD(1) [OF p] by (auto simp: contig_append simp del: of_nat_add)
    then show ?thesis unfolding merge_right_def Let_def next_header [OF bd(3)] by simp
  next
    case (Cons b' ws)
    then have b': "b' \<in> set (xs @ Block a n True # ys)" by simp
    have "baddr b' = a + n" using pendingD(1) [OF p] by (auto simp: Cons contig_append)
    then have "header_is_hole m (of_nat (a + n)) = 0"
      using pendingD(2) [OF p b'] no by (simp add: tags_def Cons)
    then show ?thesis unfolding merge_right_def Let_def next_header [OF bd(3)] by simp
  qed
qed

lemma merge_right_hole:
  assumes p: "pending m h ix xs a n (Block c k True # ws)"
  obtains m' ix' where
    "merge_right (end_address h) (of_nat a) (of_nat (a + n - 8)) m ix = Some (of_nat (a + (n + k) - 8), m', ix')"
    "pending m' h ix' xs a (n + k) ws" "changes_in m m' a (a + (n + k))"
    "oa_size ix' + 1 = oa_size ix" "max_size ix' = max_size ix"
proof -
  let ?bs = "xs @ Block a n True # Block c k True # ws"
  have b: "Block c k True \<in> set ?bs" "Block a n True \<in> set ?bs" by simp_all
  have ca: "c = a + n" using pendingD(1) [OF p] by (auto simp: contig_append)
  note bb = pending_bounds [OF p b(1), simplified] and ba = pending_bounds [OF p b(2), simplified]
  note tb = pendingD(2) [OF p b(1)] and ta = pendingD(2) [OF p b(2)]
  have H: "c \<in> holes xs \<union> holes (Block c k True # ws)" by simp
  from index_ok_find [OF pendingD(3) [OF p] H pending_holes_bounds [OF p]] obtain i ix' where
    ix: "find_entry_from ix (of_nat c) 0 = Some i" "remove_ordered_array i ix = Some ix'"
      "index_ok m ix' (holes xs \<union> holes (Block c k True # ws) - {c})"
      "oa_size ix' + 1 = oa_size ix" "max_size ix' = max_size ix" by metis
  have "c \<notin> holes xs \<union> holes ws"
    using contig_distinct [OF pendingD(1) [OF p]] by (auto simp: holes_def)
  then have ok: "index_ok m ix' (holes xs \<union> holes ws)" using ix(3) by simp
  let ?f = "a + n + k - 8"
  define m1 where "m1 = set_header_size m (of_nat a) (of_nat (n + k))"
  define m' where "m' = set_footer_header m1 (of_nat ?f) (of_nat a)"
  have t2: "tags m (Block (a + n) k True)" "a + n + k < 4294967296" using tb bb(4) ca by simp_all
  note j = join_blocks [OF ta ba(3) t2(1) bb(3) t2(2), folded m1_def, folded m'_def]
  have hs: "header_size m1 (of_nat (a + n)) = of_nat k"
  proof -
    have "same_on m m1 c (c + 12)"
      unfolding m1_def using bb ba ca by (intro same_on_set_header_size) auto
    then show ?thesis using same_on_header_size [of m m1 c "c + 12" c] tb ca by (simp add: tags_def)
  qed
  have lt: "(of_nat (a + n) :: u32int) < end_address h"
    unfolding word_less_nat_alt ca [symmetric] unat_of_nat32 [OF bb(5)] using bb by linarith
  have foot: "(of_nat (a + n) + of_nat k - 8 :: u32int) = of_nat ?f"
    using footer_address [of k "a + n"] bb(3) t2(2) by simp
  have sum: "header_size m (of_nat a) + header_size m (of_nat (a + n)) = of_nat (n + k)"
    using ta t2(1) by (simp add: tags_def)
  have mg: "header_magic m (of_nat (a + n)) = HEAP_MAGIC" "header_is_hole m (of_nat (a + n)) = 1"
    using t2(1) by (simp_all add: tags_def)
  have "merge_right (end_address h) (of_nat a) (of_nat (a + n - 8)) m ix = Some (of_nat ?f, m', ix')"
    unfolding merge_right_def Let_def next_header [OF ba(3)] sum mg m1_def [symmetric] hs foot
    using ix(1,2) lt by (simp add: m'_def ca)
  moreover have "pending m' h ix' xs a (n + k) ws"
    by (rule pending_join [where m = m and hole = True and S = "unat (start_address h)"])
      (use pendingD(1,2) [OF p] ok j(1,2) ca in auto)
  ultimately show thesis using that j(2) ix(4,5) by (simp add: add.assoc)
qed

definition join_left :: "block list \<Rightarrow> nat \<Rightarrow> nat \<Rightarrow> block list \<times> nat \<times> nat" where
  "join_left xs a n = (if xs \<noteq> [] \<and> bhole (last xs)
     then (butlast xs, baddr (last xs), bsize (last xs) + n) else (xs, a, n))"

definition join_right :: "nat \<Rightarrow> block list \<Rightarrow> nat \<times> block list" where
  "join_right n ys = (if ys \<noteq> [] \<and> bhole (hd ys) then (n + bsize (hd ys), tl ys) else (n, ys))"

lemma merge_left_spec:
  assumes p: "pending m h (index h) xs a n ys" and j: "join_left xs a n = (xs', a', n')"
  obtains m' ix' where
    "merge_left (of_nat a) (of_nat (a + n - 8)) h m = Some (of_nat a', m', ix')"
    "pending m' h ix' xs' a' n' ys" "changes_in m m' a' (a' + n')" "a' + n' = a + n" "a' \<le> a"
    "oa_size ix' \<le> oa_size (index h)" "max_size ix' = max_size (index h)"
proof (cases "xs \<noteq> [] \<and> bhole (last xs)")
  case True
  then have xs: "xs = butlast xs @ [Block (baddr (last xs)) (bsize (last xs)) True]"
    by (metis append_butlast_last_id block.collapse)
  have "pending m h (index h) (butlast xs @ [Block (baddr (last xs)) (bsize (last xs)) True]) a n ys"
    using p xs by simp
  then show thesis
  proof (rule merge_left_hole, goal_cases)
    case (1 m' ix')
    with True j show ?case by (intro that [of m' ix']) (auto simp: join_left_def)
  qed
next
  case False
  then have "merge_left (of_nat a) (of_nat (a + n - 8)) h m = Some (of_nat a, m, index h)"
    using merge_left_none [OF p] by simp
  with False show thesis using that [of m "index h"] p j by (auto simp: join_left_def)
qed

lemma merge_right_spec:
  assumes p: "pending m h ix xs a n ys" and j: "join_right n ys = (n', ys')"
  obtains m' ix' where
    "merge_right (end_address h) (of_nat a) (of_nat (a + n - 8)) m ix = Some (of_nat (a + n' - 8), m', ix')"
    "pending m' h ix' xs a n' ys'" "changes_in m m' a (a + n')" "n \<le> n'"
    "oa_size ix' \<le> oa_size ix" "max_size ix' = max_size ix"
proof (cases "ys \<noteq> [] \<and> bhole (hd ys)")
  case True
  then have ys: "ys = Block (baddr (hd ys)) (bsize (hd ys)) True # tl ys"
    by (metis list.collapse block.collapse)
  have "pending m h ix xs a n (Block (baddr (hd ys)) (bsize (hd ys)) True # tl ys)" using p ys by simp
  then show thesis
  proof (rule merge_right_hole, goal_cases)
    case (1 m' ix')
    with True j show ?case by (intro that [of m' ix']) (auto simp: join_right_def)
  qed
next
  case False
  then show thesis using that [of m ix] merge_right_none [OF p] p j by (auto simp: join_right_def)
qed

section \<open>Giving pages back\<close>

definition tail_end :: "nat \<Rightarrow> nat \<Rightarrow> nat" where
  "tail_end S a = S + max ((a - S + 4095) div 4096 * 4096) (unat HEAP_MIN_SIZE)"

locale page_releaser =
  fixes unmap_page :: "u32int \<Rightarrow> 'a kstate_scheme \<Rightarrow> 'a kstate_scheme option"
    and ready :: "u32int \<Rightarrow> 'a kstate_scheme \<Rightarrow> bool"
  assumes unmap_ok: "ready a s \<Longrightarrow> \<exists>s'. unmap_page a s = Some s' \<and> mem s' = mem s \<and> kheap s' = kheap s \<and>
      (\<forall>b. ready b s \<longrightarrow> ready b s')"
    and ready_heap: "ready a (s\<lparr>mem := m, kheap := k\<rparr>) \<longleftrightarrow> ready a s"
begin

lemma contract_pages_ok:
  assumes "\<forall>j \<le> i. ready (start + of_nat j) s" "0x1000 \<le> n"
  shows "\<exists>s'. contract_pages unmap_page start i n s = Some s' \<and> mem s' = mem s \<and> kheap s' = kheap s"
  using assms(1)
proof (induction i arbitrary: s rule: less_induct)
  case (less i)
  show ?case
  proof (cases "n \<le> i")
    case True
    obtain s1 where s1: "unmap_page (start + of_nat i) s = Some s1" "mem s1 = mem s" "kheap s1 = kheap s"
        "\<forall>b. ready b s \<longrightarrow> ready b s1"
      using unmap_ok [of "start + of_nat i" s] less.prems by blast
    have "i - 0x1000 < i" "\<not> i < 0x1000" using True assms(2) by auto
    then show ?thesis
      using less.IH [of "i - 0x1000" s1] less.prems s1 True by (subst contract_pages.simps) auto
  next
    case False
    then show ?thesis by (subst contract_pages.simps) simp
  qed
qed

lemma contract_ok:
  assumes h: "kheap s = Some h" and a: "unat (start_address h) \<le> a" "a < unat (end_address h)"
    and len: "(unat (end_address h) - unat (start_address h)) mod 4096 = 0"
      "unat HEAP_MIN_SIZE \<le> unat (end_address h) - unat (start_address h)"
    and ready: "\<forall>x. start_address h \<le> x \<and> x < end_address h \<longrightarrow> ready x s"
  defines "e \<equiv> tail_end (unat (start_address h)) a"
  obtains s' where "contract unmap_page (of_nat a - start_address h) s
      = Some (of_nat (e - unat (start_address h)), s')" "mem s' = mem s"
    "kheap s' = Some (h\<lparr>end_address := of_nat e\<rparr>)" "a \<le> e" "e \<le> unat (end_address h)"
proof -
  let ?S = "unat (start_address h)" and ?E = "unat (end_address h)"
  have E: "?E < 4294967296" by simp
  have min: "unat HEAP_MIN_SIZE = 458752" by (simp add: HEAP_MIN_SIZE_def)
  have ua: "unat (of_nat a :: u32int) = a" using a(2) E by (intro unat_of_nat32) linarith
  have uo: "unat (of_nat a - start_address h) = a - ?S" using a ua by (simp add: unat_sub32)
  have uL: "unat (end_address h - start_address h) = ?E - ?S" using a by (intro unat_sub32) linarith
  define r where "r = (a - ?S + 4095) div 4096 * 4096"
  obtain q where q: "?E - ?S = 4096 * q" using len(1) by (auto simp: mod_eq_0_iff_dvd)
  have "a - ?S < 4096 * q" using a q by linarith
  then have "a - ?S + 4095 < Suc q * 4096" by simp
  then have "(a - ?S + 4095) div 4096 < Suc q" by (rule less_mult_imp_div_less)
  then have "(a - ?S + 4095) div 4096 \<le> q" by simp
  then have r: "a - ?S \<le> r" "r \<le> ?E - ?S" unfolding r_def q by linarith+
  have "4096 * q < 4294967296" using q E by linarith
  then have "q \<le> 1048575" by simp
  then have "unat (of_nat a - start_address h) \<le> 0xFFFFF000" using uo \<open>a - ?S < 4096 * q\<close> by simp
  then have ur: "unat (round_up_page (of_nat a - start_address h)) = r"
    using unat_round_up_page uo r_def by simp
  let ?N = "if round_up_page (of_nat a - start_address h) < HEAP_MIN_SIZE then HEAP_MIN_SIZE
    else round_up_page (of_nat a - start_address h)"
  have uN: "unat ?N = e - ?S"
    using ur by (auto simp: e_def tail_end_def r_def word_less_nat_alt)
  have e_eq: "e = ?S + max r 458752" by (simp only: e_def tail_end_def r_def min)
  have e: "a \<le> e" "e \<le> ?E" "?S + 458752 \<le> e"
    unfolding e_eq using r len(2) a min by linarith+
  have N: "?N = of_nat (e - ?S)" unfolding uN [symmetric] by simp
  have "ready (start_address h + of_nat j) s" if j: "j \<le> unat (end_address h - start_address h - 0x1000)" for j
  proof -
    have "j < ?E - ?S" using j uL q len(2) min a by (simp add: unat_sub32)
    then have "?S + j < ?E" "j < 4294967296" using E by linarith+
    then have uj: "unat (of_nat j :: u32int) = j" by (intro unat_of_nat32)
    have "unat (start_address h + of_nat j) = ?S + j"
      using unat_add32 [of "start_address h" "of_nat j"] \<open>?S + j < ?E\<close> E uj by linarith
    then show ?thesis
      using ready \<open>?S + j < ?E\<close> by (simp add: word_le_nat_alt word_less_nat_alt)
  qed
  then have all_ready: "\<forall>j \<le> unat (end_address h - start_address h - 0x1000). ready (start_address h + of_nat j) s"
    by blast
  have "0x1000 \<le> unat ?N" using e(3) uN by linarith
  from contract_pages_ok [OF all_ready this] obtain s1 where s1: "contract_pages unmap_page (start_address h)
        (unat (end_address h - start_address h - 0x1000)) (unat ?N) s = Some s1" "mem s1 = mem s" "kheap s1 = kheap s"
    by blast
  have end': "start_address h + of_nat (e - ?S) = of_nat e"
    using e(3) by (simp add: of_nat_diff)
  have "of_nat a - start_address h < end_address h - start_address h"
    using uo uL a by (simp add: word_less_nat_alt)
  then have "contract unmap_page (of_nat a - start_address h) s
      = Some (of_nat (e - ?S), s1\<lparr>kheap := Some (h\<lparr>end_address := of_nat e\<rparr>)\<rparr>)"
    using s1 h unfolding contract_def Let_def N by (simp add: end')
  then show thesis using that s1(2) e(1,2) by simp
qed

lemma release_tail_ok:
  assumes s: "kheap s = Some (h\<lparr>index := ix\<rparr>)" and p: "pending (mem s) h ix xs a n []"
    and len: "(unat (end_address h) - unat (start_address h)) mod 4096 = 0"
      "unat HEAP_MIN_SIZE \<le> unat (end_address h) - unat (start_address h)"
    and ready: "\<forall>x. start_address h \<le> x \<and> x < end_address h \<longrightarrow> ready x s"
  defines "e \<equiv> tail_end (unat (start_address h)) a"
  assumes keep: "e = a \<or> a + 20 \<le> e"
  obtains s' where "release_tail unmap_page (of_nat a) (of_nat (a + n - 8)) s = Some (e \<noteq> a, s')"
    "kheap s' = Some (h\<lparr>end_address := of_nat e, index := ix\<rparr>)"
    "if e = a then mem s' = mem s
     else pending (mem s') (h\<lparr>end_address := of_nat e\<rparr>) ix xs a (e - a) []"
    "changes_in (mem s) (mem s') a (a + n)" "a \<le> e" "e \<le> unat (end_address h)"
proof -
  let ?S = "unat (start_address h)" and ?E = "unat (end_address h)" and ?h = "h\<lparr>index := ix\<rparr>"
  have b: "Block a n True \<in> set (xs @ [Block a n True])" by simp
  note bd = pending_bounds [OF p b, simplified]
  have an: "a + n = ?E" "contig ?S xs a" using pendingD(1) [OF p] by (auto simp: contig_append)
  have lt: "a < ?E" using an(1) bd(3) by linarith
  have h: "kheap s = Some ?h" "start_address ?h = start_address h" "end_address ?h = end_address h"
    using s by simp_all
  obtain s1 where c: "contract unmap_page (of_nat a - start_address h) s = Some (of_nat (e - ?S), s1)"
      "mem s1 = mem s" "kheap s1 = Some (h\<lparr>end_address := of_nat e, index := ix\<rparr>)"
      and e: "a \<le> e" "e \<le> ?E"
  proof (rule contract_ok [OF h(1), unfolded h(2,3), OF bd(1) lt len ready, folded e_def], goal_cases)
    case (1 s1)
    from 1(2-) show ?case by (intro 1(1) [of s1]) simp_all
  qed
  have atE: "(of_nat (a + n) :: u32int) = end_address h" using an(1) by (simp del: of_nat_add)
  have hs: "header_size (mem s) (of_nat a) = of_nat n" using pendingD(2) [OF p b] by (simp add: tags_def)
  have diff: "end_address h - start_address h - of_nat (e - ?S) = of_nat (?E - e)"
    using e bd(1) by (simp add: of_nat_diff)
  have un: "unat (of_nat n :: u32int) = n" "unat (of_nat (?E - e) :: u32int) = ?E - e"
    using bd(4) unat_lt_2_32 [of "end_address h"] by (intro unat_of_nat32; linarith)+
  have more: "(of_nat (?E - e) :: u32int) < of_nat n \<longleftrightarrow> e \<noteq> a"
    unfolding word_less_nat_alt un using an(1) e by linarith
  have body: "release_tail unmap_page (of_nat a) (of_nat (a + n - 8)) s =
     (if e \<noteq> a
      then (let m = set_header_size (mem s) (of_nat a) (of_nat n - of_nat (?E - e));
                m = set_footer m (of_nat a + header_size m (of_nat a) - 8) (of_nat a)
            in Some (True, s1\<lparr>mem := m\<rparr>))
      else Some (False, s1))"
    unfolding release_tail_def h(1) bind.simps next_header [OF bd(3)] h(2,3) Let_def atE c(1)
    by (simp add: c(2) hs diff more)
  show thesis
  proof (cases "e = a")
    case True
    then show thesis using that [of s1] body c e by simp
  next
    case False
    then have k20: "20 \<le> e - a" using keep by linarith
    have k: "(of_nat n - of_nat (?E - e) :: u32int) = of_nat (e - a)"
      using an(1) e bd(3) by (simp add: of_nat_diff algebra_simps flip: an(1))
    let ?m1 = "set_header_size (mem s) (of_nat a) (of_nat (e - a))"
    let ?m = "set_footer ?m1 (of_nat (a + (e - a) - 8)) (of_nat a)"
    have ek: "a + (e - a) = e" "a + (e - a) \<le> 4294967296"
      using e unat_lt_2_32 [of "end_address h"] by linarith+
    have foot: "(of_nat a + of_nat (e - a) - 8 :: u32int) = of_nat (a + (e - a) - 8)"
      using footer_address [of "e - a" a] k20 ek by simp
    have hs1: "header_size ?m1 (of_nat a) = of_nat (e - a)"
      by (simp add: header_size_def set_header_size_def)
    have r: "release_tail unmap_page (of_nat a) (of_nat (a + n - 8)) s = Some (True, s1\<lparr>mem := ?m\<rparr>)"
      unfolding body k Let_def hs1 foot using False by simp
    have t: "tags ?m (Block a (e - a) True)"
      by (rule tags_resized) (use pendingD(2) [OF p b] k20 ek in \<open>simp_all add: tags_def\<close>)
    have "changes_in (mem s) ?m1 a (a + n)" unfolding changes_in_def
      using bd by (intro conjI same_on_set_header_size) auto
    also have "changes_in ?m1 ?m a (a + n)"
      by (rule changes_in_mono [OF changes_in_set_footer]) (use e ek k20 an(1) in auto)
    finally have ch: "changes_in (mem s) ?m a (a + n)" .
    have ue: "unat (of_nat e :: u32int) = e"
      using e unat_lt_2_32 [of "end_address h"] by (intro unat_of_nat32) linarith
    have "tags ?m b'" if b': "b' \<in> set xs" for b'
    proof -
      have in_bs: "b' \<in> set (xs @ [Block a n True])" using b' by simp
      show ?thesis by (rule tags_frame [OF pendingD(2) [OF p in_bs] ch])
          (use pending_bounds(3,4) [OF p in_bs] contig_mem [OF an(2) b'] in auto)
    qed
    moreover have "index_ok ?m ix (holes xs)"
      using index_ok_frame [OF _ ch, of ix "holes xs"] pendingD(3) [OF p] pending_clear [OF p]
      by (simp add: clear_of_def)
    moreover have "contig ?S (xs @ [Block a (e - a) True]) e"
      using an(2) k20 ek(1) by (auto simp: contig_append)
    ultimately have "pending ?m (h\<lparr>end_address := of_nat e\<rparr>) ix xs a (e - a) []"
      using t ue by (auto simp: pending_def)
    then show thesis using that [of "s1\<lparr>mem := ?m\<rparr>"] r c ch e False by simp
  qed
qed

end

section \<open>The whole of \<open>free\<close>\<close>

text \<open>The blocks after freeing the block at \<open>a\<close>, and the end of the arena.\<close>

definition freed_blocks :: "nat \<Rightarrow> nat \<Rightarrow> block list \<Rightarrow> nat \<Rightarrow> nat \<Rightarrow> block list \<Rightarrow> block list \<times> nat" where
  "freed_blocks S E xs a n ys =
     (let (xs, a, n) = join_left xs a n; (n, ys) = join_right n ys
      in if ys \<noteq> [] then (xs @ Block a n True # ys, E)
         else if tail_end S a = a then (xs, a)
         else (xs @ [Block a (tail_end S a - a) True], tail_end S a))"

text \<open>The case in which the code leaves less than a minimal hole at the end.\<close>

definition short_tail :: "nat \<Rightarrow> block list \<Rightarrow> nat \<Rightarrow> nat \<Rightarrow> block list \<Rightarrow> bool" where
  "short_tail S xs a n ys \<longleftrightarrow>
     (let (xs, a, n) = join_left xs a n; (n, ys) = join_right n ys
      in ys = [] \<and> a < tail_end S a \<and> tail_end S a < a + 20)"

text \<open>The steps of \<open>free\<close> after the two merges.\<close>

definition settle ::
  "(u32int \<Rightarrow> 'a kstate_scheme \<Rightarrow> 'a kstate_scheme option) \<Rightarrow> u32int \<Rightarrow> u32int
     \<Rightarrow> 'a kstate_scheme \<Rightarrow> 'a kstate_scheme option" where
  "settle unmap_page header footer s = do {
     (do_add, s) \<leftarrow> release_tail unmap_page header footer s;
     h \<leftarrow> kheap s;
     ix \<leftarrow> (if do_add then insert_ordered_array (mem s) header (index h) else Some (index h));
     let h = h\<lparr>index := ix\<rparr>;
     heap_validate (mem s) h;
     Some (s\<lparr>kheap := Some h\<rparr>) }"

lemma free_guards:
  assumes h: "kheap s = Some h" and rep: "heap_rep (mem s) h (xs @ Block a n False # ys)"
  shows "free unmap_page (of_nat (a + 12)) s = do {
     (header, m, ix) \<leftarrow> merge_left (of_nat a) (of_nat (a + n - 8)) h (store8 (mem s) (of_nat a + 4) 1);
     (footer, m, ix) \<leftarrow> merge_right (end_address h) header (of_nat (a + n - 8)) m ix;
     settle unmap_page header footer (s\<lparr>mem := m, kheap := Some (h\<lparr>index := ix\<rparr>)\<rparr>) }"
proof -
  let ?b = "Block a n False" and ?p = "of_nat (a + 12) :: u32int"
  have b: "?b \<in> set (xs @ ?b # ys)" by simp
  note bd = heap_rep_bounds [OF rep b, simplified] and t = heap_repD(4) [OF rep b, unfolded tags_def, simplified]
  have u: "unat ?p = a + 12" "unat (of_nat a :: u32int) = a" "unat (of_nat n :: u32int) = n"
    using bd by (intro unat_of_nat32; linarith)+
  have hd: "?p - 12 = of_nat a" by simp
  have g: "?p \<noteq> 0" "start_address h + 12 \<le> ?p" "?p < end_address h" "(20 :: u32int) \<le> of_nat n"
    "of_nat n \<le> end_address h - of_nat a"
  proof -
    show "?p \<noteq> 0" using u(1) by (metis add_is_0 unat_0 zero_neq_numeral)
    have "unat (start_address h + 12) = unat (start_address h) + 12"
      using bd by (subst unat_add32) auto
    then show "start_address h + 12 \<le> ?p" unfolding word_le_nat_alt u using bd by linarith
    show "?p < end_address h" unfolding word_less_nat_alt u using bd by linarith
    show "(20 :: u32int) \<le> of_nat n" unfolding word_le_nat_alt u using bd by simp
    have "unat (end_address h - of_nat a) = unat (end_address h) - a" using bd u(2) by (subst unat_sub32) auto
    then show "of_nat n \<le> end_address h - of_nat a" unfolding word_le_nat_alt u using bd by linarith
  qed
  have f: "of_nat a + of_nat n - 8 = (of_nat (a + n - 8) :: u32int)"
    using footer_address [of n a] bd by simp
  have sz: "header_size (mem s) (of_nat a) = of_nat n" "header_magic (mem s) (of_nat a) = HEAP_MAGIC"
    "header_is_hole (mem s) (of_nat a) = 0" "footer_magic (mem s) (of_nat (a + n - 8)) = HEAP_MAGIC"
    using t by simp_all
  show ?thesis
    unfolding free_def settle_def h bind.simps heap_validate_complete [OF rep] Let_def hd sz f
    using g by simp
qed

lemma joined_allocated:
  assumes "join_left xs a n = (xs1, a1, n1)" "join_right n1 ys = (n2, ys1)"
  shows "allocated xs1 = allocated xs" "allocated ys1 = allocated ys"
    "set xs1 \<subseteq> set xs" "set ys1 \<subseteq> set ys"
proof -
  have "allocated xs = allocated (butlast xs) \<union> allocated [last xs]" if "xs \<noteq> []"
    using that by (metis allocated_simps(3) append_butlast_last_id)
  then show "allocated xs1 = allocated xs" using assms(1) by (auto simp: join_left_def split: if_splits)
  show "allocated ys1 = allocated ys"
    using assms(2) by (cases ys) (auto simp: join_right_def split: if_splits)
  show "set xs1 \<subseteq> set xs" using assms(1) by (auto simp: join_left_def dest: in_set_butlastD split: if_splits)
  show "set ys1 \<subseteq> set ys" using assms(2) by (auto simp: join_right_def dest: list.set_sel(2) split: if_splits)
qed

context page_releaser
begin

text \<open>The part of \<open>free\<close> after the two merges.\<close>

lemma free_finish:
  fixes s :: "'a kstate_scheme"
  assumes s: "kheap s = Some (h\<lparr>index := ix\<rparr>)" and p: "pending (mem s) h ix xs a n ys"
    and se: "start_address h < end_address h" "end_address h \<le> max_address h"
    and len: "(unat (end_address h) - unat (start_address h)) mod 4096 = 0"
      "unat HEAP_MIN_SIZE \<le> unat (end_address h) - unat (start_address h)"
    and ready: "\<forall>x. start_address h \<le> x \<and> x < end_address h \<longrightarrow> ready x s"
    and space: "oa_size ix < max_size ix"
  defines "e \<equiv> tail_end (unat (start_address h)) a"
  assumes keep: "ys = [] \<Longrightarrow> e = a \<or> a + 20 \<le> e"
  defines "r \<equiv> (if ys \<noteq> [] then (xs @ Block a n True # ys, unat (end_address h))
         else if e = a then (xs, a) else (xs @ [Block a (e - a) True], e))"
  obtains s' h' where
    "settle unmap_page (of_nat a) (of_nat (a + n - 8)) s = Some s'"
    "kheap s' = Some h'" "heap_rep (mem s') h' (fst r)" "unat (end_address h') = snd r"
    "start_address h' = start_address h" "max_address h' = max_address h"
    "changes_in (mem s) (mem s') a (a + n)"
proof (cases "ys = []")
  case False
  have b: "Block a n True \<in> set (xs @ Block a n True # ys)" by simp
  note bd = pending_bounds [OF p b, simplified]
  obtain c ws where ys: "ys = c # ws" using False by (cases ys) auto
  then have cb: "c \<in> set (xs @ Block a n True # ys)" by simp
  have "baddr c = a + n" using pendingD(1) [OF p] by (auto simp: ys contig_append)
  then have lt: "a + n < unat (end_address h)" using pending_bounds [OF p cb] by linarith
  have ne: "(of_nat (a + n) :: u32int) \<noteq> end_address h" using lt bd(4) by (metis less_irrefl unat_of_nat32)
  have rel: "release_tail unmap_page (of_nat a) (of_nat (a + n - 8)) s = Some (True, s)"
    unfolding release_tail_def s bind.simps next_header [OF bd(3)] using ne by simp
  obtain ix' where ix': "insert_ordered_array (mem s) (of_nat a) ix = Some ix'"
      "heap_rep (mem s) (h\<lparr>index := ix'\<rparr>) (xs @ Block a n True # ys)"
    using pending_insert [OF p se space] by metis
  have "settle unmap_page (of_nat a) (of_nat (a + n - 8)) s = Some (s\<lparr>kheap := Some (h\<lparr>index := ix'\<rparr>)\<rparr>)"
    using rel s ix' heap_validate_complete [OF ix'(2)] by (simp add: settle_def)
  then show thesis
    by (rule that [where h' = "h\<lparr>index := ix'\<rparr>"]) (use ix'(2) False in \<open>simp_all add: r_def\<close>)
next
  case True
  have p0: "pending (mem s) h ix xs a n []" using p True by simp
  have b: "Block a n True \<in> set (xs @ [Block a n True])" by simp
  note bd = pending_bounds [OF p0 b, simplified]
  obtain s1 where s1: "release_tail unmap_page (of_nat a) (of_nat (a + n - 8)) s = Some (e \<noteq> a, s1)"
    "kheap s1 = Some (h\<lparr>end_address := of_nat e, index := ix\<rparr>)"
    "if e = a then mem s1 = mem s
     else pending (mem s1) (h\<lparr>end_address := of_nat e\<rparr>) ix xs a (e - a) []"
    "changes_in (mem s) (mem s1) a (a + n)" "a \<le> e" "e \<le> unat (end_address h)"
    by (rule release_tail_ok [OF s p0 len ready, folded e_def, OF keep [OF True]])
  have ue: "unat (of_nat e :: u32int) = e"
    using s1(6) unat_lt_2_32 [of "end_address h"] by (intro unat_of_nat32) linarith
  let ?h1 = "h\<lparr>end_address := of_nat e\<rparr>"
  have "unat HEAP_MIN_SIZE = 458752" by (simp add: HEAP_MIN_SIZE_def)
  then have "unat (start_address h) < e" by (simp add: e_def tail_end_def)
  then have se1: "start_address ?h1 < end_address ?h1" "end_address ?h1 \<le> max_address ?h1"
    using ue se(2) s1(6) by (simp_all add: word_less_nat_alt word_le_nat_alt)
  show thesis
  proof (cases "e = a")
    case True
    have "contig (unat (start_address h)) xs a" using pendingD(1) [OF p0] by (auto simp: contig_append)
    then have rep: "heap_rep (mem s1) (?h1\<lparr>index := ix\<rparr>) xs"
      using pendingD(2,3) [OF p0] s1(3) ue True se1 by (auto simp: heap_rep_def)
    have "settle unmap_page (of_nat a) (of_nat (a + n - 8)) s = Some (s1\<lparr>kheap := Some (?h1\<lparr>index := ix\<rparr>)\<rparr>)"
      using s1 True heap_validate_complete [OF rep] by (simp add: settle_def)
    then show thesis
      by (rule that [where h' = "?h1\<lparr>index := ix\<rparr>"]) (use rep ue True \<open>ys = []\<close> s1(4) in \<open>simp_all add: r_def\<close>)
  next
    case False
    have p1: "pending (mem s1) ?h1 ix xs a (e - a) []" using s1(3) False by simp
    obtain ix' where ix': "insert_ordered_array (mem s1) (of_nat a) ix = Some ix'"
        "heap_rep (mem s1) (?h1\<lparr>index := ix'\<rparr>) (xs @ [Block a (e - a) True])"
      using pending_insert [OF p1 se1 space] by metis
    have "settle unmap_page (of_nat a) (of_nat (a + n - 8)) s = Some (s1\<lparr>kheap := Some (?h1\<lparr>index := ix'\<rparr>)\<rparr>)"
      using s1 False ix' heap_validate_complete [OF ix'(2)] by (simp add: settle_def)
    then show thesis
      by (rule that [where h' = "?h1\<lparr>index := ix'\<rparr>"]) (use ix'(2) ue False \<open>ys = []\<close> s1(4) in \<open>simp_all add: r_def\<close>)
  qed
qed

lemma free_ok:
  fixes s :: "'a kstate_scheme"
  assumes h: "kheap s = Some h" and rep: "heap_rep (mem s) h (xs @ Block a n False # ys)"
    and len: "(unat (end_address h) - unat (start_address h)) mod 4096 = 0"
      "unat HEAP_MIN_SIZE \<le> unat (end_address h) - unat (start_address h)"
    and ready: "\<forall>x. start_address h \<le> x \<and> x < end_address h \<longrightarrow> ready x s"
    and space: "card (holes (xs @ ys)) < max_size (index h)"
    and tail: "\<not> short_tail (unat (start_address h)) xs a n ys"
  defines "r \<equiv> freed_blocks (unat (start_address h)) (unat (end_address h)) xs a n ys"
  obtains s' h' where "free unmap_page (of_nat (a + 12)) s = Some s'"
    "kheap s' = Some h'" "heap_rep (mem s') h' (fst r)" "unat (end_address h') = snd r"
    "start_address h' = start_address h" "max_address h' = max_address h"
    "allocated (fst r) = allocated (xs @ ys)"
    "\<forall>b \<in> allocated (xs @ ys). same_on (mem s) (mem s') (baddr b) (baddr b + bsize b)"
proof -
  let ?m0 = "store8 (mem s) (of_nat a + 4) 1"
  note rep' = heap_repD [OF rep]
  obtain xs1 a1 n1 where jl: "join_left xs a n = (xs1, a1, n1)" by (metis prod_cases3)
  obtain n2 ys1 where jr: "join_right n1 ys = (n2, ys1)" by fastforce
  note p0 = mark_hole [OF rep]
  obtain m1 ix1 where ml: "merge_left (of_nat a) (of_nat (a + n - 8)) h ?m0 = Some (of_nat a1, m1, ix1)"
      "pending m1 h ix1 xs1 a1 n1 ys" "changes_in ?m0 m1 a1 (a1 + n1)" "a1 + n1 = a + n" "a1 \<le> a"
      "oa_size ix1 \<le> oa_size (index h)" "max_size ix1 = max_size (index h)"
    by (rule merge_left_spec [OF p0(1) jl])
  obtain m2 ix2 where mr: "merge_right (end_address h) (of_nat a1) (of_nat (a1 + n1 - 8)) m1 ix1
        = Some (of_nat (a1 + n2 - 8), m2, ix2)"
      "pending m2 h ix2 xs1 a1 n2 ys1" "changes_in m1 m2 a1 (a1 + n2)" "n1 \<le> n2"
      "oa_size ix2 \<le> oa_size ix1" "max_size ix2 = max_size ix1"
    by (rule merge_right_spec [OF ml(2) jr])
  let ?s2 = "s\<lparr>mem := m2, kheap := Some (h\<lparr>index := ix2\<rparr>)\<rparr>"
  have space2: "oa_size ix2 < max_size ix2"
    using index_size [OF rep] space ml(6,7) mr(5,6) by simp
  have ready2: "\<forall>x. start_address h \<le> x \<and> x < end_address h \<longrightarrow> ready x ?s2"
    using ready ready_heap by blast
  have s2: "kheap ?s2 = Some (h\<lparr>index := ix2\<rparr>)" "pending (mem ?s2) h ix2 xs1 a1 n2 ys1"
    using mr(2) by simp_all
  have keep: "tail_end (unat (start_address h)) a1 = a1 \<or> a1 + 20 \<le> tail_end (unat (start_address h)) a1"
    if "ys1 = []"
  proof -
    have "a1 \<le> tail_end (unat (start_address h)) a1" unfolding tail_end_def by linarith
    then show ?thesis using tail that by (auto simp: short_tail_def jl jr)
  qed
  have r: "r = (if ys1 \<noteq> [] then (xs1 @ Block a1 n2 True # ys1, unat (end_address h))
       else if tail_end (unat (start_address h)) a1 = a1 then (xs1, a1)
       else (xs1 @ [Block a1 (tail_end (unat (start_address h)) a1 - a1) True], tail_end (unat (start_address h)) a1))"
    by (simp add: r_def freed_blocks_def jl jr)
  obtain s' h' where fin:
      "settle unmap_page (of_nat a1) (of_nat (a1 + n2 - 8)) ?s2 = Some s'"
      "kheap s' = Some h'" "heap_rep (mem s') h' (fst r)" "unat (end_address h') = snd r"
      "start_address h' = start_address h" "max_address h' = max_address h"
      "changes_in (mem ?s2) (mem s') a1 (a1 + n2)"
    by (rule free_finish [OF s2 rep'(1,2) len ready2 space2 keep, folded r])
  have ch: "changes_in (mem s) (mem s') a1 (a1 + n2)"
  proof -
    have "changes_in (mem s) ?m0 a1 (a1 + n2)"
      by (rule changes_in_mono [OF p0(2)]) (use ml(4,5) mr(4) in auto)
    also have "changes_in ?m0 m1 a1 (a1 + n2)" by (rule changes_in_mono [OF ml(3)]) (use mr(4) in auto)
    also note mr(3)
    also have "changes_in m2 (mem s') a1 (a1 + n2)" using fin(7) by simp
    finally show ?thesis .
  qed
  note ja = joined_allocated [OF jl jr]
  have "same_on (mem s) (mem s') (baddr b) (baddr b + bsize b)" if b: "b \<in> allocated (xs @ ys)" for b
  proof -
    have "b \<in> set xs1 \<union> set ys1" using b ja(1,2) by (auto simp: allocated_def)
    then have "baddr b + bsize b \<le> a1 \<or> a1 + n2 \<le> baddr b"
      using contig_disjoint [OF pendingD(1) [OF mr(2)]] by fastforce
    moreover have "b \<in> set (xs @ Block a n False # ys)" using b by (auto simp: allocated_def)
    then have "baddr b + bsize b \<le> 4294967296" using heap_rep_bounds(4) [OF rep, of b] by simp
    ultimately show ?thesis by (intro changes_in_same_on [OF ch])
  qed
  moreover have "allocated (fst r) = allocated (xs @ ys)" using ja(1,2) by (auto simp: r)
  moreover have "free unmap_page (of_nat (a + 12)) s = Some s'"
    unfolding free_guards [OF h rep] ml(1) bind.simps prod.case mr(1) [unfolded ml(4)] by (rule fin(1))
  ultimately show thesis using that fin(2-6) by blast
qed

end

end
