(* ===== verification/KHeap_Short_Tail.thy ===== *)
theory KHeap_Short_Tail
  imports KHeap_Free
begin

text \<open>
  The defect of \<open>free\<close> (src/kheap.c): when the hole at the end of the arena keeps between 1 and 19
  bytes after the whole pages above it are given back, the code writes a footer that
  overlaps the header of that hole. No heap with such a tail is valid, and the check at
  the end of \<open>free\<close> stops the kernel.
\<close>

lemma contig_prefix:
  assumes "contig S xs a" "contig S bs e" "a \<le> e" "e < 4294967296"
    "\<forall>b \<in> set xs. header_size m (of_nat (baddr b)) = of_nat (bsize b)" "\<forall>b \<in> set bs. tags m b"
  shows "\<exists>zs. contig a zs e"
  using assms
proof (induction xs arbitrary: S bs)
  case (Cons x xs)
  have x: "baddr x = S" "20 \<le> bsize x" "contig (S + bsize x) xs a" using Cons.prems(1) by auto
  then have "S + bsize x \<le> a" by (auto dest: contig_le)
  then obtain b ws where bs: "bs = b # ws" using Cons.prems(2,3) x(2) by (cases bs) auto
  then have b: "baddr b = S" "contig (S + bsize b) ws e" "tags m b" using Cons.prems(2,6) by auto
  have "(of_nat (bsize b) :: u32int) = of_nat (bsize x)"
    using b Cons.prems(5) x(1) by (simp add: tags_def)
  moreover have "bsize b < 4294967296" "bsize x < 4294967296"
    using contig_le [OF b(2)] \<open>S + bsize x \<le> a\<close> Cons.prems(3,4) by linarith+
  ultimately have "bsize b = bsize x" by (simp add: of_nat32_eq_iff)
  then show ?case using Cons.IH [OF x(3), of ws] b(2) Cons.prems(3-6) bs by auto
qed auto

lemma no_short_tail:
  assumes "contig a zs e" "a < e" shows "a + 20 \<le> e"
  using assms by (cases zs) (auto dest: contig_le)

context page_releaser
begin

lemma release_tail_short:
  assumes s: "kheap s = Some (h\<lparr>index := ix\<rparr>)" and p: "pending (mem s) h ix xs a n []"
    and len: "(unat (end_address h) - unat (start_address h)) mod 4096 = 0"
      "unat HEAP_MIN_SIZE \<le> unat (end_address h) - unat (start_address h)"
    and ready: "\<forall>x. start_address h \<le> x \<and> x < end_address h \<longrightarrow> ready x s"
  defines "e \<equiv> tail_end (unat (start_address h)) a"
  assumes short: "a < e" "e < a + 20"
  obtains s' where "release_tail unmap_page (of_nat a) (of_nat (a + n - 8)) s = Some (True, s')"
    "kheap s' = Some (h\<lparr>end_address := of_nat e, index := ix\<rparr>)"
    "changes_in (mem s) (mem s') (a - 8) (a + 20)" "e \<le> unat (end_address h)"
proof -
  let ?S = "unat (start_address h)" and ?E = "unat (end_address h)" and ?h = "h\<lparr>index := ix\<rparr>"
  have b: "Block a n True \<in> set (xs @ [Block a n True])" by simp
  note bd = pending_bounds [OF p b, simplified]
  have an: "a + n = ?E" using pendingD(1) [OF p] by (auto simp: contig_append)
  have lt: "a < ?E" using an bd(3) by linarith
  have h: "kheap s = Some ?h" "start_address ?h = start_address h" "end_address ?h = end_address h"
    using s by simp_all
  obtain s1 where c: "contract unmap_page (of_nat a - start_address h) s = Some (of_nat (e - ?S), s1)"
      "mem s1 = mem s" "kheap s1 = Some (h\<lparr>end_address := of_nat e, index := ix\<rparr>)" and e: "e \<le> ?E"
  proof (rule contract_ok [OF h(1), unfolded h(2,3), OF bd(1) lt len ready, folded e_def], goal_cases)
    case (1 s1)
    from 1(2-) show ?case by (intro 1(1) [of s1]) simp_all
  qed
  have atE: "(of_nat (a + n) :: u32int) = end_address h" using an by (simp del: of_nat_add)
  have hs: "header_size (mem s) (of_nat a) = of_nat n" using pendingD(2) [OF p b] by (simp add: tags_def)
  have diff: "end_address h - start_address h - of_nat (e - ?S) = of_nat (?E - e)"
    using e short bd(1) by (simp add: of_nat_diff)
  have un: "unat (of_nat n :: u32int) = n" "unat (of_nat (?E - e) :: u32int) = ?E - e"
    using bd(4) unat_lt_2_32 [of "end_address h"] by (intro unat_of_nat32; linarith)+
  have more: "(of_nat (?E - e) :: u32int) < of_nat n"
    unfolding word_less_nat_alt un using an e short by linarith
  let ?m1 = "set_header_size (mem s) (of_nat a) (of_nat n - of_nat (?E - e))"
  let ?m = "set_footer ?m1 (of_nat (e - 8)) (of_nat a)"
  have "unat HEAP_MIN_SIZE = 458752" by (simp add: HEAP_MIN_SIZE_def)
  then have e8: "8 \<le> e" by (simp add: e_def tail_end_def)
  have hs1: "header_size ?m1 (of_nat a) = of_nat n - of_nat (?E - e)"
    by (simp add: header_size_def set_header_size_def)
  have foot: "of_nat a + (of_nat n - of_nat (?E - e)) - 8 = (of_nat (e - 8) :: u32int)"
  proof -
    have d2: "(of_nat (?E - e) :: u32int) = end_address h - of_nat e" using e by (simp add: of_nat_diff)
    have e8': "(of_nat (e - 8) :: u32int) = of_nat e - 8" using e8 by (simp add: of_nat_diff)
    have "of_nat n = end_address h - (of_nat a :: u32int)" using atE by (simp add: algebra_simps)
    then show ?thesis unfolding d2 e8' by simp
  qed
  have "release_tail unmap_page (of_nat a) (of_nat (a + n - 8)) s = Some (True, s1\<lparr>mem := ?m\<rparr>)"
    unfolding release_tail_def h(1) bind.simps next_header [OF bd(3)] h(2,3) Let_def atE c(1)
    by (simp add: c(2) hs diff more hs1 foot)
  moreover have "changes_in (mem s) ?m (a - 8) (a + 20)"
  proof -
    have "changes_in (mem s) ?m1 (a - 8) (a + 20)"
      unfolding changes_in_def using bd by (intro conjI same_on_set_header_size) auto
    moreover have "e \<le> 4294967296" using short bd(3,4) by linarith
    then have "changes_in ?m1 ?m (a - 8) (a + 20)"
      by (intro changes_in_mono [OF changes_in_set_footer]) (use short e8 in auto)
    ultimately show ?thesis by (rule changes_in_trans)
  qed
  ultimately show thesis using c(3) e by (intro that [of "s1\<lparr>mem := ?m\<rparr>"]) simp_all
qed

lemma settle_short:
  assumes s: "kheap s = Some (h\<lparr>index := ix\<rparr>)" and p: "pending (mem s) h ix xs a n []"
    and len: "(unat (end_address h) - unat (start_address h)) mod 4096 = 0"
      "unat HEAP_MIN_SIZE \<le> unat (end_address h) - unat (start_address h)"
    and ready: "\<forall>x. start_address h \<le> x \<and> x < end_address h \<longrightarrow> ready x s"
  defines "e \<equiv> tail_end (unat (start_address h)) a"
  assumes short: "a < e" "e < a + 20"
  shows "settle unmap_page (of_nat a) (of_nat (a + n - 8)) s = None"
proof (rule ccontr)
  assume "settle unmap_page (of_nat a) (of_nat (a + n - 8)) s \<noteq> None"
  obtain s1 where s1: "release_tail unmap_page (of_nat a) (of_nat (a + n - 8)) s = Some (True, s1)"
      "kheap s1 = Some (h\<lparr>end_address := of_nat e, index := ix\<rparr>)"
      "changes_in (mem s) (mem s1) (a - 8) (a + 20)" "e \<le> unat (end_address h)"
    by (rule release_tail_short [OF s p len ready, folded e_def, OF short])
  let ?h = "\<lambda>ix. h\<lparr>end_address := of_nat e, index := ix\<rparr>"
  obtain ix' where ix': "insert_ordered_array (mem s1) (of_nat a) ix = Some ix'"
      "heap_validate (mem s1) (?h ix') = Some ()"
    using \<open>settle _ _ _ s \<noteq> None\<close> s1(1,2) by (auto simp: settle_def bind_Some_iff Let_def)
  have wf: "oa_wf header_t_less_than ix" using pendingD(3) [OF p] by (simp add: index_ok_def)
  have "oa_wf header_t_less_than ix'"
  proof -
    have "length (entries ix) < max_size ix" using insert_needs_space [OF ix'(1) wf] wf by simp
    from hole_index.ins_facts [OF wf this, of "mem s1" "of_nat a"] ix'(1) show ?thesis by auto
  qed
  then obtain bs where bs: "heap_rep (mem s1) (?h ix') bs"
    using heap_validate_sound [of "?h ix'" "mem s1"] ix'(2) by auto
  have e32: "e < 4294967296" using s1(4) unat_lt_2_32 [of "end_address h"] by linarith
  have c: "contig (unat (start_address h)) xs a" using pendingD(1) [OF p] by (auto simp: contig_append)
  have "header_size (mem s1) (of_nat (baddr b)) = of_nat (bsize b)" if b: "b \<in> set xs" for b
  proof -
    have in_bs: "b \<in> set (xs @ [Block a n True])" using b by simp
    have "baddr b + 20 \<le> a" using contig_mem [OF c b] by linarith
    then have "same_on (mem s) (mem s1) (baddr b) (baddr b + 12)"
      using e32 short by (intro changes_in_same_on [OF s1(3)]) auto
    from same_on_header_size [OF this] pendingD(2) [OF p in_bs] show ?thesis by (simp add: tags_def)
  qed
  moreover have "contig (unat (start_address h)) bs e" "\<forall>b \<in> set bs. tags (mem s1) b"
    using heap_repD(3,4) [OF bs] e32 by (simp_all add: unat_of_nat32)
  ultimately obtain zs where "contig a zs e" using contig_prefix [OF c] short(1) e32 by (meson less_imp_le)
  then show False using no_short_tail short by fastforce
qed

lemma free_short_tail:
  fixes s :: "'a kstate_scheme"
  assumes h: "kheap s = Some h" and rep: "heap_rep (mem s) h (xs @ Block a n False # ys)"
    and len: "(unat (end_address h) - unat (start_address h)) mod 4096 = 0"
      "unat HEAP_MIN_SIZE \<le> unat (end_address h) - unat (start_address h)"
    and ready: "\<forall>x. start_address h \<le> x \<and> x < end_address h \<longrightarrow> ready x s"
    and tail: "short_tail (unat (start_address h)) xs a n ys"
  shows "free unmap_page (of_nat (a + 12)) s = None"
proof -
  let ?m0 = "store8 (mem s) (of_nat a + 4) 1"
  obtain xs1 a1 n1 where jl: "join_left xs a n = (xs1, a1, n1)" by (metis prod_cases3)
  obtain n2 ys1 where jr: "join_right n1 ys = (n2, ys1)" by fastforce
  note p0 = mark_hole [OF rep]
  have t: "ys1 = []" "a1 < tail_end (unat (start_address h)) a1" "tail_end (unat (start_address h)) a1 < a1 + 20"
    using tail by (auto simp: short_tail_def jl jr)
  obtain m1 ix1 where ml: "merge_left (of_nat a) (of_nat (a + n - 8)) h ?m0 = Some (of_nat a1, m1, ix1)"
      "pending m1 h ix1 xs1 a1 n1 ys" "a1 + n1 = a + n"
    by (rule merge_left_spec [OF p0(1) jl]) blast
  obtain m2 ix2 where mr: "merge_right (end_address h) (of_nat a1) (of_nat (a1 + n1 - 8)) m1 ix1
        = Some (of_nat (a1 + n2 - 8), m2, ix2)" "pending m2 h ix2 xs1 a1 n2 []"
    by (rule merge_right_spec [OF ml(2) jr]) (use t(1) in blast)
  let ?s2 = "s\<lparr>mem := m2, kheap := Some (h\<lparr>index := ix2\<rparr>)\<rparr>"
  have ready2: "\<forall>x. start_address h \<le> x \<and> x < end_address h \<longrightarrow> ready x ?s2" using ready ready_heap by blast
  have s2: "kheap ?s2 = Some (h\<lparr>index := ix2\<rparr>)" "pending (mem ?s2) h ix2 xs1 a1 n2 []" using mr(2) by simp_all
  have "settle unmap_page (of_nat a1) (of_nat (a1 + n2 - 8)) ?s2 = None"
    by (rule settle_short [OF s2 len ready2 t(2,3)])
  then show ?thesis
    unfolding free_guards [OF h rep] ml(1) bind.simps prod.case mr(1) [unfolded ml(3)] .
qed

end

end
