(* ===== verification/Paging_Clone.thy ===== *)
theory Paging_Clone
  imports Paging_Frames
begin

text \<open>
  Copying an address space (src/paging.c, \<open>clone_table\<close>): every present entry of the source table
  gets a frame of its own that was free before, with the same bytes; nothing that existed
  before changes.
\<close>

section \<open>Physical copies\<close>

lemma frame_byte_offset:
  assumes "f < 0x100000" "x < 4096"
  shows "unat (of_nat (f * 4096 + x) :: u32int) = f * 4096 + x"
  using assms by (intro unat_of_nat32) simp

lemma copy_frame:
  assumes f: "d < 0x100000" "g < 0x100000" and x: "x < 4096"
  shows "copy_page_physical (of_nat (f * 4096)) (of_nat (d * 4096)) m (of_nat (g * 4096 + x)) =
    m (of_nat ((if g = d then f else g) * 4096 + x))"
proof (cases "g = d")
  case True
  have "(of_nat (d * 4096 + x) - of_nat (d * 4096) :: u32int) = of_nat x" by simp
  moreover have "(of_nat x :: u32int) < 0x1000" using x by (simp add: word_less_nat_alt unat_of_nat32)
  ultimately show ?thesis using True by (simp add: copy_page_physical_def)
next
  case False
  let ?a = "of_nat (g * 4096 + x) :: u32int" and ?d = "of_nat (d * 4096) :: u32int"
  have "g * 4096 + x < d * 4096 \<or> d * 4096 + 4096 \<le> g * 4096 + x" using False x by linarith
  then have "4096 \<le> unat (?a - ?d)" using f x by (intro unat_diff_ge) auto
  then have "\<not> ?a - ?d < 0x1000" by (simp add: word_less_nat_alt)
  then show ?thesis using False unfolding copy_page_physical_def by simp
qed

definition same_frame :: "memory \<Rightarrow> nat \<Rightarrow> memory \<Rightarrow> nat \<Rightarrow> bool" where
  "same_frame m f m' f' \<longleftrightarrow> (\<forall>x < 4096. m' (of_nat (f' * 4096 + x)) = m (of_nat (f * 4096 + x)))"

lemma same_frame_refl [simp, intro]: "same_frame m f m f"
  by (simp add: same_frame_def)

lemma same_frame_trans: "\<lbrakk>same_frame m f m' f'; same_frame m' f' m'' f''\<rbrakk> \<Longrightarrow> same_frame m f m'' f''"
  by (simp add: same_frame_def)

section \<open>One table\<close>

text \<open>What the copy of an entry must be.\<close>

definition copied :: "'a pstate_scheme \<Rightarrow> 'a pstate_scheme \<Rightarrow> page_t \<Rightarrow> page_ptr \<Rightarrow> bool" where
  "copied s s' sp q \<longleftrightarrow> (if present sp
     then \<exists>pg. read_page q s' = Some pg \<and> present pg \<and> rw pg = rw sp \<and> user pg \<and>
       accessed pg = accessed sp \<and> dirty pg = dirty sp \<and> unat (frame pg) \<notin> used (fmap s) \<and>
       same_frame (pmem s) (unat (frame sp)) (pmem s') (unat (frame pg))
     else read_page q s' = Some zero_page)"

text \<open>What stays: everything but the bitmap, physical memory and the table being filled.\<close>

definition extends_tables :: "'a pstate_scheme \<Rightarrow> 'a pstate_scheme \<Rightarrow> page_ptr set \<Rightarrow> bool" where
  "extends_tables s s' Q \<longleftrightarrow> paging_wf s' \<and> used (fmap s) \<subseteq> used (fmap s') \<and>
     nframes (fmap s') = nframes (fmap s) \<and>
     (\<forall>q. q \<notin> Q \<longrightarrow> read_page q s' = read_page q s) \<and>
     (\<forall>f \<in> used (fmap s). same_frame (pmem s) f (pmem s') f) \<and>
     mem s' = mem s \<and> kheap s' = kheap s \<and> directories s' = directories s \<and>
     kernel_directory s' = kernel_directory s"

lemma extends_tables_trans:
  assumes "extends_tables s s1 Q" "extends_tables s1 s' Q'"
  shows "extends_tables s s' (Q \<union> Q')"
proof -
  have "same_frame (pmem s) f (pmem s') f" if "f \<in> used (fmap s)" for f
    using assms that unfolding extends_tables_def by (blast intro: same_frame_trans)
  then show ?thesis using assms unfolding extends_tables_def by auto
qed

lemma copy_entry:
  assumes wf: "paging_wf s" and src: "page_tables s a = Some src" "i < 1024" "present (src ! i)"
    and dst: "read_page (t, i) s = Some zero_page" "a \<noteq> t" and free: "free_frames (fmap s) \<noteq> {}"
  obtains s' where "clone_pages src t i s = clone_pages src t (i + 1) s'"
    "extends_tables s s' {(t, i)}" "copied s s' (src ! i) (t, i)"
    "card (free_frames (fmap s)) = card (free_frames (fmap s')) + 1"
    "page_tables s' a = Some src"
proof -
  let ?sp = "src ! i"
  have z: "\<not> present zero_page" by (simp add: zero_page_def)
  obtain s1 fm pg f where a1: "alloc_frame (Some (t, i)) False False s = Some s1"
      "write_page (t, i) pg (s\<lparr>fmap := fm\<rparr>) = Some s1" "f = Min (free_frames (fmap s))"
      "pg = zero_page\<lparr>present := True, rw := False, user := True, frame := ucast (of_nat f :: u32int)\<rparr>"
      "unat (frame pg) = f" "frame_map_wf fm" "used fm = insert f (used (fmap s))"
      "nframes fm = nframes (fmap s)" "f \<in> free_frames (fmap s)"
  proof (rule alloc_frame_fresh [OF paging_wfD(1) [OF wf] dst(1) z free, where k = False and w = False], goal_cases)
    case (1 s1 fm pg)
    then show ?case by (intro 1(1) [OF 1(2,3) refl]) simp_all
  qed
  note fs = write_page_frame [OF a1(2)] and rd = read_write_page [OF a1(2)]
  define pg2 where "pg2 = pg\<lparr>present := True, rw := rw pg \<or> rw ?sp, user := user pg \<or> user ?sp,
    accessed := accessed pg \<or> accessed ?sp, dirty := dirty pg \<or> dirty ?sp\<rparr>"
  have r1: "read_page (t, i) s1 = Some pg" using rd by simp
  obtain s2 where s2: "write_page (t, i) pg2 s1 = Some s2" using write_page_ok [OF r1] by blast
  note fs2 = write_page_frame [OF s2] and rd2 = read_write_page [OF s2]
  define s' where "s' = s2\<lparr>pmem := copy_page_physical (frame_base ?sp) (frame_base pg2) (pmem s2)\<rparr>"
  have rs': "read_page q s' = read_page q s2" "owns s' q g = owns s2 q g" for q g
    by (simp_all add: s'_def read_page_def owns_def)
  have pg2: "present pg2" "rw pg2 = rw ?sp" "user pg2" "accessed pg2 = accessed ?sp" "dirty pg2 = dirty ?sp"
    "unat (frame pg2) = f" using a1(4,5) by (simp_all add: pg2_def zero_page_def)
  have fb: "f < 0x100000" "f \<notin> used (fmap s)"
    using free_frames_bound [OF paging_wfD(1) [OF wf] a1(9)] by simp_all
  have pm: "pmem s' = copy_page_physical (of_nat (unat (frame ?sp) * 4096)) (of_nat (f * 4096)) (pmem s)"
    using fs2(7) fs(7) pg2(6) by (simp add: s'_def frame_base_nat del: of_nat_mult)
  have step: "clone_pages src t i s = clone_pages src t (i + 1) s'"
    using src(2,3) a1(1) r1 s2 by (subst clone_pages.simps) (simp add: pg2_def s'_def)
  have fmap': "fmap s' = fm" using fs2(1) fs(1) by (simp add: s'_def)
  have wf1: "paging_wf s1" by (rule alloc_frame_wf [OF wf a1(1)])
  have own2: "owns s' q g = owns s1 q g" for q g
    unfolding rs' owns_write [OF s2] using r1 pg2(1,6) a1(4,5) by (auto simp: owns_def)
  have "paging_wf s'" unfolding paging_wf_def own2
    using paging_wfD [OF wf1] fmap' fs(1) write_page_tables [OF s2, of _] by (auto simp: s'_def)
  moreover have "used (fmap s) \<subseteq> used (fmap s')" "nframes (fmap s') = nframes (fmap s)"
    using fmap' a1(7,8) by auto
  moreover have "read_page q s' = read_page q s" if "q \<notin> {(t, i)}" for q
    using that unfolding rs' rd2 rd by simp
  moreover have "same_frame (pmem s) g (pmem s') g" if g: "g \<in> used (fmap s)" for g
  proof -
    have "g < 0x100000" using g paging_wfD(1) [OF wf] by (auto simp: used_def frame_map_wf_def)
    moreover have "g \<noteq> f" using g fb(2) by blast
    ultimately show ?thesis
      unfolding same_frame_def pm using copy_frame [OF fb(1), of g] by (simp only: if_False) blast
  qed
  ultimately have ext: "extends_tables s s' {(t, i)}"
    using fs(2,3,5,6) fs2(2,3,5,6) by (simp add: extends_tables_def s'_def)
  have "same_frame (pmem s) (unat (frame ?sp)) (pmem s') f"
    unfolding same_frame_def pm using copy_frame [OF fb(1) fb(1)] by (auto simp only: simp_thms if_True)
  then have cp: "copied s s' ?sp (t, i)"
    using src(3) pg2 fb(2) rd2 by (auto simp: copied_def rs')
  have "free_frames (fmap s') = free_frames (fmap s) - {f}"
    using fmap' a1(7,8) by (auto simp: free_frames_def)
  moreover have "finite (free_frames (fmap s))" by (simp add: free_frames_def)
  ultimately have card: "card (free_frames (fmap s)) = card (free_frames (fmap s')) + 1"
    using a1(9) card_Suc_Diff1 [of "free_frames (fmap s)" f] by simp
  have "page_tables s' a = page_tables s a"
    using a1(2) s2 dst(2) by (auto simp: s'_def write_page_def bind_Some_iff split: if_splits)
  with step ext cp card src(1) show thesis by (intro that [of s']) simp_all
qed

definition present_from :: "page_table_t \<Rightarrow> nat \<Rightarrow> nat" where
  "present_from src i = card {j. i \<le> j \<and> j < 1024 \<and> present (src ! j)}"

lemma present_from_step:
  assumes "i < 1024"
  shows "present_from src i = (if present (src ! i) then 1 else 0) + present_from src (i + 1)"
proof -
  let ?A = "{j. i + 1 \<le> j \<and> j < 1024 \<and> present (src ! j)}"
  have "{j. i \<le> j \<and> j < 1024 \<and> present (src ! j)} = (if present (src ! i) then insert i ?A else ?A)"
    using assms by (auto simp: Suc_le_eq order_le_less)
  moreover have "finite ?A" "i \<notin> ?A" by auto
  ultimately show ?thesis by (simp add: present_from_def)
qed

lemma clone_pages_ok:
  assumes "paging_wf s" "page_tables s a = Some src" "length src = 1024" "a \<noteq> t" "i \<le> 1024"
    "\<And>j. \<lbrakk>i \<le> j; j < 1024\<rbrakk> \<Longrightarrow> read_page (t, j) s = Some zero_page"
    "present_from src i \<le> card (free_frames (fmap s))"
  obtains s' where "clone_pages src t i s = Some s'" "extends_tables s s' {(t, j) | j. i \<le> j \<and> j < 1024}"
    "\<And>j. \<lbrakk>i \<le> j; j < 1024\<rbrakk> \<Longrightarrow> copied s s' (src ! j) (t, j)"
  using assms
proof (induction "1024 - i" arbitrary: i s thesis)
  case 0
  then have "i = 1024" by simp
  then show ?case
    using 0 by (intro 0(2) [of s]) (auto simp: clone_pages.simps extends_tables_def)
next
  case (Suc n)
  then have i: "i < 1024" "n = 1024 - (i + 1)" "i + 1 \<le> 1024" by auto
  let ?Q = "{(t, j) | j. i \<le> j \<and> j < 1024}" and ?Q1 = "{(t, j) | j. i + 1 \<le> j \<and> j < 1024}"
  have Q: "{(t, i)} \<union> ?Q1 = ?Q" using i(1) by (auto simp: Suc_le_eq order_le_less)
  obtain s1 where s1: "clone_pages src t i s = clone_pages src t (i + 1) s1" "extends_tables s s1 {(t, i)}"
      "copied s s1 (src ! i) (t, i)" "present_from src (i + 1) \<le> card (free_frames (fmap s1))"
      "page_tables s1 a = Some src"
  proof (cases "present (src ! i)")
    case True
    have "free_frames (fmap s) \<noteq> {}"
      using Suc.prems(8) present_from_step [OF i(1), of src] True by auto
    then show thesis
    proof (rule copy_entry [OF Suc.prems(2,3) i(1) True Suc.prems(7) [OF order_refl i(1)] Suc.prems(5)], goal_cases)
      case (1 s1)
      then show ?case
        using Suc.prems(8) present_from_step [OF i(1), of src] True by (intro that [of s1]) auto
    qed
  next
    case False
    have "clone_pages src t i s = clone_pages src t (i + 1) s"
      using i(1) False by (subst clone_pages.simps) simp
    then show thesis
      using Suc.prems i(1) False present_from_step [OF i(1), of src]
      by (intro that [of s]) (simp_all add: extends_tables_def copied_def)
  qed
  have wf1: "paging_wf s1" using s1(2) by (simp add: extends_tables_def)
  have zero: "read_page (t, j) s1 = Some zero_page" if "i + 1 \<le> j" "j < 1024" for j
  proof -
    have "read_page (t, j) s1 = read_page (t, j) s" using s1(2) that(1) by (auto simp: extends_tables_def)
    then show ?thesis using Suc.prems(7) [of j] that by simp
  qed
  obtain s' where s': "clone_pages src t (i + 1) s1 = Some s'" "extends_tables s1 s' ?Q1"
      "\<And>j. \<lbrakk>i + 1 \<le> j; j < 1024\<rbrakk> \<Longrightarrow> copied s1 s' (src ! j) (t, j)"
    by (rule Suc.hyps(1) [OF i(2) _ wf1 s1(5) Suc.prems(4,5) i(3) zero s1(4)]) blast
  have ext: "extends_tables s s' ?Q" using extends_tables_trans [OF s1(2) s'(2)] Q by simp
  have "copied s s' (src ! j) (t, j)" if j: "i \<le> j" "j < 1024" for j
  proof (cases "j = i")
    case True
    have same: "read_page (t, i) s' = read_page (t, i) s1"
      using s'(2) by (auto simp: extends_tables_def)
    show ?thesis
    proof (cases "present (src ! i)")
      case p: True
      then obtain pg where pg: "read_page (t, i) s1 = Some pg" "present pg" "rw pg = rw (src ! i)" "user pg"
          "accessed pg = accessed (src ! i)" "dirty pg = dirty (src ! i)" "unat (frame pg) \<notin> used (fmap s)"
          "same_frame (pmem s) (unat (frame (src ! i))) (pmem s1) (unat (frame pg))"
        using s1(3) by (auto simp: copied_def)
      have "unat (frame pg) \<in> used (fmap s1)"
        using pg(1,2) paging_wfD(3) [OF wf1, of "(t, i)"] by (auto simp: owns_def)
      then have "same_frame (pmem s1) (unat (frame pg)) (pmem s') (unat (frame pg))"
        using s'(2) by (simp add: extends_tables_def)
      then show ?thesis using pg same p True by (auto simp: copied_def intro: same_frame_trans)
    qed (use s1(3) same True in \<open>simp add: copied_def\<close>)
  next
    case False
    then have c: "copied s1 s' (src ! j) (t, j)" using s'(3) j by simp
    show ?thesis
    proof (cases "present (src ! j)")
      case p: True
      have "owns s (a, j) (unat (frame (src ! j)))"
        using Suc.prems(3,4) j(2) p by (simp add: owns_def read_page_def)
      then have "unat (frame (src ! j)) \<in> used (fmap s)" by (rule paging_wfD(3) [OF Suc.prems(2)])
      then have "same_frame (pmem s) (unat (frame (src ! j))) (pmem s1) (unat (frame (src ! j)))"
        using s1(2) by (simp add: extends_tables_def)
      moreover have "used (fmap s) \<subseteq> used (fmap s1)" using s1(2) by (simp add: extends_tables_def)
      ultimately show ?thesis using c p by (fastforce simp: copied_def intro: same_frame_trans)
    qed (use c in \<open>simp add: copied_def\<close>)
  qed
  with s'(1) s1(1) ext show ?case by (intro Suc.prems(1)) auto
qed

end
