(* ===== verification/Kernel_Memory.thy ===== *)
theory Kernel_Memory
  imports KHeap_Total KHeap_Short_Tail Paging_Clone
begin

text \<open>
  The kernel heap on top of paging: the page operations that \<open>expand\<close> and \<open>contract\<close> use
  (\<open>src/kheap.c\<close>) satisfy the contracts the heap theories assume, so that the theorems on
  \<open>alloc\<close> and \<open>free\<close> hold for the allocator the kernel runs.

  The contract of the mapper excludes the call of \<open>kmalloc_ap\<close> inside \<open>get_page\<close>: it holds where
  the page tables of the range exist already, as they do for the 4 MiB that
  \<open>initialise_paging\<close> prepares.
\<close>

section \<open>The page of an address\<close>

text \<open>The table entry of \<open>a\<close> in the kernel directory, when its table exists.\<close>

definition kernel_entry :: "u32int \<Rightarrow> 'a pstate_scheme \<Rightarrow> page_ptr option" where
  "kernel_entry a s = do {
     d \<leftarrow> (if kernel_directory s = 0 then None else directories s (kernel_directory s));
     let t = tables d ! unat (a div 0x1000 div 1024);
     (if t = 0 then None else Some (t, unat (a div 0x1000 mod 1024))) }"

lemma get_page_kernel_entry:
  assumes "kernel_entry a s = Some p"
  shows "get_page km a mk (kernel_directory s) s = Some (Some p, s)"
  using assms by (auto simp: kernel_entry_def get_page_def bind_Some_iff Let_def split: if_splits)

lemma kernel_entry_cong:
  assumes "kernel_directory s' = kernel_directory s" "directories s' = directories s"
  shows "kernel_entry a s' = kernel_entry a s"
  using assms by (simp add: kernel_entry_def)

definition table_ready :: "u32int \<Rightarrow> 'a pstate_scheme \<Rightarrow> bool" where
  "table_ready a s \<longleftrightarrow> (\<exists>p pg. kernel_entry a s = Some p \<and> read_page p s = Some pg)"

lemma table_ready_write:
  assumes "write_page p pg s = Some s'" shows "table_ready a s' = table_ready a s"
proof -
  have "kernel_entry a s' = kernel_entry a s"
    using write_page_frame(2,3) [OF assms] by (intro kernel_entry_cong) auto
  moreover have "(\<exists>pg. read_page q s' = Some pg) \<longleftrightarrow> (\<exists>pg. read_page q s = Some pg)" for q
    using read_write_page [OF assms, of q] assms
    by (auto simp: write_page_def read_page_def bind_Some_iff split: if_splits)
  ultimately show ?thesis by (simp add: table_ready_def)
qed

lemma table_ready_fmap [simp]: "table_ready a (s\<lparr>fmap := fm\<rparr>) = table_ready a s"
  by (simp add: table_ready_def kernel_entry_def read_page_def)

lemma heap_update_reads [simp]:
  "read_page p (s\<lparr>mem := m, kheap := k\<rparr>) = read_page p s"
  "kernel_entry a (s\<lparr>mem := m, kheap := k\<rparr>) = kernel_entry a s"
  "table_ready a (s\<lparr>mem := m, kheap := k\<rparr>) = table_ready a s"
  by (simp_all add: read_page_def kernel_entry_def table_ready_def)

section \<open>Mapping\<close>

text \<open>The mapper that must not allocate a table.\<close>

abbreviation map_ready_page :: "bool \<Rightarrow> bool \<Rightarrow> u32int \<Rightarrow> 'a pstate_scheme \<Rightarrow> 'a pstate_scheme option" where
  "map_ready_page \<equiv> heap_map_page (\<lambda>_ _ _. None)"

lemma kmalloc_int_none:
  "kheap s \<noteq> None \<Longrightarrow> kmalloc_int (\<lambda>_ _ _. None) sz al ph s = None"
  by (simp add: kmalloc_int_def)

lemma alloc_frame_frame:
  assumes "alloc_frame p k w s = Some s'"
  shows "mem s' = mem s" "kheap s' = kheap s" "kernel_directory s' = kernel_directory s"
    "directories s' = directories s" "table_ready a s' = table_ready a s"
proof -
  obtain q pg where q: "p = Some q" "read_page q s = Some pg"
    using assms by (auto simp: alloc_frame_def bind_Some_iff)
  show "mem s' = mem s" "kheap s' = kheap s" "kernel_directory s' = kernel_directory s"
    "directories s' = directories s" "table_ready a s' = table_ready a s"
    using assms q by (auto simp: alloc_frame_def bind_Some_iff PANIC_def table_ready_write
        dest: write_page_frame split: if_splits)
qed

lemma get_page_ready:
  assumes "get_page km a mk (kernel_directory s) s = Some (r, s')"
    and "\<And>sz s r. km sz s = Some r \<Longrightarrow> mem (snd (snd r)) = mem s \<and> kheap (snd (snd r)) = kheap s"
  shows "mem s' = mem s" "kheap s' = kheap s"
proof -
  obtain d where d: "directories s (kernel_directory s) = Some d"
    using assms(1) by (auto simp: get_page_def bind_Some_iff split: if_splits)
  let ?i = "unat (a div 0x1000 div 1024)"
  consider "s' = s" | t tmp s1 where "km sizeof_page_table s = Some (t, tmp, s1)"
      "mem s' = mem s1" "kheap s' = kheap s1"
    using assms(1) d by (auto simp: get_page_def bind_Some_iff Let_def split: if_splits)
  then show "mem s' = mem s" "kheap s' = kheap s" using assms(2) by (cases; fastforce)+
qed

lemma kmalloc_ap_none_quiet:
  assumes "kmalloc_ap (\<lambda>_ _ _. None) sz s = Some r"
  shows "mem (snd (snd r)) = mem s \<and> kheap (snd (snd r)) = kheap s"
  using assms by (auto simp: kmalloc_ap_def kmalloc_int_def bind_Some_iff Let_def split: if_splits)

definition can_map_pages :: "u32int \<Rightarrow> nat \<Rightarrow> 'a pstate_scheme \<Rightarrow> bool" where
  "can_map_pages a k s \<longleftrightarrow> frame_map_wf (fmap s) \<and> k \<le> card (free_frames (fmap s)) \<and>
     (\<forall>j < k. table_ready (a + of_nat j * 0x1000) s)"

lemma can_map_pages_step:
  assumes can: "can_map_pages a (Suc k) s"
  shows "\<exists>s'. map_ready_page su wr a s = Some s' \<and> can_map_pages (a + 0x1000) k s'"
proof -
  have wf: "frame_map_wf (fmap s)" and card: "Suc k \<le> card (free_frames (fmap s))"
    and ready: "\<And>j. j < Suc k \<Longrightarrow> table_ready (a + of_nat j * 0x1000) s"
    using can by (auto simp: can_map_pages_def)
  obtain p pg where p: "kernel_entry a s = Some p" "read_page p s = Some pg"
    using ready [of 0] by (auto simp: table_ready_def)
  have later: "table_ready (a + 0x1000 + of_nat j * 0x1000) s" if "j < k" for j
    using ready [of "Suc j"] that by (simp add: algebra_simps)
  have map: "map_ready_page su wr a s = alloc_frame (Some p) su wr s"
    by (simp add: heap_map_page_def get_page_kernel_entry [OF p(1)])
  show ?thesis
  proof (cases "present pg")
    case True
    then show ?thesis
      using map alloc_frame_present [OF p(2)] wf card later by (simp add: can_map_pages_def)
  next
    case False
    have ne: "free_frames (fmap s) \<noteq> {}" using card by auto
    obtain s' fm pg' f where s': "alloc_frame (Some p) su wr s = Some s'"
        "write_page p pg' (s\<lparr>fmap := fm\<rparr>) = Some s'" "frame_map_wf fm" "used fm = insert f (used (fmap s))"
        "nframes fm = nframes (fmap s)" "f \<in> free_frames (fmap s)"
      by (rule alloc_frame_fresh [OF wf p(2) False ne, where k = su and w = wr]) blast
    have "free_frames fm = free_frames (fmap s) - {f}" using s'(4,5) by (auto simp: free_frames_def)
    moreover have "finite (free_frames (fmap s))" by (simp add: free_frames_def)
    ultimately have "k \<le> card (free_frames fm)" using s'(6) card by simp
    then have "can_map_pages (a + 0x1000) k s'"
      using write_page_frame(1) [OF s'(2)] s'(3) later alloc_frame_frame(5) [OF s'(1)]
      by (simp add: can_map_pages_def)
    then show ?thesis using map s'(1) by simp
  qed
qed

interpretation kernel_mapper: paged_mapper map_ready_page can_map_pages
proof
  fix su wr a and s s' :: "'a pstate_scheme"
  assume "map_ready_page su wr a s = Some s'"
  then obtain p s1 where s1: "get_page (kmalloc_ap (\<lambda>_ _ _. None)) a True (kernel_directory s) s = Some (p, s1)"
      "alloc_frame p su wr s1 = Some s'"
    by (auto simp: heap_map_page_def bind_Some_iff)
  show "mem s' = mem s" "kheap s' = kheap s"
    using get_page_ready [OF s1(1) kmalloc_ap_none_quiet] alloc_frame_frame [OF s1(2)] by auto
next
  fix su wr a k and s :: "'a pstate_scheme"
  show "can_map_pages a (Suc k) s \<Longrightarrow> \<exists>s'. map_ready_page su wr a s = Some s' \<and> can_map_pages (a + 0x1000) k s'"
    by (rule can_map_pages_step)
next
  fix a k m h and s :: "'a pstate_scheme"
  show "can_map_pages a k (s\<lparr>mem := m, kheap := h\<rparr>) = can_map_pages a k s"
    by (simp add: can_map_pages_def)
qed

section \<open>Unmapping\<close>

definition can_unmap :: "u32int \<Rightarrow> 'a pstate_scheme \<Rightarrow> bool" where
  "can_unmap a s \<longleftrightarrow> paging_wf s \<and> table_ready a s"

interpretation kernel_releaser: page_releaser heap_unmap_page can_unmap
proof
  fix a and s :: "'a pstate_scheme"
  assume can: "can_unmap a s"
  then obtain p pg where p: "kernel_entry a s = Some p" "read_page p s = Some pg" and wf: "paging_wf s"
    by (auto simp: can_unmap_def table_ready_def)
  have un: "heap_unmap_page a s = free_frame (Some p) s"
    by (simp add: heap_unmap_page_def get_page_kernel_entry [OF p(1)])
  obtain s' where s': "free_frame (Some p) s = Some s'" "paging_wf s'"
    using free_frame_wf [OF wf p(2)] by metis
  have "mem s' = mem s \<and> kheap s' = kheap s \<and> (\<forall>b. table_ready b s' = table_ready b s)"
    using s'(1) p(2)
    by (auto simp: free_frame_def bind_Some_iff table_ready_write dest: write_page_frame split: if_splits)
  then show "\<exists>s'. heap_unmap_page a s = Some s' \<and> mem s' = mem s \<and> kheap s' = kheap s \<and>
      (\<forall>b. can_unmap b s \<longrightarrow> can_unmap b s')"
    using un s' by (auto simp: can_unmap_def)
next
  fix a m k and s :: "'a pstate_scheme"
  have "owns (s\<lparr>mem := m, kheap := k\<rparr>) = owns s" by (intro ext) (simp add: owns_def)
  then show "can_unmap a (s\<lparr>mem := m, kheap := k\<rparr>) = can_unmap a s"
    by (simp add: can_unmap_def paging_wf_def)
qed

section \<open>The running allocator\<close>

text \<open>A mapper or an inner call that is defined more often only makes \<open>alloc\<close> defined more often.\<close>

definition less_def :: "'a option \<Rightarrow> 'a option \<Rightarrow> bool" where
  "less_def x y \<longleftrightarrow> x = None \<or> x = y"

lemma less_def_Some: "\<lbrakk>less_def x y; x = Some r\<rbrakk> \<Longrightarrow> y = Some r"
  by (simp add: less_def_def)

lemma less_def_intros [intro]:
  "less_def x x" "less_def None x"
  "\<lbrakk>less_def x y; \<And>v. less_def (f v) (g v)\<rbrakk> \<Longrightarrow> less_def (x \<bind> f) (y \<bind> g)"
  "\<lbrakk>less_def x1 y1; \<And>i. less_def (x2 i) (y2 i)\<rbrakk> \<Longrightarrow> less_def (case_option x1 x2 v) (case_option y1 y2 v)"
  "(\<And>a b. less_def (h a b) (k a b)) \<Longrightarrow> less_def (case p of (a, b) \<Rightarrow> h a b) (case p of (a, b) \<Rightarrow> k a b)"
  "\<lbrakk>less_def x1 y1; less_def x3 y3\<rbrakk> \<Longrightarrow> less_def (if c then x1 else x3) (if c then y1 else y3)"
  by (auto simp: less_def_def split: option.splits prod.splits Option.bind_splits)

lemma expand_pages_mono:
  assumes "\<And>a s. less_def (f a s) (f' a s)"
  shows "less_def (expand_pages f start i n s) (expand_pages f' start i n s)"
proof (induction "n - i" arbitrary: i s rule: less_induct)
  case less
  then show ?case
    by (subst (1 2) expand_pages.simps) (cases "i < n"; auto intro!: less_def_intros assms)
qed

lemma alloc_body_mono:
  assumes "\<And>su wr a s. less_def (f su wr a s) (f' su wr a s)" "\<And>sz al s. less_def (g sz al s) (g' sz al s)"
  shows "less_def (alloc_body f g sz al s) (alloc_body f' g' sz al s)"
  unfolding alloc_body_def grow_heap_def expand_def Let_def
  by (intro less_def_intros assms expand_pages_mono)

lemma heap_map_page_mono:
  assumes "\<And>sz al s. less_def (g sz al s) (g' sz al s)"
  shows "less_def (heap_map_page g su wr a s) (heap_map_page g' su wr a s)"
  unfolding heap_map_page_def get_page_def kmalloc_ap_def kmalloc_int_def Let_def
  by (intro less_def_intros assms)

lemma kernel_alloc_refines:
  "less_def (alloc map_ready_page n sz al s) (kernel_alloc n sz al s)"
proof (induction n arbitrary: sz al s)
  case (Suc n)
  have "less_def (heap_map_page (\<lambda>_ _ _. None) su wr a s) (heap_map_page (kernel_alloc n) su wr a s)" for su wr a s
    by (rule heap_map_page_mono) blast
  then show ?case using alloc_body_mono Suc.IH by simp blast
qed auto

end
