(* ===== verification/KHeap_Create.thy ===== *)
theory KHeap_Create
  imports KHeap_Alloc
begin

text \<open>
  A new heap (src/kheap.c, \<open>create_heap\<close>): the index is placed at the start of the range and the
  rest becomes one hole, so that the heap invariant holds from the beginning.
\<close>

section \<open>A heap with one hole\<close>

lemma place_index:
  assumes "array_addr \<noteq> 0" "0 < n" "n \<le> 0xFFFFFFFF div 4"
  obtains ix where "place_ordered_array array_addr n (Some header_t_less_than) = Some ix"
    "index_ok m ix {}" "oa_size ix = 0" "max_size ix = n"
proof -
  let ?ix = "\<lparr>array = array_addr, slots = replicate n 0, oa_size = 0, max_size = n,
      less_than = Some header_t_less_than, owns_storage = False\<rparr>"
  have "place_ordered_array array_addr n (Some header_t_less_than) = Some ?ix"
    using assms by (simp add: place_ordered_array_def)
  moreover have "index_ok m ?ix {}" using assms by (simp add: index_ok_def oa_wf_def entries_def)
  ultimately show thesis using that by simp
qed

lemma single_hole:
  assumes ix: "index_ok m0 ix {}" "oa_size ix = 0" "0 < max_size ix"
    and r: "unat S + 20 \<le> unat E" "E \<le> M"
  defines "m \<equiv> set_footer (set_header m0 S 1 (E - S)) (E - 8) S"
  obtains ix' where "insert_ordered_array m S ix = Some ix'"
    "heap_rep m \<lparr>index = ix', start_address = S, end_address = E, max_address = M,
       supervisor = su, readonly = ro\<rparr> [Block (unat S) (unat E - unat S) True]"
    "max_size ix' = max_size ix"
proof -
  let ?n = "unat E - unat S"
  have E32: "unat E < 4294967296" by (rule unat_lt_2_32)
  have ES: "E - S = of_nat ?n" "E - 8 = of_nat (unat S + ?n - 8)"
  proof -
    have "unat (E - S) = ?n" using r by (intro unat_sub32) linarith
    show "E - S = of_nat ?n" unfolding \<open>unat (E - S) = ?n\<close> [symmetric] by simp
    have "unat (E - 8) = unat S + ?n - 8" using unat_sub32 [of 8 E] r by simp
    show "E - 8 = of_nat (unat S + ?n - 8)" unfolding \<open>unat (E - 8) = unat S + ?n - 8\<close> [symmetric] by simp
  qed
  have "tags m (Block (unat S) ?n True)"
  proof -
    have bd: "20 \<le> ?n" "unat S + ?n \<le> 4294967296" using r E32 by linarith+
    have "(of_nat (unat S) :: u32int) = S" by simp
    with tags_written [OF bd, of m0 True] show ?thesis unfolding m_def ES by simp
  qed
  moreover have e: "index_ok m ix {}" using ix(1) by (rule index_ok_mem) simp
  from index_ok_insert [OF e, of "unat S"] ix(2,3) obtain ix' where
    "insert_ordered_array m S ix = Some ix'" "index_ok m ix' {unat S}" "max_size ix' = max_size ix" by auto
  ultimately show thesis
    using r by (intro that [of ix']) (auto simp: heap_rep_def word_less_nat_alt)
qed

section \<open>\<open>create_heap\<close>\<close>

lemma create_heap_ok:
  assumes km: "kmalloc 36 s = Some (x, s1)" and nz: "start \<noteq> 0"
    and al: "start mod 0x1000 = 0" "end_addr mod 0x1000 = 0" "max_addr mod 0x1000 = 0 \<or> max_addr = 0xCFFFF000"
    and r: "unat start + 0x80000 + 20 < unat end_addr" "end_addr \<le> max_addr"
  obtains h m where "create_heap kmalloc start end_addr max_addr su ro s = Some (h, s1\<lparr>mem := m\<rparr>)"
    "heap_rep m h [Block (unat start + 0x80000) (unat end_addr - (unat start + 0x80000)) True]"
    "unat (start_address h) = unat start + 0x80000" "end_address h = end_addr"
    "max_address h = max_addr" "max_size (index h) = 0x20000"
proof -
  have E32: "unat end_addr < 4294967296" by (rule unat_lt_2_32)
  let ?S = "start + 0x80000"
  have uS: "unat ?S = unat start + 0x80000"
    using unat_add32 [of start "0x80000"] r(1) E32 by simp
  have "unat (start mod 0x1000) = unat start mod 4096" by (simp add: unat_mod)
  then have "unat start mod 4096 = 0" using al(1) by simp
  then have "4096 dvd unat start + 0x80000" by (intro dvd_add) (auto simp: mod_eq_0_iff_dvd)
  then have "unat (?S AND 0xFFF) = 0" unfolding unat_and_FFF uS by (rule dvd_imp_mod_0)
  then have "?S AND 0xFFF = 0" by (simp only: unat_eq_0)
  then have ru: "round_up_page (start + 4 * of_nat HEAP_INDEX_SIZE) = ?S"
    by (simp add: round_up_page_def HEAP_INDEX_SIZE_def)
  define m where "m = set_footer (set_header (mem s1) ?S 1 (end_addr - ?S)) (end_addr - 8) ?S"
  obtain ix where ix: "place_ordered_array start HEAP_INDEX_SIZE (Some header_t_less_than) = Some ix"
      "index_ok (mem s1) ix {}" "oa_size ix = 0" "max_size ix = HEAP_INDEX_SIZE"
    by (rule place_index [OF nz, where n = HEAP_INDEX_SIZE and m = "mem s1"]) (auto simp: HEAP_INDEX_SIZE_def)
  have r1: "unat ?S + 20 \<le> unat end_addr" and mx: "0 < max_size ix"
    using r(1) uS ix(4) by (simp_all add: HEAP_INDEX_SIZE_def)
  obtain ix' where ix': "insert_ordered_array m ?S ix = Some ix'"
      "heap_rep m \<lparr>index = ix', start_address = ?S, end_address = end_addr, max_address = max_addr,
         supervisor = su, readonly = ro\<rparr> [Block (unat ?S) (unat end_addr - unat ?S) True]"
      "max_size ix' = max_size ix"
    by (rule single_hole [OF ix(2,3) mx r1 r(2), folded m_def])
  have g: "start < end_addr" "end_addr - start > 4 * of_nat HEAP_INDEX_SIZE + 12 + 8"
    using r(1) by (simp_all add: word_less_nat_alt unat_sub32 HEAP_INDEX_SIZE_def)
  have "create_heap kmalloc start end_addr max_addr su ro s
      = Some (\<lparr>index = ix', start_address = ?S, end_address = end_addr, max_address = max_addr,
         supervisor = su, readonly = ro\<rparr>, s1\<lparr>mem := m\<rparr>)"
    using km al g r(2) ix(1) ix'(1) heap_validate_complete [OF ix'(2)]
    unfolding create_heap_def Let_def ru m_def [symmetric]
    by (simp add: m_def [symmetric] HEAP_INDEX_SIZE_def)
  then show thesis by (rule that) (use ix' uS ix(4) in \<open>simp_all add: HEAP_INDEX_SIZE_def\<close>)
qed

end
