(* ===== verification/Memory_Properties.thy ===== *)
theory Memory_Properties
  imports Kernel_Memory KHeap_Create
begin

text \<open>
  The statements about kernel memory as a whole: the heap on top of paging, the run-time
  validator, frame ownership and the copy of page tables, with a concrete boot-time state at
  which each of them applies.
\<close>

section \<open>A concrete state\<close>

text \<open>The kernel directory at \<open>0x1000\<close> with one page table for every region, 32 free frames, and the
  heap that \<open>create_heap\<close> makes for the range that \<open>initialise_paging\<close> uses.\<close>

definition demo_paging :: pstate where
  "demo_paging = \<lparr>mem = (\<lambda>_. 0), kheap = None, placement_address = 0x200000,
     fmap = \<lparr>frames = [0], nframes = 32, frame_word_count = 1\<rparr>,
     page_tables = [0x5000 \<mapsto> zero_table],
     directories = [0x1000 \<mapsto> \<lparr>tables = replicate 1024 0x5000, tablesPhysical = replicate 1024 0x5007,
       physicalAddr = 0x2000\<rparr>],
     kernel_directory = 0x1000, current_directory = 0x1000, pmem = (\<lambda>_. 0)\<rparr>"

lemma demo_entry_bounds: "unat (a div 0x1000 div 1024 :: u32int) < 1024" "unat (a div 0x1000 mod 1024 :: u32int) < 1024"
proof -
  have "unat a div 4096 div 1024 < 1024" using unat_lt_2_32 [of a] by (simp add: div_mult2_eq [symmetric] less_mult_imp_div_less)
  then show "unat (a div 0x1000 div 1024 :: u32int) < 1024" by (simp add: unat_div)
  show "unat (a div 0x1000 mod 1024 :: u32int) < 1024" by (simp add: unat_mod)
qed

lemma demo_table_ready: "table_ready a demo_paging"
  using demo_entry_bounds [of a]
  by (simp add: table_ready_def kernel_entry_def read_page_def demo_paging_def zero_table_def)

lemma demo_frames: "frame_map_wf (fmap demo_paging)" "free_frames (fmap demo_paging) = {..<32}" "used (fmap demo_paging) = {}"
  by (auto simp: frame_map_wf_def free_frames_def used_def demo_paging_def)

lemma demo_owns: "\<not> owns demo_paging p f"
  by (auto simp: owns_def read_page_def demo_paging_def bind_Some_iff zero_table_def zero_page_def split: if_splits)

lemma demo_paging_wf: "paging_wf demo_paging"
  using demo_frames(1) demo_owns
  by (auto simp: paging_wf_def demo_paging_def zero_table_def split: if_splits)

lemma demo_heap_exists:
  obtains s h where "kheap (s :: pstate) = Some h" "heap_rep (mem s) h [Block 0xC0080000 0x80000 True]"
    "start_address h = 0xC0080000" "end_address h = 0xC0100000" "max_address h = 0xCFFFF000"
    "max_size (index h) = 0x20000" "\<And>a k. k \<le> 32 \<Longrightarrow> can_map_pages a k s" "\<And>a. can_unmap a s"
proof -
  let ?km = "\<lambda>_ s. Some (0, s)"
  obtain h m where h: "create_heap ?km 0xC0000000 0xC0100000 0xCFFFF000 False False demo_paging
        = Some (h, demo_paging\<lparr>mem := m\<rparr>)"
      "heap_rep m h [Block (unat (0xC0000000 :: u32int) + 0x80000)
         (unat (0xC0100000 :: u32int) - (unat (0xC0000000 :: u32int) + 0x80000)) True]"
      "unat (start_address h) = unat (0xC0000000 :: u32int) + 0x80000" "end_address h = 0xC0100000"
      "max_address h = 0xCFFFF000" "max_size (index h) = 0x20000"
    by (rule create_heap_ok [where s = demo_paging and ?s1.0 = demo_paging and kmalloc = ?km and x = 0
          and start = "0xC0000000" and end_addr = "0xC0100000" and max_addr = "0xCFFFF000"
          and su = False and ro = False]) simp_all
  let ?s = "demo_paging\<lparr>mem := m, kheap := Some h\<rparr>"
  have "start_address h = 0xC0080000" using h(3) by (simp add: word32_eq_iff_unat)
  moreover have "can_map_pages a k ?s" if "k \<le> 32" for a k
    using that demo_frames demo_table_ready by (simp add: can_map_pages_def)
  moreover have "can_unmap a ?s" for a
    unfolding kernel_releaser.ready_heap using demo_paging_wf demo_table_ready by (simp add: can_unmap_def)
  ultimately show thesis using h that [of ?s h] by simp
qed

text \<open>The same heap after an allocation of \<open>k\<close> bytes: one block and a hole.\<close>

lemma demo_heap_block:
  assumes "0 < k" "k + 40 \<le> 0x80000"
  obtains s h where "kheap (s :: pstate) = Some h"
    "heap_rep (mem s) h [Block 0xC0080000 (k + 20) False, Block (0xC0080000 + k + 20) (0x80000 - k - 20) True]"
    "start_address h = 0xC0080000" "end_address h = 0xC0100000" "max_address h = 0xCFFFF000"
    "max_size (index h) = 0x20000" "\<And>a k. k \<le> 32 \<Longrightarrow> can_map_pages a k s" "\<And>a. can_unmap a s"
proof (rule demo_heap_exists, goal_cases)
  case (1 s h)
  note s = 1(2-)
  have k: "unat (of_nat k :: u32int) = k" using assms by (intro unat_of_nat32) simp
  have nz: "(0 :: u32int) < of_nat k" using k assms(1) by (simp add: word_less_nat_alt)
  have fit: "\<exists>b \<in> set [Block 0xC0080000 0x80000 True]. fitting (unat (of_nat k :: u32int)) False b"
    using assms k by (simp add: fitting_def padding_def)
  have k20: "unat (of_nat k :: u32int) + 20 < 4294967296" using k assms by simp
  have sp: "card (holes [Block 0xC0080000 0x80000 True]) < max_size (index h)" using s(6) by simp
  show ?case
  proof (rule alloc_fits [OF s(1,2) nz k20 fit sp, where map_page = "\<lambda>_ _ _ _. None" and again = "\<lambda>_ _ _. None"], goal_cases)
    case (1 b xs ys s' h')
    then have b: "b = Block 0xC0080000 0x80000 True" "xs = []" "ys = []" by (cases xs; simp)+
    have pad: "padding False a = 0" for a by (simp add: padding_def)
    have g: "granted 0x80000 0 k = k" using assms by (simp add: granted_def)
    have rep: "heap_rep (mem s') h' [Block 0xC0080000 (k + 20) False, Block (0xC0080000 + k + 20) (0x80000 - k - 20) True]"
      using 1(6) assms(2) unfolding b pad block.sel k g by (simp add: carved_def)
    have h': "start_address h' = start_address h" "end_address h' = end_address h" "max_address h' = max_address h"
      by (subst 1(9), simp)+
    have "can_map_pages a j s'" if "j \<le> 32" for a j
      by (subst 1(8)) (use s(7) [OF that] kernel_mapper.can_map_heap in blast)
    moreover have "can_unmap a s'" for a
      by (subst 1(8)) (use s(8) kernel_releaser.ready_heap in blast)
    ultimately show ?case
      using that [OF 1(5) rep] h' s(3-6) 1(10) by simp
  qed
qed

section \<open>The heap\<close>

text \<open>C1. \<open>kmalloc\<close> and \<open>kmalloc_a\<close> return: from any valid heap whose arena, index, page tables and
  frames leave room for three growths of the request, a depth of four calls is enough. The
  returned pointer is the payload of a new block that is large enough and, for \<open>kmalloc_a\<close>,
  page aligned; every block allocated before keeps its place and its contents; no other
  block is allocated and none is lost; and the heap is valid again.\<close>

theorem kmalloc_correct:
  fixes s :: "'a pstate_scheme"
  assumes "kheap s = Some h" "heap_rep (mem s) h bs" "0 < sz" "unat sz + 20 < 4294967296"
    "unat (start_address h) mod 4096 = 0" "unat (end_address h) mod 4096 = 0" "0 < unat (start_address h)"
    "q = (unat sz + 20 + 4095) div 4096"
    "unat (end_address h) + 4096 * (3 * q) \<le> unat (max_address h)"
    "card (holes bs) + 4 \<le> max_size (index h)" "can_map_pages (end_address h) (3 * q) s"
  shows "\<exists>p s' h' bs'. kmalloc_int (kernel_alloc 4) sz al False s = Some (p, None, s') \<and>
    kheap s' = Some h' \<and> heap_rep (mem s') h' bs' \<and> alloc_ok (mem s) bs sz al p (mem s') bs'"
proof -
  obtain p s' h' bs' where a: "alloc map_ready_page 4 sz al s = Some (p, s')" "kheap s' = Some h'"
      "heap_rep (mem s') h' bs'" "alloc_ok (mem s) bs sz al p (mem s') bs'"
    by (rule kernel_mapper.alloc_total [OF assms])
  have "kernel_alloc 4 sz al s = Some (p, s')"
    using less_def_Some [OF kernel_alloc_refines a(1)] .
  then show ?thesis using a(2-4) assms(1) by (auto simp: kmalloc_int_def)
qed

theorem kmalloc_correct_witness:
  "\<exists>s p s' h' bs'. kmalloc_int (kernel_alloc 4) 100 True False (s :: pstate) = Some (p, None, s') \<and>
    kheap s' = Some h' \<and> heap_rep (mem s') h' bs' \<and>
    alloc_ok (mem s) [Block 0xC0080000 0x80000 True] 100 True p (mem s') bs'"
proof (rule demo_heap_exists)
  fix s h assume s: "kheap (s :: pstate) = Some h" "heap_rep (mem s) h [Block 0xC0080000 0x80000 True]"
    "start_address h = 0xC0080000" "end_address h = 0xC0100000" "max_address h = 0xCFFFF000"
    "max_size (index h) = 0x20000" "\<And>a k. k \<le> 32 \<Longrightarrow> can_map_pages a k s"
  show ?thesis
    using kmalloc_correct [OF s(1,2), of 100 1 True] s(3-7) by simp blast
qed



text \<open>C35. \<open>kfree\<close> of a valid pointer can stop the kernel: when the freed block, joined with the holes
  beside it, ends the arena and starts 1 to 19 bytes below a page boundary above
  \<open>HEAP_MIN_SIZE\<close>, the remainder is too small for both boundary tags and the final check of
  \<open>free\<close> panics.\<close>

theorem kfree_short_tail_panics:
  fixes s :: "'a pstate_scheme"
  assumes "kheap s = Some h" "heap_rep (mem s) h (xs @ Block a n False # ys)"
    "(unat (end_address h) - unat (start_address h)) mod 4096 = 0"
    "unat HEAP_MIN_SIZE \<le> unat (end_address h) - unat (start_address h)"
    "\<forall>x. start_address h \<le> x \<and> x < end_address h \<longrightarrow> can_unmap x s"
    "short_tail (unat (start_address h)) xs a n ys"
  shows "kfree (of_nat (a + 12)) s = None"
  using kernel_releaser.free_short_tail [OF assms] assms(1) by (simp add: kfree_def)

theorem kfree_short_tail_panics_witness:
  "\<exists>s h. kheap (s :: pstate) = Some h \<and>
    (\<exists>bs. heap_rep (mem s) h bs \<and> Block 0xC00F0FF0 61456 False \<in> set bs) \<and> kfree 0xC00F0FFC s = None"
proof (rule demo_heap_block [of "0x70FF0 - 20"])
  fix s h assume s: "kheap (s :: pstate) = Some h"
    "heap_rep (mem s) h [Block 0xC0080000 (0x70FF0 - 20 + 20) False,
       Block (0xC0080000 + (0x70FF0 - 20) + 20) (0x80000 - (0x70FF0 - 20) - 20) True]"
    "start_address h = 0xC0080000" "end_address h = 0xC0100000" "max_size (index h) = 0x20000"
    "\<And>a. can_unmap a s"
  let ?bs = "[Block 0xC0080000 462832 False, Block 0xC00F0FF0 61456 True]"
  have rep: "heap_rep (mem s) h ?bs" using s(2) by simp
  have nz: "(0 :: u32int) < 61436" "unat (61436 :: u32int) + 20 < 4294967296" by simp_all
  have fit: "\<exists>b \<in> set ?bs. fitting (unat (61436 :: u32int)) False b" by (simp add: fitting_def padding_def)
  have sp: "card (holes ?bs) < max_size (index h)" using s(5) by simp
  show ?thesis
  proof (rule alloc_fits [OF s(1) rep nz fit sp, where map_page = "\<lambda>_ _ _ _. None" and again = "\<lambda>_ _ _. None"], goal_cases)
    case (1 b xs ys s' h')
    then have b: "b = Block 0xC00F0FF0 61456 True" "xs = [Block 0xC0080000 462832 False]" "ys = []"
      by (auto simp: fitting_def Cons_eq_append_conv)
    have rep': "heap_rep (mem s') h' ([Block 0xC0080000 462832 False] @ Block 0xC00F0FF0 61456 False # [])"
      using 1(6) by (simp add: b carved_def padding_def granted_def)
    have h': "start_address h' = 0xC0080000" "end_address h' = 0xC0100000" by (subst 1(9), simp add: s(3,4))+
    have un: "can_unmap a s'" for a by (subst 1(8)) (use s(6) kernel_releaser.ready_heap in blast)
    have st: "short_tail (unat (start_address h')) [Block 0xC0080000 462832 False] 0xC00F0FF0 61456 []"
      by (simp add: h' short_tail_def join_left_def join_right_def tail_end_def HEAP_MIN_SIZE_def)
    have "kfree (of_nat (0xC00F0FF0 + 12)) s' = None"
      by (rule kfree_short_tail_panics [OF 1(5) rep' _ _ _ st]) (use h' un in \<open>simp_all add: HEAP_MIN_SIZE_def\<close>)
    moreover have "\<exists>bs. heap_rep (mem s') h' bs \<and> Block 0xC00F0FF0 61456 False \<in> set bs"
      using rep' by (intro exI [of _ "[Block 0xC0080000 462832 False, Block 0xC00F0FF0 61456 False]"]) simp
    ultimately show ?case using 1(5) by (intro exI [of _ s'] exI [of _ h']) simp
  qed
qed simp_all

text \<open>C17. The run-time check \<open>heap_validate\<close> accepts exactly the heaps that satisfy the invariant: the
  blocks tile the arena, every block has both boundary tags, and the index lists the holes
  once each, in the order of their sizes.\<close>

theorem heap_validate_exact:
  assumes "oa_wf header_t_less_than (index h)"
  shows "heap_validate m h = Some () \<longleftrightarrow> (\<exists>bs. heap_rep m h bs)"
  using heap_validate_sound [OF assms] heap_validate_complete by blast

theorem heap_validate_exact_witness:
  "\<exists>m h. heap_validate m h = Some () \<and> end_address h = 0xC0100000"
proof (rule demo_heap_exists)
  fix s h assume s: "heap_rep (mem (s :: pstate)) h [Block 0xC0080000 0x80000 True]" "end_address h = 0xC0100000"
  then have "oa_wf header_t_less_than (index h)" by (simp add: heap_rep_def index_ok_def)
  from heap_validate_exact [OF this, of "mem s"] s show ?thesis by blast
qed

text \<open>C18. \<open>alloc\<close> is best fit: when some hole fits the request (with the padding an aligned payload
  needs), a hole of the least size among the fitting ones is taken, without growing the
  heap, and it is cut into the padding hole, the block and the remaining hole.\<close>

theorem alloc_best_fit:
  fixes s :: "'a kstate_scheme"
  assumes "kheap s = Some h" "heap_rep (mem s) h bs" "0 < sz" "unat sz + 20 < 4294967296"
    "\<exists>b \<in> set bs. fitting (unat sz) al b" "card (holes bs) < max_size (index h)"
  shows "\<exists>b xs ys s' h'. bs = xs @ b # ys \<and> fitting (unat sz) al b \<and>
    (\<forall>b' \<in> set bs. fitting (unat sz) al b' \<longrightarrow> bsize b \<le> bsize b') \<and>
    alloc map_page (Suc fuel) sz al s = Some (of_nat (baddr b + padding al (baddr b) + 12), s') \<and>
    kheap s' = Some h' \<and>
    heap_rep (mem s') h' (xs @ carved (baddr b) (bsize b) (padding al (baddr b))
       (granted (bsize b) (padding al (baddr b)) (unat sz)) @ ys) \<and>
    end_address h' = end_address h"
proof (rule alloc_fits [OF assms, where map_page = map_page and again = "alloc map_page fuel"], goal_cases)
  case (1 b xs ys s' h')
  have "end_address h' = end_address h" by (subst 1(9)) simp
  with 1(1-6) show ?case unfolding alloc.simps by blast
qed

theorem alloc_best_fit_witness:
  "\<exists>s s' h'. alloc (\<lambda>_ _ _ _. None) 1 4096 True (s :: pstate) = Some (0xC0081000, s') \<and> kheap s' = Some h' \<and>
     heap_rep (mem s') h' [Block 0xC0080000 4084 True, Block 0xC0080FF4 4116 False, Block 0xC0082008 516088 True]"
proof (rule demo_heap_exists)
  fix s h assume s: "kheap (s :: pstate) = Some h" "heap_rep (mem s) h [Block 0xC0080000 0x80000 True]"
    "max_size (index h) = 0x20000"
  let ?bs = "[Block 0xC0080000 0x80000 True]"
  have pad: "padding True 0xC0080000 = 4084" by (simp add: padding_def page_alignment_offset_def)
  have fit: "\<exists>b \<in> set ?bs. fitting (unat (4096 :: u32int)) True b" by (simp add: fitting_def pad)
  from alloc_best_fit [OF s(1,2) _ _ fit, where map_page = "\<lambda>_ _ _ _. None" and fuel = 0] s(3)
  obtain b xs ys s' h' where r: "?bs = xs @ b # ys"
      "alloc (\<lambda>_ _ _ _. None) (Suc 0) 4096 True s = Some (of_nat (baddr b + padding True (baddr b) + 12), s')"
      "kheap s' = Some h'" "heap_rep (mem s') h' (xs @ carved (baddr b) (bsize b) (padding True (baddr b))
         (granted (bsize b) (padding True (baddr b)) (unat (4096 :: u32int))) @ ys)"
    by auto
  have b: "b = Block 0xC0080000 0x80000 True" "xs = []" "ys = []" using r(1) by (cases xs; simp)+
  have "heap_rep (mem s') h' [Block 0xC0080000 4084 True, Block 0xC0080FF4 4116 False, Block 0xC0082008 516088 True]"
    using r(4) by (simp add: b pad carved_def granted_def)
  then show ?thesis using r(2,3) by (auto simp: b pad)
qed

text \<open>\<open>kfree\<close> refuses what is not an allocated block: a pointer outside the arena, and the payload
  of a hole, as in a second free of the same pointer, stop the kernel.\<close>

theorem kfree_rejects:
  assumes h: "kheap s = Some h" and rep: "heap_rep (mem s) h bs" and nz: "p \<noteq> 0"
    and bad: "p < start_address h + 12 \<or> end_address h \<le> p \<or> (\<exists>b \<in> set bs. bhole b \<and> p = of_nat (baddr b + 12))"
  shows "kfree p s = None"
proof -
  have "header_is_hole (mem s) (p - 12) = 1" if "b \<in> set bs" "bhole b" "p = of_nat (baddr b + 12)" for b
    using heap_repD(4) [OF rep that(1)] that(2,3) by (simp add: tags_def)
  then show ?thesis
    using bad nz h heap_validate_complete [OF rep]
    by (auto simp: kfree_def free_def Let_def not_less not_le)
qed

theorem kfree_rejects_witness: "\<exists>s :: pstate. kheap s \<noteq> None \<and> kfree 0xC008000C s = None"
proof (rule demo_heap_exists)
  fix s h assume s: "kheap (s :: pstate) = Some h" "heap_rep (mem s) h [Block 0xC0080000 0x80000 True]"
  have "kfree 0xC008000C s = None" by (rule kfree_rejects [OF s]) auto
  then show ?thesis using s(1) by auto
qed

text \<open>\<open>create_heap\<close> succeeds on every page-aligned range that holds the index and a minimal block,
  and makes a valid heap: one hole from the end of the index to the end of the range.\<close>

theorem create_heap_correct:
  assumes "kmalloc_op 36 s = Some (x, s1)" "start \<noteq> 0" "start mod 0x1000 = 0" "end_addr mod 0x1000 = 0"
    "max_addr mod 0x1000 = 0 \<or> max_addr = 0xCFFFF000" "unat start + 0x80000 + 20 < unat end_addr" "end_addr \<le> max_addr"
  shows "\<exists>h m. create_heap kmalloc_op start end_addr max_addr su ro s = Some (h, s1\<lparr>mem := m\<rparr>) \<and>
    heap_rep m h [Block (unat start + 0x80000) (unat end_addr - (unat start + 0x80000)) True] \<and>
    unat (start_address h) = unat start + 0x80000 \<and> end_address h = end_addr \<and> max_address h = max_addr"
  by (rule create_heap_ok [where kmalloc = kmalloc_op and s = s, OF assms]) blast

theorem create_heap_correct_witness:
  "\<exists>h m. create_heap (\<lambda>_ s. Some (0, s)) 0xC0000000 0xC0100000 0xCFFFF000 False False demo_paging
      = Some (h, demo_paging\<lparr>mem := m\<rparr>) \<and> heap_rep m h [Block 0xC0080000 0x80000 True]"
  using create_heap_correct [of "\<lambda>_ s. Some (0, s)" demo_paging 0 demo_paging "0xC0000000" "0xC0100000" "0xCFFFF000" False False]
  by auto

text \<open>Before the heap exists, \<open>kmalloc\<close> hands out the bytes at the placement cursor: the block lies
  at or above the old cursor, ends at the new one, is page aligned on request and is its
  own physical address. It panics only when the address space is exhausted.\<close>

theorem kmalloc_placement:
  assumes "kheap s = None" and room: "unat (placement_address s) + 4096 + unat sz < 4294967296"
  shows "\<exists>p s'. kmalloc_int al_op sz align phys s = Some (p, (if phys then Some p else None), s') \<and>
    unat (placement_address s) \<le> unat p \<and> unat p < unat (placement_address s) + 4096 \<and>
    unat (placement_address s') = unat p + unat sz \<and> (align \<longrightarrow> unat p mod 4096 = 0) \<and>
    (\<not> align \<longrightarrow> p = placement_address s) \<and> s' = s\<lparr>placement_address := placement_address s'\<rparr>"
proof -
  let ?a = "placement_address s"
  define p where "p = (if align \<and> ?a AND 0xFFF \<noteq> 0 then (?a AND 0xFFFFF000) + 0x1000 else ?a)"
  have lo: "unat (?a AND 0xFFFFF000) = unat ?a - unat ?a mod 4096" by (rule unat_and_F000)
  have up: "unat ((?a AND 0xFFFFF000) + 0x1000) = unat ?a - unat ?a mod 4096 + 4096"
    using lo room by (subst unat_add32) auto
  have z: "?a AND 0xFFF = 0 \<longleftrightarrow> unat ?a mod 4096 = 0" using unat_and_FFF [of ?a] unat_eq_0 by metis
  have p: "unat ?a \<le> unat p" "unat p < unat ?a + 4096" "align \<longrightarrow> unat p mod 4096 = 0"
  proof -
    have "unat ?a mod 4096 \<le> unat ?a" "unat ?a mod 4096 < 4096" by simp_all
    moreover have "unat p = (if align \<and> unat ?a mod 4096 \<noteq> 0 then unat ?a - unat ?a mod 4096 + 4096 else unat ?a)"
      using up z by (simp add: p_def)
    ultimately show "unat ?a \<le> unat p" "unat p < unat ?a + 4096" by (auto split: if_splits)
    show "align \<longrightarrow> unat p mod 4096 = 0" using up z by (auto simp: p_def minus_mod_eq_mult_div)
  qed
  have guard: "?a AND 0xFFFFF000 \<le> 0xFFFFEFFF" using lo room by (simp add: word_le_nat_alt)
  have sz: "sz \<le> 0xFFFFFFFF - p" using p room by (simp add: word_le_nat_alt unat_sub32)
  have "unat (p + sz) = unat p + unat sz" using p room by (intro unat_add32) linarith
  moreover have "kmalloc_int al_op sz align phys s
      = Some (p, (if phys then Some p else None), s\<lparr>placement_address := p + sz\<rparr>)"
    using assms(1) guard sz by (auto simp: kmalloc_int_def p_def Let_def)
  ultimately show ?thesis using p by (auto simp: p_def)
qed

theorem kmalloc_placement_witness:
  "\<exists>p s'. kmalloc_int (\<lambda>_ _ _. None) 8196 True True (demo_paging\<lparr>placement_address := 0x200004\<rparr>) = Some (p, Some p, s') \<and>
    unat p mod 4096 = 0"
  using kmalloc_placement [of "demo_paging\<lparr>placement_address := 0x200004\<rparr>" 8196 "\<lambda>_ _ _. None" True True]
  by (auto simp: demo_paging_def)

section \<open>Frames and page tables\<close>

text \<open>C26. \<open>first_frame\<close> returns the least free frame number, and the sentinel \<open>0xFFFFFFFF\<close> exactly when
  every frame is occupied.\<close>

theorem first_frame_least:
  assumes "frame_map_wf fm"
  shows "first_frame fm = Some (if free_frames fm = {} then 0xFFFFFFFF else of_nat (Min (free_frames fm)))"
  using first_frame_spec [OF assms] by (simp split: if_splits)

theorem first_frame_least_witness:
  "first_frame \<lparr>frames = [0xFFFFFFFF, 7], nframes = 40, frame_word_count = 2\<rparr> = Some 35 \<and>
   first_frame \<lparr>frames = [0xFFFFFFFF, 7], nframes = 40, frame_word_count = 2\<rparr> =
     Some (of_nat (Min (free_frames \<lparr>frames = [0xFFFFFFFF, 7], nframes = 40, frame_word_count = 2\<rparr>)))"
proof -
  let ?fm = "\<lparr>frames = [0xFFFFFFFF, 7], nframes = 40, frame_word_count = 2\<rparr> :: frame_map"
  have r: "first_frame ?fm = Some 35" by code_simp
  have "frame_map_wf ?fm" by (simp add: frame_map_wf_def)
  from first_frame_least [OF this] r show ?thesis by (simp split: if_splits)
qed

text \<open>The bitmap operations are the operations of a set of frame numbers: \<open>set_frame\<close> inserts,
  \<open>clear_frame\<close> removes and \<open>test_frame\<close> decides membership, for every frame that exists.\<close>

theorem frame_bitmap_is_set:
  assumes wf: "frame_map_wf fm" and f: "f < unat (nframes fm)"
  shows "(\<exists>fm'. set_frame (of_nat (f * 4096)) fm = Some fm' \<and> frame_map_wf fm' \<and> used fm' = insert f (used fm)) \<and>
    (\<exists>fm'. clear_frame (of_nat (f * 4096)) fm = Some fm' \<and> frame_map_wf fm' \<and> used fm' = used fm - {f}) \<and>
    (\<exists>r. test_frame (of_nat (f * 4096)) fm = Some r \<and> (r \<noteq> 0 \<longleftrightarrow> f \<in> used fm))"
  using test_frame_ok [OF wf f] set_frame_ok [OF wf f] clear_frame_ok [OF wf f] by metis

theorem frame_bitmap_is_set_witness:
  "\<exists>fm'. set_frame (of_nat (35 * 4096)) \<lparr>frames = [0, 0], nframes = 40, frame_word_count = 2\<rparr> = Some fm' \<and>
    frame_map_wf fm' \<and> 35 \<in> used fm'"
  using frame_bitmap_is_set [of "\<lparr>frames = [0, 0], nframes = 40, frame_word_count = 2\<rparr>" 35]
  by (auto simp: frame_map_wf_def)

text \<open>C25. No frame is ever behind two pages: \<open>alloc_frame\<close> and \<open>free_frame\<close> keep the invariant that every
  present entry names an occupied frame and that no two entries name the same one. A frame
  handed out was free before; a frame taken back is free afterwards.\<close>

theorem frame_ownership_preserved:
  fixes s :: "'a pstate_scheme"
  assumes wf: "paging_wf s" and p: "read_page p s = Some pg"
  shows "(\<forall>s'. alloc_frame (Some p) k w s = Some s' \<longrightarrow> paging_wf s' \<and>
      (\<not> present pg \<longrightarrow> (\<exists>f. f \<notin> used (fmap s) \<and> owns s' p f \<and> used (fmap s') = insert f (used (fmap s))))) \<and>
    (\<exists>s''. free_frame (Some p) s = Some s'' \<and> paging_wf s'' \<and>
      used (fmap s'') = used (fmap s) - (if present pg then {unat (frame pg)} else {}))"
proof (intro conjI allI impI)
  show "\<exists>s''. free_frame (Some p) s = Some s'' \<and> paging_wf s'' \<and>
      used (fmap s'') = used (fmap s) - (if present pg then {unat (frame pg)} else {})"
    by (rule free_frame_wf [OF wf p]) blast
next
  fix s' assume a: "alloc_frame (Some p) k w s = Some s'"
  then show "paging_wf s'" by (rule alloc_frame_wf [OF wf])
  assume np: "\<not> present pg"
  from wf a show "\<exists>f. f \<notin> used (fmap s) \<and> owns s' p f \<and> used (fmap s') = insert f (used (fmap s))"
  proof (cases rule: alloc_frame_cases)
    case (same q pg0)
    then show ?thesis using np p by simp
  next
    case (fresh q pg0 fm pg' f)
    then have "owns s' p f" using owns_write [OF fresh(4), of p f] by simp
    then show ?thesis using fresh write_page_frame(1) [OF fresh(4)] by (auto simp: free_frames_def)
  qed
qed

theorem frame_ownership_preserved_witness:
  "\<exists>s''. free_frame (Some (0x5000, 3)) demo_paging = Some s'' \<and> paging_wf s'' \<and> used (fmap s'') = {}"
proof -
  have "read_page (0x5000, 3) demo_paging = Some zero_page"
    by (simp add: read_page_def demo_paging_def zero_table_def)
  from frame_ownership_preserved [OF demo_paging_wf this] demo_frames(3) show ?thesis
    by (simp add: zero_page_def)
qed

text \<open>C24. \<open>clone_table\<close> copies a page table with enough free frames: every present page of the source
  gets a frame of its own that was free, with the same bytes and the same write, accessed
  and dirty flags; absent pages stay absent; all other tables and all frames in use keep
  their contents. The copy is always accessible to user mode, also where the source page
  was not.\<close>

theorem clone_table_correct:
  fixes s :: "'a pstate_scheme"
  assumes km: "km sizeof_page_table s = Some (t, phys, s1)" and wf: "paging_wf s1"
    and src: "page_tables s1 a = Some src" "a \<noteq> t" and new: "page_tables s1 t = None"
    and free: "present_from src 0 \<le> card (free_frames (fmap s1))"
  shows "\<exists>s'. clone_table km a s = Some (t, phys, s') \<and> paging_wf s' \<and>
    (\<forall>j < 1024. copied s1 s' (src ! j) (t, j)) \<and>
    (\<forall>q. fst q \<noteq> t \<longrightarrow> read_page q s' = read_page q s1) \<and>
    (\<forall>f \<in> used (fmap s1). same_frame (pmem s1) f (pmem s') f)"
proof -
  let ?s1 = "s1\<lparr>page_tables := (page_tables s1)(t \<mapsto> zero_table)\<rparr>"
  have z: "length zero_table = 1024" "\<And>j. j < 1024 \<Longrightarrow> zero_table ! j = zero_page" "\<not> present zero_page"
    by (simp_all add: zero_table_def zero_page_def)
  have rd: "read_page q ?s1 = (if fst q = t then (if snd q < 1024 then Some zero_page else None) else read_page q s1)" for q
    using z by (simp add: read_page_def)
  have "owns ?s1 q f \<Longrightarrow> owns s1 q f" for q f
    unfolding owns_def rd using z(3) by (auto split: if_splits)
  note own = this
  have wf1: "paging_wf ?s1" unfolding paging_wf_def
  proof (intro conjI allI impI)
    show "length tab = 1024" if "page_tables ?s1 u = Some tab" for u tab
      using that z(1) paging_wfD(2) [OF wf] by (auto split: if_splits)
    show "q = q'" if "owns ?s1 q f" "owns ?s1 q' f" for q q' f
      using paging_wfD(4) [OF wf own own] that by blast
    show "f \<in> used (fmap ?s1)" if "owns ?s1 q f" for q f
      using paging_wfD(3) [OF wf own [OF that]] by simp
  qed (use paging_wfD(1) [OF wf] in simp)
  have src1: "page_tables ?s1 a = Some src" "length src = 1024" using src paging_wfD(2) [OF wf] by auto
  have zero: "read_page (t, j) ?s1 = Some zero_page" if "0 \<le> j" "j < 1024" for j using rd that by simp
  have free1: "present_from src 0 \<le> card (free_frames (fmap ?s1))" using free by simp
  obtain s' where s': "clone_pages src t 0 ?s1 = Some s'" "extends_tables ?s1 s' {(t, j) | j. 0 \<le> j \<and> j < 1024}"
      "\<And>j. \<lbrakk>0 \<le> j; j < 1024\<rbrakk> \<Longrightarrow> copied ?s1 s' (src ! j) (t, j)"
    by (rule clone_pages_ok [OF wf1 src1 src(2) _ zero free1]) auto
  have "clone_table km a s = Some (t, phys, s')"
    using km src1(1) s'(1) by (simp add: clone_table_def)
  moreover have fm1: "fmap ?s1 = fmap s1" "pmem ?s1 = pmem s1" by simp_all
  moreover have "copied s1 s' (src ! j) (t, j)" if "j < 1024" for j
    using s'(3) [of j] that unfolding copied_def fm1 by simp
  moreover have "read_page q s' = read_page q s1" if "fst q \<noteq> t" for q
    using s'(2) that rd [of q] by (cases q) (auto simp: extends_tables_def)
  ultimately show ?thesis using s'(2) by (auto simp: extends_tables_def)
qed

theorem clone_table_correct_witness:
  "\<exists>s'. clone_table (\<lambda>_ s. Some (0x6000, 0x6000, s)) 0x5000 demo_paging = Some (0x6000, 0x6000, s') \<and> paging_wf s'"
proof -
  have "page_tables demo_paging 0x5000 = Some zero_table" "page_tables demo_paging 0x6000 = None"
    by (simp_all add: demo_paging_def)
  moreover have "{j. 0 \<le> j \<and> j < 1024 \<and> present (zero_table ! j)} = {}"
    by (auto simp: zero_table_def zero_page_def)
  then have "present_from zero_table 0 = 0" by (simp add: present_from_def)
  ultimately show ?thesis
    using clone_table_correct [of "\<lambda>_ s. Some (0x6000, 0x6000, s)" demo_paging "0x6000" "0x6000" demo_paging "0x5000" zero_table]
      demo_paging_wf by auto
qed

end
