(* ===== verification/FS_Properties.thy ===== *)
theory FS_Properties
  imports FS_Build Memory_Properties
begin

text \<open>
  The statements about the file system: path resolution, confinement below the root, the round
  trip of path names, \<open>mkdir\<close>, the boot archive, and reading.
\<close>

section \<open>A concrete tree\<close>

text \<open>A root with the directory \<open>etc\<close>, which holds the file \<open>motd\<close>.\<close>

definition demo_dirs :: nodes where
  "demo_dirs = link [0x100 \<mapsto> directory_node ''initrd''] 0x100 0x200 (directory_node ''etc'')"

definition demo_nodes :: nodes where
  "demo_nodes = link demo_dirs 0x200 0x300 (file_node ''motd'' 0 5)"

lemma made_callbacks [simp]:
  "parent (directory_node nm) = 0" "finddir_cb (directory_node nm) = Some Initrd_finddir"
  "readdir_cb (directory_node nm) = Some Initrd_readdir" "mkdir_cb (directory_node nm) = Some Initrd_mkdir"
  "read_cb (file_node nm i len) = Some Initrd_read" "node_length (file_node nm i len) = len" "inode (file_node nm i len) = of_nat i"
  by (simp_all add: directory_node_def file_node_def empty_node_def)

lemma demo_dirs_link: "linkable [0x100 \<mapsto> directory_node ''initrd''] 0x100 0x100 0x200 (directory_node ''etc'')"
  using kernel_nodes.fs_wf_root [of "0x100"]
  by (simp add: linkable_def good_name_def finddir_fs_def initrd_finddir_def find_child_def)

lemma demo_nodes_link: "linkable demo_dirs 0x100 0x200 0x300 (file_node ''motd'' 0 5)"
  using fs_wf_link [OF demo_dirs_link]
  by (simp add: linkable_def good_name_def finddir_fs_def initrd_finddir_def find_child_def demo_dirs_def link_def)

lemma demo_nodes_wf: "fs_wf demo_nodes 0x100"
  unfolding demo_nodes_def by (rule fs_wf_link [OF demo_nodes_link])

lemma demo_path: "path_to demo_nodes 0x100 0x300 [''etc'', ''motd'']" "path_to demo_nodes 0x100 0x200 [''etc'']"
proof -
  have "path_to demo_dirs 0x100 0x200 [''etc'']"
    using path_to_link(2) [OF demo_dirs_link path_to.here] by (simp add: demo_dirs_def)
  then show "path_to demo_nodes 0x100 0x300 [''etc'', ''motd'']" "path_to demo_nodes 0x100 0x200 [''etc'']"
    using path_to_link [OF demo_nodes_link] by (fastforce simp: demo_nodes_def)+
qed

lemma demo_nodes_at [simp]:
  "demo_nodes 0x100 = Some ((directory_node ''initrd'')\<lparr>children := [0x200]\<rparr>)"
  "demo_nodes 0x200 = Some ((directory_node ''etc'')\<lparr>parent := 0x100, children := [0x300]\<rparr>)"
  "demo_nodes 0x300 = Some ((file_node ''motd'' 0 5)\<lparr>parent := 0x200\<rparr>)" "demo_nodes 0 = None"
  by (simp_all add: demo_nodes_def demo_dirs_def link_def)

section \<open>Paths\<close>

text \<open>C22. The character loop of \<open>resolve_path_fs\<close> computes the walk along the components of the path: the
  non-empty pieces between slashes, from the root for an absolute path and from the working
  directory otherwise, where \<open>.\<close> stays, \<open>..\<close> goes to the parent but not above the root, and a
  missing name or one of 128 characters and more gives the null pointer.\<close>

theorem resolve_is_walk:
  assumes "root \<noteq> 0" "cwd \<noteq> 0"
  shows "resolve_path_fs ns root cwd path =
    foldl (enter ns root) (if path \<noteq> [] \<and> is_slash (hd path) then root else cwd) (path_names path)"
  using resolve_path_walk [OF assms] by (simp add: walk_def)

theorem resolve_is_walk_witness: "resolve_path_fs demo_nodes 0x100 0x200 ''..//etc/./motd'' = 0x300"
proof -
  have names: "path_names ''..//etc/./motd'' = [''..'', ''etc'', ''.'', ''motd'']" by (simp add: path_names_def)
  have "finddir_fs demo_nodes 0x100 ''etc'' = 0x200" "finddir_fs demo_nodes 0x200 ''motd'' = 0x300"
    using path_to_follow [OF demo_nodes_wf demo_path(2)] path_to_follow [OF demo_nodes_wf demo_path(1)]
    by (simp_all add: follow_def)
  then have "enter demo_nodes 0x100 0x200 ''..'' = 0x100" "enter demo_nodes 0x100 0x100 ''etc'' = 0x200"
    "enter demo_nodes 0x100 0x200 ''.'' = 0x200" "enter demo_nodes 0x100 0x200 ''motd'' = 0x300"
    by (simp_all add: enter_def parent_or_self_def)
  then show ?thesis
    using resolve_is_walk [of "0x100" "0x200" demo_nodes "''..//etc/./motd''"] unfolding names by simp
qed

text \<open>C23. Path resolution is confined to the tree: from a working directory below the root every path,
  whatever number of \<open>..\<close> it has, leads to a node below the root or to the null pointer.\<close>

theorem resolve_confined:
  assumes "fs_wf ns root" "path_to ns root cwd ds"
  shows "resolve_path_fs ns root cwd path = 0 \<or> (\<exists>cs. path_to ns root (resolve_path_fs ns root cwd path) cs)"
proof -
  have nz: "root \<noteq> 0" "cwd \<noteq> 0" using fs_wfD(2) [OF assms(1)] below_root_not_0 [OF assms] by auto
  have "below_root ns root (if path \<noteq> [] \<and> is_slash (hd path) then root else cwd)"
    using assms(2) path_to.here [of ns root] by (auto simp: below_root_def)
  from walk_below [OF assms(1) this, of "path_names path"] show ?thesis
    unfolding resolve_path_walk [OF nz] below_root_def .
qed

theorem resolve_confined_witness:
  "resolve_path_fs demo_nodes 0x100 0x200 ''../../../etc'' = 0 \<or>
   (\<exists>cs. path_to demo_nodes 0x100 (resolve_path_fs demo_nodes 0x100 0x200 ''../../../etc'') cs)"
  by (rule resolve_confined [OF demo_nodes_wf demo_path(2)])

text \<open>C21. The name of a node leads back to it: \<open>get_path_fs\<close> succeeds exactly when the node lies at most 32
  levels below the root and the name with its terminator fits the buffer; it then writes the
  absolute name, and resolving that name, from any working directory, yields the node.\<close>

theorem get_path_roundtrip:
  assumes wf: "fs_wf ns root" and p: "path_to ns root a cs"
  shows "get_path_fs ns root a capacity =
      (if 2 \<le> capacity \<and> length cs \<le> 32 \<and> length (CHR ''/'' # join_slash cs) < capacity
       then Some (CHR ''/'' # join_slash cs) else None) \<and>
    (cwd \<noteq> 0 \<longrightarrow> resolve_path_fs ns root cwd (CHR ''/'' # join_slash cs) = a)"
proof
  have nz: "root \<noteq> 0" "a \<noteq> 0" using fs_wfD(2) [OF wf] below_root_not_0 [OF wf p] by auto
  show "get_path_fs ns root a capacity =
      (if 2 \<le> capacity \<and> length cs \<le> 32 \<and> length (CHR ''/'' # join_slash cs) < capacity
       then Some (CHR ''/'' # join_slash cs) else None)"
    by (rule get_path_exact [OF p nz])
  have w: "walk ns root root cs = a" "\<forall>c \<in> set cs. c \<noteq> [] \<and> CHR ''/'' \<notin> set c"
    using walk_path_to [OF wf p] by (auto simp: good_name_def)
  have "path_names (CHR ''/'' # join_slash cs) = cs"
    using split_join [OF w(2)] split_slash_slash [of "CHR ''/''"] by simp
  then show "cwd \<noteq> 0 \<longrightarrow> resolve_path_fs ns root cwd (CHR ''/'' # join_slash cs) = a"
    using resolve_path_walk [OF nz(1), of cwd ns "CHR ''/'' # join_slash cs"] w(1) by simp
qed

theorem get_path_roundtrip_witness:
  "get_path_fs demo_nodes 0x100 0x300 10 = Some ''/etc/motd'' \<and> get_path_fs demo_nodes 0x100 0x300 9 = None \<and>
   resolve_path_fs demo_nodes 0x100 0x200 ''/etc/motd'' = 0x300"
  using get_path_roundtrip [OF demo_nodes_wf demo_path(1), of 10 "0x200"]
    get_path_roundtrip [OF demo_nodes_wf demo_path(1), of 9 "0x200"] by simp

section \<open>Creating directories\<close>

text \<open>The demonstration heap with room for many nodes.\<close>

lemma demo_fs_exists:
  obtains s :: fstate where "heap_ready 100 s" "fs_nodes s = Map.empty"
proof -
  obtain s0 h where s0: "kheap (s0 :: pstate) = Some h" "heap_rep (mem s0) h [Block 0xC0080000 0x80000 True]"
      "max_size (index h) = 0x20000"
    by (rule demo_heap_exists) blast
  let ?s = "pstate.extend s0 \<lparr>fs_nodes = Map.empty, fs_root = 0, initrd_root = 0, initrd_dev = 0, file_headers = [],
    initrd_location = 0, initrd_end = 0\<rparr>"
  show thesis
    by (rule that [of ?s]) (use s0 in \<open>auto simp: heap_ready_def pstate.defs\<close>)
qed

lemma heap_ready_nodes:
  fixes s :: "'a fstate_scheme"
  assumes "heap_ready (Suc n) s" "fs_nodes s = Map.empty"
  obtains a s' where "heap_ready n s'" "fs_nodes s' = [a \<mapsto> directory_node ''initrd'']" "a \<noteq> 0" "fs_same s s'"
proof -
  obtain a s1 where a: "a \<noteq> 0" "fs_same s s1"
      "\<And>s'' :: 'a fstate_scheme. \<lbrakk>mem s'' = mem s1; kheap s'' = kheap s1; dom (fs_nodes s'') \<subseteq> insert a (dom (fs_nodes s))\<rbrakk> \<Longrightarrow> heap_ready n s''"
    by (rule kernel_nodes.new_node [OF assms(1), of "''x''"]) (simp, blast)
  show thesis
    by (rule that [of "s1\<lparr>fs_nodes := [a \<mapsto> directory_node ''initrd'']\<rparr>" a])
      (use a in \<open>simp_all add: a(3)\<close>)
qed

text \<open>C20. \<open>mkdir\<close> on the kernel heap: for every path it returns, and either makes exactly one directory or
  refuses and changes nothing. It makes one when the components before the last lead through
  directories, the last component is a name of less than 128 characters other than \<open>.\<close> and
  \<open>..\<close>, and no entry of that name exists. Then the name space is extended by that path, the tree
  stays well formed, and resolving the same path yields the new directory.\<close>

theorem mkdir_path_correct:
  fixes s :: "'a fstate_scheme"
  assumes wf: "fs_wf (fs_nodes s) root" and cwd: "path_to (fs_nodes s) root cwd ws" "fs_view (fs_nodes s) root ws = Some Dir"
    and ready: "heap_ready (Suc n) s"
  shows "case mkdir_target (fs_nodes s) root cwd path of
      None \<Rightarrow> mkdir_path_fs (kmalloc (kernel_alloc (Suc k))) root cwd path s = Some (-1, s)
    | Some (d, nm) \<Rightarrow> \<exists>a s'. mkdir_path_fs (kmalloc (kernel_alloc (Suc k))) root cwd path s = Some (0, s') \<and>
        fs_nodes s a = None \<and> fs_nodes s' = link (fs_nodes s) d a (directory_node nm) \<and> fs_wf (fs_nodes s') root \<and>
        (\<forall>ds. path_to (fs_nodes s) root d ds \<longrightarrow> fs_view (fs_nodes s') root = (fs_view (fs_nodes s) root)(ds @ [nm] \<mapsto> Dir)) \<and>
        resolve_path_fs (fs_nodes s') root cwd path = a"
proof (cases "mkdir_target (fs_nodes s) root cwd path")
  let ?km = "kmalloc (kernel_alloc (Suc k))"
  have dcwd: "dir_at (fs_nodes s) cwd"
    using cwd(2) path_to_follow [OF wf cwd(1)] by (auto simp: fs_view_def dir_at_def entry_of_def split: if_splits)
  note target = mkdir_path_target [OF wf dcwd, of ?km path]
  {
    case None
    then show ?thesis using target by simp
  next
    case (Some t)
    obtain d nm where t: "t = (d, nm)" by (cases t)
    have nm: "nm = last (path_names path)" "path_names path \<noteq> []" "nm \<noteq> ''.''" "nm \<noteq> ''..''" "length nm < 128" "d \<noteq> 0"
        "finddir_fs (fs_nodes s) d nm = 0"
        "d = foldl (enter_dir (fs_nodes s) root) (start_of root cwd path) (butlast (path_names path))"
      using Some t by (auto simp: mkdir_target_def Let_def split: if_splits)
    have good: "good_name nm" using nm path_names_no_slash [of nm path] by (auto simp: good_name_def)
    have start: "dir_at (fs_nodes s) (start_of root cwd path)" using dcwd dir_at_root [OF wf] by (simp add: start_of_def)
    then have "dir_at (fs_nodes s) d" using fold_enter_dir_at nm(6,8) by metis
    then obtain p where p: "fs_nodes s d = Some p" "is_directory p" by (auto simp: dir_at_def)
    have fc: "find_child (fs_nodes s) d nm = 0" using is_directory_name [OF p(2,1) wf] nm(7) by simp
    show ?thesis
    proof (rule kernel_nodes.make_directory [OF wf p good nm(7) ready, of k], goal_cases)
      case (1 a s')
      have l: "linkable (fs_nodes s) root d a (directory_node nm)"
        and ns': "fs_nodes s' = link (fs_nodes s) d a (directory_node nm)" using 1(2) by (auto simp: extends_def)
      have "initrd_mkdir ?km d nm s = Some (0, s')"
        using 1(1) good fc by (auto simp: initrd_mkdir_def good_name_def bind_Some_iff)
      then have "mkdir_path_fs ?km root cwd path s = Some (0, s')" using target Some t by simp
      moreover have "fs_nodes s a = None" using l by (simp add: linkable_def)
      moreover have "fs_view (fs_nodes s') root = (fs_view (fs_nodes s) root)(ds @ [nm] \<mapsto> Dir)"
        if "path_to (fs_nodes s) root d ds" for ds
        using fs_view_link [OF l that] ns' by (simp add: entry_of_def)
      moreover have "resolve_path_fs (fs_nodes s') root cwd path = a"
      proof -
        have nz: "root \<noteq> 0" "cwd \<noteq> 0" using fs_wfD(2) [OF wf] below_root_not_0 [OF wf cwd(1)] by auto
        have w: "walk (fs_nodes s') root (start_of root cwd path) (butlast (path_names path)) = d"
          using walk_link [OF l start] nm(6,8) ns' by simp
        have "path_names path = butlast (path_names path) @ [nm]" using nm(1,2) by simp
        then have "resolve_path_fs (fs_nodes s') root cwd path = enter (fs_nodes s') root d nm"
          using resolve_path_walk [OF nz, of "fs_nodes s'" path] w unfolding start_of_def
          by (metis walk_append walk_simps)
        then show ?thesis using finddir_link [OF l, of d nm] ns' nm(3-6) by (simp add: enter_def)
      qed
      ultimately show ?case using Some t ns' fs_wf_link [OF l] by auto
    qed
  }
qed

theorem mkdir_path_correct_witness:
  "\<exists>(s :: fstate) root a s'. mkdir_path_fs (kmalloc (kernel_alloc (Suc 0))) root root ''/tmp'' s = Some (0, s') \<and>
     resolve_path_fs (fs_nodes s') root root ''/tmp'' = a \<and> fs_nodes s a = None \<and> fs_view (fs_nodes s') root [''tmp''] = Some Dir"
proof (rule demo_fs_exists)
  fix s0 :: fstate assume "heap_ready 100 s0" "fs_nodes s0 = Map.empty"
  moreover have "heap_ready (Suc (Suc 98)) s0" using calculation(1) by simp
  ultimately show ?thesis
  proof (rule_tac heap_ready_nodes [where n = "Suc 98" and s = s0], goal_cases)
    case (3 root s)
    then have ns: "fs_nodes s = [root \<mapsto> directory_node ''initrd'']" "root \<noteq> 0" "heap_ready (Suc 98) s" by simp_all
    have wf: "fs_wf (fs_nodes s) root" using kernel_nodes.fs_wf_root [OF ns(2)] ns(1) by simp
    have names: "path_names ''/tmp'' = [''tmp'']" by (simp add: path_names_def)
    have tgt: "mkdir_target (fs_nodes s) root root ''/tmp'' = Some (root, ''tmp'')"
      using ns by (simp add: mkdir_target_def names start_of_def finddir_fs_def initrd_finddir_def find_child_def)
    have v: "fs_view (fs_nodes s) root [] = Some Dir" using ns by (simp add: fs_view_def entry_of_def)
    from mkdir_path_correct [OF wf path_to.here v ns(3), of 0 "''/tmp''"] obtain a s' where
      s': "mkdir_path_fs (kmalloc (kernel_alloc (Suc 0))) root root ''/tmp'' s = Some (0, s')" "fs_nodes s a = None"
        "fs_view (fs_nodes s') root = (fs_view (fs_nodes s) root)([] @ [''tmp''] \<mapsto> Dir)"
        "resolve_path_fs (fs_nodes s') root root ''/tmp'' = a"
      unfolding tgt using path_to.here [of "fs_nodes s" root] by auto
    have "fs_view (fs_nodes s') root [''tmp''] = Some Dir" using s'(3) by simp
    with s' show ?case by blast
  qed simp_all
qed

section \<open>The boot archive\<close>

text \<open>A file of a mounted archive, opened by its absolute name.\<close>

lemma mounted_file_read:
  assumes wf: "fs_wf (fs_nodes s') root" "files_wf (fs_nodes s') hs" "file_headers s' = hs"
    and v: "fs_view (fs_nodes s') root cs = Some (File j)" and names: "\<forall>c \<in> set cs. good_name c"
    and bs: "bs = take (unat sz) (drop (unat off) (file_bytes s' (hs ! j)))"
  shows "read_fs (find_path_fs (fs_nodes s') root (CHR ''/'' # join_slash cs)) off sz False s' = Some (of_nat (length bs), bs)"
proof -
  have root: "root \<noteq> 0" using fs_wfD(2) [OF wf(1)] .
  let ?a = "follow (fs_nodes s') root cs"
  obtain m where m: "fs_nodes s' ?a = Some m" "\<not> is_directory m" "unat (inode m) = j"
    using v by (auto simp: fs_view_def entry_of_def split: if_splits)
  have a0: "?a \<noteq> 0" using m(1) fs_wfD(1) [OF wf(1)] by auto
  then have "path_to (fs_nodes s') root ?a cs" by (rule follow_path_to [OF wf(1)])
  then have w: "walk (fs_nodes s') root root cs = ?a" using walk_path_to [OF wf(1)] by blast
  have "path_names (CHR ''/'' # join_slash cs) = cs"
    using split_join [of cs] names split_slash_slash [of "CHR ''/''"] by (auto simp: good_name_def)
  then have fp: "find_path_fs (fs_nodes s') root (CHR ''/'' # join_slash cs) = ?a"
    unfolding find_path_fs_def using resolve_path_walk [OF root root] w by simp
  have mf: "read_cb m = Some Initrd_read" "unat (inode m) < length (file_headers s')"
    using wf(2,3) m by (auto simp: files_wf_def)
  have "bs = take (unat sz) (drop (unat off) (file_bytes s' (file_headers s' ! unat (inode m))))" using bs wf(3) m(3) by simp
  from initrd_read_slice [OF m(1) mf(2) this] show ?thesis
    unfolding fp using a0 m(1) mf(1) by (simp add: read_fs_def)
qed

text \<open>The bytes of an archived file in the module at an address, and that mounting leaves them there.\<close>

definition module_bytes :: "memory \<Rightarrow> u32int \<Rightarrow> initrd_file_header_t \<Rightarrow> u8int list" where
  "module_bytes m location h = map (\<lambda>i. m (location + offset h + of_nat i)) [0..<unat (hlength h)]"

lemma file_bytes_module:
  assumes h: "header_ok (end_addr - location) h cs" and le: "location < end_addr"
    and same: "same_on m (mem s') 0 (unat end_addr)" and loc: "initrd_location s' = location"
  shows "file_bytes s' h = module_bytes m location h"
proof -
  have "unat (offset h) + unat (hlength h) \<le> unat (end_addr - location)"
    using h unat_sub32 [of "offset h" "end_addr - location"] by (auto simp: header_ok_def word_le_nat_alt)
  moreover have "unat (end_addr - location) = unat end_addr - unat location" "unat location < unat end_addr"
    using le unat_sub32 [of location end_addr] by (simp_all add: word_less_nat_alt)
  ultimately have b: "unat location + unat (offset h) + unat (hlength h) \<le> unat end_addr" by linarith
  have "mem s' (location + offset h + of_nat i) = m (location + offset h + of_nat i)" if "i < unat (hlength h)" for i
  proof -
    have e: "location + offset h + of_nat i = of_nat (unat location + unat (offset h) + i)" by simp
    show ?thesis unfolding e by (rule same [unfolded same_on_def, rule_format]) (use b that in linarith)
  qed
  then show ?thesis by (simp add: file_bytes_def module_bytes_def loc)
qed

text \<open>C5. Booting from an archive: when the module lies below the kernel heap and its header table is valid (magic numbers,
  ranges inside the module, names of valid components, at most 32 of them, no path twice, no file used as a directory),
  \<open>initialise_initrd\<close> succeeds on a heap with room for the nodes. The name space holds the root, \<open>dev\<close>, the files
  and their directories and nothing else; and every file opened by its absolute name reads
  back the bytes that the module held for it in memory before it was mounted: a read returns the bytes from the
  offset up to the requested count, fewer only at the end of the file.\<close>

theorem initrd_files_readable:
  fixes s :: "'a fstate_scheme"
  assumes loc: "location < end_addr" "4 + of_nat INITRD_HEADER_SLOTS * 76 \<le> end_addr - location"
    and below: "kheap s = Some h" "end_addr \<le> start_address h"
    and hs: "hs = map (\<lambda>i. read_file_header (mem s) (location + 4 + of_nat i * 76)) [0..<INITRD_HEADER_SLOTS]"
    and n: "unat (load32 (mem s) location) = length css" "length css \<le> INITRD_HEADER_SLOTS"
    and ok: "\<forall>j < length css. header_ok (end_addr - location) (hs ! j) (css ! j)"
    and free: "all_free [[] \<mapsto> Dir, [''dev''] \<mapsto> Dir] css 0"
    and boot: "fs_nodes s = Map.empty" "heap_ready (sum_list (map length css) + 2) s"
  shows "\<exists>root s'. initialise_initrd (kmalloc (kernel_alloc (Suc k))) location end_addr s = Some (root, s') \<and>
    fs_wf (fs_nodes s') root \<and> fs_view (fs_nodes s') root = add_all [[] \<mapsto> Dir, [''dev''] \<mapsto> Dir] css 0 \<and>
    (\<forall>j < length css. \<forall>off sz.
       let bs = take (unat sz) (drop (unat off) (module_bytes (mem s) location (hs ! j)))
       in read_fs (find_path_fs (fs_nodes s') root (CHR ''/'' # header_path (hs ! j))) off sz False s'
            = Some (of_nat (length bs), bs))"
proof -
  have ready: "module_ready (mem s) (unat end_addr) (sum_list (map length css) + 2) s"
    using boot(2) below by (auto simp: module_ready_def word_le_nat_alt)
  obtain root s' where s': "initialise_initrd (kmalloc (kernel_alloc (Suc k))) location end_addr s = Some (root, s')"
      "fs_wf (fs_nodes s') root" "files_wf (fs_nodes s') hs" "file_headers s' = hs" "initrd_location s' = location"
      "fs_view (fs_nodes s') root = add_all [[] \<mapsto> Dir, [''dev''] \<mapsto> Dir] css 0" "module_ready (mem s) (unat end_addr) 0 s'"
    using module_nodes.initialise_initrd_ok [OF loc hs n ok free boot(1) ready, of k] by blast
  have same: "same_on (mem s) (mem s') 0 (unat end_addr)" using s'(7) by (simp add: module_ready_def)
  have "read_fs (find_path_fs (fs_nodes s') root (CHR ''/'' # header_path (hs ! j))) off sz False s' = Some (of_nat (length bs), bs)"
    if j: "j < length css" and bs: "bs = take (unat sz) (drop (unat off) (module_bytes (mem s) location (hs ! j)))" for j off sz bs
  proof -
    have h: "header_path (hs ! j) = join_slash (css ! j)" "\<forall>c \<in> set (css ! j). good_name c"
      using ok j by (auto simp: header_ok_def)
    have "fs_view (fs_nodes s') root (css ! j) = Some (File j)" using s'(6) add_all_nth [OF free j] by simp
    then show ?thesis
      unfolding h(1) by (rule mounted_file_read [OF s'(2-4) _ h(2)])
        (simp add: bs file_bytes_module [OF ok [rule_format, OF j] loc(1) same s'(5)])
  qed
  then show ?thesis using s'(1,2,6) by (auto simp: Let_def)
qed

text \<open>A module at \<open>0x100000\<close> with the file \<open>motd\<close>, whose two bytes follow the table of headers.\<close>

definition demo_archive :: memory where
  "demo_archive = (\<lambda>_. 0)(0x100000 := 1, 0x100004 := 0xBF, 0x100005 := 0x6D, 0x100006 := 0x6F, 0x100007 := 0x74,
     0x100008 := 0x64, 0x100048 := 0x04, 0x100049 := 0x13, 0x10004C := 2, 0x101304 := 0x68, 0x101305 := 0x69)"

definition demo_headers :: "initrd_file_header_t list" where
  "demo_headers = map (\<lambda>i. read_file_header demo_archive (0x100000 + 4 + of_nat i * 76)) [0..<INITRD_HEADER_SLOTS]"

lemma demo_header: "header_ok 0x2000 (demo_headers ! 0) [''motd'']" "hlength (demo_headers ! 0) = 2" "offset (demo_headers ! 0) = 0x1304"
proof -
  have h0: "demo_headers ! 0 = read_file_header demo_archive 0x100004"
    unfolding demo_headers_def by (subst nth_map) (simp_all add: INITRD_HEADER_SLOTS_def)
  have "[0..<64] = [0, 1, 2, 3, 4 :: nat] @ [5..<64]" by (simp add: upt_rec)
  then have nm: "takeWhile (\<lambda>b. b \<noteq> 0) (hname (read_file_header demo_archive 0x100004)) = [0x6D, 0x6F, 0x74, 0x64]"
    by (simp add: read_file_header_def demo_archive_def)
  have "header_path (demo_headers ! 0) = ''motd''"
    unfolding header_path_def h0 nm by (simp add: char_of_def bit_0)
  moreover have "magic (demo_headers ! 0) = 0xBF" "offset (demo_headers ! 0) = 0x1304" "hlength (demo_headers ! 0) = 2"
    unfolding h0 by (simp_all add: read_file_header_def demo_archive_def load32_def)
  ultimately show "header_ok 0x2000 (demo_headers ! 0) [''motd'']" "hlength (demo_headers ! 0) = 2" "offset (demo_headers ! 0) = 0x1304"
    by (simp_all add: header_ok_def good_name_def MAX_PATH_COMPONENTS_def)
qed

text \<open>A booted heap, with any contents of the memory below it.\<close>

lemma demo_boot_exists:
  fixes low :: memory
  obtains s :: fstate and h where "heap_ready 3 s" "fs_nodes s = Map.empty" "\<And>a. a < 0xC0000000 \<Longrightarrow> mem s a = low a"
    "kheap s = Some h" "start_address h = 0xC0080000"
proof -
  obtain s0 h where s0: "kheap (s0 :: pstate) = Some h" "heap_rep (mem s0) h [Block 0xC0080000 0x80000 True]"
      "max_size (index h) = 0x20000" "start_address h = 0xC0080000"
    by (rule demo_heap_exists) blast
  let ?m = "\<lambda>a. if a < 0xC0000000 then low a else mem s0 a"
  let ?b = "Block 0xC0080000 0x80000 True"
  have "same_on (mem s0) ?m (baddr ?b) (baddr ?b + bsize ?b)"
    by (auto simp: same_on_def word_less_nat_alt unat_of_nat32)
  then have "tags ?m ?b" using same_on_tags [of "mem s0" ?m ?b] heap_repD(4) [OF s0(2), of ?b] by simp
  moreover have "index_ok ?m (index h) (holes [?b])"
  proof -
    have ok: "index_ok (mem s0) (index h) (holes [?b])" by (rule heap_repD(5) [OF s0(2)])
    have "holes [?b] = {0xC0080000}" by simp
    then have "set (entries (index h)) = {of_nat 0xC0080000}" "distinct (entries (index h))"
      using ok unfolding index_ok_def by simp_all
    then have "length (entries (index h)) = 1" using distinct_card [of "entries (index h)"] by simp
    then obtain e where "entries (index h) = [e]" by (auto simp: length_Suc_conv)
    then show ?thesis using ok by (simp add: index_ok_def)
  qed
  ultimately have rep: "heap_rep ?m h [?b]" using s0(2) by (auto simp: heap_rep_def)
  let ?s = "pstate.extend (s0\<lparr>mem := ?m\<rparr>) \<lparr>fs_nodes = Map.empty, fs_root = 0, initrd_root = 0, initrd_dev = 0,
    file_headers = [], initrd_location = 0, initrd_end = 0\<rparr>"
  show thesis
    by (rule that [of ?s h]) (use s0 rep in \<open>auto simp: heap_ready_def pstate.defs\<close>)
qed

theorem initrd_files_readable_witness:
  "\<exists>(s :: fstate) root s'. initialise_initrd (kmalloc (kernel_alloc (Suc 0))) 0x100000 0x102000 s = Some (root, s') \<and>
     fs_view (fs_nodes s') root [''motd''] = Some (File 0) \<and>
     read_fs (find_path_fs (fs_nodes s') root ''/motd'') 1 9 False s' = Some (1, [0x69])"
proof (rule demo_boot_exists [of demo_archive])
  fix s :: fstate and h
  assume s: "heap_ready 3 s" "fs_nodes s = Map.empty" "\<And>a. a < 0xC0000000 \<Longrightarrow> mem s a = demo_archive a"
    "kheap s = Some h" "start_address h = 0xC0080000"
  have hs: "demo_headers = map (\<lambda>i. read_file_header (mem s) (0x100000 + 4 + of_nat i * 76)) [0..<INITRD_HEADER_SLOTS]"
    unfolding demo_headers_def
  proof (rule map_cong [OF refl])
    fix i assume "i \<in> set [0..<INITRD_HEADER_SLOTS]"
    then have i: "i < 64" by (simp add: INITRD_HEADER_SLOTS_def)
    have "demo_archive (0x100000 + 4 + of_nat i * 76 + of_nat j) = mem s (0x100000 + 4 + of_nat i * 76 + of_nat j)" if "j < 80" for j
    proof (rule s(3) [symmetric])
      have "(0x100000 + 4 + of_nat i * 76 + of_nat j :: u32int) = of_nat (0x100004 + i * 76 + j)" by simp
      then show "0x100000 + 4 + of_nat i * 76 + of_nat j < (0xC0000000 :: u32int)"
        using i that by (simp only: word_less_nat_alt) (simp add: unat_of_nat32 del: of_nat_add of_nat_mult)
    qed
    note b = this
    show "read_file_header demo_archive (0x100000 + 4 + of_nat i * 76) = read_file_header (mem s) (0x100000 + 4 + of_nat i * 76)"
      using b [of 0] b [of "1 + _"] b [of 68] b [of 69] b [of 70] b [of 71] b [of 72] b [of 73] b [of 74] b [of 75]
      by (auto simp: read_file_header_def load32_def algebra_simps)
  qed
  have n: "unat (load32 (mem s) 0x100000) = length [[''motd'']]"
    using s(3) by (simp add: load32_def demo_archive_def)
  have ok: "\<forall>j < length [[''motd'']]. header_ok (0x102000 - 0x100000) (demo_headers ! j) ([[''motd'']] ! j)"
    using demo_header by simp
  have pre: "(0x100000 :: u32int) < 0x102000" "4 + of_nat INITRD_HEADER_SLOTS * 76 \<le> (0x102000 - 0x100000 :: u32int)"
      "length [[''motd'']] \<le> INITRD_HEADER_SLOTS" "all_free [[] \<mapsto> Dir, [''dev''] \<mapsto> Dir] [[''motd'']] 0"
      "heap_ready (sum_list (map length [[''motd'']]) + 2) s"
    using s(1) by (simp_all add: INITRD_HEADER_SLOTS_def numeral_3_eq_3)
  obtain root s' where s': "initialise_initrd (kmalloc (kernel_alloc (Suc 0))) 0x100000 0x102000 s = Some (root, s')"
     "fs_view (fs_nodes s') root = add_all [[] \<mapsto> Dir, [''dev''] \<mapsto> Dir] [[''motd'']] 0"
     and rd: "\<forall>j < length [[''motd'']]. \<forall>off sz.
       let bs = take (unat sz) (drop (unat off) (module_bytes (mem s) 0x100000 (demo_headers ! j)))
       in read_fs (find_path_fs (fs_nodes s') root (CHR ''/'' # header_path (demo_headers ! j))) off sz False s'
            = Some (of_nat (length bs), bs)"
    using initrd_files_readable [OF pre(1,2) s(4) _ hs n pre(3) ok pre(4) s(2) pre(5), of 0] s(5) by auto
  have nm: "header_path (demo_headers ! 0) = ''motd''" using demo_header(1) by (simp add: header_ok_def)
  let ?bs = "take (unat (9 :: u32int)) (drop (unat (1 :: u32int)) (module_bytes (mem s) 0x100000 (demo_headers ! 0)))"
  have "read_fs (find_path_fs (fs_nodes s') root (CHR ''/'' # header_path (demo_headers ! 0))) 1 9 False s'
      = Some (of_nat (length ?bs), ?bs)"
    using rd [rule_format, of 0 "9" "1"] unfolding Let_def by simp
  moreover have bs: "?bs = [0x69]"
  proof -
    have "module_bytes (mem s) 0x100000 (demo_headers ! 0) = [mem s 0x101304, mem s 0x101305]"
      using demo_header(2,3) by (simp add: module_bytes_def upt_rec)
    then show ?thesis using s(3) [of "0x101305"] by (simp add: demo_archive_def)
  qed
  moreover have "fs_view (fs_nodes s') root [''motd''] = Some (File 0)" using s'(2) by simp
  ultimately show ?thesis using s'(1) unfolding nm bs by (intro exI [of _ s] exI [of _ root] exI [of _ s']) simp
qed

end
