(* ===== verification/Task_Properties.thy ===== *)
theory Task_Properties
  imports Signal_Frames FS_Properties
begin

text \<open>
  The statements about processes (\<open>src/task.c\<close>, \<open>src/signal.c\<close>): the scheduler, the life of a process,
  the user heap, descriptors and signals, with a concrete process table at which each of them
  applies.
\<close>

section \<open>A concrete process table\<close>

text \<open>The idle task, the process 1, which owns the processor, and its child 2, which waits for input. The
  stack of process 1 has its two pages in the frames 5 and 6.\<close>

definition demo_user :: task_t where
  "demo_user = initialise_standard_descriptors (zero_task\<lparr>task_id := 1, page_directory := 0x1000, kernel_stack := 0x8000,
     is_user_process := True, heap_start := USER_HEAP_START, heap_break := USER_HEAP_START, heap_mapped_end := USER_HEAP_START + 0x1000,
     heap_limit := USER_HEAP_LIMIT, working_directory := 0x100\<rparr>)"

definition demo_page :: "20 word \<Rightarrow> page_t" where
  "demo_page f = \<lparr>present = True, rw = True, user = True, accessed = False, dirty = False, unused = 0, frame = f\<rparr>"

definition demo_tasks :: tstate where
  "demo_tasks = \<lparr>mem = (\<lambda>_. 0), kheap = None, placement_address = 0x200000,
     fmap = \<lparr>frames = [0x60], nframes = 32, frame_word_count = 1\<rparr>,
     page_tables = [0x5000 \<mapsto> zero_table[1022 := demo_page 5, 1023 := demo_page 6]],
     directories = [0x1000 \<mapsto> zero_directory\<lparr>tables := (replicate 1024 0)[767 := 0x5000]\<rparr>],
     kernel_directory = 0x1000, current_directory = 0x1000, pmem = (\<lambda>_. 0),
     fs_nodes = demo_nodes, fs_root = 0x100, initrd_root = 0x100,
     initrd_dev = 0, file_headers = [], initrd_location = 0, initrd_end = 0,
     tasks = [0x3000 \<mapsto> initialise_standard_descriptors (zero_task\<lparr>page_directory := 0x1000\<rparr>), 0x4000 \<mapsto> demo_user,
       0x6000 \<mapsto> demo_user\<lparr>task_id := 2, parent_id := 1, state := TASK_WAITING_INPUT\<rparr>],
     ready_queue = [0x3000, 0x4000, 0x6000], current_task = 0x4000, next_pid = 3, tss_esp0 = 0\<rparr>"

lemma demo_task_ok: "task_ok demo_user" "task_ok (initialise_standard_descriptors (zero_task\<lparr>page_directory := 0x1000\<rparr>))"
    "task_ok (demo_user\<lparr>task_id := 2, parent_id := 1, state := TASK_WAITING_INPUT\<rparr>)"
  by (simp_all add: task_ok_def heap_ok_def std_ok_def demo_user_def initialise_standard_descriptors_def zero_task_def
      MAX_FILE_DESCRIPTORS_def SIGNAL_COUNT_def USER_HEAP_START_def USER_HEAP_LIMIT_def)

lemma demo_sel:
  "ready_queue demo_tasks = [0x3000, 0x4000, 0x6000]" "current_task demo_tasks = 0x4000" "next_pid demo_tasks = 3"
  "tasks demo_tasks 0x4000 = Some demo_user" "fs_nodes demo_tasks = demo_nodes"
  "tasks demo_tasks 0x6000 = Some (demo_user\<lparr>task_id := 2, parent_id := 1, state := TASK_WAITING_INPUT\<rparr>)"
  "tasks demo_tasks 0x3000 = Some (initialise_standard_descriptors (zero_task\<lparr>page_directory := 0x1000\<rparr>))"
  by (simp_all add: demo_tasks_def)

lemma demo_current: "get_current demo_tasks = Some demo_user" by (simp add: get_current_def demo_tasks_def)

lemma demo_proc_wf: "proc_wf demo_tasks"
  using demo_task_ok
  by (auto simp: proc_wf_def proc_inv_def runnable_at_def demo_tasks_def demo_user_def initialise_standard_descriptors_def zero_task_def split: if_splits)

definition demo_cpu :: cpu where "demo_cpu = \<lparr>cpu_eip = 0x101234, cpu_esp = 0x9F00, cpu_ebp = 0x9F40\<rparr>"

section \<open>Scheduling\<close>

text \<open>C12. Every task switch ends: the search of \<open>switch_task\<close> stops at the first runnable task after the
  current one in the circular order of the queue. The registers and the address space of that
  task become the processor's, the registers of the old task are saved in it, and nothing else
  of any task changes. With a single task the switch does nothing.\<close>

theorem switch_picks_next_runnable:
  fixes s :: "'a tstate_scheme"
  assumes "proc_inv s" "i < length (ready_queue s)" "current_task s = ready_queue s ! i" "2 \<le> length (ready_queue s)"
  shows "\<exists>k t n c' s'. 1 \<le> k \<and> k \<le> length (ready_queue s) \<and>
    (\<forall>j. 1 \<le> j \<and> j < k \<longrightarrow> \<not> runnable_at (tasks s) (ready_queue s ! ((i + j) mod length (ready_queue s)))) \<and>
    switch_task c s = Some (c', s') \<and> current_task s' = ready_queue s ! ((i + k) mod length (ready_queue s)) \<and>
    runnable_at (tasks s) (current_task s') \<and> get_current s = Some t \<and> get_current s' = Some n \<and>
    tasks s' = (tasks s)(current_task s \<mapsto> t\<lparr>t_eip := cpu_eip c, t_esp := cpu_esp c, t_ebp := cpu_ebp c\<rparr>) \<and>
    c' = \<lparr>cpu_eip = t_eip n, cpu_esp = t_esp n, cpu_ebp = t_ebp n\<rparr> \<and>
    current_directory s' = page_directory n \<and> tss_esp0 s' = kernel_stack n + KERNEL_STACK_SIZE \<and> ready_queue s' = ready_queue s"
proof (rule switch_task_spec [OF proc_inv_sched [OF assms(1)] assms(2,3), of c], goal_cases)
  case (1 k n t c' s')
  have d: "tasks s' = (tasks s)(current_task s \<mapsto> saved c t)"
    "s' = s\<lparr>tasks := tasks s', current_task := current_task s', current_directory := page_directory n, tss_esp0 := kernel_stack n + KERNEL_STACK_SIZE\<rparr>"
    "c' = \<lparr>cpu_eip = t_eip n, cpu_esp = t_esp n, cpu_ebp = t_ebp n\<rparr>" using 1(10) assms(4) by auto
  have "current_directory s' = page_directory n" "tss_esp0 s' = kernel_stack n + KERNEL_STACK_SIZE" by (subst d(2), simp)+
  moreover have "0 < length (ready_queue s)" using assms(2) by linarith
  then have "current_task s' \<in> set (ready_queue s)" unfolding 1(7) by (intro nth_mem mod_less_divisor)
  then have "current_task s' \<noteq> 0" using proc_invD(2) [OF assms(1)] by metis
  then have "get_current s' = Some n" using 1(9) by (simp add: get_current_def)
  ultimately show ?case using 1(1-8) d(1,3) assms(4) unfolding saved_def by (intro exI [of _ k] exI [of _ t] exI [of _ n] exI [of _ c'] exI [of _ s']) auto
qed

theorem switch_picks_next_runnable_witness:
  "\<exists>c' s'. switch_task demo_cpu demo_tasks = Some (c', s') \<and> ready_queue s' = [0x3000, 0x4000, 0x6000] \<and> runnable_at (tasks demo_tasks) (current_task s')"
proof -
  have inv: "proc_inv demo_tasks" using demo_proc_wf by (simp add: proc_wf_def)
  show ?thesis using switch_picks_next_runnable [OF inv, of 1 demo_cpu] by (auto simp: demo_sel)
qed

text \<open>C13. Round robin is fair: as long as the timer switches tasks, a task that is runnable gets the
  processor after at most as many switches as the queue has tasks, whatever the registers
  of the tasks are.\<close>

theorem round_robin_fair:
  fixes s :: "'a tstate_scheme"
  assumes "proc_inv s" "b \<in> set (ready_queue s)" "runnable_at (tasks s) b" "length (ready_queue s) \<le> length cs"
  shows "\<exists>k s'. 1 \<le> k \<and> k \<le> length (ready_queue s) \<and> run_switches (take k cs) s = Some s' \<and> current_task s' = b"
proof -
  let ?q = "ready_queue s"
  obtain i where i: "i < length ?q" "current_task s = ?q ! i" using proc_invD(4) [OF assms(1)] by (auto simp: in_set_conv_nth)
  obtain m where m: "m < length ?q" "?q ! m = b" using assms(2) by (auto simp: in_set_conv_nth)
  define p where "p = (if i < m then m - i else m + length ?q - i)"
  have p: "1 \<le> p" "p \<le> length ?q" "(i + p) mod length ?q = m" using m(1) i(1) by (auto simp: p_def)
  then obtain k s' where "1 \<le> k" "k \<le> p" "run_switches (take k cs) s = Some s'" "current_task s' = b"
    using reached_within [OF proc_inv_sched [OF assms(1)] i p(1,2), of b cs] m(2) assms(3,4) by auto
  then show ?thesis using p(2) by (intro exI [of _ k] exI [of _ s']) simp
qed

theorem round_robin_fair_witness:
  "\<exists>k s'. 1 \<le> k \<and> k \<le> 3 \<and> run_switches (take k [demo_cpu, demo_cpu, demo_cpu]) demo_tasks = Some s' \<and> current_task s' = 0x3000"
proof -
  have inv: "proc_inv demo_tasks" using demo_proc_wf by (simp add: proc_wf_def)
  have "runnable_at (tasks demo_tasks) 0x3000"
    by (simp add: runnable_at_def demo_tasks_def initialise_standard_descriptors_def zero_task_def)
  then show ?thesis using round_robin_fair [OF inv, of "0x3000" "[demo_cpu, demo_cpu, demo_cpu]"] by (simp add: demo_sel numeral_3_eq_3)
qed

section \<open>The life of a process\<close>

text \<open>C7. The invariant of the process table holds after every sequence of calls into the process layer
  (task switches, fork, execve, exit, waitpid, sbrk, descriptors, signals, sleeping and waking): the
  queue holds the idle task first and otherwise user processes, ids are unique, every user heap
  is inside its limits, standard descriptors are in place and the owner of the processor is
  runnable.\<close>

theorem process_invariant:
  fixes s :: "'a tstate_scheme"
  assumes "proc_wf s" "proc_step\<^sup>*\<^sup>* s s'"
  shows "proc_wf s'"
  using assms by (rule proc_steps_wf [rotated])

theorem process_invariant_witness:
  "proc_wf (task_wake_keyboard_waiters demo_tasks) \<and>
   state (the (tasks (task_wake_keyboard_waiters demo_tasks) 0x6000)) = TASK_RUNNABLE"
  using process_invariant [OF demo_proc_wf r_into_rtranclp [of proc_step, OF proc_step.wake]]
  by (simp add: task_wake_keyboard_waiters_def demo_sel)

lemma send_total:
  assumes "proc_inv s" shows "\<exists>r s'. task_signal_send pid n s = Some (r, s')"
proof (cases "find_task pid s = 0")
  case False
  then obtain t where "tasks s (find_task pid s) = Some t" using find_task_in_Some [of "tasks s" pid "ready_queue s"] by (auto simp: find_task_def)
  then show ?thesis using False by (simp add: task_signal_send_def Let_def)
qed (simp add: task_signal_send_def)

lemma close_all_total:
  assumes "\<forall>d \<in> set fds. kind d = FD_KIND_NODE \<and> fd_node d \<noteq> 0 \<longrightarrow> (\<exists>n. fs_nodes s (fd_node d) = Some n \<and> close_cb n = None)"
  shows "close_all fds s = Some s"
  using assms
proof (induction fds)
  case (Cons d fds)
  have "close_fs (fd_node d) s = Some s" if "kind d = FD_KIND_NODE" "fd_node d \<noteq> 0"
    using Cons.prems that by (auto simp: close_fs_def split: option.splits)
  then show ?case using Cons by simp
qed simp

text \<open>C14. \<open>task_exit\<close> never returns to the exiting process and never stops the kernel: in every state of the
  invariant in which the node descriptors of the process name existing nodes without a close callback, the process
  becomes a zombie that keeps its exit status, its descriptors are released, and another
  task, which is runnable, continues.\<close>

theorem exit_leaves_zombie:
  fixes s :: "'a tstate_scheme"
  assumes wf: "proc_wf s" and t: "get_current s = Some t" "is_user_process t"
    and fds: "\<forall>d \<in> set (descriptors t). kind d = FD_KIND_NODE \<and> fd_node d \<noteq> 0 \<longrightarrow> (\<exists>n. fs_nodes s (fd_node d) = Some n \<and> close_cb n = None)"
  shows "\<exists>c' s' z. task_exit c status s = Some (c', s') \<and> current_task s' \<noteq> current_task s \<and>
    runnable_at (tasks s') (current_task s') \<and> tasks s' (current_task s) = Some z \<and> state z = TASK_ZOMBIE \<and>
    exit_status z = status \<and> task_id z = task_id t \<and> parent_id z = parent_id t \<and> page_directory z = page_directory t \<and>
    (\<forall>d \<in> set (descriptors z). kind d = FD_KIND_FREE) \<and> ready_queue s' = ready_queue s"
proof -
  have inv: "proc_inv s" using wf by (simp add: proc_wf_def)
  have nz: "task_id t \<noteq> 0" using user_not_head(1) [OF inv t] proc_invD(7) [OF inv] t(1) by (auto simp: get_current_def split: if_splits)
  let ?z = "set_current (zombie status t) s"
  have ok: "task_ok (zombie status t)" by (rule task_ok_zombie [OF current_task_ok [OF wf t(1)]])
  have l: "proc_inv ?z" using leave_inv(1) [OF inv t, of "zombie status t"] ok t(2) by simp
  obtain s1 where s1: "(if 0 < sint (parent_id t) then do { (_, s) \<leftarrow> task_signal_send (parent_id t) (of_nat SIGNAL_CHLD) ?z; Some s } else Some ?z) = Some s1"
      "s1 = ?z \<or> (\<exists>v. task_signal_send (parent_id t) (of_nat SIGNAL_CHLD) ?z = Some (v, s1))"
    using send_total [OF l, of "parent_id t" "of_nat SIGNAL_CHLD"] by (cases "0 < sint (parent_id t)") auto
  note e = exit_inv [OF wf t s1(2)]
  obtain i where i: "i < length (ready_queue s1)" "current_task s1 = ready_queue s1 ! i"
    using proc_invD(4) [OF e(1)] by (auto simp: in_set_conv_nth)
  obtain c' s' where sw: "switch_task c s1 = Some (c', s')" "tasks s' = (tasks s1)(current_task s1 \<mapsto> saved c (zombie status t))"
  proof (rule switch_task_spec [OF proc_inv_sched [OF e(1)] i, of c], goal_cases)
    case (1 k n u c' s')
    have "u = zombie status t" using 1(6) e(3,5) by (simp add: get_current_def split: if_splits)
    then show ?case using 1(1,7,11) e(2) by auto
  qed
  have r: "runnable_at (tasks s') (current_task s')" "ready_queue s' = ready_queue s"
    using switch_task_wf(3,5) [OF proc_inv_sched [OF e(1)] sw(1)] e(2,4) by auto
  have z: "tasks s' (current_task s) = Some (saved c (zombie status t))" using sw(2) e(3) by simp
  then have ne: "current_task s' \<noteq> current_task s" using r(1) by (auto simp: runnable_at_def saved_def)
  have "task_exit c status s = Some (c', s')"
  proof (cases "0 < sint (parent_id t)")
    case True
    then obtain v where "task_signal_send (parent_id t) (of_nat SIGNAL_CHLD) ?z = Some (v, s1)" using s1(1) by (auto simp: bind_Some_iff)
    then show ?thesis using t nz close_all_total [OF fds] sw(1) ne e(3) True by (simp add: task_exit_def Let_def zombie_def [symmetric])
  next
    case False
    then show ?thesis using t nz close_all_total [OF fds] s1(1) sw(1) ne e(3) by (simp add: task_exit_def Let_def zombie_def [symmetric])
  qed
  then show ?thesis using r z ne
    by (intro exI [of _ c'] exI [of _ s'] exI [of _ "saved c (zombie status t)"]) (simp add: saved_def zombie_def free_descriptor_def)
qed

theorem exit_leaves_zombie_witness:
  "\<exists>c' s' z. task_exit demo_cpu 7 demo_tasks = Some (c', s') \<and> tasks s' 0x4000 = Some z \<and> state z = TASK_ZOMBIE \<and> exit_status z = 7"
proof -
  have "\<forall>d \<in> set (descriptors demo_user). kind d = FD_KIND_NODE \<and> fd_node d \<noteq> 0 \<longrightarrow> (\<exists>n. fs_nodes demo_tasks (fd_node d) = Some n \<and> close_cb n = None)"
    by (auto simp: demo_user_def initialise_standard_descriptors_def free_descriptor_def MAX_FILE_DESCRIPTORS_def zero_task_def numeral_eq_Suc)
  from exit_leaves_zombie [OF demo_proc_wf demo_current _ this, of demo_cpu 7] show ?thesis
    by (simp add: demo_user_def initialise_standard_descriptors_def demo_sel) blast
qed




definition demo_regs :: registers_t where
  "demo_regs = \<lparr>reg_ds = 0x23, edi = 1, esi = 2, ebp = 3, esp = 4, ebx = 5, edx = 6, ecx = 7, eax = 2, int_no = 0x80, err_code = 0,
     eip = 0x400123, reg_cs = 0x1B, eflags = 0x202, useresp = 0xBFFFFF00, reg_ss = 0x23\<rparr>"



lemma find_task_zero:
  assumes "proc_inv u"
  shows "find_task p u = 0 \<longleftrightarrow> (\<forall>a t. tasks u a = Some t \<longrightarrow> task_id t \<noteq> p)"
proof -
  have "find_task_in (tasks u) p q = 0 \<longleftrightarrow> (\<forall>a \<in> set q. \<forall>t. tasks u a = Some t \<longrightarrow> task_id t \<noteq> p)" if "0 \<notin> set q" for q
    using that by (induction q) (auto split: option.splits)
  then show ?thesis using proc_invD(2,3) [OF assms] unfolding find_task_def by (metis domI domIff)
qed

text \<open>C15. \<open>waitpid\<close> in a state of the invariant: a process id that is not a child's is refused, a child
  that has not ended yields 0, both without any change; and when the call collects a zombie,
  it reports the exit status, removes exactly that task from the table and the queue, and
  a second call for the same id is refused.\<close>

theorem waitpid_collects_once:
  fixes s :: "'a tstate_scheme"
  assumes wf: "proc_wf s" and par: "get_current s = Some par" and r: "task_waitpid pid s = Some (r, st, s')"
  shows "(\<forall>a t. tasks s a = Some t \<and> task_id t = pid \<longrightarrow> parent_id t \<noteq> task_id par) \<and> r = -1 \<and> st = None \<and> s' = s \<or> sint pid \<le> 0 \<and> r = -1 \<and> st = None \<and> s' = s \<or>
    (\<exists>a t. tasks s a = Some t \<and> task_id t = pid \<and> parent_id t = task_id par \<and>
      (if state t = TASK_ZOMBIE
       then r = pid \<and> st = Some (exit_status t) \<and> tasks s' = (tasks s)(a := None) \<and> ready_queue s' = remove1 a (ready_queue s) \<and>
            current_task s' = current_task s \<and> task_waitpid pid s' = Some (-1, None, s')
       else r = 0 \<and> st = None \<and> s' = s))"
proof -
  have inv: "proc_inv s" using wf by (simp add: proc_wf_def)
  note ft = find_task_zero
  show ?thesis using r
  proof (cases rule: waitpid_cases)
    case none
    show ?thesis
    proof (cases "sint pid \<le> 0 \<or> find_task pid s = 0")
      case True
      then show ?thesis using none r par ft [OF inv, of pid] by (auto simp: task_waitpid_def Let_def split: if_splits)
    next
      case False
      then obtain t where t: "tasks s (find_task pid s) = Some t" "task_id t = pid"
        using find_task_in_Some [of "tasks s" pid "ready_queue s"] by (auto simp: find_task_def)
      have "current_task s \<noteq> 0" using par by (auto simp: get_current_def)
      then have "parent_id t \<noteq> task_id par \<and> r = -1 \<or> parent_id t = task_id par \<and> state t \<noteq> TASK_ZOMBIE \<and> r = 0"
        using r none(3) par t False by (auto simp: task_waitpid_def Let_def bind_Some_iff split: if_splits)
      then show ?thesis
      proof
        assume n: "parent_id t \<noteq> task_id par \<and> r = -1"
        have "parent_id v \<noteq> task_id par" if "tasks s a = Some v" "task_id v = pid" for a v
          using proc_invD(9) [OF inv that(1) t(1)] that t n by auto
        then show ?thesis using n none by blast
      next
        assume "parent_id t = task_id par \<and> state t \<noteq> TASK_ZOMBIE \<and> r = 0"
        then show ?thesis using t none by auto
      qed
    qed
  next
    case (collect par' a t s2)
    have p: "par' = par" using collect(1) par by simp
    have id: "task_id t = pid" using find_task_in_Some [of "tasks s" pid "ready_queue s" a] collect(3-5) by (auto simp: find_task_def)
    have s': "tasks s' = (tasks s)(a := None)" "ready_queue s' = remove1 a (ready_queue s)" "current_task s' = current_task s"
      unfolding collect(11) using keeps_tstate(2,3) [OF collect(12)] by simp_all
    have wf': "proc_inv s'" using waitpid_wf [OF wf r] by (simp add: proc_wf_def)
    have "task_id u \<noteq> pid" if "tasks s' b = Some u" for b u
      using that s'(1) proc_invD(9) [OF inv _ collect(5), of b u] id by (auto split: if_splits)
    then have "find_task pid s' = 0" using ft [OF wf'] by blast
    moreover obtain par2 where "get_current s' = Some par2" by (rule proc_inv_current [OF wf'])
    ultimately have "task_waitpid pid s' = Some (-1, None, s')" by (simp add: task_waitpid_def)
    then show ?thesis using collect(5-7,9,10) id p s' by auto
  qed
qed

theorem waitpid_collects_once_witness: "task_waitpid 2 demo_tasks = Some (0, None, demo_tasks)"
proof -
  have r: "task_waitpid 2 demo_tasks = Some (0, None, demo_tasks)"
    by (simp add: task_waitpid_def demo_current find_task_def demo_sel) (simp add: demo_user_def initialise_standard_descriptors_def zero_task_def)
  then show ?thesis using waitpid_collects_once [OF demo_proc_wf demo_current r] by simp
qed

section \<open>The user heap and descriptors\<close>

lemma get_set_current: "get_current s = Some t \<Longrightarrow> get_current (set_current t' s) = Some t'"
  by (auto simp: get_current_def set_current_def split: if_splits)

text \<open>The new break, computed without overflow.\<close>

lemma sbrk_target_exact: "sbrk_target inc old = Some b \<longleftrightarrow> int (unat b) = int (unat old) + sint inc"
proof (cases "0 \<le> sint inc")
  case True
  then have i: "sint inc = int (unat inc)" by (rule sint_nonneg)
  have d: "unat (0xFFFFFFFF - old :: u32int) = 4294967295 - unat old"
    using unat_sub32 [of "old" "0xFFFFFFFF"] by simp
  show ?thesis
  proof (cases "inc > 0xFFFFFFFF - old")
    case True
    then have "4294967295 - unat old < unat inc" using d by (simp add: word_less_nat_alt)
    then have "4294967296 \<le> unat old + unat inc" by linarith
    then have "int (unat b) \<noteq> (int (unat old) + sint inc)" using i unat_lt_2_32 [of b] by linarith
    then show ?thesis using True \<open>0 \<le> sint inc\<close> by (simp add: sbrk_target_def)
  next
    case False
    then have "unat inc \<le> 4294967295 - unat old" using d by (simp add: word_less_nat_alt)
    then have "unat (old + inc) = unat old + unat inc"
      using unat_add32 [of "old" inc] unat_lt_2_32 [of "old"] by linarith
    then have e: "int (unat (old + inc)) = (int (unat old) + sint inc)" using i by linarith
    have "sbrk_target inc old = Some (old + inc)" using False \<open>0 \<le> sint inc\<close> by (simp add: sbrk_target_def)
    then show ?thesis using e by (metis of_nat_eq_iff word_unat_eq_iff option.inject)
  qed
next
  case False
  have i: "sint inc = - int (unat (0 - inc))" using False sint_neg [of inc] by simp
  show ?thesis
  proof (cases "0 - inc > old")
    case True
    then have "unat old < unat (0 - inc)" by (simp add: word_less_nat_alt)
    then have "int (unat b) \<noteq> (int (unat old) + sint inc)" using i by linarith
    then show ?thesis using True False by (simp add: sbrk_target_def)
  next
    case le: False
    then have "unat (0 - inc) \<le> unat old" by (simp add: word_less_nat_alt)
    then have "unat (old - (0 - inc)) = unat old - unat (0 - inc)" by (rule unat_sub32)
    then have e: "int (unat (old - (0 - inc))) = (int (unat old) + sint inc)" using i \<open>unat (0 - inc) \<le> _\<close> by linarith
    have "sbrk_target inc old = Some (old - (0 - inc))" using le False by (simp add: sbrk_target_def)
    then show ?thesis using e by (metis of_nat_eq_iff word_unat_eq_iff option.inject)
  qed
qed

text \<open>C31. \<open>sbrk\<close> moves the break by exactly the increment, without wrap-around: it succeeds when the
  sum lies between the start and the limit of the heap, returns the old break, and the mapped
  part covers the new break; otherwise it returns -1 and changes nothing.\<close>

theorem sbrk_exact:
  fixes s :: "'a tstate_scheme"
  assumes wf: "proc_wf s" and t: "get_current s = Some t" "is_user_process t"
    and r: "task_sbrk (kernel_alloc n) inc s = Some (r, s')"
  shows "if int (unat (heap_start t)) \<le> int (unat (heap_break t)) + sint inc \<and> int (unat (heap_break t)) + sint inc \<le> int (unat (heap_limit t))
    then r = heap_break t \<and> (\<exists>t'. get_current s' = Some t' \<and> int (unat (heap_break t')) = int (unat (heap_break t)) + sint inc \<and>
           t' = t\<lparr>heap_break := heap_break t', heap_mapped_end := heap_mapped_end t'\<rparr> \<and>
           heap_break t' \<le> heap_mapped_end t' \<and> heap_mapped_end t \<le> heap_mapped_end t')
    else r = 0xFFFFFFFF \<and> s' = s"
proof -
  let ?b = "int (unat (heap_break t)) + sint inc"
  have c0: "current_task s \<noteq> 0" using t(1) by (auto simp: get_current_def)
  note tgt = sbrk_target_exact [of inc "heap_break t"]
  show ?thesis using r
  proof (cases rule: sbrk_cases)
    case 1
    have "\<not> (int (unat (heap_start t)) \<le> ?b \<and> ?b \<le> int (unat (heap_limit t)))"
    proof
      assume a: "int (unat (heap_start t)) \<le> ?b \<and> ?b \<le> int (unat (heap_limit t))"
      define b :: u32int where "b = of_nat (nat ?b)"
      have "unat b = nat ?b" unfolding b_def by (rule unat_of_nat32) (use a unat_lt_2_32 [of "heap_limit t"] in linarith)
      moreover have "0 \<le> ?b" using a of_nat_0_le_iff [of "unat (heap_start t)", where 'a = int] by linarith
      ultimately have b: "int (unat b) = ?b" by (simp only: int_nat_eq if_True)
      have "sbrk_target inc (heap_break t) = Some b" using tgt b by blast
      moreover have "\<not> b < heap_start t" using b a unfolding word_less_nat_alt by linarith
      moreover have "\<not> b > heap_limit t" using b a unfolding word_less_nat_alt by linarith
      ultimately have ok: "sbrk_target inc (heap_break t) = Some b" "\<not> b < heap_start t" "\<not> b > heap_limit t" by blast+
      have "heap_break t \<le> USER_HEAP_LIMIT" using current_task_ok [OF wf t(1)] t(2) by (auto simp: task_ok_def heap_ok_def)
      then have "heap_break t \<noteq> 0xFFFFFFFF" by (auto simp: USER_HEAP_LIMIT_def)
      then show False using r 1(2) unfolding task_sbrk_eq [OF c0 t(1)] using ok t(2) by (auto simp: bind_Some_iff Let_def)
    qed
    then show ?thesis using 1 by (simp only: if_False simp_thms)
  next
    case (2 u b s1)
    have u: "u = t" using 2(1) t(1) by simp
    have b: "int (unat b) = ?b"
    proof (cases "sint inc < 0")
      case True
      show ?thesis using 2(6) [OF True] sint_neg [OF True] unfolding u by linarith
    next
      case False
      then have nn: "0 \<le> sint inc" by simp
      show ?thesis using 2(7) [OF nn] sint_nonneg(1) [OF nn] unfolding u by linarith
    qed
    have c: "int (unat (heap_start t)) \<le> ?b" "?b \<le> int (unat (heap_limit t))" using 2(4,5) b unfolding u word_le_nat_alt by linarith+
    have "heap_limit t \<le> USER_HEAP_LIMIT" using current_task_ok [OF wf t(1)] t(2) by (auto simp: task_ok_def heap_ok_def)
    then have al: "b \<le> PAGE_ALIGN_UP b" using 2(5) u by (intro page_align_up heap_limit_small) auto
    let ?t = "t\<lparr>heap_mapped_end := max (heap_mapped_end t) (PAGE_ALIGN_UP b), heap_break := b\<rparr>"
    have "get_current s' = Some ?t" unfolding 2(10) u
      by (rule get_set_current [of _ t]) (use keeps_tstate(8) [OF 2(8)] t(1) in simp)
    then show ?thesis using 2(3) u b c al by (auto intro!: exI [of _ ?t] simp: le_max_iff_disj)
  qed
qed

theorem sbrk_exact_witness:
  "\<exists>s' t'. task_sbrk (kernel_alloc 0) 0x123 demo_tasks = Some (0x40000000, s') \<and> get_current s' = Some t' \<and> int (unat (heap_break t')) = 0x40000123"
proof -
  have u: "is_user_process demo_user" "heap_start demo_user = 0x40000000" "heap_break demo_user = 0x40000000" "heap_limit demo_user = 0xBFF00000"
      "heap_mapped_end demo_user = 0x40001000"
    by (simp_all add: demo_user_def initialise_standard_descriptors_def zero_task_def USER_HEAP_START_def USER_HEAP_LIMIT_def)
  have "PAGE_ALIGN_UP 0x40000123 = 0x40001000" by (simp add: PAGE_ALIGN_UP_def)
  then have "\<exists>r s'. task_sbrk (kernel_alloc 0) 0x123 demo_tasks = Some (r, s')"
    using u by (subst task_sbrk_eq [OF _ demo_current]) (simp_all add: demo_sel demo_current sbrk_target_def map_range_def expand_pages.simps)
  then obtain r s' where r: "task_sbrk (kernel_alloc 0) 0x123 demo_tasks = Some (r, s')" by blast
  show ?thesis using sbrk_exact [OF demo_proc_wf demo_current u(1) r] u r by auto
qed

text \<open>\<open>open\<close> takes the lowest free descriptor above the three standard ones: the new descriptor names the
  node at offset 0, no other descriptor changes, and \<open>close\<close> of it succeeds and leaves it free.
  The call fails, with -1 and without a change, when all descriptors are taken.\<close>

theorem open_lowest_free:
  fixes s :: "'a tstate_scheme"
  assumes wf: "proc_wf s" and t: "get_current s = Some t" and node: "node \<noteq> 0"
    and r: "task_open_descriptor node fl s = Some (r, s')"
  shows "(\<forall>i. 3 \<le> i \<and> i < 16 \<longrightarrow> kind (descriptors t ! i) \<noteq> FD_KIND_FREE) \<and> r = -1 \<and> s' = s \<or>
    (\<exists>fd t'. r = int fd \<and> 3 \<le> fd \<and> fd < 16 \<and> kind (descriptors t ! fd) = FD_KIND_FREE \<and>
      (\<forall>i. 3 \<le> i \<and> i < fd \<longrightarrow> kind (descriptors t ! i) \<noteq> FD_KIND_FREE) \<and>
      task_get_descriptor (of_nat fd) s' = Some fd \<and> get_current s' = Some t' \<and>
      descriptors t' = (descriptors t)[fd := \<lparr>kind = FD_KIND_NODE, fd_node = node, fd_offset = 0, fd_flags = fl\<rparr>] \<and>
      (close_fs node s' \<noteq> None \<longrightarrow> (\<exists>s''. task_close_descriptor (of_nat fd) s' = Some (0, s'') \<and> task_get_descriptor (of_nat fd) s'' = None)))"
proof -
  have len: "length (descriptors t) = 16" using current_task_ok [OF wf t] by (simp add: task_ok_def MAX_FILE_DESCRIPTORS_def)
  have c0: "current_task s \<noteq> 0" using t by (auto simp: get_current_def)
  have fdw: "sint (of_nat fd :: u32int) = int fd" "unat (of_nat fd :: u32int) = fd" if "fd < 16" for fd
    using that sint_of_small [of "of_nat fd"] by (simp_all add: unat_of_nat32)
  show ?thesis using r
  proof (cases rule: open_descriptor_cases)
    case 1
    have "find_free_descriptor (drop 3 (descriptors t)) 3 = None"
    proof (rule ccontr)
      assume "find_free_descriptor (drop 3 (descriptors t)) 3 \<noteq> None"
      then show False using r 1 t node c0 by (auto simp: task_open_descriptor_def bind_Some_iff Let_def)
    qed
    then have "\<forall>d \<in> set (drop 3 (descriptors t)). kind d \<noteq> FD_KIND_FREE" by (simp only: find_free_descriptor_None)
    moreover have "descriptors t ! i \<in> set (drop 3 (descriptors t))" if "3 \<le> i" "i < 16" for i
      using that len nth_mem [of "i - 3" "drop 3 (descriptors t)"] by simp
    ultimately show ?thesis using 1 by blast
  next
    case (2 u fd)
    have u: "u = t" using 2(1) t by simp
    have fd: "3 \<le> fd" "fd < 16" "kind (descriptors t ! fd) = FD_KIND_FREE" "\<forall>i. 3 \<le> i \<and> i < fd \<longrightarrow> kind (descriptors t ! i) \<noteq> FD_KIND_FREE"
      using find_free_descriptor_spec [OF 2(3)] len u by auto
    let ?d = "\<lparr>kind = FD_KIND_NODE, fd_node = node, fd_offset = 0, fd_flags = fl\<rparr>"
    let ?t = "t\<lparr>descriptors := (descriptors t)[fd := ?d]\<rparr>"
    have cur: "get_current s' = Some ?t" unfolding 2(5) u by (rule get_set_current [OF t])
    have get: "task_get_descriptor (of_nat fd) s' = Some fd"
      using cur fd(2) fdw [OF fd(2)] len by (simp add: task_get_descriptor_def MAX_FILE_DESCRIPTORS_def)
    have close: "\<exists>s''. task_close_descriptor (of_nat fd) s' = Some (0, s'') \<and> task_get_descriptor (of_nat fd) s'' = None" if "close_fs node s' \<noteq> None"
    proof -
      have cl: "close_fs node s' = Some s'" using that opens_nothing(2) by blast
      let ?u = "?t\<lparr>descriptors := (descriptors ?t)[fd := free_descriptor]\<rparr>"
      have "current_task s' \<noteq> 0" using cur by (auto simp: get_current_def)
      then have "task_close_descriptor (of_nat fd) s' = Some (0, set_current ?u s')"
        using cur cl fd fdw [OF fd(2)] len by (simp add: task_close_descriptor_def MAX_FILE_DESCRIPTORS_def)
      moreover have "task_get_descriptor (of_nat fd) (set_current ?u s') = None"
        using get_set_current [OF cur, of ?u] fd fdw [OF fd(2)] len by (simp add: task_get_descriptor_def MAX_FILE_DESCRIPTORS_def free_descriptor_def)
      ultimately show ?thesis by blast
    qed
    show ?thesis using 2(4) fd get cur close by (intro disjI2 exI [of _ fd] exI [of _ ?t]) simp
  qed
qed

theorem open_lowest_free_witness:
  "\<exists>s'. task_open_descriptor 0x300 0 demo_tasks = Some (3, s') \<and> task_get_descriptor 3 s' = Some 3"
proof -
  have f: "find_free_descriptor (drop 3 (descriptors demo_user)) 3 = Some 3"
    by (simp add: demo_user_def initialise_standard_descriptors_def zero_task_def MAX_FILE_DESCRIPTORS_def free_descriptor_def numeral_eq_Suc)
  have "\<exists>n. demo_nodes 0x300 = Some n \<and> open_cb n = None" by (simp add: file_node_def empty_node_def)
  then obtain s' where r: "task_open_descriptor 0x300 0 demo_tasks = Some (3, s')"
    using f by (auto simp: task_open_descriptor_def demo_current demo_sel open_fs_def set_current_def)
  show ?thesis using open_lowest_free [OF demo_proc_wf demo_current _ r] r by auto
qed

text \<open>\<open>lseek\<close> computes the new position without overflow: from the start, the current offset or the
  end of the file it moves by the signed offset when the sum is between 0 and \<open>0x7FFFFFFF\<close>, and
  otherwise returns -1 and changes nothing.\<close>

theorem seek_exact:
  fixes s :: "'a tstate_scheme"
  assumes t: "get_current s = Some t" and i: "task_get_descriptor fd s = Some i" and d: "d = descriptors t ! i" "kind d = FD_KIND_NODE"
    "fd_node d \<noteq> 0" "fs_nodes s (fd_node d) = Some nd"
    and base: "(origin, base) \<in> {(0, 0), (1, fd_offset d), (2, node_length nd)}" "unat base < 2147483648"
    and x: "x = int (unat base) + sint off"
  shows "task_seek_descriptor fd off origin s =
    (if 0 \<le> x \<and> x < 2147483648
     then Some (x, set_current (t\<lparr>descriptors := (descriptors t)[i := d\<lparr>fd_offset := of_nat (nat x)\<rparr>]\<rparr>) s)
     else Some (-1, s))"
proof -
  have o: "(if origin = 0 then Some 0 else if origin = 1 then Some (fd_offset d) else if origin = 2 then Some (node_length nd) else None) = Some base"
    using base(1) by auto
  define res where "res = (if 0 \<le> sint off
     then (if base > 0x7FFFFFFF \<or> off > 0x7FFFFFFF - base then None else Some (base + off))
     else (if 0 - off > base then None else Some (base - (0 - off))))"
  have eq: "task_seek_descriptor fd off origin s = (case res of None \<Rightarrow> Some (-1, s)
     | Some r \<Rightarrow> Some (sint r, set_current (t\<lparr>descriptors := (descriptors t)[i := d\<lparr>fd_offset := r\<rparr>]\<rparr>) s))"
    by (simp only: task_seek_descriptor_def i t option.case bind.bind_lunit Let_def d(1) [symmetric] d(2-4) o simp_thms if_False res_def)
  have rs: "res = (if 0 \<le> x \<and> x < 2147483648 then Some (of_nat (nat x)) else None)"
  proof (cases "0 \<le> sint off")
    case True
    note si = sint_nonneg [OF True]
    have e: "x = int (unat base + unat off)" using x si(1) by simp
    have "unat (0x7FFFFFFF - base :: u32int) = 2147483647 - unat base" using unat_sub32 [of base "0x7FFFFFFF"] base(2) by simp
    then have c: "(base > 0x7FFFFFFF \<or> off > 0x7FFFFFFF - base) \<longleftrightarrow> \<not> unat base + unat off < 2147483648"
      using base(2) by (auto simp: word_less_nat_alt)
    have "base + off = of_nat (unat base + unat off)" by simp
    moreover have "0 \<le> x \<and> x < 2147483648 \<longleftrightarrow> unat base + unat off < 2147483648" using e by linarith
    moreover have "nat x = unat base + unat off" unfolding e by (rule nat_int)
    ultimately show ?thesis using True c unfolding res_def by simp
  next
    case False
    then have neg: "sint off < 0" by simp
    have m: "x = int (unat base) - int (unat (0 - off))" using x sint_neg [OF neg] by linarith
    show ?thesis
    proof (cases "0 - off > base")
      case True
      then have "x < 0" using m unfolding word_less_nat_alt by linarith
      then show ?thesis using True False by (simp add: res_def)
    next
      case le: False
      then have l: "unat (0 - off) \<le> unat base" unfolding word_less_nat_alt by linarith
      then have "nat x = unat (base - (0 - off))" unfolding m using unat_sub32 [OF l] by linarith
      then have "(of_nat (nat x) :: u32int) = base - (0 - off)" by simp
      moreover have "0 \<le> x" "x < 2147483648" using m l base(2) by linarith+
      ultimately show ?thesis using le False by (simp add: res_def)
    qed
  qed
  have "sint (of_nat (nat x) :: u32int) = x" if "0 \<le> x" "x < 2147483648"
  proof -
    have "unat (of_nat (nat x) :: u32int) = nat x" by (rule unat_of_nat32) (use that in linarith)
    then show ?thesis using sint_of_small [of "of_nat (nat x)"] that by simp
  qed
  then show ?thesis unfolding eq rs by simp
qed

definition demo_open :: tstate where
  "demo_open = set_current (demo_user\<lparr>descriptors := (descriptors demo_user)[3 := \<lparr>kind = FD_KIND_NODE, fd_node = 0x300, fd_offset = 2, fd_flags = 0\<rparr>]\<rparr>) demo_tasks"

theorem seek_exact_witness:
  "(\<exists>s'. task_seek_descriptor 3 (-4) 2 demo_open = Some (1, s')) \<and> task_seek_descriptor 3 (-3) 1 demo_open = Some (-1, demo_open)"
proof -
  let ?d = "\<lparr>kind = FD_KIND_NODE, fd_node = 0x300, fd_offset = 2, fd_flags = 0\<rparr> :: file_descriptor_t"
  let ?t = "demo_user\<lparr>descriptors := (descriptors demo_user)[3 := ?d]\<rparr>"
  have t: "get_current demo_open = Some ?t" unfolding demo_open_def by (rule get_set_current [OF demo_current])
  have l: "length (descriptors demo_user) = 16" by (simp add: demo_user_def initialise_standard_descriptors_def MAX_FILE_DESCRIPTORS_def)
  have d: "?d = descriptors ?t ! 3" using l by simp
  have i: "task_get_descriptor 3 demo_open = Some 3" using t l by (simp add: task_get_descriptor_def MAX_FILE_DESCRIPTORS_def)
  have f: "fs_nodes demo_open (fd_node ?d) = Some ((file_node ''motd'' 0 5)\<lparr>parent := 0x200\<rparr>)"
    by (simp add: demo_open_def set_current_def demo_sel)
  have n: "node_length ((file_node ''motd'' 0 5)\<lparr>parent := 0x200\<rparr>) = 5" by (simp add: file_node_def)
  have "\<exists>s'. task_seek_descriptor 3 (-4) 2 demo_open = Some (1, s')"
    using seek_exact [OF t i d _ _ f, of 2 5 1 "-4"] n by simp
  moreover have "task_seek_descriptor 3 (-3) 1 demo_open = Some (-1, demo_open)"
    using seek_exact [OF t i d _ _ f, of 1 2 "-1" "-3"] by simp
  ultimately show ?thesis by blast
qed

section \<open>Signals\<close>

text \<open>C9. A caught signal interrupts a process and gives it back unchanged. When \<open>task_signal_deliver\<close>
  redirects a user frame, it has taken the lowest pending signal, it is not \<open>SIGKILL\<close>, the frame
  continues at the handler of that signal on a 16-byte aligned stack pointer inside the user
  stack, and the signal frame lies below the old stack pointer. As long as the
  handler leaves that frame alone, \<open>sigreturn\<close> from it succeeds, restores every register of
  the interrupted frame and clears the active signal.\<close>

theorem signal_roundtrip:
  fixes s s2 :: "'a tstate_scheme"
  assumes wf: "paging_wf s"
    and r: "task_signal_deliver c regs s = Some (Returns regs' s')" "regs' \<noteq> regs"
    and intact: "get_current s2 = get_current s'" "user_load (useresp regs') 76 s2 = user_load (useresp regs') 76 s'"
  shows "\<exists>t n t2. get_current s = Some t \<and> 1 \<le> n \<and> n < SIGNAL_COUNT \<and> n \<noteq> SIGNAL_KILL \<and> bit (pending_signals t) n \<and>
    (\<forall>k. 1 \<le> k \<and> k < n \<longrightarrow> \<not> bit (pending_signals t) k) \<and>
    regs' = regs\<lparr>eip := signal_handlers t ! n, useresp := useresp regs'\<rparr> \<and> unat (useresp regs') mod 16 = 0 \<and>
    stack_bottom \<le> useresp regs' \<and> unat (useresp regs') + 76 \<le> unat (useresp regs) \<and>
    get_current s2 = Some t2 \<and> signal_active t2 \<and> active_signal t2 = of_nat n \<and> \<not> bit (pending_signals t2) n \<and>
    task_signal_return (useresp regs' + 4) any s2 = Some (0, regs, set_current (t2\<lparr>signal_active := False, active_signal := 0\<rparr>) s2)"
proof (rule deliver_frame [OF r wf], goal_cases)
  case (1 t n)
  let ?t2 = "t\<lparr>pending_signals := pending_signals t AND NOT (bit_mask n), signal_active := True, active_signal := of_nat n\<rparr>"
  have "unat (useresp regs') + 76 \<le> unat USER_STACK_TOP" using 1(12,13) by (simp add: word_le_nat_alt)
  moreover have "frame_at (useresp regs') (signal_trampoline t) n regs s2" using 1(14) intact(2) by (simp add: frame_at_def)
  ultimately have ret: "task_signal_return (useresp regs' + 4) any s2 = Some (0, regs, set_current (?t2\<lparr>signal_active := False, active_signal := 0\<rparr>) s2)"
    using 1(3,11,15) intact(1) by (intro signal_return_frame [of s2 ?t2 n _ "signal_trampoline t"]) simp_all
  have cl: "\<not> bit (pending_signals ?t2) n" using 1(3) by (simp add: bit_simps bit_bit_mask SIGNAL_COUNT_def)
  have cur: "get_current s2 = Some ?t2" using 1(15) intact(1) by simp
  show ?case
    by (intro exI [of _ t] exI [of _ n] exI [of _ ?t2] conjI; (rule 1 ret cl cur)?) simp_all
qed

lemma user_store_total:
  assumes "\<forall>i<length bs. \<exists>p. translate (a + of_nat i) s = Some p"
  shows "\<exists>s'. user_store a bs s = Some s'"
  using assms
proof (induction bs arbitrary: a s)
  case (Cons b bs)
  obtain p where p: "translate a s = Some p" using Cons.prems [rule_format, of 0] by auto
  have "\<forall>i<length bs. \<exists>q. translate (a + 1 + of_nat i) (s\<lparr>pmem := (pmem s)(p := b)\<rparr>) = Some q"
  proof (intro allI impI)
    fix i assume "i < length bs"
    then show "\<exists>q. translate (a + 1 + of_nat i) (s\<lparr>pmem := (pmem s)(p := b)\<rparr>) = Some q"
      using Cons.prems [rule_format, of "Suc i"] by (simp add: add.assoc)
  qed
  from Cons.IH [OF this] show ?case using p by (simp add: user_store8_def)
qed simp

lemma demo_entries:
  "read_page p demo_tasks = Some pg \<and> present pg \<longleftrightarrow> p = (0x5000, 1022) \<and> pg = demo_page 5 \<or> p = (0x5000, 1023) \<and> pg = demo_page 6"
  by (cases p) (auto simp: read_page_def demo_tasks_def zero_table_def zero_page_def demo_page_def nth_list_update split: if_splits)

lemma demo_tasks_paging: "paging_wf demo_tasks"
proof -
  have o: "owns demo_tasks p f \<longleftrightarrow> p = (0x5000, 1022) \<and> f = 5 \<or> p = (0x5000, 1023) \<and> f = 6" for p f
  proof -
    have fr: "unat (frame (demo_page 5)) = 5" "unat (frame (demo_page 6)) = 6" by (simp_all add: demo_page_def)
    have "owns demo_tasks p f \<longleftrightarrow> (\<exists>pg. (read_page p demo_tasks = Some pg \<and> present pg) \<and> unat (frame pg) = f)"
      by (simp only: owns_def conj_assoc)
    also have "\<dots> \<longleftrightarrow> p = (0x5000, 1022) \<and> f = 5 \<or> p = (0x5000, 1023) \<and> f = 6" unfolding demo_entries using fr by blast
    finally show ?thesis .
  qed
  have "frame_map_wf (fmap demo_tasks)" "5 \<in> used (fmap demo_tasks)" "6 \<in> used (fmap demo_tasks)"
    by (auto simp: frame_map_wf_def used_def demo_tasks_def bit_iff_odd)
  moreover have "length tab = 1024" if "page_tables demo_tasks t = Some tab" for t tab
    using that by (auto simp: demo_tasks_def zero_table_def split: if_splits)
  ultimately show ?thesis unfolding paging_wf_def o by auto
qed

lemma demo_stack_mapped:
  assumes "3221221376 \<le> unat a" "unat a < 3221225472" shows "\<exists>p. translate a demo_tasks = Some p"
proof -
  have "unat (a div 0x1000 div 1024) = unat a div 4096 div 1024" "unat (a div 0x1000 mod 1024) = unat a div 4096 mod 1024" by (simp_all add: unat_div unat_mod)
  moreover have "unat a div 4096 = 786431" using assms by (intro div_nat_eqI) simp_all
  ultimately have "unat (a div 0x1000 div 1024) = 767" "unat (a div 0x1000 mod 1024) = 1023" by simp_all
  moreover have "read_page (0x5000, 1023) demo_tasks = Some (demo_page 6)" using demo_entries [of "(0x5000, 1023)" "demo_page 6"] by simp
  ultimately show ?thesis by (simp add: translate_def demo_page_def) (simp add: demo_tasks_def zero_directory_def demo_page_def)
qed

definition demo_signal :: tstate where
  "demo_signal = set_current (demo_user\<lparr>signal_handlers := (replicate 32 0)[10 := 0x400500], pending_signals := 0x400,
     signal_trampoline := 0x400600\<rparr>) demo_tasks"

theorem signal_roundtrip_witness:
  "\<exists>regs' s' t2. task_signal_deliver demo_cpu demo_regs demo_signal = Some (Returns regs' s') \<and> eip regs' = 0x400500 \<and>
     task_signal_return (useresp regs' + 4) regs' s' = Some (0, demo_regs, t2)"
proof -
  let ?t = "demo_user\<lparr>signal_handlers := (replicate 32 0)[10 := 0x400500], pending_signals := 0x400, signal_trampoline := 0x400600\<rparr>"
  let ?t' = "?t\<lparr>pending_signals := 0\<rparr>"
  have cur: "get_current demo_signal = Some ?t" unfolding demo_signal_def by (rule get_set_current [OF demo_current])
  have c0: "current_task demo_signal \<noteq> 0" using cur by (auto simp: get_current_def)
  have n: "take_next_pending_signal ?t = (10, ?t')"
    by (simp add: take_next_pending_signal_def take_pending_from.simps SIGNAL_COUNT_def bit_mask_def)
  have u: "is_user_process ?t" "state ?t = TASK_RUNNABLE" "\<not> signal_active ?t"
    by (simp_all add: demo_user_def initialise_standard_descriptors_def zero_task_def)
  let ?w = "concat (map word_bytes (signal_frame_words 0x400600 10 demo_regs))"
  have "\<exists>p. translate (0xBFFFFEB0 + of_nat i) (set_current ?t' demo_signal) = Some p" if "i < length ?w" for i
  proof -
    have "unat (0xBFFFFEB0 + of_nat i :: u32int) = 3221225136 + i" using that unat_of_nat32 [of i] unat_add32 [of "0xBFFFFEB0" "of_nat i"] by simp
    then show ?thesis using demo_stack_mapped [of "0xBFFFFEB0 + of_nat i"] that by (simp add: set_current_def demo_signal_def)
  qed
  then obtain s1 where s1: "user_store 0xBFFFFEB0 ?w (set_current ?t' demo_signal) = Some s1" using user_store_total by blast
  let ?r = "demo_regs\<lparr>eip := 0x400500, useresp := 0xBFFFFEB0\<rparr>"
  have r: "task_signal_deliver demo_cpu demo_regs demo_signal = Some (Returns ?r (set_current (?t'\<lparr>signal_active := True, active_signal := of_nat 10\<rparr>) s1))"
    using c0 cur n u s1
    by (simp add: task_signal_deliver_def Let_def demo_regs_def SIGNAL_IGNORE_def SIGNAL_DEFAULT_def SIGNAL_KILL_def stack_bottom_def
        sizeof_signal_frame_def USER_STACK_TOP_def TASK_STACK_SIZE_def)
  have wf: "paging_wf demo_signal"
    using demo_tasks_paging by (simp add: paging_wf_def owns_def read_page_def demo_signal_def set_current_def set_task_def)
  have ne: "?r \<noteq> demo_regs" by (simp add: demo_regs_def)
  show ?thesis using signal_roundtrip [OF wf r ne refl refl, of ?r] r by auto
qed
end
