(* ===== verification/Exec_Check.thy ===== *)
theory Exec_Check
  imports Exec_Life
begin

text \<open>
  What \<open>validate_elf\<close> (\<open>src/exec.c\<close>) accepts: the checks on the program headers are equivalent to a
  description of a well-formed image in natural-number arithmetic.
\<close>

section \<open>Powers of two and pages\<close>

lemma and_pred_power:
  "0 < n \<Longrightarrow> n AND (n - 1) = 0 \<longleftrightarrow> (\<exists>k. n = 2 ^ k)" for n :: nat
proof (induction n rule: less_induct)
  case (less n)
  have rec: "n AND (n - 1) = 2 * ((n div 2) AND ((n - 1) div 2))"
    using less.prems by (subst and_rec) (auto simp: even_diff_nat)
  show ?case
  proof (cases "even n")
    case True
    then obtain h where h: "n = 2 * h" by blast
    have "(n - 1) div 2 = h - 1" using h less.prems by (cases h) auto
    then have "n AND (n - 1) = 0 \<longleftrightarrow> h AND (h - 1) = 0" using rec h by simp
    also have "\<dots> \<longleftrightarrow> (\<exists>k. h = 2 ^ k)" by (rule less.IH) (use h less.prems in auto)
    also have "\<dots> \<longleftrightarrow> (\<exists>k. n = 2 ^ k)"
    proof
      assume "\<exists>k. h = 2 ^ k"
      then obtain k where "h = 2 ^ k" ..
      then show "\<exists>k. n = 2 ^ k" using h by (intro exI [of _ "Suc k"]) simp
    next
      assume "\<exists>k. n = 2 ^ k"
      then obtain k where k: "n = 2 ^ k" ..
      then obtain j where "k = Suc j" using True by (cases k) auto
      then show "\<exists>k. h = 2 ^ k" using h k by auto
    qed
    finally show ?thesis .
  next
    case False
    then obtain h where h: "n = 2 * h + 1" using oddE by blast
    have "n AND (n - 1) = 2 * (h AND h)" using rec h by simp
    moreover have "(\<exists>k. n = 2 ^ k) \<longleftrightarrow> h = 0"
    proof
      assume "\<exists>k. n = 2 ^ k"
      then obtain k where k: "n = 2 ^ k" ..
      then have "k = 0" using False by (cases k) auto
      then show "h = 0" using h k by simp
    qed (use h in \<open>auto intro: exI [of _ 0]\<close>)
    ultimately show ?thesis by simp
  qed
qed

lemma word_power_of_two:
  fixes x :: u32int assumes "x \<noteq> 0"
  shows "x AND (x - 1) = 0 \<longleftrightarrow> (\<exists>k. unat x = 2 ^ k)"
proof -
  have "0 < unat x" using assms by (simp add: unat_gt_0)
  moreover have "unat (x - 1) = unat x - 1" using assms by (simp add: unat_minus_one)
  moreover have "unat (x AND (x - 1)) = unat x AND unat (x - 1)" by (simp add: unsigned_and_eq)
  ultimately show ?thesis using and_pred_power [of "unat x"] by (simp add: word_unat_eq_iff)
qed

lemma and_pred_mod:
  fixes a x :: u32int assumes "unat a = 2 ^ k"
  shows "unat (x AND (a - 1)) = unat x mod unat a"
proof -
  have "a \<noteq> 0" using assms by auto
  then have "unat (a - 1) = unat a - 1" by (simp add: unat_minus_one)
  then have "unat (x AND (a - 1)) = unat x AND (2 ^ k - 1)" using assms by (simp add: unsigned_and_eq)
  also have "\<dots> = unat x mod 2 ^ k" by (metis mask_eq_exp_minus_1 take_bit_eq_mask take_bit_eq_mod)
  finally show ?thesis using assms by simp
qed

lemma align_down_nat: "unat (ALIGN_DOWN_PAGE v) = unat v div 4096 * 4096"
  using unat_and_F000 [of v] by (simp add: ALIGN_DOWN_PAGE_def minus_mod_eq_div_mult)

lemma align_up_nat:
  assumes "unat v + 4095 < 4294967296"
  shows "unat (ALIGN_UP_PAGE v) = (unat v + 4095) div 4096 * 4096"
  using page_align_up(1) [of v] assms by (simp add: ALIGN_UP_PAGE_def PAGE_ALIGN_UP_def)

section \<open>A well-formed image\<close>

text \<open>The pages that a segment touches.\<close>

definition pages :: "elf32_program_header_t \<Rightarrow> nat set" where
  "pages p = {unat (virtual_address p) div 4096 ..< (unat (virtual_address p) + unat (memory_size p) + 4095) div 4096}"

definition good_segment :: "u32int \<Rightarrow> elf32_program_header_t \<Rightarrow> bool" where
  "good_segment file_length p \<longleftrightarrow>
     unat (file_size p) \<le> unat (memory_size p) \<and> unat (file_offset p) + unat (file_size p) \<le> unat file_length \<and>
     unat USER_PROGRAM_MIN \<le> unat (virtual_address p) \<and>
     unat (virtual_address p) + unat (memory_size p) \<le> unat USER_HEAP_LIMIT \<and>
     (1 < unat (alignment p) \<longrightarrow> (\<exists>k. unat (alignment p) = 2 ^ k) \<and>
        unat (virtual_address p) mod unat (alignment p) = unat (file_offset p) mod unat (alignment p))"

definition runs :: "u32int \<Rightarrow> elf32_program_header_t \<Rightarrow> bool" where
  "runs ent p \<longleftrightarrow> bit (p_flags p) 0 \<and> unat (virtual_address p) \<le> unat ent \<and>
     unat ent < unat (virtual_address p) + unat (memory_size p)"

definition image_ok :: "u32int \<Rightarrow> u32int \<Rightarrow> elf32_program_header_t list \<Rightarrow> bool" where
  "image_ok file_length ent ps \<longleftrightarrow>
     (\<forall>p \<in> set ps. loadable p \<longrightarrow> good_segment file_length p) \<and>
     (\<forall>i j. i < j \<and> j < length ps \<and> loadable (ps ! i) \<and> loadable (ps ! j) \<longrightarrow> pages (ps ! i) \<inter> pages (ps ! j) = {}) \<and>
     (\<exists>p \<in> set ps. loadable p \<and> runs ent p)"

lemma limits [simp]: "unat USER_PROGRAM_MIN = 0x400000" "unat USER_HEAP_LIMIT = 0xBFF00000"
  by (simp_all add: USER_PROGRAM_MIN_def USER_HEAP_LIMIT_def)

lemma good_segment_end: "good_segment len p \<Longrightarrow> unat (segment_end p) = unat (virtual_address p) + unat (memory_size p)"
  unfolding segment_end_def by (rule unat_add32) (simp add: good_segment_def)

lemma loadable_size: "loadable p \<Longrightarrow> 0 < unat (memory_size p)"
  by (auto simp: loadable_def unat_gt_0)

lemma bad_segment_iff:
  assumes "loadable p"
  shows "bad_segment len p \<longleftrightarrow> \<not> good_segment len p"
proof -
  let ?v = "virtual_address p" and ?m = "memory_size p" and ?a = "alignment p" and ?o = "file_offset p" and ?f = "file_size p"
  have m: "0 < unat ?m" by (rule loadable_size [OF assms])
  have inside: "(?o > len \<or> ?f > len - ?o) \<longleftrightarrow> \<not> unat ?o + unat ?f \<le> unat len"
  proof (cases "unat ?o \<le> unat len")
    case True
    then show ?thesis using unat_sub32 [of ?o len] unfolding word_less_nat_alt by linarith
  qed (simp add: word_less_nat_alt)
  have max: "unat (0xFFFFFFFF - ?v) = 4294967295 - unat ?v"
    using unat_sub32 [of ?v "0xFFFFFFFF"] unat_lt_2_32 [of ?v] by simp
  have range: "(?m > 0xFFFFFFFF - ?v \<or> segment_end p > USER_HEAP_LIMIT \<or> segment_end p \<le> ?v) \<longleftrightarrow>
      \<not> unat ?v + unat ?m \<le> unat USER_HEAP_LIMIT"
  proof (cases "unat ?v + unat ?m < 4294967296")
    case True
    then have "unat (segment_end p) = unat ?v + unat ?m" unfolding segment_end_def by (rule unat_add32)
    then show ?thesis using True m max by (auto simp: word_less_nat_alt word_le_nat_alt)
  next
    case False
    then have "?m > 0xFFFFFFFF - ?v" using unat_lt_2_32 [of ?v] unfolding word_less_nat_alt max by linarith
    then show ?thesis using False by simp
  qed
  have al: "(?a > 1 \<and> (?a AND (?a - 1) \<noteq> 0 \<or> ?v AND (?a - 1) \<noteq> ?o AND (?a - 1))) \<longleftrightarrow>
      \<not> (1 < unat ?a \<longrightarrow> (\<exists>k. unat ?a = 2 ^ k) \<and> unat ?v mod unat ?a = unat ?o mod unat ?a)"
  proof (cases "?a > 1")
    case True
    then have "?a \<noteq> 0" "1 < unat ?a" by (auto simp: word_less_nat_alt)
    then show ?thesis using word_power_of_two [of ?a] and_pred_mod [of ?a] True by (auto simp: word_unat_eq_iff)
  qed (simp add: word_less_nat_alt)
  show ?thesis
    unfolding bad_segment_def good_segment_def using inside range al
    by (simp add: word_less_nat_alt word_le_nat_alt not_le) blast
qed

lemma page_overlap_iff:
  assumes p: "good_segment len p" "loadable p" and q: "good_segment len q" "loadable q"
  shows "page_overlap p q \<longleftrightarrow> pages p \<inter> pages q \<noteq> {}"
proof -
  have up: "unat (ALIGN_UP_PAGE (segment_end r)) = (unat (virtual_address r) + unat (memory_size r) + 4095) div 4096 * 4096"
    if "good_segment len r" for r
    unfolding good_segment_end [OF that, symmetric] by (rule align_up_nat) (use that good_segment_end [OF that] in \<open>simp add: good_segment_def\<close>)
  have ne: "unat (virtual_address r) div 4096 < (unat (virtual_address r) + unat (memory_size r) + 4095) div 4096" if "loadable r" for r
    using loadable_size [OF that] by linarith
  have "({a ..< b} \<inter> {c ..< d} \<noteq> {}) \<longleftrightarrow> a < d \<and> c < b" if "a < b" "c < d" for a b c d :: nat
    using that by (auto simp: set_eq_iff) (meson le_less_linear less_le_trans max.bounded_iff nat_less_le order_refl)
  from this [OF ne [OF p(2)] ne [OF q(2)]] show ?thesis
    by (simp add: page_overlap_def ranges_overlap_def pages_def word_less_nat_alt align_down_nat up [OF p(1)] up [OF q(1)])
qed

section \<open>The loop over the program headers\<close>

definition apart :: "elf32_program_header_t \<Rightarrow> elf32_program_header_t \<Rightarrow> bool" where
  "apart q p \<longleftrightarrow> (loadable q \<and> loadable p \<longrightarrow> \<not> page_overlap p q)"

definition executable_at :: "u32int \<Rightarrow> elf32_program_header_t \<Rightarrow> bool" where
  "executable_at ent p \<longleftrightarrow> p_flags p AND ELF_FLAG_EXECUTE \<noteq> 0 \<and> ent \<ge> virtual_address p \<and> ent < segment_end p"

lemma check_programs_eq:
  "check_programs len ent earlier ps (highest, ex, cnt) =
     (if (\<forall>p \<in> set ps. loadable p \<longrightarrow> \<not> bad_segment len p) \<and> sorted_wrt apart ps \<and> (\<forall>q \<in> set earlier. \<forall>p \<in> set ps. apart q p)
      then Some (foldl max highest (map segment_end (filter loadable ps)),
                 ex \<or> (\<exists>p \<in> set ps. loadable p \<and> executable_at ent p), cnt + of_nat (length (filter loadable ps)))
      else None)"
proof (induction ps arbitrary: earlier highest ex cnt)
  case (Cons p ps)
  show ?case
  proof (cases "loadable p")
    case False
    then have "apart q p" "apart p q" for q by (simp_all add: apart_def)
    then show ?thesis using False by (auto simp: Cons.IH)
  next
    case True
    have ov: "list_ex (\<lambda>other. loadable other \<and> page_overlap p other) earlier \<longleftrightarrow> \<not> (\<forall>q \<in> set earlier. apart q p)"
      using True by (auto simp: list_ex_iff apart_def)
    have "(if segment_end p > highest then segment_end p else highest) = max highest (segment_end p)" by (auto simp: max_def)
    then show ?thesis using True by (auto simp: Cons.IH ov executable_at_def)
  qed
qed simp

lemma foldl_max_bounds:
  fixes h :: "'b :: linorder"
  shows "h \<le> foldl max h xs \<and> (\<forall>x \<in> set xs. x \<le> foldl max h xs) \<and> (foldl max h xs = h \<or> foldl max h xs \<in> set xs)"
proof (induction xs arbitrary: h)
  case (Cons y ys)
  from Cons.IH [of "max h y"] show ?case by (auto simp: max_def split: if_splits)
qed simp

lemma runs_iff: "good_segment len p \<Longrightarrow> runs ent p \<longleftrightarrow> executable_at ent p"
proof -
  assume "good_segment len p"
  then have e: "unat (segment_end p) = unat (virtual_address p) + unat (memory_size p)" by (rule good_segment_end)
  have "p_flags p AND 1 \<noteq> 0 \<longleftrightarrow> bit (p_flags p) 0" by (simp add: and_one_eq odd_iff_mod_2_eq_one bit_0)
  then show ?thesis by (simp add: runs_def executable_at_def ELF_FLAG_EXECUTE_def word_less_nat_alt word_le_nat_alt e)
qed

theorem check_programs_accepts:
  assumes "length ps \<le> 32"
  shows "(\<exists>hi c. check_programs len ent [] ps (0, False, 0) = Some (hi, True, c) \<and> c \<noteq> 0) \<longleftrightarrow> image_ok len ent ps"
proof -
  have good: "(\<forall>p \<in> set ps. loadable p \<longrightarrow> \<not> bad_segment len p) \<longleftrightarrow> (\<forall>p \<in> set ps. loadable p \<longrightarrow> good_segment len p)"
    using bad_segment_iff by blast
  have disj: "sorted_wrt apart ps \<longleftrightarrow>
      (\<forall>i j. i < j \<and> j < length ps \<and> loadable (ps ! i) \<and> loadable (ps ! j) \<longrightarrow> pages (ps ! i) \<inter> pages (ps ! j) = {})"
    if "\<forall>p \<in> set ps. loadable p \<longrightarrow> good_segment len p"
  proof -
    have "apart (ps ! i) (ps ! j) \<longleftrightarrow> (loadable (ps ! i) \<and> loadable (ps ! j) \<longrightarrow> pages (ps ! i) \<inter> pages (ps ! j) = {})"
      if "i < j" "j < length ps" for i j
    proof -
      have "ps ! i \<in> set ps" "ps ! j \<in> set ps" using that by simp_all
      then show ?thesis
        using \<open>\<forall>p \<in> set ps. loadable p \<longrightarrow> good_segment len p\<close> page_overlap_iff [of len "ps ! j" "ps ! i"]
        unfolding apart_def by (metis inf_commute)
    qed
    then show ?thesis unfolding sorted_wrt_iff_nth_less by blast
  qed
  have ex: "(\<exists>p \<in> set ps. loadable p \<and> executable_at ent p) \<longleftrightarrow> (\<exists>p \<in> set ps. loadable p \<and> runs ent p)"
    if "\<forall>p \<in> set ps. loadable p \<longrightarrow> good_segment len p"
    using that runs_iff by blast
  have cnt: "(of_nat (length (filter loadable ps)) :: u32int) \<noteq> 0" if "\<exists>p \<in> set ps. loadable p \<and> runs ent p"
  proof -
    have "0 < length (filter loadable ps)" using that by (auto simp: filter_empty_conv)
    moreover have "length (filter loadable ps) \<le> 32" using assms length_filter_le order_trans by blast
    ultimately show ?thesis by (simp add: word_unat_eq_iff unat_of_nat)
  qed
  show ?thesis
    unfolding check_programs_eq image_ok_def using good disj ex cnt by auto
qed

section \<open>The accepted files\<close>

lemma validate_elf_cases:
  assumes r: "validate_elf f request s = Some (Some (request', hi))"
  obtains n hb tb where "f \<noteq> 0" "fs_nodes s f = Some n" "flags n AND 0x7 = FS_FILE" "read_cb n \<noteq> None"
    "read_exact f 0 sizeof_elf_header s = Some (Some hb)" "header request' = bytes_header hb" "\<not> bad_header (header request')"
    "read_exact f (program_header_offset (header request')) (ucast (program_header_count (header request')) * sizeof_elf_program_header) s
       = Some (Some tb)"
    "loaded_programs request' = map (\<lambda>i. bytes_program (take 32 (drop (32 * i) tb))) [0..<unat (program_header_count (header request'))]"
    "request' = request\<lparr>header := header request', programs := programs request'\<rparr>"
    "\<exists>c. check_programs (node_length n) (e_entry (header request')) [] (loaded_programs request') (0, False, 0) = Some (hi, True, c) \<and> c \<noteq> 0"
proof -
  have "f \<noteq> 0" using r by (auto simp: validate_elf_def)
  then obtain n where n: "fs_nodes s f = Some n" using r by (auto simp: validate_elf_def bind_Some_iff)
  have fl: "flags n AND 0x7 = FS_FILE" "read_cb n \<noteq> None" and len: "\<not> node_length n < sizeof_elf_header"
    using r \<open>f \<noteq> 0\<close> n by (auto simp: validate_elf_def split: if_splits)
  obtain hb where hb: "read_exact f 0 sizeof_elf_header s = Some (Some hb)"
    using r \<open>f \<noteq> 0\<close> n fl len by (auto simp: validate_elf_def bind_Some_iff split: option.splits)
  let ?h = "bytes_header hb"
  note rest = r [unfolded validate_elf_def n bind.bind_lunit hb option.case Let_def, simplified \<open>f \<noteq> 0\<close> fl len simp_thms if_False]
  have ok: "\<not> bad_header ?h" using rest by (auto split: if_splits)
  obtain tb where tb: "read_exact f (program_header_offset ?h) (ucast (program_header_count ?h) * sizeof_elf_program_header) s = Some (Some tb)"
  proof -
    let ?t = "read_exact f (program_header_offset ?h) (ucast (program_header_count ?h) * sizeof_elf_program_header) s"
    have no: "False" if "?t = None \<or> ?t = Some None" using that rest ok by (auto split: if_splits)
    obtain v where "?t = Some v" using no by (cases ?t) auto
    then show thesis using no that by (cases v) auto
  qed
  let ?n = "unat (program_header_count ?h)"
  let ?ps = "map (\<lambda>i. bytes_program (take 32 (drop (32 * i) tb))) [0..<?n]"
  let ?r = "request\<lparr>header := ?h, programs := ?ps @ drop ?n (programs request)\<rparr>"
  obtain c where c: "request' = ?r" "check_programs (node_length n) (e_entry ?h) [] (loaded_programs ?r) (0, False, 0) = Some (hi, True, c)" "c \<noteq> 0"
    using rest ok tb by (auto split: if_splits option.splits prod.splits)
  have "loaded_programs ?r = ?ps" by (simp add: loaded_programs_def)
  then show thesis using that [OF \<open>f \<noteq> 0\<close> n fl hb _ _ _ _ _] ok tb c by auto
qed

section \<open>The accepted files, exactly\<close>

text \<open>The bytes of an ELF header that describes an executable for the i386, and the number of its program headers.\<close>

definition i386_executable :: "u8int list \<Rightarrow> nat \<Rightarrow> bool" where
  "i386_executable hb cnt \<longleftrightarrow>
     length hb = 52 \<and> take 7 hb = [0x7F, 0x45, 0x4C, 0x46, 1, 1, 1] \<and>
     take 8 (drop 16 hb) = [2, 0, 3, 0, 1, 0, 0, 0] \<and> take 4 (drop 40 hb) = [52, 0, 32, 0] \<and>
     unat (hb ! 44) + 256 * unat (hb ! 45) = cnt \<and> 1 \<le> cnt \<and> cnt \<le> 32"

lemma bit_u8int: "8 \<le> n \<Longrightarrow> \<not> bit (b :: u8int) n"
  using bit_imp_le_length [of b n] by auto

lemma half_at_iff: "half_at bs i = v \<longleftrightarrow> bs ! i = ucast v \<and> bs ! (i + 1) = ucast (drop_bit 8 v)"
proof
  assume e: "half_at bs i = v"
  have "bit (bs ! i) n = bit (ucast v :: u8int) n" if "n < 8" for n
    using that e [symmetric] by (auto simp: half_at_def bit_simps bit_u8int)
  moreover have "bit (bs ! (i + 1)) n = bit (ucast (drop_bit 8 v) :: u8int) n" if "n < 8" for n
    using that e [symmetric] by (auto simp: half_at_def bit_simps bit_u8int)
  ultimately show "bs ! i = ucast v \<and> bs ! (i + 1) = ucast (drop_bit 8 v)" by (auto intro!: bit_word_eqI)
next
  assume e: "bs ! i = ucast v \<and> bs ! (i + 1) = ucast (drop_bit 8 v)"
  have "bit (half_at bs i) n = bit v n" if "n < 16" for n
    using that e by (cases "n < 8") (auto simp: half_at_def bit_simps)
  then show "half_at bs i = v" by (auto intro!: bit_word_eqI)
qed

lemma unat_ucast32: "unat (ucast (w :: u16int) :: u32int) = unat w"
  using unsigned_less [of w, where ?'a = nat] by (simp add: unsigned_ucast_eq take_bit_nat_eq_self)

lemma half_at_nat: "unat (half_at bs i) = unat (bs ! i) + 256 * unat (bs ! (i + 1))"
proof -
  have "half_at bs i = ucast (bs ! i) + push_bit 8 (ucast (bs ! (i + 1)))"
    unfolding half_at_def by (rule disjunctive_add_eq_or [symmetric]) (auto intro!: bit_word_eqI simp: bit_simps bit_u8int)
  moreover have "unat (bs ! i) < 256" "unat (bs ! (i + 1)) < 256" using unsigned_less [of "bs ! i", where ?'a = nat] unsigned_less [of "bs ! (i + 1)", where ?'a = nat] by simp_all
  ultimately show ?thesis
    by (simp add: push_bit_eq_mult unat_word_ariths unsigned_ucast_eq take_bit_nat_eq_self mod_simps)
qed

lemma word_at_iff:
  assumes "i + 4 \<le> length bs"
  shows "word_at bs i = w \<longleftrightarrow> take 4 (drop i bs) = word_bytes w"
proof -
  obtain a b c d where e: "take 4 (drop i bs) = [a, b, c, d]"
  proof -
    obtain xs where xs: "take 4 (drop i bs) = xs" "length xs = 4" using assms by simp
    then show thesis using that by (auto simp: numeral_eq_Suc length_Suc_conv)
  qed
  have "word_bytes (bytes_word [a, b, c, d]) = [a, b, c, d]" for a b c d :: u8int
    unfolding word_bytes_def bytes_word_def by (auto intro!: bit_word_eqI simp: bit_simps bit_u8int)
  moreover have "bytes_word (word_bytes w) = w" using bytes_of_word32 [of w] by (simp add: bytes_word_def word_bytes_def)
  ultimately show ?thesis unfolding word_at_def e by metis
qed

lemma bad_header_bytes:
  assumes "length hb = 52"
  shows "\<not> bad_header (bytes_header hb) \<longleftrightarrow> i386_executable hb (unat (program_header_count (bytes_header hb)))"
proof -
  have d: "take n (drop i hb) = map (\<lambda>j. hb ! (i + j)) [0..<n]" if "i + n \<le> 52" for i n
    by (rule nth_equalityI) (use that assms in simp_all)
  have u: "[0..<7] = [0, 1, 2, 3, 4, 5, 6]" "[0..<8] = [0, 1, 2, 3, 4, 5, 6, 7]" "[0..<4] = [0, 1, 2, 3]" by (simp_all add: upt_rec)
  have t: "take 7 hb = map (\<lambda>j. hb ! j) [0..<7]" using d [of 0 7] by simp
  have v: "word_at hb 20 = 1 \<longleftrightarrow> take 4 (drop 20 hb) = word_bytes 1" using assms by (intro word_at_iff) simp
  have wb: "word_bytes 1 = [1, 0, 0, 0]" by code_simp
  have h: "half_at hb 16 = 2 \<longleftrightarrow> hb ! 16 = 2 \<and> hb ! 17 = 0" "half_at hb 18 = 3 \<longleftrightarrow> hb ! 18 = 3 \<and> hb ! 19 = 0"
     "half_at hb 40 = 52 \<longleftrightarrow> hb ! 40 = 52 \<and> hb ! 41 = 0" "half_at hb 42 = 32 \<longleftrightarrow> hb ! 42 = 32 \<and> hb ! 43 = 0"
    unfolding half_at_iff by simp_all
  have uc: "(ucast (half_at hb i) :: u32int) = 52 \<longleftrightarrow> half_at hb i = 52" "(ucast (half_at hb i) :: u32int) = 32 \<longleftrightarrow> half_at hb i = 32" for i
    by (simp_all add: word_unat_eq_iff unat_ucast32)
  have k: "unat (hb ! 44) + 256 * unat (hb ! 45) = unat (half_at hb 44)" by (simp add: half_at_nat)
  have n: "half_at hb 44 \<noteq> 0 \<longleftrightarrow> 1 \<le> unat (half_at hb 44)" "half_at hb 44 > 32 \<longleftrightarrow> \<not> unat (half_at hb 44) \<le> 32"
    by (auto simp: word_unat_eq_iff word_less_nat_alt)
  show ?thesis
    unfolding bad_header_def i386_executable_def t d u
    by (simp add: bytes_header_def uc h v wb d u sizeof_elf_header_def sizeof_elf_program_header_def k n(2) ELF_PROGRAM_HEADER_MAX_def) (auto simp: n(1) assms)
qed

lemma read_fs_length:
  assumes "read_fs f off sz b s = Some (k, bs)"
  shows "length bs = unat k"
proof -
  have "length bs = unat k" if "initrd_read f off sz s = Some (k, bs)"
    using that unfolding initrd_read_def Let_def by (auto simp: bind_Some_iff split: if_splits)
  then show ?thesis using assms unfolding read_fs_def
    by (cases "fs_nodes s f") (simp_all split: if_splits option.splits callback.splits)
qed

lemma read_exact_length: "read_exact f off sz s = Some (Some bs) \<Longrightarrow> length bs = unat sz"
  using read_fs_length by (auto simp: read_exact_def bind_Some_iff split: if_splits)

lemma table_fits:
  assumes "cnt \<le> 32"
  shows "\<not> (off > len \<or> 32 * of_nat cnt > len - off) \<longleftrightarrow> unat off + 32 * cnt \<le> unat (len :: u32int)"
proof -
  have t: "unat (32 * of_nat cnt :: u32int) = 32 * cnt"
    using assms unat_of_nat32 [of "32 * cnt"] by simp
  show ?thesis
  proof (cases "off > len")
    case False
    then have "unat (len - off) = unat len - unat off" "unat off \<le> unat len"
      by (auto simp: word_le_nat_alt not_less intro!: unat_sub32)
    then show ?thesis using False by (auto simp: word_less_nat_alt t)
  qed (auto simp: word_less_nat_alt)
qed

text \<open>The highest end of a well-formed image.\<close>

lemma check_programs_image:
  assumes "length ps \<le> 32"
  shows "(\<exists>c. check_programs len ent [] ps (0, False, 0) = Some (hi, True, c) \<and> c \<noteq> 0) \<longleftrightarrow>
    image_ok len ent ps \<and> (\<forall>p \<in> set ps. loadable p \<longrightarrow> segment_end p \<le> hi) \<and> (\<exists>p \<in> set ps. loadable p \<and> segment_end p = hi)"
proof -
  let ?m = "foldl max 0 (map segment_end (filter loadable ps))"
  have c: "check_programs len ent [] ps (0, False, 0) = Some (h, ex, c) \<Longrightarrow> h = ?m" for h ex c
    by (simp add: check_programs_eq split: if_splits)
  have "hi = ?m \<longleftrightarrow> (\<forall>p \<in> set ps. loadable p \<longrightarrow> segment_end p \<le> hi) \<and> (\<exists>p \<in> set ps. loadable p \<and> segment_end p = hi)"
    if im: "image_ok len ent ps"
  proof -
    note b = foldl_max_bounds [of 0 "map segment_end (filter loadable ps)"]
    obtain p where p: "p \<in> set ps" "loadable p" using im by (auto simp: image_ok_def)
    have "good_segment len p" using im p by (simp add: image_ok_def)
    from good_segment_end [OF this] loadable_size [OF p(2)] have "segment_end p \<noteq> 0" by (auto simp: word_unat_eq_iff)
    then have "?m \<noteq> 0" using b p by (auto simp: word_le_0_iff)
    then have m: "\<forall>p \<in> set ps. loadable p \<longrightarrow> segment_end p \<le> ?m" "\<exists>p \<in> set ps. loadable p \<and> segment_end p = ?m" using b by auto
    then show ?thesis by (metis antisym)
  qed
  then show ?thesis using check_programs_accepts [OF assms, of len ent] c by metis
qed


text \<open>The steps of \<open>validate_elf\<close>, one after the other.\<close>

lemma validate_elf_steps:
  "validate_elf f request s = Some (Some (request', highest)) \<longleftrightarrow>
    (\<exists>n hb tb cnt ps. f \<noteq> 0 \<and> fs_nodes s f = Some n \<and> flags n AND 0x7 = FS_FILE \<and> read_cb n \<noteq> None \<and> \<not> node_length n < 52 \<and>
      read_exact f 0 52 s = Some (Some hb) \<and> \<not> bad_header (bytes_header hb) \<and> cnt = unat (program_header_count (bytes_header hb)) \<and>
      \<not> (word_at hb 28 > node_length n \<or> 32 * of_nat cnt > node_length n - word_at hb 28) \<and>
      read_exact f (word_at hb 28) (32 * of_nat cnt) s = Some (Some tb) \<and>
      ps = map (\<lambda>i. bytes_program (take 32 (drop (32 * i) tb))) [0..<cnt] \<and>
      (\<exists>c. check_programs (node_length n) (word_at hb 24) [] ps (0, False, 0) = Some (highest, True, c) \<and> c \<noteq> 0) \<and>
      request' = request\<lparr>header := bytes_header hb, programs := ps @ drop cnt (programs request)\<rparr>)"
  (is "_ \<longleftrightarrow> ?r")
proof -
  have h: "program_header_offset (bytes_header hb) = word_at hb 28" "e_entry (bytes_header hb) = word_at hb 24"
     "ucast (program_header_count (bytes_header hb)) * 32 = (32 * of_nat (unat (program_header_count (bytes_header hb))) :: u32int)" for hb
    by (simp_all add: bytes_header_def)
  note d = validate_elf_def [of f request s, unfolded sizeof_elf_header_def sizeof_elf_program_header_def Let_def h]
  show ?thesis
  proof
    assume "?r"
    then show "validate_elf f request s = Some (Some (request', highest))"
      unfolding d loaded_programs_def by (elim exE conjE) simp
  next
    assume r: "validate_elf f request s = Some (Some (request', highest))"
    show ?r
    proof (rule validate_elf_cases [OF r], goal_cases)
      case (1 n hb tb)
      note c = 1 [unfolded sizeof_elf_header_def sizeof_elf_program_header_def]
      let ?cnt = "unat (program_header_count (bytes_header hb))"
      let ?ps = "map (\<lambda>i. bytes_program (take 32 (drop (32 * i) tb))) [0..<?cnt]"
      have tb: "read_exact f (word_at hb 28) (32 * of_nat ?cnt) s = Some (Some tb)" using c(8) unfolding c(6) h .
      have l: "\<not> node_length n < 52" using r c(1-4) unfolding d by (auto split: if_splits)
      have fits: "\<not> (word_at hb 28 > node_length n \<or> 32 * of_nat ?cnt > node_length n - word_at hb 28)"
        using r c(1-5) l unfolding d by (auto split: if_splits)
      have "request' = request\<lparr>header := bytes_header hb, programs := ?ps @ drop ?cnt (programs request)\<rparr>"
        using r c(1-5,7) c(6) l fits tb unfolding d by (auto split: if_splits option.splits)
      moreover have "\<exists>k. check_programs (node_length n) (word_at hb 24) [] ?ps (0, False, 0) = Some (highest, True, k) \<and> k \<noteq> 0"
        using c(11) unfolding c(9) unfolding c(6) h .
      ultimately show ?case using c(1-5,7) l fits tb unfolding c(6) by blast
    qed
  qed
qed

end
