(* ===== verification/Exec_Stack.thy ===== *)
theory Exec_Stack
  imports Exec_Check Signal_Frames
begin

text \<open>
  The arguments of a new program (\<open>src/exec.c\<close>): \<open>capture_request\<close> copies the strings that \<open>argv\<close> points
  to, and \<open>build_initial_stack\<close> lays them out on the new stack with the pointers that lead to them.
\<close>

section \<open>Strings in user memory\<close>

definition user_string :: "u32int \<Rightarrow> u8int list \<Rightarrow> 'a pstate_scheme \<Rightarrow> bool" where
  "user_string a bs s \<longleftrightarrow> 0 \<notin> set bs \<and> user_load a (length bs + 1) s = Some (bs @ [0])"

lemma copy_chars_string:
  "copy_chars src n s = Some (Some bs) \<Longrightarrow> user_string src bs s \<and> length bs < n"
proof (induction n arbitrary: src bs)
  case (Suc n)
  then obtain b where b: "user_load8 src s = Some b" by (auto simp: bind_Some_iff)
  show ?case
  proof (cases "b = 0")
    case True
    then show ?thesis using Suc.prems b by (auto simp: user_string_def)
  next
    case False
    then obtain cs where cs: "copy_chars (src + 1) n s = Some (Some cs)" "bs = b # cs"
      using Suc.prems b by (auto simp: bind_Some_iff)
    from Suc.IH [OF cs(1)] show ?thesis using cs(2) b False by (simp add: user_string_def)
  qed
qed simp

lemma copy_bounded_string_spec:
  assumes "copy_bounded_string capacity src s = Some (Some bs)"
  shows "user_string src bs s" "length bs < unat capacity" "src \<noteq> 0"
  using assms copy_chars_string by (auto simp: copy_bounded_string_def split: if_splits)

section \<open>Capturing the arguments\<close>

lemma takeWhile_stored:
  assumes "take (length bs + 1) xs = bs @ [0]" "0 \<notin> set bs"
  shows "takeWhile (\<lambda>b. b \<noteq> 0) xs = bs"
proof -
  have "xs = (bs @ [0]) @ drop (length bs + 1) xs" by (metis append_take_drop_id assms(1))
  then have "takeWhile (\<lambda>b. b \<noteq> 0) xs = takeWhile (\<lambda>b. b \<noteq> 0) (bs @ 0 # drop (length bs + 1) xs)"
    by (metis append.assoc append_Cons append_Nil)
  also have "\<dots> = bs @ takeWhile (\<lambda>b. b \<noteq> 0) (0 # drop (length bs + 1) xs)"
    by (rule takeWhile_append2) (use assms(2) in auto)
  finally show ?thesis by simp
qed

lemma write_bytes_parts:
  assumes "i + length bs \<le> length xs"
  shows "length (write_bytes xs i bs) = length xs" "take (length bs) (drop i (write_bytes xs i bs)) = bs"
    "k + n \<le> i \<Longrightarrow> take n (drop k (write_bytes xs i bs)) = take n (drop k xs)"
proof -
  show "length (write_bytes xs i bs) = length xs" "take (length bs) (drop i (write_bytes xs i bs)) = bs"
    using assms by (simp_all add: write_bytes_def)
  assume k: "k + n \<le> i"
  show "take n (drop k (write_bytes xs i bs)) = take n (drop k xs)"
    by (rule nth_equalityI) (use k assms in \<open>auto simp: write_bytes_def nth_append\<close>)
qed

text \<open>Argument \<open>j\<close> of the request is the string at \<open>a\<close>.\<close>

definition captured :: "exec_request_t \<Rightarrow> nat \<Rightarrow> u32int \<Rightarrow> 'a pstate_scheme \<Rightarrow> bool" where
  "captured r j a s \<longleftrightarrow> (\<exists>bs. user_string a bs s \<and> take (length bs + 1) (drop (unat (argument_offset r ! j)) (argument_storage r)) = bs @ [0] \<and>
     unat (argument_offset r ! j) + length bs + 1 \<le> unat (argument_bytes r))"

definition argv_word :: "u32int \<Rightarrow> nat \<Rightarrow> 'a pstate_scheme \<Rightarrow> u32int" where
  "argv_word argv i s = bytes_word (the (user_load (argv + 4 * of_nat i) 4 s))"

lemma captured_argument: "captured r j a s \<Longrightarrow> user_string a (argument r j) s"
  unfolding captured_def argument_def using takeWhile_stored by (fastforce simp: user_string_def)

definition storage_ok :: "exec_request_t \<Rightarrow> bool" where
  "storage_ok r \<longleftrightarrow> length (argument_storage r) = 2048 \<and> length (argument_offset r) = 16 \<and> unat (argument_bytes r) \<le> 2048"

lemma store_argument:
  fixes r :: exec_request_t
  defines "r' bs i \<equiv> r\<lparr>argument_storage := write_bytes (argument_storage r) (unat (argument_bytes r)) (bs @ [0]),
             argument_offset := (argument_offset r)[i := argument_bytes r],
             argument_bytes := argument_bytes r + (of_nat (length bs) + 1)\<rparr>"
  assumes ok: "storage_ok r" and i: "i < 16" and str: "user_string a bs s" "unat (argument_bytes r) + length bs < 2048"
  shows "storage_ok (r' bs i)" "captured (r' bs i) i a s" "\<lbrakk>j < i; captured r j b s\<rbrakk> \<Longrightarrow> captured (r' bs i) j b s"
proof -
  have len: "length (argument_storage r) = 2048" "length (argument_offset r) = 16" using ok by (simp_all add: storage_ok_def)
  let ?b = "argument_bytes r"
  have l: "unat (of_nat (length bs) + 1 :: u32int) = length bs + 1"
    using str(2) unat_of_nat32 [of "length bs + 1"] by (simp add: add.commute)
  have ub: "unat (?b + (of_nat (length bs) + 1)) = unat ?b + length bs + 1"
    using unat_add32 [of ?b "of_nat (length bs) + 1"] l str(2) by simp
  note w = write_bytes_parts [of "unat ?b" "bs @ [0]" "argument_storage r"]
  show "storage_ok (r' bs i)" using len str(2) w(1) ub by (simp add: r'_def storage_ok_def)
  show "captured (r' bs i) i a s"
    unfolding captured_def using str w(2) ub len i by (intro exI [of _ bs]) (simp add: r'_def)
  assume j: "j < i" and c: "captured r j b s"
  then obtain cs where cs: "user_string b cs s" "take (length cs + 1) (drop (unat (argument_offset r ! j)) (argument_storage r)) = cs @ [0]"
      "unat (argument_offset r ! j) + length cs + 1 \<le> unat ?b" by (auto simp: captured_def)
  show "captured (r' bs i) j b s"
    unfolding captured_def using cs j ub w(3) [of "unat (argument_offset r ! j)" "length cs + 1"] len str(2)
    by (intro exI [of _ cs]) (simp add: r'_def)
qed

lemma capture_arguments_spec:
  assumes "capture_arguments n argv r s = Some (Some r')" "n \<le> 16" "storage_ok r" "\<forall>j<16 - n. captured r j (argv_word argv j s) s"
  shows "storage_ok r' \<and> unat (argument_count r') < 16 \<and> argv_word argv (unat (argument_count r')) s = 0 \<and> req_path r' = req_path r \<and>
     (\<forall>j<unat (argument_count r'). captured r' j (argv_word argv j s) s)"
  using assms
proof (induction n arbitrary: r)
  case (Suc n)
  let ?i = "16 - Suc n"
  have i: "?i < 16" "16 - n = Suc ?i" using Suc.prems(2) by auto
  obtain w where w: "user_load (argv + 4 * of_nat ?i) 4 s = Some w"
    using Suc.prems(1) by (auto simp: bind_Some_iff Let_def EXEC_ARGUMENT_MAX_def)
  have aw: "argv_word argv ?i s = bytes_word w" using w by (simp add: argv_word_def)
  show ?case
  proof (cases "bytes_word w = 0")
    case True
    then have r': "r' = r\<lparr>argument_count := of_nat ?i\<rparr>" using Suc.prems(1) w by (simp add: EXEC_ARGUMENT_MAX_def Let_def)
    have "unat (of_nat ?i :: u32int) = ?i" by (rule unat_of_nat32) simp
    then show ?thesis using Suc.prems(3,4) True aw i(1) unfolding r' by (simp add: storage_ok_def captured_def)
  next
    case False
    have rem: "unat (EXEC_ARGUMENT_BYTES_MAX - argument_bytes r) = 2048 - unat (argument_bytes r)"
      using Suc.prems(3) unat_sub32 [of "argument_bytes r" EXEC_ARGUMENT_BYTES_MAX] by (simp add: storage_ok_def EXEC_ARGUMENT_BYTES_MAX_def)
    obtain bs where bs: "copy_bounded_string (EXEC_ARGUMENT_BYTES_MAX - argument_bytes r) (bytes_word w) s = Some (Some bs)"
      "capture_arguments n argv (r\<lparr>argument_storage := write_bytes (argument_storage r) (unat (argument_bytes r)) (bs @ [0]),
             argument_offset := (argument_offset r)[?i := argument_bytes r],
             argument_bytes := argument_bytes r + (of_nat (length bs) + 1)\<rparr>) s = Some (Some r')"
      using Suc.prems(1) w False by (auto simp: EXEC_ARGUMENT_MAX_def Let_def bind_Some_iff split: option.splits)
    have str: "user_string (argv_word argv ?i s) bs s" "unat (argument_bytes r) + length bs < 2048"
      using copy_bounded_string_spec(1,2) [OF bs(1)] rem aw by auto
    note st = store_argument [OF Suc.prems(3) i(1) str]
    have "captured (r\<lparr>argument_storage := write_bytes (argument_storage r) (unat (argument_bytes r)) (bs @ [0]),
             argument_offset := (argument_offset r)[?i := argument_bytes r],
             argument_bytes := argument_bytes r + (of_nat (length bs) + 1)\<rparr>) j (argv_word argv j s) s" if "j < 16 - n" for j
      using st(2,3) Suc.prems(4) that unfolding i(2) less_Suc_eq by blast
    from Suc.IH [OF bs(2) _ st(1)] this show ?thesis using Suc.prems(2) by simp
  qed
qed simp

lemma capture_request_spec:
  assumes "capture_request path argv envp s = Some (Some r)"
  shows "user_string path (req_path r) s" "req_path r \<noteq> []" "length (req_path r) < 256" "unat (argument_count r) < 16"
    "argv = 0 \<Longrightarrow> argument_count r = 0" "argv \<noteq> 0 \<Longrightarrow> argv_word argv (unat (argument_count r)) s = 0"
    "i < unat (argument_count r) \<Longrightarrow> user_string (argv_word argv i s) (argument r i) s" "storage_ok r"
proof -
  obtain bs where bs: "copy_bounded_string (of_nat EXEC_PATH_MAX) path s = Some (Some bs)" "bs \<noteq> []"
      "if argv = 0 then r = zero_request\<lparr>req_path := bs\<rparr> else capture_arguments 16 argv (zero_request\<lparr>req_path := bs\<rparr>) s = Some (Some r)"
    using assms by (auto simp: capture_request_def EXEC_ARGUMENT_MAX_def bind_Some_iff split: option.splits if_splits)
  have z: "storage_ok (zero_request\<lparr>req_path := bs\<rparr>)"
    by (simp add: storage_ok_def zero_request_def EXEC_ARGUMENT_MAX_def EXEC_ARGUMENT_BYTES_MAX_def)
  have all: "storage_ok r \<and> req_path r = bs \<and> unat (argument_count r) < 16 \<and> (argv = 0 \<longrightarrow> argument_count r = 0) \<and>
      (argv \<noteq> 0 \<longrightarrow> argv_word argv (unat (argument_count r)) s = 0) \<and>
      (\<forall>j<unat (argument_count r). captured r j (argv_word argv j s) s)"
  proof (cases "argv = 0")
    case True
    then show ?thesis using bs(3) z by (simp add: zero_request_def)
  next
    case False
    then show ?thesis using capture_arguments_spec [OF _ _ z] bs(3) by fastforce
  qed
  note p = copy_bounded_string_spec [OF bs(1)]
  show "storage_ok r" using all by blast
  show "user_string path (req_path r) s" "req_path r \<noteq> []" "length (req_path r) < 256" "unat (argument_count r) < 16"
    "argv = 0 \<Longrightarrow> argument_count r = 0" "argv \<noteq> 0 \<Longrightarrow> argv_word argv (unat (argument_count r)) s = 0"
    using all p bs(2) by (simp_all add: EXEC_PATH_MAX_def)
  show "i < unat (argument_count r) \<Longrightarrow> user_string (argv_word argv i s) (argument r i) s"
    using all captured_argument by blast
qed

section \<open>Writing the stack\<close>

lemma user_load_append:
  assumes "user_load a n s = Some xs" "user_load (a + of_nat n) m s = Some ys"
  shows "user_load a (n + m) s = Some (xs @ ys)"
  using assms
proof (induction n arbitrary: a xs)
  case (Suc n)
  have "a + 1 + of_nat n = a + of_nat (Suc n)" by simp
  then show ?case using Suc.prems Suc.IH [of "a + 1"] by (auto simp: bind_Some_iff add.assoc)
qed simp

text \<open>The byte of user memory at an address of the stack, and what a store does to it.\<close>

abbreviation on_stack :: "nat \<Rightarrow> bool" where
  "on_stack x \<equiv> unat stack_bottom \<le> x \<and> x < unat USER_STACK_TOP"

lemma stack_limits [simp]: "unat stack_bottom = 0xBFFFE000" "unat USER_STACK_TOP = 0xC0000000"
  by (simp_all add: stack_bottom_def USER_STACK_TOP_def TASK_STACK_SIZE_def)

definition clean_stack :: "'a pstate_scheme \<Rightarrow> bool" where
  "clean_stack s \<longleftrightarrow> unaliased stack_bottom 8192 s"

lemma clean_stackI: "paging_wf s \<Longrightarrow> clean_stack s"
  unfolding clean_stack_def by (rule stack_unaliased) simp_all

lemma clean_stack_pmem [simp]: "clean_stack (s\<lparr>pmem := m\<rparr>) = clean_stack s"
  by (simp add: clean_stack_def unaliased_def)

lemma stack_store:
  assumes st: "user_store a bs s = Some s'" and clean: "clean_stack s"
    and a: "unat stack_bottom \<le> unat a" "unat a + length bs \<le> unat USER_STACK_TOP"
  shows "\<exists>pm. s' = s\<lparr>pmem := pm\<rparr>" "clean_stack s'" "user_load a (length bs) s' = Some bs"
    "\<lbrakk>on_stack x; x < unat a \<or> unat a + length bs \<le> x\<rbrakk> \<Longrightarrow> user_load8 (of_nat x) s' = user_load8 (of_nat x) s"
proof -
  obtain pm where pm: "s' = s\<lparr>pmem := pm\<rparr>" "\<forall>p. (\<forall>i<length bs. translate (a + of_nat i) s \<noteq> Some p) \<longrightarrow> pm p = pmem s p"
    using user_store_spec [OF st] by blast
  then show "\<exists>pm. s' = s\<lparr>pmem := pm\<rparr>" "clean_stack s'" using clean by auto
  let ?k = "unat a - unat stack_bottom"
  have sh: "stack_bottom + of_nat (?k + i) = a + of_nat i" for i
  proof -
    have "(of_nat ?k :: u32int) = of_nat (unat a) - of_nat (unat stack_bottom)" by (rule of_nat_diff [OF a(1)])
    then have "(of_nat ?k :: u32int) = a - stack_bottom" by (simp del: stack_limits)
    then show ?thesis by simp
  qed
  have inj: "i = j" if "i < 8192" "j < 8192" "translate (stack_bottom + of_nat i) s = Some p" "translate (stack_bottom + of_nat j) s = Some p" for i j p
    using clean that unfolding clean_stack_def unaliased_def by blast
  have "unaliased a (length bs) s"
    unfolding unaliased_def
  proof (intro allI impI)
    fix i j p assume "i < length bs" "j < length bs" "translate (a + of_nat i) s = Some p \<and> translate (a + of_nat j) s = Some p"
    then show "i = j" using inj [of "?k + i" "?k + j" p] a unfolding sh by simp
  qed
  then show "user_load a (length bs) s' = Some bs" by (rule user_load_store [OF st])
  assume x: "on_stack x" "x < unat a \<or> unat a + length bs \<le> x"
  have xs: "(of_nat x :: u32int) = stack_bottom + of_nat (x - unat stack_bottom)"
    using x(1) by (simp add: of_nat_diff stack_bottom_def USER_STACK_TOP_def TASK_STACK_SIZE_def)
  have "pm p = pmem s p" if p: "translate (of_nat x) s = Some p" for p
  proof (rule pm(2) [rule_format])
    fix i assume i: "i < length bs"
    show "translate (a + of_nat i) s \<noteq> Some p"
    proof
      assume "translate (a + of_nat i) s = Some p"
      moreover have b: "?k + i < 8192" "x - unat stack_bottom < 8192" using i a x(1) unfolding stack_limits by linarith+
      ultimately have "?k + i = x - unat stack_bottom" using p unfolding xs sh [symmetric] by (intro inj [OF b])
      then show False using x i a unfolding stack_limits by linarith
    qed
  qed
  then show "user_load8 (of_nat x) s' = user_load8 (of_nat x) s"
    unfolding pm(1) user_load8_def by (cases "translate (of_nat x) s") simp_all
qed

text \<open>What is on the stack at or above an address survives stores below it.\<close>

definition stack_same :: "nat \<Rightarrow> 'a pstate_scheme \<Rightarrow> 'a pstate_scheme \<Rightarrow> bool" where
  "stack_same lo s s' \<longleftrightarrow> (\<forall>x. lo \<le> x \<and> on_stack x \<longrightarrow> user_load8 (of_nat x) s' = user_load8 (of_nat x) s)"

lemma stack_same_trans: "\<lbrakk>stack_same lo s s1; stack_same lo' s1 s2; lo' \<le> lo\<rbrakk> \<Longrightarrow> stack_same lo s s2"
  by (simp add: stack_same_def)

lemma stack_same_load:
  assumes "stack_same lo s s'" "lo \<le> unat a" "unat stack_bottom \<le> unat a" "unat a + n \<le> unat USER_STACK_TOP"
  shows "user_load a n s' = user_load a n s"
  using assms(2-4)
proof (induction n arbitrary: a)
  case (Suc n)
  have "user_load8 (of_nat (unat a)) s' = user_load8 (of_nat (unat a)) s"
    using assms(1) Suc.prems unfolding stack_same_def by auto
  moreover have "unat (a + 1) = unat a + 1" using Suc.prems unat_add32 [of a 1] by simp
  ultimately show ?case using Suc.IH [of "a + 1"] Suc.prems by simp
qed simp

lemma push_arguments_spec:
  assumes "push_arguments r n sp as s = Some (Some (sp', as'), s')" "clean_stack s"
    "unat stack_bottom \<le> unat sp" "unat sp \<le> unat USER_STACK_TOP" "n \<le> length as" "\<And>i. length (argument r i) < 2 ^ 16"
  shows "(\<exists>pm. s' = s\<lparr>pmem := pm\<rparr>) \<and> unat stack_bottom \<le> unat sp' \<and> unat sp' \<le> unat sp \<and> length as' = length as \<and>
     (\<forall>i. n \<le> i \<longrightarrow> as' ! i = as ! i) \<and> stack_same (unat sp) s s' \<and>
     (\<forall>i<n. unat sp' \<le> unat (as' ! i) \<and> unat (as' ! i) + (length (argument r i) + 1) \<le> unat sp \<and>
        user_load (as' ! i) (length (argument r i) + 1) s' = Some (argument r i @ [0]))"
  using assms
proof (induction n arbitrary: sp as s)
  case 0
  then show ?case by (auto simp: stack_same_def intro: exI [of _ "pmem s"])
next
  case (Suc n)
  let ?bs = "argument r n" and ?len = "of_nat (length (argument r n)) + 1 :: u32int"
  have len: "unat ?len = length ?bs + 1" using Suc.prems(6) [of n] unat_of_nat32 [of "length ?bs + 1"] by (simp add: add.commute)
  have d: "unat (sp - stack_bottom) = unat sp - unat stack_bottom" using Suc.prems(3) by (rule unat_sub32)
  obtain s1 where fits: "\<not> ?len > sp - stack_bottom" and s1: "user_store (sp - ?len) (?bs @ [0]) s = Some s1"
      "push_arguments r n (sp - ?len) (as[n := sp - ?len]) s1 = Some (Some (sp', as'), s')"
    using Suc.prems(1) by (auto simp: Let_def bind_Some_iff split: if_splits)
  have le: "length ?bs + 1 \<le> unat sp - unat stack_bottom" using fits unfolding word_less_nat_alt len d by linarith
  have sp: "unat (sp - ?len) = unat sp - (length ?bs + 1)" using unat_sub32 [of ?len sp] le len Suc.prems(3) by simp
  note st = stack_store [OF s1(1) Suc.prems(2)]
  have pre: "unat stack_bottom \<le> unat (sp - ?len)" "unat (sp - ?len) + length (?bs @ [0]) \<le> unat USER_STACK_TOP"
    using sp le Suc.prems(3,4) by auto
  note st = st [OF pre]
  obtain pm where pm: "s1 = s\<lparr>pmem := pm\<rparr>" using st(1) by blast
  have "unat (sp - ?len) \<le> unat USER_STACK_TOP" using sp Suc.prems(4) by simp
  note IH = Suc.IH [OF s1(2) st(2) pre(1) this _ Suc.prems(6)]
  have IH: "(\<exists>pm. s' = s1\<lparr>pmem := pm\<rparr>)" "unat stack_bottom \<le> unat sp'" "unat sp' \<le> unat (sp - ?len)" "length as' = length as"
      "\<And>i. n \<le> i \<Longrightarrow> as' ! i = as[n := sp - ?len] ! i" "stack_same (unat (sp - ?len)) s1 s'"
      "\<And>i. i < n \<Longrightarrow> unat sp' \<le> unat (as' ! i) \<and> unat (as' ! i) + (length (argument r i) + 1) \<le> unat (sp - ?len) \<and>
        user_load (as' ! i) (length (argument r i) + 1) s' = Some (argument r i @ [0])"
    using IH Suc.prems(5) by auto
  have same1: "stack_same (unat sp) s s1"
    unfolding stack_same_def using st(4) sp le by simp
  have same: "stack_same (unat sp) s s'" by (rule stack_same_trans [OF same1 IH(6)]) (use sp in simp)
  have an: "as' ! n = sp - ?len" using IH(5) [of n] Suc.prems(5) by simp
  have "user_load (sp - ?len) (length ?bs + 1) s' = user_load (sp - ?len) (length ?bs + 1) s1"
    by (rule stack_same_load [OF IH(6)]) (use pre in auto)
  then have ln: "user_load (as' ! n) (length ?bs + 1) s' = Some (?bs @ [0])" using an st(3) by simp
  have "unat sp' \<le> unat (as' ! i) \<and> unat (as' ! i) + (length (argument r i) + 1) \<le> unat sp \<and>
      user_load (as' ! i) (length (argument r i) + 1) s' = Some (argument r i @ [0])" if "i < Suc n" for i
  proof (cases "i = n")
    case True
    then show ?thesis using ln an IH(3) sp le Suc.prems(3) by simp
  next
    case False
    then show ?thesis using IH(7) [of i] that sp by auto
  qed
  moreover have "as' ! i = as ! i" if "Suc n \<le> i" for i using IH(5) [of i] that by simp
  ultimately show ?case using same IH(1-4) sp pm by auto
qed

lemma push_words_spec:
  assumes "push_words vs sp s = Some (sp', s')" "clean_stack s" "unat stack_bottom + 4 * length vs \<le> unat sp" "unat sp \<le> unat USER_STACK_TOP"
  shows "(\<exists>pm. s' = s\<lparr>pmem := pm\<rparr>) \<and> unat sp' = unat sp - 4 * length vs \<and> stack_same (unat sp) s s' \<and>
     user_load sp' (4 * length vs) s' = Some (concat (map word_bytes (rev vs)))"
  using assms
proof (induction vs arbitrary: sp s)
  case Nil
  then show ?case by (auto simp: stack_same_def intro: exI [of _ "pmem s"])
next
  case (Cons v vs)
  obtain s1 where s1: "user_store (sp - 4) (word_bytes v) s = Some s1" "push_words vs (sp - 4) s1 = Some (sp', s')"
    using Cons.prems(1) by (auto simp: bind_Some_iff)
  have sp: "unat (sp - 4) = unat sp - 4" using unat_sub32 [of 4 sp] Cons.prems(3) by simp
  have pre: "unat stack_bottom \<le> unat (sp - 4)" "unat (sp - 4) + length (word_bytes v) \<le> unat USER_STACK_TOP"
    using sp Cons.prems(3,4) by auto
  note st = stack_store [OF s1(1) Cons.prems(2) pre]
  have IH: "\<exists>pm. s' = s1\<lparr>pmem := pm\<rparr>" "unat sp' = unat (sp - 4) - 4 * length vs" "stack_same (unat (sp - 4)) s1 s'"
      "user_load sp' (4 * length vs) s' = Some (concat (map word_bytes (rev vs)))"
    using Cons.IH [OF s1(2) st(2)] Cons.prems(3,4) sp by auto
  have "stack_same (unat sp) s s1" unfolding stack_same_def using st(4) sp Cons.prems(3) by simp
  then have same: "stack_same (unat sp) s s'" by (rule stack_same_trans [OF _ IH(3)]) (use sp in simp)
  have top: "sp - 4 = sp' + of_nat (4 * length vs)"
  proof -
    have w: "unat (of_nat (4 * length vs) :: u32int) = 4 * length vs"
      by (rule unat_of_nat32) (use Cons.prems(3,4) in simp)
    have "unat (sp' + of_nat (4 * length vs)) = unat sp' + 4 * length vs"
      using unat_add32 [of sp' "of_nat (4 * length vs)"] unfolding w using IH(2) sp Cons.prems(3,4) by simp
    then show ?thesis unfolding word_unat_eq_iff using IH(2) sp Cons.prems(3) by simp
  qed
  have "user_load (sp - 4) 4 s' = Some (word_bytes v)"
    using stack_same_load [OF IH(3), of "sp - 4" 4] st(3) pre by simp
  then have "user_load sp' (4 * length vs + 4) s' = Some (concat (map word_bytes (rev vs)) @ word_bytes v)"
    using user_load_append [of sp' "4 * length vs" s' "concat (map word_bytes (rev vs))" 4] IH(4) top by simp
  then show ?case using same IH(1,2) st(1) sp Cons.prems(3) by (auto simp: add.commute)
qed

lemma user_store_pmem: "user_store a bs s = Some s' \<Longrightarrow> \<exists>pm. s' = s\<lparr>pmem := pm\<rparr>"
  using user_store_spec by blast

lemma push_words_pmem: "push_words vs sp s = Some (sp', s') \<Longrightarrow> \<exists>pm. s' = s\<lparr>pmem := pm\<rparr>"
proof (induction vs arbitrary: sp s)
  case Nil
  then show ?case by (auto intro: exI [of _ "pmem s"])
next
  case (Cons v vs)
  then obtain s1 where "user_store (sp - 4) (word_bytes v) s = Some s1" "push_words vs (sp - 4) s1 = Some (sp', s')"
    by (auto simp: bind_Some_iff)
  then show ?case using Cons.IH user_store_pmem by fastforce
qed

lemma push_arguments_pmem: "push_arguments r n sp as s = Some (v, s') \<Longrightarrow> \<exists>pm. s' = s\<lparr>pmem := pm\<rparr>"
proof (induction n arbitrary: sp as s)
  case 0
  then show ?case by (auto intro: exI [of _ "pmem s"])
next
  case (Suc n)
  then consider "s' = s" | sp1 bs as1 s1 where "user_store sp1 bs s = Some s1" "push_arguments r n sp1 as1 s1 = Some (v, s')"
    by (auto simp: bind_Some_iff Let_def split: if_splits)
  then show ?case
  proof cases
    case 1
    then show ?thesis by (auto intro: exI [of _ "pmem s"])
  next
    case 2
    then show ?thesis using Suc.IH user_store_pmem by fastforce
  qed
qed

lemma push_pointers_pmem: "push_pointers r sp as s = Some (v, s') \<Longrightarrow> \<exists>pm. s' = s\<lparr>pmem := pm\<rparr>"
proof -
  assume "push_pointers r sp as s = Some (v, s')"
  then consider "s' = s" | vs sp1 sp2 where "push_words vs sp1 s = Some (sp2, s')"
    unfolding push_pointers_def Let_def by (auto elim!: bind_pairE simp only: bind_Some_iff split: if_splits)
  then show ?thesis
  proof cases
    case 1
    then show ?thesis by (auto intro: exI [of _ "pmem s"])
  qed (rule push_words_pmem)
qed

lemma argument_length:
  assumes "storage_ok r" shows "length (argument r i) < 2 ^ 16"
proof -
  have "length (argument r i) \<le> length (drop (unat (argument_offset r ! i)) (argument_storage r))"
    unfolding argument_def by (rule length_takeWhile_le)
  also have "\<dots> \<le> 2048" using assms by (simp add: storage_ok_def)
  finally show ?thesis by simp
qed

lemma align_stack_nat:
  fixes sp :: u32int
  assumes "unat stack_bottom \<le> unat sp"
  shows "unat stack_bottom \<le> unat (sp AND NOT 0xF)" "unat (sp AND NOT 0xF) \<le> unat sp" "unat (sp AND NOT 0xF) mod 16 = 0"
proof -
  show "unat stack_bottom \<le> unat (sp AND NOT 0xF)"
    using div_le_mono [OF assms, of 16] unfolding and_not_F minus_mod_eq_div_mult by simp
  show "unat (sp AND NOT 0xF) \<le> unat sp" unfolding and_not_F by simp
  show "unat (sp AND NOT 0xF) mod 16 = 0" unfolding and_not_F minus_mod_eq_div_mult by simp
qed

text \<open>The initial stack: the argument count, the argument vector and two null pointers at the stack
  pointer, and the strings that the vector points to.\<close>

definition argument_block :: "exec_request_t \<Rightarrow> u32int list \<Rightarrow> u32int \<Rightarrow> 'a pstate_scheme \<Rightarrow> bool" where
  "argument_block r ptrs sp s \<longleftrightarrow> length ptrs = unat (argument_count r) \<and>
     user_load sp (4 * (unat (argument_count r) + 3)) s = Some (concat (map word_bytes (argument_count r # ptrs @ [0, 0]))) \<and>
     (\<forall>i < unat (argument_count r). user_load (ptrs ! i) (length (argument r i) + 1) s = Some (argument r i @ [0]))"

lemma push_pointers_spec:
  assumes p: "push_pointers r sp1 as s = Some (Some sp, s')" and clean: "clean_stack s"
    and sp1: "unat stack_bottom \<le> unat sp1" "unat sp1 \<le> unat USER_STACK_TOP"
    and n: "n = unat (argument_count r)" "n \<le> length as" "n \<le> 16"
  shows "unat sp mod 16 = 0" "unat stack_bottom \<le> unat sp" "unat sp + 4 * (n + 3) \<le> unat sp1" "\<exists>pm. s' = s\<lparr>pmem := pm\<rparr>"
    "stack_same (unat sp1) s s'"
    "user_load sp (4 * (n + 3)) s' = Some (concat (map word_bytes (argument_count r # take n as @ [0, 0])))"
proof -
  let ?pb = "(argument_count r + 3) * 4 :: u32int"
  have fits: "\<not> ?pb > sp1 - stack_bottom"
    and s': "push_words ([0, 0] @ rev (take n as) @ [argument_count r]) (((sp1 - ?pb) AND NOT 0xF) + ?pb) s = Some (sp, s')"
    and sp: "sp = (sp1 - ?pb) AND NOT 0xF"
    using p unfolding push_pointers_def Let_def n(1) by (auto elim!: bind_pairE simp only: bind_Some_iff ASSERT_eq_Some split: if_splits)
  have pb: "unat ?pb = 4 * (n + 3)"
  proof -
    have "argument_count r = of_nat n" using n(1) by simp
    then have "?pb = of_nat (4 * (n + 3))" by (simp only:) (simp add: algebra_simps)
    then show ?thesis using unat_of_nat32 [of "4 * (n + 3)"] n(3) by simp
  qed
  have le: "4 * (n + 3) \<le> unat sp1 - unat stack_bottom"
    using fits unat_sub32 [OF sp1(1)] pb unfolding word_less_nat_alt by linarith
  have d: "unat (sp1 - ?pb) = unat sp1 - 4 * (n + 3)"
    using unat_sub32 [of ?pb sp1] unfolding pb using le by linarith
  have "unat stack_bottom \<le> unat (sp1 - ?pb)" using d le sp1(1) by linarith
  note al = align_stack_nat [OF this, folded sp]
  have top: "unat (sp + ?pb) = unat sp + 4 * (n + 3)"
    using unat_add32 [of sp ?pb] pb al(2) d le sp1(2) unfolding stack_limits by linarith
  have len: "length ([0, 0] @ rev (take n as) @ [argument_count r]) = n + 3" using n(2) by simp
  have pre: "unat stack_bottom + 4 * (n + 3) \<le> unat (sp + ?pb)" "unat (sp + ?pb) \<le> unat sp1"
    using top al d le by linarith+
  have le2: "unat (sp + ?pb) \<le> unat USER_STACK_TOP" using pre(2) sp1(2) by linarith
  note w = push_words_spec [OF s' [folded sp] clean _ le2, unfolded len, OF pre(1)]
  show "unat sp mod 16 = 0" "unat stack_bottom \<le> unat sp" using al by blast+
  show "unat sp + 4 * (n + 3) \<le> unat sp1" using top pre(2) by simp
  show "\<exists>pm. s' = s\<lparr>pmem := pm\<rparr>" using w by blast
  show "stack_same (unat sp1) s s'" using w pre(2) unfolding stack_same_def by auto
  show "user_load sp (4 * (n + 3)) s' = Some (concat (map word_bytes (argument_count r # take n as @ [0, 0])))"
    using w by simp
qed

lemma build_initial_stack_spec:
  assumes b: "build_initial_stack al r dir s = Some (Some sp, s')" and wf: "paging_wf s'"
    and ok: "storage_ok r" and cnt: "unat (argument_count r) \<le> 16"
  shows "unat sp mod 16 = 0" "stack_bottom \<le> sp" "sp < USER_STACK_TOP" "\<exists>ptrs. argument_block r ptrs sp s'"
proof -
  let ?n = "unat (argument_count r)"
  obtain s1 sp1 as s2 where
    s2: "push_arguments r ?n USER_STACK_TOP (replicate 16 0) s1 = Some (Some (sp1, as), s2)"
    and s': "push_pointers r (sp1 AND NOT 0xF) as s2 = Some (Some sp, s')"
    using b by (auto simp: build_initial_stack_def bind_Some_iff EXEC_ARGUMENT_MAX_def split: if_splits option.splits)
  obtain pm1 pm2 where pm: "s2 = s1\<lparr>pmem := pm1\<rparr>" "s' = s2\<lparr>pmem := pm2\<rparr>"
    using push_arguments_pmem [OF s2] push_pointers_pmem [OF s'] by blast
  then have clean: "clean_stack s1" "clean_stack s2" using clean_stackI [OF wf] by simp_all
  have a: "unat stack_bottom \<le> unat sp1" "unat sp1 \<le> unat USER_STACK_TOP" "length as = 16"
      "\<And>i. i < ?n \<Longrightarrow> unat sp1 \<le> unat (as ! i) \<and> unat (as ! i) + (length (argument r i) + 1) \<le> unat USER_STACK_TOP \<and>
         user_load (as ! i) (length (argument r i) + 1) s2 = Some (argument r i @ [0])"
    using push_arguments_spec [OF s2 clean(1) _ _ _ argument_length [OF ok]] cnt by auto
  note al = align_stack_nat [OF a(1)]
  have top: "unat (sp1 AND NOT 0xF) \<le> unat USER_STACK_TOP" using al(2) a(2) by linarith
  note p = push_pointers_spec [OF s' clean(2) al(1) top refl _ cnt, unfolded a(3), OF cnt]
  show "unat sp mod 16 = 0" by (rule p(1))
  show "stack_bottom \<le> sp" using p(2) by (simp only: word_le_nat_alt)
  show "sp < USER_STACK_TOP" using p(3) top unfolding word_less_nat_alt by simp
  have "user_load (as ! i) (length (argument r i) + 1) s' = Some (argument r i @ [0])" if i: "i < ?n" for i
    using stack_same_load [OF p(5), of "as ! i" "length (argument r i) + 1"] a(4) [OF i] al(2) a(1) by simp
  then have "argument_block r (take ?n as) sp s'"
    using p(6) a(3) cnt unfolding argument_block_def by simp
  then show "\<exists>ptrs. argument_block r ptrs sp s'" by blast
qed

end
