(* ===== verification/Exec_Properties.thy ===== *)
theory Exec_Properties
  imports Task_Properties Exec_Stack
begin

text \<open>
  The statements about program replacement (\<open>src/exec.c\<close>): what the ELF checks accept, the
  transaction that \<open>process_execve\<close> is, and the arguments that reach the new program.
\<close>

section \<open>The ELF checks\<close>





text \<open>C19. \<open>validate_elf\<close> accepts a file exactly when it is a regular file with a read operation whose first 52 bytes are an
  ELF32 header of an executable for the i386 with 1 to 32 program headers of 32 bytes (the bytes are spelled out in
  \<open>i386_executable\<close>), the table of program headers lies in the file at the offset of bytes 28 to 31 and can be read, and these headers
  form a well-formed image for the entry point of bytes 24 to 27. The returned address is then the end of the highest
  segment, and of the request only the header and the program headers change, so the captured arguments stay.\<close>

theorem validated_image:
  "validate_elf f request s = Some (Some (request', highest)) \<longleftrightarrow>
    (\<exists>n hb tb cnt ps. f \<noteq> 0 \<and> fs_nodes s f = Some n \<and> flags n AND 0x7 = FS_FILE \<and> read_cb n \<noteq> None \<and> 52 \<le> unat (node_length n) \<and>
      read_exact f 0 52 s = Some (Some hb) \<and> i386_executable hb cnt \<and>
      unat (word_at hb 28) + 32 * cnt \<le> unat (node_length n) \<and> read_exact f (word_at hb 28) (32 * of_nat cnt) s = Some (Some tb) \<and>
      ps = map (\<lambda>i. bytes_program (take 32 (drop (32 * i) tb))) [0..<cnt] \<and> image_ok (node_length n) (word_at hb 24) ps \<and>
      (\<forall>p \<in> set ps. loadable p \<longrightarrow> segment_end p \<le> highest) \<and> (\<exists>p \<in> set ps. loadable p \<and> segment_end p = highest) \<and>
      request' = request\<lparr>header := bytes_header hb, programs := ps @ drop cnt (programs request)\<rparr>)"
proof -
  have l: "\<not> len < 52 \<longleftrightarrow> 52 \<le> unat len" for len :: u32int by (auto simp: word_less_nat_alt)
  have b: "(\<not> bad_header (bytes_header hb) \<and> cnt = unat (program_header_count (bytes_header hb))) \<longleftrightarrow> i386_executable hb cnt"
    if "read_exact f 0 52 s = Some (Some hb)" for hb cnt
  proof -
    have "unat (program_header_count (bytes_header hb)) = unat (hb ! 44) + 256 * unat (hb ! 45)" by (simp add: bytes_header_def half_at_nat)
    then show ?thesis using bad_header_bytes [of hb] read_exact_length [OF that] by (auto simp: i386_executable_def)
  qed
  have c: "cnt \<le> 32" if "i386_executable hb cnt" for hb cnt using that by (simp add: i386_executable_def)
  show ?thesis
    unfolding validate_elf_steps l
  proof (intro ex_cong1, goal_cases)
    case (1 n hb tb cnt ps)
    show ?case
    proof (cases "read_exact f 0 52 s = Some (Some hb) \<and> i386_executable hb cnt \<and>
        ps = map (\<lambda>i. bytes_program (take 32 (drop (32 * i) tb))) [0..<cnt]")
      case True
      have i: "\<not> bad_header (bytes_header hb)" "unat (program_header_count (bytes_header hb)) = cnt" using b [of hb cnt] True by simp_all
      have k: "cnt \<le> 32" "length ps \<le> 32" using c [of hb cnt] True by simp_all
      show ?thesis by (simp only: i table_fits [OF k(1)] check_programs_image [OF k(2)] True [THEN conjunct1] True [THEN conjunct2, THEN conjunct1] simp_thms conj_assoc)
    next
      case False
      then show ?thesis using b [of hb cnt] by argo
    qed
  qed
qed

text \<open>A file of 84 bytes: an ELF header and one program header that maps the whole file.\<close>

definition demo_file :: "u8int list" where
  "demo_file = [0x7F, 0x45, 0x4C, 0x46, 1, 1, 1, 0, 0, 0, 0, 0, 0, 0, 0, 0,
     2, 0, 3, 0, 1, 0, 0, 0, 0x40, 0, 0x40, 0, 52, 0, 0, 0, 0, 0, 0, 0, 0, 0, 0, 0, 52, 0, 32, 0, 1, 0, 0, 0, 0, 0, 0, 0,
     1, 0, 0, 0, 0, 0, 0, 0, 0, 0, 0x40, 0, 0, 0, 0, 0, 84, 0, 0, 0, 84, 0, 0, 0, 5, 0, 0, 0, 0, 0x10, 0, 0]"

definition demo_archive :: tstate where
  "demo_archive = demo_tasks\<lparr>fs_nodes := [0x300 \<mapsto> file_node ''init'' 0 84],
     file_headers := [\<lparr>magic = 0xBF, hname = [], offset = 0x2000, hlength = 84\<rparr>], initrd_location := 0x100000,
     mem := (\<lambda>a. if unat (a - 0x102000) < 84 then demo_file ! unat (a - 0x102000) else 0)\<rparr>"

lemma demo_validate: "map_option (map_option (\<lambda>(r, h). (loaded_programs r, h))) (validate_elf 0x300 zero_request demo_archive) =
    Some (Some ([\<lparr>p_type = 1, file_offset = 0, virtual_address = 0x400000, physical_address = 0, file_size = 84, memory_size = 84, p_flags = 5,
      alignment = 0x1000\<rparr>], 0x400054))"
  by code_simp

theorem validated_image_witness:
  "\<exists>r. validate_elf 0x300 zero_request demo_archive = Some (Some (r, 0x400054)) \<and> i386_executable (take 52 demo_file) 1 \<and>
     image_ok 84 0x400040 (loaded_programs r)"
proof -
  obtain r where r: "validate_elf 0x300 zero_request demo_archive = Some (Some (r, 0x400054))" "length (loaded_programs r) = 1"
    using demo_validate by (auto simp: map_option_eq_Some)
  have hb: "read_exact 0x300 0 52 demo_archive = Some (Some (take 52 demo_file))" by code_simp
  have b: "take 52 demo_file ! 44 = 1" "take 52 demo_file ! 45 = 0" "word_at (take 52 demo_file) 24 = 0x400040"
    "program_header_count (bytes_header (take 52 demo_file)) = 1"
    by code_simp+
  obtain n h' tb cnt ps where v: "fs_nodes demo_archive 0x300 = Some n" "read_exact 0x300 0 52 demo_archive = Some (Some h')"
    "i386_executable h' cnt" "ps = map (\<lambda>i. bytes_program (take 32 (drop (32 * i) tb))) [0..<cnt]"
    "image_ok (node_length n) (word_at h' 24) ps" "r = zero_request\<lparr>header := bytes_header h', programs := ps @ drop cnt (programs zero_request)\<rparr>"
    using validated_image [THEN iffD1, OF r(1)] by (elim exE conjE)
  have h': "h' = take 52 demo_file" using v(2) hb by simp
  have v: "fs_nodes demo_archive 0x300 = Some n" "i386_executable (take 52 demo_file) cnt"
    "image_ok (node_length n) (word_at (take 52 demo_file) 24) ps"
    "r = zero_request\<lparr>header := bytes_header (take 52 demo_file), programs := ps @ drop cnt (programs zero_request)\<rparr>" "length ps = cnt"
    using v(1,3-6) unfolding h' by simp_all
  have "cnt = 1" using v(2) unfolding i386_executable_def b by simp
  moreover have "node_length n = 84" using v(1) by (auto simp: demo_archive_def file_node_def)
  moreover have "loaded_programs r = ps" using v(4,5) b(4) \<open>cnt = 1\<close> by (simp add: loaded_programs_def)
  ultimately have "image_ok 84 0x400040 (loaded_programs r)" "i386_executable (take 52 demo_file) 1" using v(2,3) b(3) by simp_all
  then show ?thesis using r(1) by (intro exI [of _ r] conjI)
qed

section \<open>Replacement as a transaction\<close>



section \<open>The arguments of the new program\<close>

text \<open>C11. The arguments survive the change of address space. Whatever \<open>capture_request\<close> has read through the
  caller's \<open>argv\<close> is on the stack that \<open>build_initial_stack\<close> leaves: at a 16-byte aligned stack pointer
  inside the stack pages stand the number of arguments, that many pointers and two null
  pointers, and each pointer leads to a copy of the string at the corresponding pointer of the
  caller; the number is the index of the first null pointer of \<open>argv\<close>.\<close>

theorem arguments_roundtrip:
  fixes s :: "'a pstate_scheme" and s1 s2 :: "'b pstate_scheme"
  assumes c: "capture_request path argv envp s = Some (Some request0)"
    and q: "request = request0\<lparr>header := h, programs := ps\<rparr>"
    and b: "build_initial_stack al request dir s1 = Some (Some sp, s2)" and wf: "paging_wf s2"
  shows "\<exists>n ptrs strs. n < 16 \<and> argument_count request0 = of_nat n \<and> (argv = 0 \<longrightarrow> n = 0) \<and> (argv \<noteq> 0 \<longrightarrow> argv_word argv n s = 0) \<and>
    unat sp mod 16 = 0 \<and> stack_bottom \<le> sp \<and> sp < USER_STACK_TOP \<and> length ptrs = n \<and> length strs = n \<and>
    user_load sp (4 * (n + 3)) s2 = Some (concat (map word_bytes (of_nat n # ptrs @ [0, 0]))) \<and>
    (\<forall>i < n. user_string (argv_word argv i s) (strs ! i) s \<and> user_string (ptrs ! i) (strs ! i) s2)"
proof -
  let ?n = "unat (argument_count request0)"
  note cap = capture_request_spec [OF c]
  have ok: "storage_ok request" "unat (argument_count request) \<le> 16" using cap(4,8) by (simp_all add: q storage_ok_def)
  note st = build_initial_stack_spec [OF b wf ok]
  obtain ptrs where p: "argument_block request ptrs sp s2" using st(4) by blast
  have arg: "argument request i = argument request0 i" for i by (simp add: q argument_def)
  let ?strs = "map (argument request0) [0..<?n]"
  have ptrs: "length ptrs = ?n" "user_load sp (4 * (?n + 3)) s2 = Some (concat (map word_bytes (of_nat ?n # ptrs @ [0, 0])))"
    using p by (simp_all add: argument_block_def q)
  have "user_string (argv_word argv i s) (?strs ! i) s \<and> user_string (ptrs ! i) (?strs ! i) s2" if i: "i < ?n" for i
  proof -
    have "user_string (argv_word argv i s) (argument request0 i) s" by (rule cap(7) [OF i])
    moreover have "user_load (ptrs ! i) (length (argument request0 i) + 1) s2 = Some (argument request0 i @ [0])"
      using p i arg unfolding argument_block_def by (simp add: q)
    ultimately show ?thesis using i by (simp add: user_string_def)
  qed
  then show ?thesis
    using cap(4,5,6) st(1-3) ptrs by (intro exI [of _ ?n] exI [of _ ptrs] exI [of _ ?strs]) simp
qed

text \<open>A caller whose stack page holds the string \<open>ls\<close> and a vector with one pointer to it, and a new
  address space whose stack is not mapped yet.\<close>

definition demo_caller :: tstate where
  "demo_caller = demo_tasks\<lparr>pmem := (\<lambda>_. 0)(0x6000 := 0x6C, 0x6001 := 0x73, 0x6011 := 0xF0, 0x6012 := 0xFF, 0x6013 := 0xBF)\<rparr>"

definition demo_image :: tstate where
  "demo_image = demo_tasks\<lparr>page_tables := [0x5000 \<mapsto> zero_table], fmap := \<lparr>frames = [0x1F], nframes = 32, frame_word_count = 1\<rparr>\<rparr>"

lemma demo_capture:
  "capture_request 0xBFFFF000 0xBFFFF010 0 demo_caller =
     Some (Some (zero_request\<lparr>req_path := [0x6C, 0x73], argument_count := 1, argument_bytes := 3,
       argument_storage := write_bytes (argument_storage zero_request) 0 [0x6C, 0x73, 0]\<rparr>))"
  by code_simp

abbreviation demo_request :: exec_request_t where
  "demo_request \<equiv> zero_request\<lparr>req_path := [0x6C, 0x73], argument_count := 1, argument_bytes := 3,
       argument_storage := write_bytes (argument_storage zero_request) 0 [0x6C, 0x73, 0]\<rparr>"

lemma demo_frame_words:
  "first_frame \<lparr>frames = [0x1F], nframes = 32, frame_word_count = 1\<rparr> = Some 5"
  "test_frame 0x5000 \<lparr>frames = [0x1F], nframes = 32, frame_word_count = 1\<rparr> = Some 0"
  "set_frame 0x5000 \<lparr>frames = [0x1F], nframes = 32, frame_word_count = 1\<rparr> = Some \<lparr>frames = [0x3F], nframes = 32, frame_word_count = 1\<rparr>"
  "first_frame \<lparr>frames = [0x3F], nframes = 32, frame_word_count = 1\<rparr> = Some 6"
  "test_frame 0x6000 \<lparr>frames = [0x3F], nframes = 32, frame_word_count = 1\<rparr> = Some 0"
  "set_frame 0x6000 \<lparr>frames = [0x3F], nframes = 32, frame_word_count = 1\<rparr> = Some \<lparr>frames = [0x7F], nframes = 32, frame_word_count = 1\<rparr>"
  by code_simp+

lemma demo_map:
  "\<exists>pm. exec_map_pages (\<lambda>_ _ _. None) 0x1000 2 stack_bottom demo_image =
     Some (True, demo_tasks\<lparr>fmap := \<lparr>frames = [0x7F], nframes = 32, frame_word_count = 1\<rparr>, pmem := pm\<rparr>)"
proof -
  have sb: "stack_bottom = 0xBFFFE000" by (simp add: stack_bottom_def USER_STACK_TOP_def TASK_STACK_SIZE_def)
  have z: "length zero_table = 1024" "zero_table ! 1022 = zero_page" "zero_table ! 1023 = zero_page" by (simp_all add: zero_table_def)
  have e: "demo_page f = zero_page\<lparr>present := True, rw := True, user := True, frame := f\<rparr>" for f
    by (simp add: demo_page_def zero_page_def)
  show ?thesis
    unfolding numeral_2_eq_2 exec_map_pages.simps sb
    by (simp add: exec_map_page_def get_page_def read_page_def write_page_def alloc_frame_def demo_image_def demo_tasks_def Let_def
        zero_directory_def z demo_frame_words zero_page_physical_def PANIC_def e) (simp add: zero_page_def)
qed

text \<open>Stores to mapped stack pages succeed.\<close>

definition mapped_from :: "nat \<Rightarrow> 'a pstate_scheme \<Rightarrow> bool" where
  "mapped_from lo s \<longleftrightarrow> (\<forall>x. lo \<le> x \<and> x < unat USER_STACK_TOP \<longrightarrow> (\<exists>p. translate (of_nat x) s = Some p))"

lemma mapped_from_pmem [simp]: "mapped_from lo (s\<lparr>pmem := pm\<rparr>) = mapped_from lo s"
  by (simp add: mapped_from_def)

lemma mapped_store:
  assumes "mapped_from lo s" "lo \<le> unat a" "unat a + length bs \<le> unat USER_STACK_TOP"
  shows "\<exists>pm. user_store a bs s = Some (s\<lparr>pmem := pm\<rparr>)"
proof -
  have "\<exists>p. translate (a + of_nat i) s = Some p" if "i < length bs" for i
  proof -
    have e: "a + of_nat i = of_nat (unat a + i)" by simp
    show ?thesis unfolding e by (rule assms(1) [unfolded mapped_from_def, rule_format]) (use assms(2,3) that in simp)
  qed
  then show ?thesis using user_store_total [of bs a s] user_store_pmem by fastforce
qed

lemma push_words_mapped:
  assumes "mapped_from lo s" "lo + 4 * length vs \<le> unat sp" "unat sp \<le> unat USER_STACK_TOP"
  shows "\<exists>pm. push_words vs sp s = Some (sp - 4 * of_nat (length vs), s\<lparr>pmem := pm\<rparr>)"
  using assms
proof (induction vs arbitrary: sp s)
  case Nil
  then show ?case by (auto intro: exI [of _ "pmem s"])
next
  case (Cons v vs)
  have sp: "unat (sp - 4) = unat sp - 4" using unat_sub32 [of 4 sp] Cons.prems(2) by simp
  obtain pm where pm: "user_store (sp - 4) (word_bytes v) s = Some (s\<lparr>pmem := pm\<rparr>)"
  proof -
    have l: "lo + 4 \<le> unat sp" using Cons.prems(2) by simp
    have "lo \<le> unat (sp - 4)" unfolding sp using l by linarith
    moreover have "unat (sp - 4) + length (word_bytes v) \<le> unat USER_STACK_TOP"
      unfolding sp length_word_bytes using l Cons.prems(3) by linarith
    ultimately show thesis using mapped_store [OF Cons.prems(1)] that by blast
  qed
  obtain pm' where "push_words vs (sp - 4) (s\<lparr>pmem := pm\<rparr>) = Some (sp - 4 - 4 * of_nat (length vs), s\<lparr>pmem := pm\<rparr>\<lparr>pmem := pm'\<rparr>)"
  proof -
    have l: "lo + 4 * length vs + 4 \<le> unat sp" using Cons.prems(2) by simp
    have "lo + 4 * length vs \<le> unat (sp - 4)" "unat (sp - 4) \<le> unat USER_STACK_TOP"
      unfolding sp using l Cons.prems(3) by linarith+
    then show thesis using Cons.IH [of "s\<lparr>pmem := pm\<rparr>" "sp - 4"] Cons.prems(1) that by auto
  qed
  then show ?case using pm by (auto simp: algebra_simps)
qed

lemma demo_build:
  "\<exists>pm. build_initial_stack (\<lambda>_ _ _. None) demo_request 0x1000 demo_image =
     Some (Some 0xBFFFFFE0, demo_tasks\<lparr>fmap := \<lparr>frames = [0x7F], nframes = 32, frame_word_count = 1\<rparr>, pmem := pm\<rparr>)"
proof -
  let ?s = "demo_tasks\<lparr>fmap := \<lparr>frames = [0x7F], nframes = 32, frame_word_count = 1\<rparr>\<rparr>"
  have top: "USER_STACK_TOP = 0xC0000000" "stack_bottom = 0xBFFFE000"
    by (simp_all add: stack_bottom_def USER_STACK_TOP_def TASK_STACK_SIZE_def)
  obtain pm where pm: "exec_map_pages (\<lambda>_ _ _. None) 0x1000 2 stack_bottom demo_image = Some (True, ?s\<lparr>pmem := pm\<rparr>)"
    using demo_map by auto
  have m: "mapped_from 0xBFFFF000 (?s\<lparr>pmem := q\<rparr>)" for q
  proof -
    have "translate a ?s = translate a demo_tasks" for a by (simp add: translate_def read_page_def Let_def cong: if_cong)
    then show ?thesis using demo_stack_mapped unfolding mapped_from_def by (auto simp: unat_of_nat32)
  qed
  have arg: "argument demo_request 0 = [0x6C, 0x73]" by code_simp
  obtain pm1 where pm1: "user_store 0xBFFFFFFD [0x6C, 0x73, 0] (?s\<lparr>pmem := pm\<rparr>) = Some (?s\<lparr>pmem := pm1\<rparr>)"
    using mapped_store [OF m [of pm], of "0xBFFFFFFD" "[0x6C, 0x73, 0]"] by auto
  obtain pm2 where pm2: "push_words [0, 0, 0xBFFFFFFD, 1] 0xBFFFFFF0 (?s\<lparr>pmem := pm1\<rparr>) = Some (0xBFFFFFE0, ?s\<lparr>pmem := pm2\<rparr>)"
    using push_words_mapped [OF m [of pm1], of "[0, 0, 0xBFFFFFFD, 1]" "0xBFFFFFF0"] by auto
  have rounds: "page_rounds stack_bottom USER_STACK_TOP = 2" by (simp add: page_rounds_def)
  have args: "push_arguments demo_request 1 USER_STACK_TOP (replicate 16 0) (?s\<lparr>pmem := pm\<rparr>) =
      Some (Some (0xBFFFFFFD, (replicate 16 0)[0 := 0xBFFFFFFD]), ?s\<lparr>pmem := pm1\<rparr>)"
    unfolding One_nat_def push_arguments.simps arg Let_def top using pm1 by simp
  have as: "(replicate 16 0)[0 := 0xBFFFFFFD :: u32int] = 0xBFFFFFFD # replicate 15 0" by code_simp
  have ptrs: "push_pointers demo_request 0xBFFFFFF0 ((replicate 16 0)[0 := 0xBFFFFFFD]) (?s\<lparr>pmem := pm1\<rparr>) =
      Some (Some 0xBFFFFFE0, ?s\<lparr>pmem := pm2\<rparr>)"
    using pm2 unfolding as by (simp add: push_pointers_def top del: push_words.simps)
  show ?thesis
    using pm args ptrs by (intro exI [of _ pm2]) (simp add: build_initial_stack_def rounds EXEC_ARGUMENT_MAX_def)
qed

theorem arguments_roundtrip_witness:
  "\<exists>s2. build_initial_stack (\<lambda>_ _ _. None) demo_request 0x1000 demo_image = Some (Some 0xBFFFFFE0, s2) \<and>
     (\<exists>ptr str. user_string (argv_word 0xBFFFF010 0 demo_caller) str demo_caller \<and> user_string ptr str s2)"
proof -
  obtain pm where b: "build_initial_stack (\<lambda>_ _ _. None) demo_request 0x1000 demo_image =
      Some (Some 0xBFFFFFE0, demo_tasks\<lparr>fmap := \<lparr>frames = [0x7F], nframes = 32, frame_word_count = 1\<rparr>, pmem := pm\<rparr>)"
    (is "_ = Some (_, ?s2)") using demo_build by blast
  have o: "owns ?s2 = owns demo_tasks" by (intro ext) (simp add: owns_def read_page_def)
  have "frame_map_wf (fmap ?s2)" by (auto simp: frame_map_wf_def)
  moreover have "f \<in> used (fmap ?s2)" if "owns demo_tasks p f" for p f
  proof -
    have "f \<in> used (fmap demo_tasks)" using paging_wfD(3) [OF demo_tasks_paging that] .
    moreover have "bit (0x7F :: u32int) f" if "bit (0x60 :: u32int) f"
    proof -
      have "(0x60 :: u32int) = 0x7F AND 0x60" by simp
      then show ?thesis using that bit_and_iff by metis
    qed
    ultimately show ?thesis by (auto simp: used_def demo_tasks_def)
  qed
  ultimately have wf: "paging_wf ?s2" using demo_tasks_paging unfolding paging_wf_def o by (auto simp: demo_tasks_def)
  have q: "demo_request = demo_request\<lparr>header := header demo_request, programs := programs demo_request\<rparr>" by simp
  from arguments_roundtrip [OF demo_capture q b wf] show ?thesis
    using b by (intro exI [of _ ?s2] conjI) (simp, fastforce)
qed

end
