(* ===== verification/IO_Properties.thy ===== *)
theory IO_Properties
  imports Kernel_Life Exec_Properties
begin

text \<open>
  The statements about input and output (\<open>src/monitor.c\<close>, \<open>src/keyboard.c\<close>,
  \<open>src/descriptor_tables.c\<close>): the console, the keyboard buffer and the descriptor tables.
\<close>

section \<open>A concrete kernel state\<close>

definition demo_kernel :: mstate where
  "demo_kernel = tstate.extend demo_tasks \<lparr>video_memory = (\<lambda>_. 0), cursor_x = 79, cursor_y = 24, port_writes = [],
     input_buffer = replicate 128 0, read_index = 127, write_index = 127, shift_pressed = False, tick = 0,
     interrupt_handlers = (\<lambda>_. None)\<rparr>"

lemma demo_kernel_sel [simp]:
  "tasks demo_kernel = tasks demo_tasks" "ready_queue demo_kernel = ready_queue demo_tasks" "current_task demo_kernel = current_task demo_tasks"
  "next_pid demo_kernel = next_pid demo_tasks" "cursor_x demo_kernel = 79" "cursor_y demo_kernel = 24"
  "input_buffer demo_kernel = replicate 128 0" "read_index demo_kernel = 127" "write_index demo_kernel = 127"
  "video_memory demo_kernel = (\<lambda>_. 0)" "shift_pressed demo_kernel = False" "interrupt_handlers demo_kernel = (\<lambda>_. None)"
  by (simp_all add: demo_kernel_def tstate.defs)

section \<open>The console\<close>

text \<open>C37. The console state is well-typed: whatever text is written, in whatever order, with tabs, newlines,
  backspaces and bytes that are no characters, the cursor stays on the 80 by 25 screen and no
  cell of memory behind the screen is written.\<close>

theorem console_on_screen:
  assumes "cursor_x s < 80" "cursor_y s < 25"
  shows "cursor_x (monitor_write text s) < 80 \<and> cursor_y (monitor_write text s) < 25 \<and>
    (\<forall>j \<ge> 80 * 25. video_memory (monitor_write text s) j = video_memory s j)"
  using monitor_write_ok [of s] assms by (simp add: console_ok_def)

theorem console_on_screen_witness:
  "cursor_x (monitor_write [0x41, 0x09, 0x0A, 0x42] demo_kernel) < 80 \<and> cursor_y (monitor_write [0x41, 0x09, 0x0A, 0x42] demo_kernel) < 25 \<and>
   video_memory (monitor_write [0x41, 0x09, 0x0A, 0x42] demo_kernel) 2000 = 0"
  using console_on_screen [of demo_kernel "[0x41, 0x09, 0x0A, 0x42]"] by simp

text \<open>C38. \<open>monitor_write_hex\<close> prints \<open>0x\<close> and the hexadecimal numeral of the number without leading zeros;
  \<open>monitor_write_dec\<close> prints the decimal numeral of a number below \<open>2 ^ 31\<close> and nothing at all for a
  larger one, which it takes for negative.\<close>

theorem numbers_printed:
  "monitor_write_hex n s = monitor_write ([0x30, 0x78] @ hexadecimal (unat n)) s \<and>
   monitor_write_dec n s = (if unat n < 2 ^ 31 then monitor_write (decimal (unat n)) s else s)"
  using monitor_write_hex_prints [of n s] monitor_write_dec_prints [of n s] by simp

section \<open>The keyboard\<close>

text \<open>C29. The ring buffer between the keyboard interrupt and its readers is a first-in first-out queue of at
  most 127 bytes: over any sequence of key presses and reads, the bytes read, followed by those
  still in the buffer, are the bytes that were there followed by those accepted, and a key is
  refused only when 127 are waiting.\<close>

theorem keyboard_fifo:
  assumes "length (input_buffer s) = 128" "unat (read_index s) < 128" "unat (write_index s) < 128"
    and "bounded_queue.run ring_contents 127 enqueue_key ring_get ops s = (accepted, out, s')"
  shows "out @ ring_contents s' = ring_contents s @ accepted \<and> length (ring_contents s') \<le> 127 \<and>
    ring_contents (enqueue_key k s') = (if length (ring_contents s') < 127 then ring_contents s' @ [k] else ring_contents s')"
proof -
  have "ring_ok s" using assms(1-3) by (simp add: ring_ok_def)
  from ring.run_fifo [OF this assms(4)] show ?thesis using ring.fits [of s'] ring.enq_contents [of s'] by simp
qed

theorem keyboard_fifo_witness:
  "bounded_queue.run ring_contents 127 enqueue_key ring_get [] demo_kernel = ([], [], demo_kernel) \<and>
   ring_contents demo_kernel = [] \<and> ring_contents (enqueue_key 0x61 demo_kernel) = [0x61]"
proof -
  have r: "bounded_queue.run ring_contents 127 enqueue_key ring_get [] demo_kernel = ([], [], demo_kernel)" by (rule ring.run.simps(1))
  have e: "ring_contents demo_kernel = []" by (simp add: ring_contents_def ring_length_def)
  then show ?thesis using keyboard_fifo [OF _ _ _ r, of "0x61"] r by simp
qed

text \<open>C30. Input wakes every sleeper: after a key press that puts a byte into the buffer no task of the queue
  waits for input any more, the tasks that waited are runnable, and no other task has changed.\<close>

theorem key_press_wakes:
  assumes "(write_index s + 1) mod 128 \<noteq> read_index s" "scancode < 128" "scancode \<noteq> 0x2A" "scancode \<noteq> 0x36"
    and "ch = (if shift_pressed s then shifted_map else normal_map) ! unat scancode" "ch \<noteq> 0"
    and t: "a \<in> set (ready_queue s)" "tasks s a = Some t"
  shows "keyboard_interrupt scancode s = enqueue_key ch s \<and>
    tasks (keyboard_interrupt scancode s) a = Some (if state t = TASK_WAITING_INPUT then t\<lparr>state := TASK_RUNNABLE\<rparr> else t) \<and>
    ready_queue (keyboard_interrupt scancode s) = ready_queue s"
proof -
  have "\<not> scancode \<ge> 128" "scancode \<noteq> 0xAA" "scancode \<noteq> 0xB6" using assms(2) by (auto simp: not_le)
  moreover have "scancode AND 0x80 = 0"
  proof -
    have "unat scancode < 128" using assms(2) by (simp add: word_less_nat_alt)
    then have "scancode div 128 = 0" by (simp add: word_unat_eq_iff unat_div)
    then have "\<not> bit scancode 7" by (simp add: bit_iff_odd)
    then show ?thesis using and_exp_eq_0_iff_not_bit [of scancode 7] by simp
  qed
  ultimately have k: "keyboard_interrupt scancode s = enqueue_key ch s"
    using assms(3-6) by (simp add: keyboard_interrupt_def Let_def split: if_splits)
  have "enqueue_key ch s = task_wake_keyboard_waiters
      (s\<lparr>input_buffer := (input_buffer s)[unat (write_index s) := ch], write_index := (write_index s + 1) mod 128\<rparr>)"
    using assms(1) by (simp add: enqueue_key_def KEYBOARD_BUFFER_SIZE_def Let_def)
  then show ?thesis using k t by (simp add: task_wake_keyboard_waiters_def)
qed

theorem key_press_wakes_witness:
  "keyboard_interrupt 0x1E demo_kernel = enqueue_key 0x61 demo_kernel \<and>
   state (the (tasks (keyboard_interrupt 0x1E demo_kernel) 0x6000)) = TASK_RUNNABLE"
proof -
  have "normal_map ! unat (0x1E :: u8int) = 0x61" by (simp add: normal_map_def)
  then have "keyboard_interrupt 0x1E demo_kernel = enqueue_key 0x61 demo_kernel \<and>
      tasks (keyboard_interrupt 0x1E demo_kernel) 0x6000 = Some (demo_user\<lparr>task_id := 2, parent_id := 1, state := TASK_RUNNABLE\<rparr>)"
    using key_press_wakes [of demo_kernel "0x1E" "0x61" "0x6000" "demo_user\<lparr>task_id := 2, parent_id := 1, state := TASK_WAITING_INPUT\<rparr>"]
    by (auto simp: demo_sel)
  then have k: "keyboard_interrupt 0x1E demo_kernel = enqueue_key 0x61 demo_kernel"
      "tasks (keyboard_interrupt 0x1E demo_kernel) 0x6000 = Some (demo_user\<lparr>task_id := 2, parent_id := 1, state := TASK_RUNNABLE\<rparr>)"
    by blast+
  have "state (the (tasks (keyboard_interrupt 0x1E demo_kernel) 0x6000)) = TASK_RUNNABLE" unfolding k(2) by simp
  then show ?thesis using k(1) by blast
qed

section \<open>The descriptor tables\<close>

lemma vectors_set: "distinct vectors" "v \<in> set vectors \<longleftrightarrow> unat v < 48 \<or> v = 128"
proof -
  show "distinct vectors" by code_simp
  have "v \<in> of_nat ` {0..<48} \<longleftrightarrow> unat v < 48"
  proof
    assume "unat v < 48"
    then show "v \<in> of_nat ` {0..<48}" by (intro image_eqI [of _ _ "unat v"]) simp_all
  qed (auto simp: unsigned_of_nat take_bit_nat_eq_self)
  then show "v \<in> set vectors \<longleftrightarrow> unat v < 48 \<or> v = 128" by (auto simp: vectors_def)
qed

lemma remap_pics_sel [simp]:
  "idt_entries (remap_pics s) = idt_entries s" "gdt_entries (remap_pics s) = gdt_entries s" "gdt_ptr (remap_pics s) = gdt_ptr s"
  "idt_ptr (remap_pics s) = idt_ptr s" "tss_entry (remap_pics s) = tss_entry s"
  by (simp_all add: remap_pics_def outb_def)

lemma idt_set_gates_gdt [simp]:
  "gdt_entries (fold (\<lambda>n s. idt_set_gate n (stub n) sel fl s) ns s) = gdt_entries s"
  "gdt_ptr (fold (\<lambda>n s. idt_set_gate n (stub n) sel fl s) ns s) = gdt_ptr s"
  "idt_ptr (fold (\<lambda>n s. idt_set_gate n (stub n) sel fl s) ns s) = idt_ptr s"
  "tss_entry (fold (\<lambda>n s. idt_set_gate n (stub n) sel fl s) ns s) = tss_entry s"
  by (induction ns arbitrary: s) (simp_all add: idt_set_gate_def)

definition demo_tables :: dstate where
  "demo_tables = mstate.extend demo_kernel \<lparr>gdt_entries = replicate 6 \<lparr>limit_low = 0, base_low = 0, base_middle = 0, access = 0, granularity = 0, base_high = 0\<rparr>,
     gdt_ptr = \<lparr>ptr_limit = 0, ptr_base = 0\<rparr>, idt_entries = [], idt_ptr = \<lparr>ptr_limit = 0, ptr_base = 0\<rparr>,
     tss_entry = \<lparr>ss0 = 0, tss_es = 0, tss_cs = 0, tss_ss = 0, tss_ds = 0, tss_fs = 0, tss_gs = 0, iomap_base = 0\<rparr>\<rparr>"

text \<open>The tables that \<open>init_gdt\<close> writes, entry by entry.\<close>

definition flat_segment :: "u8int \<Rightarrow> gdt_entry_t" where
  "flat_segment acc = \<lparr>limit_low = 0xFFFF, base_low = 0, base_middle = 0, access = acc, granularity = 0xCF, base_high = 0\<rparr>"

lemma init_gdt_entries:
  assumes "length (gdt_entries s) = 6"
  shows "gdt_entries (init_gdt gdt tss s) = [\<lparr>limit_low = 0, base_low = 0, base_middle = 0, access = 0, granularity = 0, base_high = 0\<rparr>,
      flat_segment 0x9A, flat_segment 0x92, flat_segment 0xFA, flat_segment 0xF2,
      \<lparr>limit_low = ucast ((103 :: u32int) AND 0xFFFF), base_low = ucast (tss AND 0xFFFF),
       base_middle = ucast (drop_bit 16 tss AND 0xFF), access = 0xE9,
       granularity = ucast (drop_bit 16 (103 :: u32int) AND 0x0F) OR (0 AND 0xF0), base_high = ucast (drop_bit 24 tss AND 0xFF)\<rparr>]"
    "gdt_ptr (init_gdt gdt tss s) = \<lparr>ptr_limit = 47, ptr_base = gdt\<rparr>"
    "ss0 (tss_entry (init_gdt gdt tss s)) = 0x10"
proof -
  obtain a b c d e f where g: "gdt_entries s = [a, b, c, d, e, f]"
    using assms by (auto simp: numeral_eq_Suc length_Suc_conv)
  show "gdt_entries (init_gdt gdt tss s) = [\<lparr>limit_low = 0, base_low = 0, base_middle = 0, access = 0, granularity = 0, base_high = 0\<rparr>,
      flat_segment 0x9A, flat_segment 0x92, flat_segment 0xFA, flat_segment 0xF2,
      \<lparr>limit_low = ucast ((103 :: u32int) AND 0xFFFF), base_low = ucast (tss AND 0xFFFF),
       base_middle = ucast (drop_bit 16 tss AND 0xFF), access = 0xE9,
       granularity = ucast (drop_bit 16 (103 :: u32int) AND 0x0F) OR (0 AND 0xF0), base_high = ucast (drop_bit 24 tss AND 0xFF)\<rparr>]"
    by (simp add: init_gdt_def write_tss_def gdt_set_gate_def Let_def g sizeof_tss_def flat_segment_def)
qed (simp_all add: init_gdt_def write_tss_def gdt_set_gate_def Let_def)

lemma flat_segments:
  "\<forall>(i, knd, level) \<in> {(1, Code_segment True, 0), (2, Data_segment True, 0), (3, Code_segment True, 3), (4, Data_segment True, 3)}.
     let e = [z, flat_segment 0x9A, flat_segment 0x92, flat_segment 0xFA, flat_segment 0xF2, t] ! i
     in segment_base e = 0 \<and> segment_span e = 2 ^ 32 \<and> segment_present e \<and> segment_32bit e \<and> kind_of_segment e = knd \<and> segment_dpl e = level"
  by (simp add: flat_segment_def segment_defs Let_def)

text \<open>C39. The descriptor tables after \<open>init_descriptor_tables\<close>, read the way the processor reads them. The first
  segment is the null descriptor; the next four are present 32-bit segments from 0 that span all 4 GiB: readable code and writable data
  of the kernel (level 0) and of the user (level 3); the last is the available task state segment, exactly as
  long as the structure at its base, with the kernel data segment for the stack of an entry. The vectors 0 to 47
  and 128 are present interrupt gates of privilege level 3 into the kernel code segment that lead to their entry
  points, the others are absent. The table registers get the addresses and sizes of the tables, and no handler is installed.\<close>

theorem descriptor_tables_decoded:
  assumes "length (gdt_entries s) = 6"
  shows "let s' = init_descriptor_tables gdt tss idt stub s; seg = (\<lambda>i. gdt_entries s' ! i)
     in (\<forall>v. let g = idt_entries s' ! unat v
             in if unat v < 48 \<or> v = 128
                then gate_offset g = stub v \<and> idt_sel g = 0x08 \<and> idt_flags g = 0xEE \<and> gate_dpl g = 3
                else g = zero_gate) \<and>
        seg 0 = \<lparr>limit_low = 0, base_low = 0, base_middle = 0, access = 0, granularity = 0, base_high = 0\<rparr> \<and>
        (\<forall>(i, knd, level) \<in> {(1, Code_segment True, 0), (2, Data_segment True, 0), (3, Code_segment True, 3), (4, Data_segment True, 3)}.
           segment_base (seg i) = 0 \<and> segment_span (seg i) = 2 ^ 32 \<and> segment_present (seg i) \<and> segment_32bit (seg i) \<and>
           kind_of_segment (seg i) = knd \<and> segment_dpl (seg i) = level) \<and>
        segment_base (seg 5) = tss \<and> segment_span (seg 5) = 104 \<and> segment_present (seg 5) \<and>
        kind_of_segment (seg 5) = System_segment 9 \<and> ss0 (tss_entry s') = 0x10 \<and>
        gdt_ptr s' = \<lparr>ptr_limit = 47, ptr_base = gdt\<rparr> \<and> idt_ptr s' = \<lparr>ptr_limit = 2047, ptr_base = idt\<rparr> \<and>
        interrupt_handlers s' = (\<lambda>_. None)"
proof -
  let ?s = "init_descriptor_tables gdt tss idt stub s"
  let ?g = "init_gdt gdt tss s"
  let ?z = "remap_pics (?g\<lparr>idt_ptr := \<lparr>ptr_limit = 8 * 256 - 1, ptr_base = idt\<rparr>, idt_entries := replicate 256 zero_gate\<rparr>)"
  have e: "idt_entries ?s = idt_entries (fold (\<lambda>n s. idt_set_gate n (stub n) 0x08 0x8E s) vectors ?z)"
      "gdt_entries ?s = gdt_entries ?g" "gdt_ptr ?s = gdt_ptr ?g" "tss_entry ?s = tss_entry ?g" "idt_ptr ?s = \<lparr>ptr_limit = 2047, ptr_base = idt\<rparr>"
      "interrupt_handlers ?s = (\<lambda>_. None)"
    by (simp_all add: init_descriptor_tables_def init_idt_def Let_def)
  note tab = init_gdt_entries [OF assms, of gdt tss, folded e(2-4)]
  have u: "unat (v :: u8int) < 256" for v using unsigned_less [of v, where ?'a = nat] by simp
  note gates = idt_set_gates [of ?z vectors stub "0x08" "0x8E", OF _ vectors_set(1)]
  have g: "let g = idt_entries ?s ! unat v
        in if unat v < 48 \<or> v = 128 then gate_offset g = stub v \<and> idt_sel g = 0x08 \<and> idt_flags g = 0xEE \<and> gate_dpl g = 3 else g = zero_gate" for v
    using gates [THEN conjunct2, rule_format, of v] u [of v] unfolding e(1) Let_def vectors_set(2)
    by (simp add: gate_roundtrip) (simp add: gate_dpl_def)
  have tss: "segment_base (gdt_entries ?s ! 5) = tss" "segment_limit (gdt_entries ?s ! 5) = 103"
      "granularity (gdt_entries ?s ! 5) = 0" "access (gdt_entries ?s ! 5) = 0xE9"
    using segment_roundtrip [where base = tss and limit = 103 and gran = 0 and acc = "0xE9"] unfolding tab(1) by simp_all
  have "segment_span (gdt_entries ?s ! 5) = 104" "segment_present (gdt_entries ?s ! 5)" "kind_of_segment (gdt_entries ?s ! 5) = System_segment 9"
    using tss(2-4) by (simp_all add: segment_span_def segment_present_def kind_of_segment_def)
  then show ?thesis
    unfolding Let_def using g [unfolded Let_def] flat_segments [unfolded Let_def] tss(1) tab(2,3) e(5,6) unfolding tab(1) by simp
qed

theorem descriptor_tables_decoded_witness:
  "length (gdt_entries demo_tables) = 6 \<and>
   gate_offset (idt_entries (init_descriptor_tables 0x1000 0x2000 0x3000 (\<lambda>v. 0x100000 + 16 * ucast v) demo_tables) ! 128) = 0x100800"
proof -
  have l: "length (gdt_entries demo_tables) = 6" by (simp add: demo_tables_def mstate.defs)
  from descriptor_tables_decoded [OF l, of "0x1000" "0x2000" "0x3000" "\<lambda>v. 0x100000 + 16 * ucast v", unfolded Let_def, THEN conjunct1, rule_format, of 128] l
  show ?thesis by simp
qed

end
