(* ===== verification/Syscall_Properties.thy ===== *)
theory Syscall_Properties
  imports IO_Properties
begin

text \<open>
  The statements about system calls and interrupts (\<open>src/syscall.c\<close>, \<open>src/isr.c\<close>, \<open>src/timer.c\<close>).
\<close>

section \<open>Entries into the kernel\<close>






text \<open>Without a pending signal the way out changes nothing.\<close>

lemma deliver_nothing:
  assumes "get_current s = Some t" "pending_signals t = 0"
  shows "task_signal_deliver c r s = Some (Returns r s)"
proof -
  have n: "take_next_pending_signal t = (0, t)"
    using take_next_spec [of t] assms(2) by (cases "take_next_pending_signal t") auto
  have "set_current t s = s" using assms(1) by (auto simp: set_current_def set_task_def get_current_def fun_upd_idem split: if_splits)
  then show ?thesis using assms(1) n by (auto simp: task_signal_deliver_def)
qed

text \<open>A system call number that does not exist changes nothing but the result: the caller continues with
  \<open>-ENOSYS\<close> in \<open>eax\<close>, unless a signal is delivered on the way out.\<close>

theorem unknown_syscall:
  assumes "unat (eax regs) \<ge> 30"
  shows "syscall_handler al resume c regs s = task_signal_deliver c (regs\<lparr>eax := of_int (-38)\<rparr>) s \<and>
    (get_current s = Some t \<and> pending_signals t = 0 \<longrightarrow>
     syscall_handler al resume c regs s = Some (Returns (regs\<lparr>eax := of_int (-38)\<rparr>) s))"
proof -
  have e: "eax regs \<ge> SYSCALL_COUNT" using assms by (simp add: word_le_nat_alt SYSCALL_COUNT_def)
  then have d: "syscall_handler al resume c regs s = task_signal_deliver c (regs\<lparr>eax := of_int (-38)\<rparr>) s"
    by (simp add: syscall_handler_def SYSCALL_ERROR_def ERRNO_ENOSYS_def)
  then show ?thesis using deliver_nothing [of s t] by auto
qed

theorem unknown_syscall_witness:
  "syscall_handler (kernel_alloc 3) 0 demo_cpu (demo_regs\<lparr>eax := 30\<rparr>) demo_kernel =
     Some (Returns (demo_regs\<lparr>eax := -38\<rparr>) demo_kernel)"
proof -
  have "get_current demo_kernel = Some demo_user" by (simp add: get_current_def demo_sel)
  moreover have "pending_signals demo_user = 0" by (simp add: demo_user_def initialise_standard_descriptors_def zero_task_def)
  ultimately show ?thesis
    using unknown_syscall [of "demo_regs\<lparr>eax := 30\<rparr>" "kernel_alloc 3" 0 demo_cpu demo_kernel demo_user] by auto
qed

section \<open>Reading the keyboard\<close>

lemma translate_read_index [simp]: "translate a (s\<lparr>read_index := r\<rparr>) = translate a s"
  by (simp add: translate_def read_page_def Let_def cong: if_cong)

lemma user_store_read_index: "user_store a bs (s\<lparr>read_index := r\<rparr>) = map_option (\<lambda>s'. s'\<lparr>read_index := r\<rparr>) (user_store a bs s)"
proof (induction bs arbitrary: a s)
  case (Cons b bs)
  show ?case
  proof (cases "translate a s")
    case (Some p)
    let ?m = "(pmem s)(p := b)"
    have "user_store a (b # bs) (s\<lparr>read_index := r\<rparr>) = user_store (a + 1) bs ((s\<lparr>read_index := r\<rparr>)\<lparr>pmem := ?m\<rparr>)"
      using Some by (simp add: user_store8_def)
    also have "(s\<lparr>read_index := r\<rparr>)\<lparr>pmem := ?m\<rparr> = (s\<lparr>pmem := ?m\<rparr>)\<lparr>read_index := r\<rparr>" by simp
    finally show ?thesis using Cons.IH [of "a + 1" "s\<lparr>pmem := ?m\<rparr>"] Some by (simp add: user_store8_def)
  qed (simp add: user_store8_def)
qed simp

lemma ring_pmem [simp]: "ring_contents (s\<lparr>pmem := m\<rparr>) = ring_contents s" "ring_ok (s\<lparr>pmem := m\<rparr>) = ring_ok s"
  by (simp_all add: ring_contents_def ring_ok_def ring_length_def)

text \<open>Taking the first byte of a buffer that is not empty.\<close>

lemma getchar_Cons:
  assumes "ring_ok s" "ring_contents s = x # xs"
  obtains r where "keyboard_getchar s = (uint x, s\<lparr>read_index := r\<rparr>)" "ring_contents (s\<lparr>read_index := r\<rparr>) = xs" "ring_ok (s\<lparr>read_index := r\<rparr>)"
proof -
  have "read_index s \<noteq> write_index s" using getchar_ring(1) [OF assms(1)] assms(2) by auto
  then have k: "snd (keyboard_getchar s) = s\<lparr>read_index := (read_index s + 1) mod of_nat KEYBOARD_BUFFER_SIZE\<rparr>"
    by (simp add: keyboard_getchar_def Let_def)
  show thesis
    by (rule that [of "(read_index s + 1) mod of_nat KEYBOARD_BUFFER_SIZE"])
      (use getchar_ring(2) [OF assms(1,2)] getchar_ring(3) [OF assms(1)] in \<open>simp_all add: k [symmetric]\<close>)
qed

lemma getchar_Nil: "\<lbrakk>ring_ok s; ring_contents s = []\<rbrakk> \<Longrightarrow> keyboard_getchar s = (-1, s)"
  using getchar_ring(1) [of s] by (simp add: keyboard_getchar_def)

lemma drain_keyboard_spec:
  "\<lbrakk>ring_ok s; drain_keyboard n b s = Some (m, s')\<rbrakk> \<Longrightarrow>
     m = length (take n (ring_contents s)) \<and> ring_ok s' \<and> ring_contents s' = drop n (ring_contents s) \<and>
     (\<exists>s1 r. user_store b (take n (ring_contents s)) s = Some s1 \<and> s' = s1\<lparr>read_index := r\<rparr>)"
proof (induction n arbitrary: b s m)
  case 0
  then show ?case by (auto intro: exI [of _ "read_index s"])
next
  case (Suc n)
  show ?case
  proof (cases "ring_contents s")
    case Nil
    then show ?thesis using Suc.prems getchar_Nil [OF Suc.prems(1) Nil] by (auto intro: exI [of _ "read_index s"])
  next
    case (Cons x xs)
    obtain r where r: "keyboard_getchar s = (uint x, s\<lparr>read_index := r\<rparr>)" "ring_contents (s\<lparr>read_index := r\<rparr>) = xs" "ring_ok (s\<lparr>read_index := r\<rparr>)"
      by (rule getchar_Cons [OF Suc.prems(1) Cons])
    obtain s2 k where s2: "user_store8 b x (s\<lparr>read_index := r\<rparr>) = Some s2" "drain_keyboard n (b + 1) s2 = Some (k, s')" "m = k + 1"
      using Suc.prems(2) r(1) by (auto simp: bind_Some_iff)
    obtain p where p: "translate b s = Some p" "s2 = s\<lparr>read_index := r, pmem := (pmem s)(p := x)\<rparr>"
      using s2(1) by (auto simp: user_store8_def bind_Some_iff)
    have ok: "ring_ok s2" "ring_contents s2 = xs" using r(2,3) unfolding p(2) by simp_all
    from Suc.IH [OF ok(1) s2(2)] obtain s1 q where s1: "user_store (b + 1) (take n xs) s2 = Some s1" "s' = s1\<lparr>read_index := q\<rparr>"
        "k = length (take n xs)" "ring_ok s'" "ring_contents s' = drop n xs" unfolding ok(2) by blast
    have eq: "s2 = (s\<lparr>pmem := (pmem s)(p := x)\<rparr>)\<lparr>read_index := r\<rparr>" using p(2) by simp
    obtain s3 where s3: "user_store (b + 1) (take n xs) (s\<lparr>pmem := (pmem s)(p := x)\<rparr>) = Some s3" "s1 = s3\<lparr>read_index := r\<rparr>"
      using s1(1) unfolding eq user_store_read_index by auto
    have "user_store b (take (Suc n) (ring_contents s)) s = Some s3" using s3(1) p(1) Cons by (simp add: user_store8_def)
    then show ?thesis using s1 s2(3) s3(2) Cons by (auto intro: exI [of _ q])
  qed
qed

text \<open>C28. Reading standard input. With nothing in the keyboard buffer the caller goes to sleep and nothing is consumed.
  Otherwise the read returns at once with the bytes that are there, oldest first and at most as
  many as asked for: the result is their number, they are in the caller's buffer, and exactly
  they have left the keyboard buffer.\<close>

theorem stdin_read:
  assumes ok: "ring_ok s" and cnt: "cnt \<noteq> 0" and r: "keyboard_read c b cnt s = Some res"
    and una: "unaliased b (unat cnt) s"
  shows "if ring_contents s = [] then (\<exists>c' s'. task_wait_for_keyboard c s = Some (c', s') \<and> res = Sleeps c' s')
    else (\<exists>s'. let bs = take (unat cnt) (ring_contents s)
       in res = Done (of_nat (length bs)) s' \<and> user_load b (length bs) s' = Some bs \<and>
          ring_contents s' = drop (unat cnt) (ring_contents s) \<and> tasks s' = tasks s)"
proof (cases "ring_contents s")
  case Nil
  then show ?thesis using r getchar_Nil [OF ok Nil] by (auto simp: keyboard_read_def bind_Some_iff)
next
  case (Cons x xs)
  let ?bs = "take (unat cnt) (ring_contents s)"
  have n: "unat cnt = Suc (unat cnt - 1)" using cnt by (simp add: unat_gt_0)
  obtain q where q: "keyboard_getchar s = (uint x, s\<lparr>read_index := q\<rparr>)" by (rule getchar_Cons [OF ok Cons])
  obtain s' m where s': "drain_keyboard (Suc (unat cnt - 1)) b s = Some (m, s')" "res = Done (of_nat m) s'"
    using r q by (auto simp: keyboard_read_def bind_Some_iff)
  from drain_keyboard_spec [OF ok s'(1)] n obtain s1 k where d: "m = length ?bs" "ring_contents s' = drop (unat cnt) (ring_contents s)"
      "user_store b ?bs s = Some s1" "s' = s1\<lparr>read_index := k\<rparr>" by auto
  have "unaliased b (length ?bs) s" using una unfolding unaliased_def by auto
  then have "user_load b (length ?bs) s1 = Some ?bs" by (rule user_load_store [OF d(3)])
  moreover have "user_load b l (s1\<lparr>read_index := k\<rparr>) = user_load b l s1" for l
    by (induction l arbitrary: b) (simp_all add: user_load8_def)
  moreover have "tasks s1 = tasks s" using keeps_tstate(1) [OF keeperD [OF user_store_keeps d(3)]] .
  ultimately show ?thesis using Cons s'(2) d by (simp add: Let_def)
qed

text \<open>Two bytes wait, around the end of the ring.\<close>

definition demo_input :: mstate where
  "demo_input = demo_kernel\<lparr>input_buffer := (replicate 128 0)[127 := 0x61, 0 := 0x0A], write_index := 1\<rparr>"

lemma demo_input_memory:
  "translate a demo_input = translate a demo_tasks" "paging_wf demo_input"
proof -
  have e: "page_tables demo_input = page_tables demo_tasks" "directories demo_input = directories demo_tasks"
      "current_directory demo_input = current_directory demo_tasks" "fmap demo_input = fmap demo_tasks"
    by (simp_all add: demo_input_def demo_kernel_def tstate.defs)
  have p: "read_page p demo_input = read_page p demo_tasks" for p by (simp add: read_page_def e)
  show "translate a demo_input = translate a demo_tasks" by (simp add: translate_def e p Let_def cong: if_cong)
  show "paging_wf demo_input" using demo_tasks_paging by (simp add: paging_wf_def owns_def e p)
qed

theorem stdin_read_witness:
  "\<exists>s'. keyboard_read demo_cpu 0xBFFFF000 2 demo_input = Some (Done 2 s') \<and> user_load 0xBFFFF000 2 s' = Some [0x61, 0x0A] \<and>
     ring_contents s' = []"
proof -
  have ok: "ring_ok demo_input" by (simp add: ring_ok_def demo_input_def)
  have rc: "ring_contents demo_input = [0x61, 0x0A]"
    by (simp add: ring_contents_def ring_length_def demo_input_def upt_conv_Cons)
  obtain p q where pq: "translate 0xBFFFF000 demo_input = Some p" "translate 0xBFFFF001 demo_input = Some q"
    using demo_stack_mapped [of "0xBFFFF000"] demo_stack_mapped [of "0xBFFFF001"] unfolding demo_input_memory by auto
  have "\<exists>s'. keyboard_read demo_cpu 0xBFFFF000 2 demo_input = Some (Done 2 s')"
    using pq by (simp add: keyboard_read_def keyboard_getchar_def user_store8_def Let_def)
      (simp add: demo_input_def keyboard_getchar_def KEYBOARD_BUFFER_SIZE_def user_store8_def)
  then obtain s' where s': "keyboard_read demo_cpu 0xBFFFF000 2 demo_input = Some (Done 2 s')" by blast
  have "unaliased 0xBFFFF000 (unat (2 :: u32int)) demo_input"
    by (rule stack_unaliased [OF demo_input_memory(2)]) (simp_all add: word_le_nat_alt)
  from stdin_read [OF ok _ s' this]
  have "user_load 0xBFFFF000 (length [0x61, 0x0A :: u8int]) s' = Some [0x61, 0x0A] \<and> ring_contents s' = []"
    unfolding rc by (simp only: Let_def) simp
  moreover have "length [0x61, 0x0A :: u8int] = 2" by simp
  ultimately show ?thesis using s' by metis
qed

section \<open>Reading files\<close>

text \<open>C27. Reading a file descriptor: a read of \<open>cnt\<close> bytes through a descriptor of an archived file returns the bytes of
  the file from the descriptor's offset on, at most \<open>cnt\<close> and fewer only at the end of the file;
  they are in the caller's buffer, the result is their number, and the offset of that descriptor, and no other field of any
  task, moves forward by it, so that the next read continues where this one ended.\<close>

theorem file_read_sequential:
  fixes s :: "'a mstate_scheme"
  assumes r: "service_fd_read c fd b cnt s = Some res" and arg: "b \<noteq> 0" "cnt \<noteq> 0"
    and d: "task_get_descriptor fd s = Some i" "get_current s = Some t" "d = descriptors t ! i" "kind d = FD_KIND_NODE" "fd_node d \<noteq> 0"
    and f: "fs_nodes s (fd_node d) = Some k" "read_cb k = Some Initrd_read" "unat (inode k) < length (file_headers s)"
    and bs: "bs = take (unat cnt) (drop (unat (fd_offset d)) (file_bytes s (file_headers s ! unat (inode k))))"
    and una: "unaliased b (unat cnt) s"
  shows "\<exists>s'. res = Done (of_nat (length bs)) s' \<and> user_load b (length bs) s' = Some bs \<and>
     tasks s' = (tasks s)(current_task s \<mapsto> t\<lparr>descriptors := (descriptors t)[i := d\<lparr>fd_offset := fd_offset d + of_nat (length bs)\<rparr>]\<rparr>)"
proof -
  have rd: "read_fs (fd_node d) (fd_offset d) cnt False s = Some (of_nat (length bs), bs)"
    using initrd_read_slice [OF f(1,3) bs] f(1,2) d(5) by (simp add: read_fs_def)
  let ?t = "t\<lparr>descriptors := (descriptors t)[i := d\<lparr>fd_offset := fd_offset d + of_nat (length bs)\<rparr>]\<rparr>"
  obtain s1 where s1: "user_store b bs s = Some s1" "res = Done (of_nat (length bs)) (set_current ?t s1)"
    using r arg d rd by (auto simp: service_fd_read_def Let_def bind_Some_iff)
  have "length bs \<le> unat cnt" unfolding bs by simp
  then have "unaliased b (length bs) s" using una unfolding unaliased_def by auto
  then have l: "user_load b (length bs) s1 = Some bs" by (rule user_load_store [OF s1(1)])
  note k = keeps_tstate [OF keeperD [OF user_store_keeps s1(1)]]
  show ?thesis using s1(2) l k(1,3) by (simp add: set_current_def)
qed

text \<open>Descriptor 3 of the running process is at offset 2 of a file of five bytes.\<close>

definition demo_reader :: mstate where
  "demo_reader = demo_kernel\<lparr>tasks := tasks demo_open, fs_nodes := [0x300 \<mapsto> file_node ''motd'' 0 5],
     file_headers := [\<lparr>magic = 0xBF, hname = [], offset = 0x2000, hlength = 5\<rparr>], initrd_location := 0x100000, mem := ucast\<rparr>"

theorem file_read_sequential_witness:
  "\<exists>s'. service_fd_read demo_cpu 3 0xBFFFF000 10 demo_reader = Some (Done 3 s') \<and> user_load 0xBFFFF000 3 s' = Some [2, 3, 4]"
proof -
  let ?d = "\<lparr>kind = FD_KIND_NODE, fd_node = 0x300, fd_offset = 2, fd_flags = 0\<rparr> :: file_descriptor_t"
  let ?t = "demo_user\<lparr>descriptors := (descriptors demo_user)[3 := ?d]\<rparr>"
  have l: "length (descriptors demo_user) = 16" by (simp add: demo_user_def initialise_standard_descriptors_def MAX_FILE_DESCRIPTORS_def)
  have t: "get_current demo_reader = Some ?t" by (simp add: get_current_def demo_reader_def demo_open_def set_current_def demo_sel)
  have i: "task_get_descriptor 3 demo_reader = Some 3" using t l by (simp add: task_get_descriptor_def MAX_FILE_DESCRIPTORS_def)
  have d: "?d = descriptors ?t ! 3" using l by simp
  have f: "fs_nodes demo_reader (fd_node ?d) = Some (file_node ''motd'' 0 5)" by (simp add: demo_reader_def)
  have e: "page_tables demo_reader = page_tables demo_input" "directories demo_reader = directories demo_input"
      "current_directory demo_reader = current_directory demo_input" "fmap demo_reader = fmap demo_input"
    by (simp_all add: demo_reader_def demo_input_def)
  have p: "read_page p demo_reader = read_page p demo_input" for p by (simp add: read_page_def e)
  have tr: "translate a demo_reader = translate a demo_input" for a by (simp add: translate_def e p Let_def cong: if_cong)
  have wf: "paging_wf demo_reader" using demo_input_memory(2) by (simp add: paging_wf_def owns_def e p)
  have una: "unaliased 0xBFFFF000 (unat (10 :: u32int)) demo_reader"
    by (rule stack_unaliased [OF wf]) (simp_all add: word_le_nat_alt)
  have bs: "[2, 3, 4] = take (unat (10 :: u32int)) (drop (unat (fd_offset ?d)) (file_bytes demo_reader (file_headers demo_reader ! unat (inode (file_node ''motd'' 0 5)))))"
    by (simp add: file_bytes_def demo_reader_def file_node_def upt_conv_Cons)
  have "mapped_from 0xBFFFF000 demo_reader"
    unfolding mapped_from_def using demo_stack_mapped by (auto simp: tr demo_input_memory unat_of_nat32)
  then obtain pm where pm: "user_store 0xBFFFF000 [2, 3, 4] demo_reader = Some (demo_reader\<lparr>pmem := pm\<rparr>)"
    using mapped_store [of "0xBFFFF000" demo_reader "0xBFFFF000" "[2, 3, 4]"] by auto
  have "initrd_read 0x300 2 10 demo_reader = Some (3, [2, 3, 4])"
    using initrd_read_slice [OF f _ bs] by (simp add: file_node_def demo_reader_def)
  then have rd: "read_fs 0x300 2 10 False demo_reader = Some (3, [2, 3, 4])"
    using f by (simp add: read_fs_def file_node_def)
  then obtain res where r: "service_fd_read demo_cpu 3 0xBFFFF000 10 demo_reader = Some res"
    using i t l pm by (simp add: service_fd_read_def Let_def del: user_store.simps)
  have k: "read_cb (file_node ''motd'' 0 5) = Some Initrd_read" "unat (inode (file_node ''motd'' 0 5)) < length (file_headers demo_reader)"
    by (simp_all add: file_node_def demo_reader_def)
  from file_read_sequential [OF r _ _ i t d _ _ f k bs una]
  have "\<exists>s'. res = Done (of_nat (length [2, 3, 4 :: u8int])) s' \<and> user_load 0xBFFFF000 (length [2, 3, 4 :: u8int]) s' = Some [2, 3, 4]"
    by (simp del: user_load.simps) blast
  moreover have "length [2, 3, 4 :: u8int] = 3" by simp
  ultimately have "\<exists>s'. res = Done (of_nat 3) s' \<and> user_load 0xBFFFF000 3 s' = Some [2, 3, 4]" by metis
  then show ?thesis using r by auto
qed

end
