(* ===== verification/User_Properties.thy ===== *)
theory User_Properties
  imports User_ABI Syscall_Properties
begin

text \<open>
  The statements about the ring-3 side: the interface between the user libraries and the kernel.
\<close>

section \<open>The system-call interface\<close>

text \<open>C16. The user library and the kernel agree on the system-call interface: every wrapper of the library, executed as a trap
  through vector \<open>0x80\<close>, runs the service of that name with the arguments in their order, and its result is
  what the service returns.\<close>

theorem libc_reaches_services:
  fixes s :: "'a mstate_scheme"
  assumes "interrupt_handlers s 0x80 = Some syscall_handler_isr" "int_no r = 0x80"
  shows "let run = (\<lambda>f. isr_handler al resume k c (f r) s); serve = (\<lambda>f m. m \<bind> finish_service c (f r))
    in run (libc_write fd b n) = serve (libc_write fd b n) (service_fd_write fd b n s) \<and>
       run (libc_read fd b n) = serve (libc_read fd b n) (service_fd_read c fd b n s) \<and>
       run (libc_open p fl) = serve (libc_open p fl) (service_open p fl s) \<and>
       run (libc_close fd) = serve (libc_close fd) (service_close fd s) \<and>
       run libc_clear_screen = serve libc_clear_screen (service_clear s) \<and>
       run libc_getchar_nonblocking = serve libc_getchar_nonblocking (service_getchar s) \<and>
       run (libc_readdir_name i b n) = serve (libc_readdir_name i b n) (service_readdir i b n s) \<and>
       run libc_system_ticks = serve libc_system_ticks (service_ticks s) \<and>
       run libc_system_memory_kib = serve libc_system_memory_kib (service_memory s) \<and>
       run (libc_write_hex v) = serve (libc_write_hex v) (service_hex v s) \<and>
       run (libc_write_dec v) = serve (libc_write_dec v) (service_dec v s) \<and>
       run (libc_chdir p) = serve (libc_chdir p) (service_chdir p s) \<and>
       run (libc_getcwd b n) = serve (libc_getcwd b n) (service_getcwd b n s) \<and>
       run (libc_mkdir p) = serve (libc_mkdir p) (service_mkdir al p s) \<and>
       run libc_getpid = serve libc_getpid (service_getpid s) \<and>
       run (libc_sbrk v) = serve (libc_sbrk v) (service_sbrk al v s) \<and>
       run (libc_waitpid i b) = serve (libc_waitpid i b) (service_waitpid i b s) \<and>
       run (libc_signal t v p) = serve (libc_signal t v p) (service_signal v p t s) \<and>
       run (libc_kill i v) = serve (libc_kill i v) (service_kill i v s) \<and>
       run (libc_lseek fd v n) = serve (libc_lseek fd v n) (service_lseek fd v n s) \<and>
       run (libc_fstat_info fd b) = serve (libc_fstat_info fd b) (service_fstat fd b s) \<and>
       run (libc_stat_info p b) = serve (libc_stat_info p b) (service_stat p b s) \<and>
       run (libc_isatty fd) = serve (libc_isatty fd) (service_isatty fd s) \<and>
       run libc_fork = do { (child, s) \<leftarrow> task_fork_from_frame al resume (libc_fork r) s;
         task_signal_deliver c ((libc_fork r)\<lparr>eax := (if sint child < 0 then SYSCALL_ERROR ERRNO_ENOMEM else child)\<rparr>) s } \<and>
       run (libc_execve p b v) = do { (res, regs, s) \<leftarrow> process_execve al p b v (libc_execve p b v r) s;
         task_signal_deliver c (if res < 0 then regs\<lparr>eax := SYSCALL_ERROR ERRNO_ENOEXEC\<rparr> else regs) s } \<and>
       run (libc_exit v) = do { (c, s) \<leftarrow> task_exit c v s; Some (Switched c s) } \<and>
       run (libc_sigreturn p) = do { (res, regs, s) \<leftarrow> task_signal_return p (libc_sigreturn p r) s;
         task_signal_deliver c (if res < 0 then regs\<lparr>eax := -1\<rparr> else regs) s }"
  unfolding Let_def
  by (intro conjI; ((rule trap_service [OF assms(1)]; simp add: libc_defs user_numbers service_table assms(2)) |
    (subst trap_syscall [OF assms(1)]; simp add: syscall_handler_def libc_defs user_numbers kernel_numbers assms(2))))

theorem libc_reaches_services_witness:
  "isr_handler (kernel_alloc 3) 0 0 demo_cpu (libc_getpid (demo_regs\<lparr>int_no := 0x80\<rparr>))
     (demo_kernel\<lparr>interrupt_handlers := [0x80 \<mapsto> syscall_handler_isr]\<rparr>) =
   Some (Returns ((libc_getpid (demo_regs\<lparr>int_no := 0x80\<rparr>))\<lparr>eax := 1\<rparr>) (demo_kernel\<lparr>interrupt_handlers := [0x80 \<mapsto> syscall_handler_isr]\<rparr>))"
proof -
  let ?s = "demo_kernel\<lparr>interrupt_handlers := [0x80 \<mapsto> syscall_handler_isr]\<rparr>" and ?r = "demo_regs\<lparr>int_no := 0x80\<rparr>"
  have t: "get_current ?s = Some demo_user" "task_id demo_user = 1" "pending_signals demo_user = 0"
    by (simp_all add: get_current_def demo_sel demo_user_def initialise_standard_descriptors_def zero_task_def)
  have "isr_handler (kernel_alloc 3) 0 0 demo_cpu (libc_getpid ?r) ?s = service_getpid ?s \<bind> finish_service demo_cpu (libc_getpid ?r)"
    using libc_reaches_services [of ?s ?r "kernel_alloc 3" 0 0 demo_cpu] by (simp add: Let_def)
  then show ?thesis
    using t(1,2) deliver_nothing [OF t(1,3)] by (simp add: service_getpid_def getpid_def finish_service_def)
qed

text \<open>The glue for Newlib enters the kernel with the same registers as the small library, and translates the result:
  a negative one becomes \<open>-1\<close> with the error number in \<open>errno\<close>, any other is passed on and leaves \<open>errno\<close> alone. Opening for writing
  or with creation, and waiting with options, are refused without entering the kernel.\<close>

theorem newlib_translates:
  "newlib_write trap d b n e s = translated (trap (libc_write d b n) s) e \<and>
   newlib_read trap d b n e s = translated (trap (libc_read d b n) s) e \<and>
   newlib_open h trap p fl e s =
     (if fl AND O_ACCMODE h = O_RDONLY h \<and> fl AND O_CREAT h = 0 then translated (trap (libc_open p 0) s) e else (-1, N_EROFS h, s)) \<and>
   newlib_close trap d e s = translated (trap (libc_close d) s) e \<and>
   newlib_lseek trap d v n e s = translated (trap (libc_lseek d v n) s) e \<and>
   newlib_kill trap i v e s = translated (trap (libc_kill i v) s) e \<and>
   newlib_fork trap e s = translated (trap libc_fork s) e \<and>
   newlib_execve trap p b v e s = translated (trap (libc_execve p b v) s) e \<and>
   newlib_waitpid h trap i b opts e s = (if opts = 0 then translated (trap (libc_waitpid i b) s) e else (-1, N_EINVAL h, s)) \<and>
   newlib_getpid trap s = trap libc_getpid s \<and> newlib_sigreturn trap p s = trap (libc_sigreturn p) s \<and>
   newlib_exit trap v s = trap (libc_exit v) s \<and> newlib_times trap s = trap libc_system_ticks s \<and>
   (0 < code \<and> code < 2 ^ 31 \<longrightarrow> translated (of_int (- int code), s) e = (-1, of_nat code, s)) \<and>
   (m < 2 ^ 31 \<longrightarrow> translated (of_nat m, s) e = (of_nat m, e, s))"
proof -
  have neg: "translated (of_int (- int code), s) e = (-1, of_nat code, s)" if c: "0 < code" "code < 2 ^ 31"
  proof -
    have "sint (of_int (- int code) :: u32int) = - int code" using c by (simp add: signed_take_bit_int_eq_self signed_of_int del: of_int_minus)
    then show ?thesis using c(1) newlib_result_spec(1) [of "of_int (- int code)" e] by (simp add: translated_def)
  qed
  have pos: "translated (of_nat m, s) e = (of_nat m, e, s)" if c: "m < 2 ^ 31"
  proof -
    have "sint (of_nat m :: u32int) = int m" using c by (simp add: signed_take_bit_int_eq_self signed_of_nat)
    then show ?thesis using newlib_result_spec(2) [of "of_nat m" e] by (simp add: translated_def)
  qed
  show ?thesis using neg pos by (simp add: newlib_defs libc_defs [abs_def] user_numbers os_numbers)
qed

theorem newlib_translates_witness:
  "newlib_read (\<lambda>f s. (-9, s)) 3 0xBFFFF000 10 0 () = (-1, 9, ()) \<and> newlib_read (\<lambda>f s. (4, s)) 3 0xBFFFF000 10 7 () = (4, 7, ())"
  using newlib_translates [where trap = "\<lambda>f s. (-9, s)" and d = 3 and b = "0xBFFFF000" and n = 10 and e = 0 and s = "()" and code = 9]
    newlib_translates [where trap = "\<lambda>f s. (4, s)" and d = 3 and b = "0xBFFFF000" and n = 10 and e = 7 and s = "()" and m = 4]
  by simp

text \<open>C40. A failed \<open>signal\<close> call of the small library is not recognised: for a signal number that does not exist the
  kernel returns \<open>-EINVAL\<close>, which the library hands on as if it were the previous handler, and which is not \<open>SIG_ERR\<close>. The glue for
  Newlib turns the same result into \<open>SIG_ERR\<close>.\<close>

theorem signal_error_undetected:
  fixes s :: "'a mstate_scheme"
  assumes trap: "interrupt_handlers s 0x80 = Some syscall_handler_isr" "int_no r = 0x80"
    and t: "get_current s = Some t" "pending_signals t = 0" "is_user_process t"
    and v: "sint v \<le> 0 \<or> int SIGNAL_COUNT \<le> sint v"
  shows "\<exists>r'. isr_handler al resume k c (libc_signal trampoline v handler r) s = Some (Returns r' s) \<and>
    eax r' = -22 \<and> eax r' \<noteq> SIG_ERR \<and> fst (newlib_signal (\<lambda>f s. (eax r', s)) trampoline v handler s) = SIG_ERR"
proof -
  let ?r = "libc_signal trampoline v handler r"
  have c: "current_task s \<noteq> 0" using t(1) by (auto simp: get_current_def)
  have "service_signal v handler trampoline s = Some (Done (-22) s)"
    using c t v by (auto simp: service_signal_def task_signal_set_handler_def signal_number_is_valid_def SYSCALL_ERROR_def ERRNO_EINVAL_def)
  then have "isr_handler al resume k c ?r s = Some (Done (-22) s) \<bind> finish_service c ?r"
    by (intro trap_service [OF trap(1)]) (simp_all add: libc_signal_def user_numbers service_table trap(2))
  then have "isr_handler al resume k c ?r s = Some (Returns (?r\<lparr>eax := -22\<rparr>) s)"
    using deliver_nothing [OF t(1,2)] by (simp add: finish_service_def)
  then show ?thesis by (intro exI [of _ "?r\<lparr>eax := -22\<rparr>"]) (simp add: SIG_ERR_def newlib_signal_def os_call3_def)
qed

theorem signal_error_undetected_witness:
  "\<exists>r'. isr_handler (kernel_alloc 3) 0 0 demo_cpu (libc_signal 0x400000 99 0x400100 (demo_regs\<lparr>int_no := 0x80\<rparr>))
       (demo_kernel\<lparr>interrupt_handlers := [0x80 \<mapsto> syscall_handler_isr]\<rparr>)
     = Some (Returns r' (demo_kernel\<lparr>interrupt_handlers := [0x80 \<mapsto> syscall_handler_isr]\<rparr>)) \<and> eax r' \<noteq> SIG_ERR"
proof -
  let ?s = "demo_kernel\<lparr>interrupt_handlers := [0x80 \<mapsto> syscall_handler_isr]\<rparr>" and ?r = "demo_regs\<lparr>int_no := 0x80\<rparr>"
  have t: "get_current ?s = Some demo_user" "pending_signals demo_user = 0" "is_user_process demo_user"
    by (simp_all add: get_current_def demo_sel demo_user_def initialise_standard_descriptors_def zero_task_def)
  show ?thesis
    using signal_error_undetected [of ?s ?r demo_user 99 "kernel_alloc 3" 0 0 demo_cpu "0x400000" "0x400100"] t
    by (simp add: SIGNAL_COUNT_def) blast
qed

end
