(* ===== verification/Userlib.thy ===== *)
theory Userlib
  imports Syscall
begin

text \<open>
  The helpers of the small user library (\<open>user/libc/print.c\<close>). A C string is the list of its bytes without the terminator;
  reading at an index up to the length yields the terminator at the end. Output is the list of the
  buffers passed to \<open>write(1, ...)\<close>.
\<close>

section \<open>Strings\<close>

definition byte_at :: "u8int list \<Rightarrow> nat \<Rightarrow> u8int" where
  "byte_at cs i = (if i < length cs then cs ! i else 0)"

function length_from :: "u8int list \<Rightarrow> nat \<Rightarrow> nat" where
  "length_from text i = (if byte_at text i \<noteq> 0 then length_from text (i + 1) else i)"
  by pat_completeness auto
termination by (relation "measure (\<lambda>(text, i). length text - i)") (auto simp: byte_at_def split: if_splits)

definition string_length :: "u8int list \<Rightarrow> nat" where
  "string_length text = length_from text 0"

function strcmp_from :: "u8int list \<Rightarrow> u8int list \<Rightarrow> nat \<Rightarrow> int" where
  "strcmp_from left right i =
     (if byte_at left i \<noteq> 0 \<and> byte_at right i \<noteq> 0
      then (if byte_at left i \<noteq> byte_at right i then 1 else strcmp_from left right (i + 1))
      else if byte_at left i = byte_at right i then 0 else 1)"
  by pat_completeness auto
termination by (relation "measure (\<lambda>(left, right, i). length left - i)") (auto simp: byte_at_def split: if_splits)

definition user_strcmp :: "u8int list \<Rightarrow> u8int list \<Rightarrow> int" where
  "user_strcmp left right = strcmp_from left right 0"

function strncmp_from :: "u8int list \<Rightarrow> u8int list \<Rightarrow> nat \<Rightarrow> nat \<Rightarrow> int" where
  "strncmp_from left right n i =
     (if i < n
      then (if byte_at left i \<noteq> byte_at right i then 1 else if byte_at left i = 0 then 0 else strncmp_from left right n (i + 1))
      else 0)"
  by pat_completeness auto
termination by (relation "measure (\<lambda>(left, right, n, i). n - i)") auto

definition user_strncmp :: "u8int list \<Rightarrow> u8int list \<Rightarrow> nat \<Rightarrow> int" where
  "user_strncmp left right n = strncmp_from left right n 0"

declare length_from.simps [simp del] strcmp_from.simps [simp del] strncmp_from.simps [simp del]

text \<open>The digits of a number; a value that leaves the range of \<open>int\<close> is undefined in C and \<open>None\<close> here.\<close>

primrec atoi_digits :: "u8int list \<Rightarrow> int \<Rightarrow> int option" where
  "atoi_digits [] v = Some v"
| "atoi_digits (c # cs) v =
     (if 0x30 \<le> c \<and> c \<le> 0x39
      then (let v = v * 10 + (uint c - 0x30) in if v < 2 ^ 31 then atoi_digits cs v else None)
      else Some v)"

definition atoi :: "u8int list \<Rightarrow> int option" where
  "atoi text =
     (if byte_at text 0 = 0x2D then map_option (\<lambda>v. v * (-1)) (atoi_digits (drop 1 text) 0)
      else map_option (\<lambda>v. v * 1) (atoi_digits text 0))"

section \<open>Output\<close>

definition print_text :: "u8int list \<Rightarrow> u8int list list" where
  "print_text text = [take (string_length text) text]"

text \<open>The buffer of digits, least significant first.\<close>

function unsigned_digits :: "u32int \<Rightarrow> u8int list" where
  "unsigned_digits v = (0x30 + ucast (v mod 10)) # (if v div 10 \<noteq> 0 then unsigned_digits (v div 10) else [])"
  by pat_completeness auto
termination
proof (relation "measure unat")
  fix v :: u32int assume "v div 10 \<noteq> 0"
  then have "0 < unat v" by (cases "v = 0") (simp_all add: unat_gt_0)
  then show "(v div 10, v) \<in> measure unat" by (simp add: unat_div)
qed simp

declare unsigned_digits.simps [simp del]

definition print_unsigned :: "u32int \<Rightarrow> u8int list list" where
  "print_unsigned v = map (\<lambda>d. [d]) (rev (unsigned_digits v))"

definition print_pid_line :: "u8int list \<Rightarrow> u32int \<Rightarrow> u8int list list" where
  "print_pid_line program_name pid =
     print_text program_name @ print_text (string_bytes '' is running as PID '') @ print_unsigned pid @ print_text [0x2E, 0x0A]"

section \<open>What they compute\<close>

lemma byte_at_drop: "0 \<notin> set cs \<Longrightarrow> byte_at cs i \<noteq> 0 \<longleftrightarrow> i < length cs"
  by (metis byte_at_def nth_mem)

lemma length_from_eq: "\<lbrakk>0 \<notin> set cs; i \<le> length cs\<rbrakk> \<Longrightarrow> length_from cs i = length cs"
proof (induction cs i rule: length_from.induct)
  case (1 cs i)
  then show ?case by (subst length_from.simps) (auto simp: byte_at_drop)
qed

lemma string_length_eq: "0 \<notin> set cs \<Longrightarrow> string_length cs = length cs"
  by (simp add: string_length_def length_from_eq)

lemma drop_step: "\<lbrakk>i < length xs; i < length ys\<rbrakk> \<Longrightarrow> drop i xs = drop i ys \<longleftrightarrow> xs ! i = ys ! i \<and> drop (i + 1) xs = drop (i + 1) ys"
  by (simp add: Cons_nth_drop_Suc [symmetric])

lemma strcmp_from_eq:
  "\<lbrakk>0 \<notin> set l; 0 \<notin> set r; i \<le> length l; i \<le> length r\<rbrakk> \<Longrightarrow> strcmp_from l r i = (if drop i l = drop i r then 0 else 1)"
proof (induction l r i rule: strcmp_from.induct)
  case (1 l r i)
  show ?case
  proof (cases "i < length l \<and> i < length r")
    case True
    then have b: "byte_at l i = l ! i" "byte_at r i = r ! i" by (simp_all add: byte_at_def)
    have "byte_at l i \<noteq> 0" "byte_at r i \<noteq> 0" using 1(2,3) True by (simp_all add: byte_at_drop)
    then show ?thesis using 1 True b drop_step [of i l r] by (subst strcmp_from.simps) auto
  next
    case False
    then have "byte_at l i = 0 \<or> byte_at r i = 0" using 1(2,3) byte_at_drop by blast
    moreover have "byte_at l i = byte_at r i \<longleftrightarrow> i = length l \<and> i = length r"
      using False 1(2-5) byte_at_drop [of l i] byte_at_drop [of r i] by (cases "byte_at l i = 0") auto
    moreover have "drop i l = drop i r \<longleftrightarrow> i = length l \<and> i = length r"
      using False 1(4,5) by (metis diff_is_0_eq drop_eq_Nil le_antisym length_drop not_le)
    ultimately show ?thesis by (subst strcmp_from.simps) auto
  qed
qed

lemma user_strcmp_eq: "\<lbrakk>0 \<notin> set l; 0 \<notin> set r\<rbrakk> \<Longrightarrow> user_strcmp l r = (if l = r then 0 else 1)"
  using strcmp_from_eq [of l r 0] by (simp add: user_strcmp_def)

lemma strncmp_from_eq:
  "\<lbrakk>0 \<notin> set l; 0 \<notin> set r; i \<le> length l; i \<le> length r\<rbrakk> \<Longrightarrow>
     strncmp_from l r n i = (if take (n - i) (drop i l) = take (n - i) (drop i r) then 0 else 1)"
proof (induction l r n i rule: strncmp_from.induct)
  case (1 l r n i)
  show ?case
  proof (cases "i < n \<and> i < length l \<and> i < length r")
    case True
    then have b: "byte_at l i = l ! i" "byte_at r i = r ! i" "byte_at l i \<noteq> 0" using 1(2) by (simp_all add: byte_at_drop) (simp_all add: byte_at_def)
    have "take (n - i) (drop i xs) = xs ! i # take (n - (i + 1)) (drop (i + 1) xs)" if "i < length xs" for xs :: "u8int list"
      using True that by (simp add: Cons_nth_drop_Suc [symmetric] take_Cons' )
    then show ?thesis using 1 True b by (subst strncmp_from.simps) auto
  next
    case False
    show ?thesis
    proof (cases "i < n")
      case n: True
      have e: "byte_at l i = byte_at r i \<longleftrightarrow> i = length l \<and> i = length r"
        using False n 1(2-5) byte_at_drop [of l i] byte_at_drop [of r i] by (cases "byte_at l i = 0") auto
      moreover have "take (n - i) (drop i l) = take (n - i) (drop i r) \<longleftrightarrow> i = length l \<and> i = length r"
        using False n 1(4,5) by (auto simp: take_Cons' neq_Nil_conv dest: arg_cong [where f = length])
      ultimately show ?thesis using n 1(2) byte_at_drop [of l i] by (subst strncmp_from.simps) auto
    qed (simp add: strncmp_from.simps)
  qed
qed

lemma user_strncmp_eq: "\<lbrakk>0 \<notin> set l; 0 \<notin> set r\<rbrakk> \<Longrightarrow> user_strncmp l r n = (if take n l = take n r then 0 else 1)"
  using strncmp_from_eq [of l r 0 n] by (simp add: user_strncmp_def)

lemma unsigned_digits_decimal: "rev (unsigned_digits v) = decimal (unat v)"
proof (induction v rule: unsigned_digits.induct)
  case (1 v)
  have m: "(ucast (v mod 10) :: u8int) = of_nat (unat v mod 10)"
  proof (rule word_unat_eq_iff [THEN iffD2])
    have "unat (v mod 10) = unat v mod 10" by (simp add: unat_mod)
    then show "unat (ucast (v mod 10) :: u8int) = unat (of_nat (unat v mod 10) :: u8int)"
      by (simp add: unat_of_nat unsigned_ucast_eq take_bit_eq_mod)
  qed
  have q: "v div 10 = 0 \<longleftrightarrow> unat v < 10" by (simp add: word32_eq_iff_unat unat_div div_eq_0_iff)
  show ?case
  proof (cases "unat v < 10")
    case True
    then show ?thesis using m q by (subst unsigned_digits.simps) (simp add: decimal.simps)
  next
    case False
    then have "decimal (unat v) = decimal (unat v div 10) @ [0x30 + of_nat (unat v mod 10)]" by (subst decimal.simps) simp
    then show ?thesis using 1 False m q by (subst unsigned_digits.simps) (simp add: unat_div)
  qed
qed

lemma print_unsigned_decimal: "concat (print_unsigned v) = decimal (unat v)"
proof -
  have "concat (map (\<lambda>d. [d]) ds) = ds" for ds :: "u8int list" by (induction ds) auto
  then show ?thesis by (simp add: print_unsigned_def unsigned_digits_decimal)
qed

text \<open>\<open>atoi\<close> reads back every numeral of a non-negative \<open>int\<close>.\<close>

lemma digit_value: "d < 10 \<Longrightarrow> 0x30 \<le> (0x30 + of_nat d :: u8int) \<and> (0x30 + of_nat d :: u8int) \<le> 0x39 \<and> uint (0x30 + of_nat d :: u8int) = int d + 0x30"
proof -
  assume d: "d < 10"
  have "unat (of_nat d :: u8int) = d" using d by (simp add: unat_of_nat take_bit_eq_mod)
  then have "unat (0x30 + of_nat d :: u8int) = 0x30 + d" using d by (subst unat_add_lem [THEN iffD1]) simp_all
  then show ?thesis using d by (auto simp: word_le_nat_alt uint_nat)
qed

lemma atoi_digits_decimal: "n < 2 ^ 31 \<Longrightarrow> atoi_digits (decimal n @ cs) 0 = atoi_digits cs (int n)"
proof (induction n arbitrary: cs rule: decimal.induct)
  case (1 n)
  have m: "n mod 10 < 10" by simp
  show ?case
  proof (cases "n < 10")
    case True
    then show ?thesis using digit_value [OF True] 1(2) by (subst decimal.simps) simp
  next
    case False
    then have "decimal n = decimal (n div 10) @ [0x30 + of_nat (n mod 10)]" by (subst decimal.simps) simp
    moreover have "atoi_digits (decimal (n div 10) @ (0x30 + of_nat (n mod 10)) # cs) 0 =
        atoi_digits ((0x30 + of_nat (n mod 10)) # cs) (int (n div 10))" using 1 False by simp
    moreover have "int (n div 10) * 10 + int (n mod 10) = int n" by presburger
    ultimately show ?thesis using digit_value [OF m] 1(2) by simp
  qed
qed

lemma atoi_decimal: "n < 2 ^ 31 \<Longrightarrow> atoi (decimal n) = Some (int n)"
proof -
  assume n: "n < 2 ^ 31"
  have "hd (decimal n) \<noteq> 0x2D \<and> decimal n \<noteq> []" for n
  proof (induction n rule: decimal.induct)
    case (1 n)
    show ?case
    proof (cases "n < 10")
      case True
      have "uint (0x30 + of_nat n :: u8int) \<noteq> uint (0x2D :: u8int)" using digit_value [OF True] by simp
      then have "(0x30 + of_nat n :: u8int) \<noteq> 0x2D" by metis
      then show ?thesis using True by (subst (1 2) decimal.simps) simp
    next
      case False
      then show ?thesis using 1 by (subst (1 2) decimal.simps) simp
    qed
  qed
  then have "byte_at (decimal n) 0 \<noteq> 0x2D" by (metis byte_at_def hd_conv_nth length_greater_0_conv)
  then show ?thesis using atoi_digits_decimal [OF n, of "[]"] by (simp add: atoi_def)
qed

end
