(* ===== verification/Shell.thy ===== *)
theory Shell
  imports Userlib
begin

text \<open>
  The command interpreter (\<open>user/programs/shell.c\<close>) and the first process that starts it. The shell is a ring-3 program: all it does besides computing on its
  own strings is to issue system calls. A request names the call and the bytes it passes, a
  response is the result with the bytes that the kernel stores in the caller's buffer; the kernel is the list of its
  responses. \<open>None\<close>: the program waits for a response that the list does not hold. Strings are lists of bytes
  without the terminator.
\<close>

section \<open>Requests and responses\<close>

datatype request =
    Sys_write u32int "u8int list" | Sys_read u32int u32int | Sys_open "u8int list" u32int | Sys_close u32int
  | Sys_clear | Sys_getchar | Sys_readdir u32int u32int | Sys_ticks | Sys_memory_kib | Sys_write_hex u32int | Sys_write_dec u32int
  | Sys_chdir "u8int list" | Sys_getcwd u32int | Sys_mkdir "u8int list" | Sys_getpid | Sys_sbrk u32int
  | Sys_fork | Sys_execve "u8int list" "u8int list list" | Sys_waitpid u32int | Sys_kill u32int u32int | Sys_exit u32int | Sys_write_text "u8int list"

record response =
  answer :: u32int
  filled :: "u8int list"

record shell =
  responses :: "response list"
  requests :: "request list"

definition sys_call :: "request \<Rightarrow> shell \<Rightarrow> (response \<times> shell) option" where
  "sys_call q s = (case responses s of
     [] \<Rightarrow> None
   | r # rs \<Rightarrow> Some (r, s\<lparr>responses := rs, requests := requests s @ [q]\<rparr>))"

text \<open>\<open>_exit\<close> does not return: its request is the last one of the program.\<close>

definition sys_exit :: "u32int \<Rightarrow> shell \<Rightarrow> shell option" where
  "sys_exit status s = Some (s\<lparr>requests := requests s @ [Sys_exit status]\<rparr>)"

definition exited :: "shell \<Rightarrow> bool" where
  "exited s = (case rev (requests s) of Sys_exit status # qs \<Rightarrow> True | _ \<Rightarrow> False)"

text \<open>The C string in a buffer.\<close>

definition cstr :: "u8int list \<Rightarrow> u8int list" where
  "cstr bs = takeWhile (\<lambda>b. b \<noteq> 0) bs"

abbreviation negative :: "response \<Rightarrow> bool" where "negative r \<equiv> sint (answer r) < 0"

section \<open>Output\<close>

definition SHELL_LINE_SIZE :: nat where "SHELL_LINE_SIZE = 128"
definition SHELL_FILE_BUFFER_SIZE :: u32int where "SHELL_FILE_BUFFER_SIZE = 256"

definition shell_write_bytes :: "u8int list \<Rightarrow> shell \<Rightarrow> shell option" where
  "shell_write_bytes bs s = do { (r, s) \<leftarrow> sys_call (Sys_write 1 bs) s; Some s }"

definition shell_write :: "u8int list \<Rightarrow> shell \<Rightarrow> shell option" where
  "shell_write text s = shell_write_bytes (take (string_length text) text) s"

definition shell_putchar :: "u8int \<Rightarrow> shell \<Rightarrow> shell option" where
  "shell_putchar ch s = shell_write_bytes [ch] s"

definition print_prompt :: "shell \<Rightarrow> shell option" where
  "print_prompt s = do {
     (r, s) \<leftarrow> sys_call (Sys_getcwd 128) s;
     (if negative r then shell_write (string_bytes ''?> '') s
      else do { s \<leftarrow> shell_write (cstr (filled r)) s; shell_write (string_bytes ''> '') s }) }"

definition print_line :: "u8int list \<Rightarrow> shell \<Rightarrow> shell option" where
  "print_line text s = do { s \<leftarrow> shell_write text s; shell_putchar 0x0A s }"

primrec print_lines :: "string list \<Rightarrow> shell \<Rightarrow> shell option" where
  "print_lines [] s = Some s"
| "print_lines (l # ls) s = do { s \<leftarrow> print_line (string_bytes l) s; print_lines ls s }"

definition arguments_after :: "u8int list \<Rightarrow> u8int list \<Rightarrow> u8int list" where
  "arguments_after line command =
     (let i = string_length command in if byte_at line i = 0x20 then drop (i + 1) line else [])"

section \<open>Commands\<close>

definition command_help :: "shell \<Rightarrow> shell option" where
  "command_help s = print_lines
    [''Commands:'',
     ''  help          show this command list'',
     ''  clear         clear the VGA text screen'',
     ''  echo TEXT     print TEXT'',
     ''  ls            list the current directory'',
     ''  cd PATH       change this task's working directory'',
     ''  pwd           print the current working directory'',
     ''  mkdir PATH    create a volatile directory (lost on reboot)'',
     ''  cat FILE      print an initrd file using open/read/close'',
     ''  pid           show the current task ID'',
     ''  uptime        show timer ticks and approximate seconds'',
     ''  mem           show RAM tracked by the frame allocator'',
     ''  heaptest      grow this process's user heap across two pages'',
     ''  exec PATH ... replace this shell with a static ELF32 program'',
     ''  run PATH ...  fork, execute, wait, then return to this shell'',
     ''  kill PID SIG  send a signal number to another process'',
     ''  status        summarize this shell's current limitations'',
     ''  about         identify the operating-system project''] s"

text \<open>The two bytes written to the new memory read back, so the second error message is never printed.\<close>

definition command_heaptest :: "shell \<Rightarrow> shell option" where
  "command_heaptest s = do {
     (r, s) \<leftarrow> sys_call (Sys_sbrk 5000) s;
     (if answer r = -1 then print_line (string_bytes ''heaptest: sbrk failed'') s
      else do {
        s \<leftarrow> shell_write (string_bytes ''heaptest: 5000 writable bytes at '') s;
        (_, s) \<leftarrow> sys_call (Sys_write_hex (answer r)) s;
        s \<leftarrow> shell_write (string_bytes ''; new break '') s;
        (r, s) \<leftarrow> sys_call (Sys_sbrk 0) s;
        (_, s) \<leftarrow> sys_call (Sys_write_hex (answer r)) s;
        shell_putchar 0x0A s }) }"

text \<open>\<open>split_words\<close> cuts the text in place: it returns the text with the words terminated and the
  positions of the words, or no positions when there are too many.\<close>

function skip_spaces :: "u8int list \<Rightarrow> nat \<Rightarrow> nat" where
  "skip_spaces text cursor = (if byte_at text cursor = 0x20 then skip_spaces text (cursor + 1) else cursor)"
  by pat_completeness auto
termination by (relation "measure (\<lambda>(text, i). length text - i)") (auto simp: byte_at_def split: if_splits)

function skip_word :: "u8int list \<Rightarrow> nat \<Rightarrow> nat" where
  "skip_word text cursor = (if byte_at text cursor \<noteq> 0 \<and> byte_at text cursor \<noteq> 0x20 then skip_word text (cursor + 1) else cursor)"
  by pat_completeness auto
termination by (relation "measure (\<lambda>(text, i). length text - i)") (auto simp: byte_at_def split: if_splits)

declare skip_spaces.simps [simp del] skip_word.simps [simp del]

lemma skip_le: "cursor \<le> skip_spaces text cursor" "cursor \<le> skip_word text cursor"
proof -
  show "cursor \<le> skip_spaces text cursor"
    by (induction "text" cursor rule: skip_spaces.induct) (subst skip_spaces.simps, auto)
  show "cursor \<le> skip_word text cursor"
    by (induction "text" cursor rule: skip_word.induct) (subst skip_word.simps, auto)
qed

lemma skip_word_less: "\<lbrakk>byte_at text c \<noteq> 0; byte_at text c \<noteq> 0x20\<rbrakk> \<Longrightarrow> c < skip_word text c"
  using skip_le(2) [of "c + 1" "text"] by (subst skip_word.simps) simp

lemma skip_spaces_stop: "byte_at text (skip_spaces text c) \<noteq> 0x20"
  by (induction "text" c rule: skip_spaces.induct) (subst skip_spaces.simps, auto)

function split_from :: "u8int list \<Rightarrow> nat \<Rightarrow> nat list \<Rightarrow> nat \<Rightarrow> u8int list \<times> nat list option" where
  "split_from text cursor argv maximum_arguments =
     (let start = skip_spaces text cursor
      in if byte_at text start = 0 then (text, Some argv)
         else if length argv = maximum_arguments then (text, None)
         else (let stop = skip_word text start
               in if byte_at text stop \<noteq> 0 then split_from (text[stop := 0]) (stop + 1) (argv @ [start]) maximum_arguments
                  else split_from text stop (argv @ [start]) maximum_arguments))"
  by pat_completeness auto
termination
proof (relation "measure (\<lambda>(text, cursor, argv, m). length text - cursor)")
  fix "text" :: "u8int list" and cursor and argv :: "nat list" and m start stop
  assume a: "start = skip_spaces text cursor" "byte_at text start \<noteq> 0" "stop = skip_word text start"
  have "start < length text" using a(2) by (auto simp: byte_at_def split: if_splits)
  moreover have "start < stop" unfolding a(3) by (rule skip_word_less) (use a skip_spaces_stop in auto)
  ultimately have "cursor < length text" "cursor < stop" using skip_le(1) [of cursor "text"] a(1) by linarith+
  then show "((text[stop := 0], stop + 1, argv @ [start], m), text, cursor, argv, m) \<in> measure (\<lambda>(text, cursor, argv, m). length text - cursor)"
    "((text, stop, argv @ [start], m), text, cursor, argv, m) \<in> measure (\<lambda>(text, cursor, argv, m). length text - cursor)" by auto
qed simp

declare split_from.simps [simp del]

definition split_words :: "u8int list \<Rightarrow> nat \<Rightarrow> u8int list \<times> nat list option" where
  "split_words text maximum_arguments = split_from text 0 [] maximum_arguments"

definition argument_strings :: "u8int list \<Rightarrow> nat list \<Rightarrow> u8int list list" where
  "argument_strings text argv = map (\<lambda>p. cstr (drop p text)) argv"

definition command_exec :: "u8int list \<Rightarrow> shell \<Rightarrow> shell option" where
  "command_exec arguments s =
     (case split_words arguments 8 of
        (text, None) \<Rightarrow> print_line (string_bytes ''exec: at most 8 arguments are currently supported'') s
      | (text, Some argv) \<Rightarrow>
          (if argv = [] then print_line (string_bytes ''usage: exec PATH [ARG ...]'') s
           else do {
             let args = argument_strings text argv;
             (r, s) \<leftarrow> sys_call (Sys_execve (hd args) args) s;
             (if negative r then print_line (string_bytes ''exec: file missing, invalid, or unsupported ELF32'') s else Some s) }))"

text \<open>The polling loop; the status word is what the kernel stores.\<close>

partial_function (option) wait_loop :: "u32int \<Rightarrow> u32int \<Rightarrow> shell \<Rightarrow> (u32int \<times> u32int \<times> shell) option" where
  "wait_loop child_pid status s = do {
     (r, s) \<leftarrow> sys_call (Sys_waitpid child_pid) s;
     let status = (if filled r = [] then status else bytes_word (filled r));
     (if answer r = 0 then wait_loop child_pid status s else Some (answer r, status, s)) }"

definition run_parent :: "u32int \<Rightarrow> shell \<Rightarrow> shell option" where
  "run_parent child_pid s = do {
     s \<leftarrow> shell_write (string_bytes ''run: started child PID '') s;
     (_, s) \<leftarrow> sys_call (Sys_write_dec child_pid) s;
     s \<leftarrow> shell_putchar 0x0A s;
     (waited, status, s) \<leftarrow> wait_loop child_pid 0 s;
     (if sint waited < 0 then print_line (string_bytes ''run: waitpid failed'') s
      else do {
        s \<leftarrow> shell_write (string_bytes ''run: child exited with status '') s;
        (_, s) \<leftarrow> sys_call (Sys_write_dec status) s;
        shell_putchar 0x0A s }) }"

definition command_run :: "u8int list \<Rightarrow> shell \<Rightarrow> shell option" where
  "command_run arguments s =
     (case split_words arguments 8 of
        (text, None) \<Rightarrow> print_line (string_bytes ''run: at most 8 arguments are currently supported'') s
      | (text, Some argv) \<Rightarrow>
          (if argv = [] then print_line (string_bytes ''usage: run PATH [ARG ...]'') s
           else do {
             let args = argument_strings text argv;
             (child, s) \<leftarrow> sys_call Sys_fork s;
             (if negative child then print_line (string_bytes ''run: fork failed'') s
              else if answer child = 0
              then do {
                (r, s) \<leftarrow> sys_call (Sys_execve (hd args) args) s;
                (if negative r
                 then do { s \<leftarrow> print_line (string_bytes ''run: child could not load executable'') s; sys_exit 127 s }
                 else run_parent (answer child) s) }
              else run_parent (answer child) s) }))"

definition command_kill :: "u8int list \<Rightarrow> shell \<Rightarrow> shell option" where
  "command_kill arguments s =
     (case split_words arguments 2 of
        (text, None) \<Rightarrow> print_line (string_bytes ''usage: kill PID SIGNAL'') s
      | (text, Some argv) \<Rightarrow>
          (if length argv \<noteq> 2 then print_line (string_bytes ''usage: kill PID SIGNAL'') s
           else do {
             process_id \<leftarrow> atoi (argument_strings text argv ! 0);
             signal_number \<leftarrow> atoi (argument_strings text argv ! 1);
             (failed, s) \<leftarrow> (if process_id \<le> 0 \<or> signal_number < 0 then Some (True, s)
                else do {
                  (r, s) \<leftarrow> sys_call (Sys_kill (of_int process_id) (of_int signal_number)) s;
                  Some (negative r, s) });
             (if failed then print_line (string_bytes ''kill: invalid PID/signal or process does not exist'') s
              else print_line (string_bytes (if signal_number = 0 then ''kill: process exists'' else ''kill: signal queued'')) s) }))"

partial_function (option) ls_loop :: "u32int \<Rightarrow> shell \<Rightarrow> (response \<times> shell) option" where
  "ls_loop idx s = do {
     (r, s) \<leftarrow> sys_call (Sys_readdir idx 128) s;
     (if sint (answer r) > 0
      then do { s \<leftarrow> shell_write (cstr (filled r)) s; s \<leftarrow> shell_putchar 0x0A s; ls_loop (idx + 1) s }
      else Some (r, s)) }"

definition command_ls :: "shell \<Rightarrow> shell option" where
  "command_ls s = do {
     (r, s) \<leftarrow> ls_loop 0 s;
     (if negative r then print_line (string_bytes ''ls: filesystem unavailable'') s else Some s) }"

text \<open>A positive result comes with that many bytes in the buffer.\<close>

partial_function (option) cat_loop :: "u32int \<Rightarrow> u8int \<Rightarrow> shell \<Rightarrow> (response \<times> u8int \<times> shell) option" where
  "cat_loop fd final_character s = do {
     (r, s) \<leftarrow> sys_call (Sys_read fd (SHELL_FILE_BUFFER_SIZE - 1)) s;
     (if sint (answer r) > 0
      then do {
        s \<leftarrow> shell_write_bytes (take (unat (answer r)) (filled r)) s;
        cat_loop fd (filled r ! (unat (answer r) - 1)) s }
      else Some (r, final_character, s)) }"

definition command_cat :: "u8int list \<Rightarrow> shell \<Rightarrow> shell option" where
  "command_cat nm s =
     (if nm = [] then print_line (string_bytes ''usage: cat FILE'') s
      else do {
        (r, s) \<leftarrow> sys_call (Sys_open nm 0) s;
        (if negative r then print_line (string_bytes ''cat: file not found or not a regular file'') s
         else do {
           let fd = answer r;
           (bytes, final_character, s) \<leftarrow> cat_loop fd 0 s;
           (_, s) \<leftarrow> sys_call (Sys_close fd) s;
           (if negative bytes then print_line (string_bytes ''cat: read failed'') s
            else if final_character \<noteq> 0x0A then shell_putchar 0x0A s else Some s) }) })"

definition execute_command :: "u8int list \<Rightarrow> shell \<Rightarrow> shell option" where
  "execute_command line s =
     (let same = (\<lambda>t. user_strcmp line (string_bytes t) = 0);
          begins = (\<lambda>t. user_strncmp line (string_bytes t) (length t) = 0);
          after = (\<lambda>t. arguments_after line (string_bytes t))
      in if line = [] then Some s
         else if same ''help'' then command_help s
         else if same ''clear'' then map_option snd (sys_call Sys_clear s)
         else if same ''ls'' then command_ls s
         else if same ''pwd'' then do {
           (r, s) \<leftarrow> sys_call (Sys_getcwd 128) s;
           (if negative r then print_line (string_bytes ''pwd: unavailable'') s else print_line (cstr (filled r)) s) }
         else if same ''cd'' \<or> same ''cd '' then print_line (string_bytes ''usage: cd PATH'') s
         else if begins ''cd '' then do {
           (r, s) \<leftarrow> sys_call (Sys_chdir (after ''cd'')) s;
           (if negative r then print_line (string_bytes ''cd: directory not found'') s else Some s) }
         else if same ''mkdir'' \<or> same ''mkdir '' then print_line (string_bytes ''usage: mkdir PATH'') s
         else if begins ''mkdir '' then do {
           (r, s) \<leftarrow> sys_call (Sys_mkdir (after ''mkdir'')) s;
           (if negative r then print_line (string_bytes ''mkdir: parent missing, name exists, or path is invalid'') s else Some s) }
         else if same ''pid'' then do {
           s \<leftarrow> shell_write (string_bytes ''PID: '') s;
           (r, s) \<leftarrow> sys_call Sys_getpid s;
           (_, s) \<leftarrow> sys_call (Sys_write_dec (answer r)) s;
           shell_putchar 0x0A s }
         else if same ''uptime'' then do {
           (r, s) \<leftarrow> sys_call Sys_ticks s;
           s \<leftarrow> shell_write (string_bytes ''Ticks: '') s;
           (_, s) \<leftarrow> sys_call (Sys_write_dec (answer r)) s;
           s \<leftarrow> shell_write (string_bytes '' (~'') s;
           (_, s) \<leftarrow> sys_call (Sys_write_dec (answer r div 50)) s;
           shell_write (string_bytes '' seconds)'' @ [0x0A]) s }
         else if same ''mem'' then do {
           s \<leftarrow> shell_write (string_bytes ''Tracked contiguous RAM: '') s;
           (r, s) \<leftarrow> sys_call Sys_memory_kib s;
           (_, s) \<leftarrow> sys_call (Sys_write_dec (answer r)) s;
           shell_write (string_bytes '' KiB'' @ [0x0A]) s }
         else if same ''heaptest'' then command_heaptest s
         else if same ''exec'' \<or> same ''exec '' then print_line (string_bytes ''usage: exec PATH [ARG ...]'') s
         else if begins ''exec '' then command_exec (drop 5 line) s
         else if same ''run'' \<or> same ''run '' then print_line (string_bytes ''usage: run PATH [ARG ...]'') s
         else if begins ''run '' then command_run (drop 4 line) s
         else if same ''kill'' \<or> same ''kill '' then print_line (string_bytes ''usage: kill PID SIGNAL'') s
         else if begins ''kill '' then command_kill (drop 5 line) s
         else if same ''status'' then print_lines
           [''ring 3: yes; syscalls: yes; initrd: read-only'',
            ''external executables: yes; this shell is /bin/shell ELF32'',
            ''scheduler: PID 0 kernel idle, PID 1 user mother, PID 2 shell'',
            ''user heap: page-backed sbrk; malloc not added yet'',
            ''signals: catch/ignore/default, kill, SIGCHLD, sigreturn''] s
         else if same ''about'' then print_lines [''Soumish's experimental 32-bit x86 OS''] s
         else if same ''echo'' \<or> same ''echo '' then shell_putchar 0x0A s
         else if begins ''echo '' then print_line (after ''echo'') s
         else if begins ''cat '' then command_cat (after ''cat'') s
         else do { s \<leftarrow> shell_write (string_bytes ''unknown command: '') s; print_line line s })"

section \<open>The line editor\<close>

text \<open>What one key does to the line buffer and its length, and what it echoes, for keys other than newline.
  A store outside the buffer would be \<open>None\<close>. A \<open>char\<close> is signed: bytes from \<open>0x80\<close> on are below the space.\<close>

definition edit_key :: "u8int \<Rightarrow> u8int list \<times> nat \<Rightarrow> ((u8int list \<times> nat) \<times> u8int list) option" where
  "edit_key character = (\<lambda>(line, len).
     if character = 0x08 then (if len > 0 then Some ((line, len - 1), [0x08, 0x20, 0x08]) else Some ((line, len), []))
     else if 0x20 \<le> character \<and> character < 0x80 \<and> len + 1 < SHELL_LINE_SIZE
     then (if len < length line then Some ((line[len := character], len + 1), [character]) else None)
     else Some ((line, len), []))"

primrec echo_bytes :: "u8int list \<Rightarrow> shell \<Rightarrow> shell option" where
  "echo_bytes [] s = Some s"
| "echo_bytes (c # cs) s = do { s \<leftarrow> shell_putchar c s; echo_bytes cs s }"

text \<open>One round of the loop of \<open>main\<close>.\<close>

definition shell_round :: "u8int list \<times> nat \<Rightarrow> shell \<Rightarrow> ((u8int list \<times> nat) \<times> shell) option" where
  "shell_round = (\<lambda>(line, len) s. do {
     (r, s) \<leftarrow> sys_call Sys_getchar s;
     (if negative r then Some ((line, len), s)
      else do {
        let character = (ucast (answer r) :: u8int);
        (if character = 0x0A
         then do {
           s \<leftarrow> shell_putchar 0x0A s;
           line \<leftarrow> (if len < length line then Some (line[len := 0]) else None);
           s \<leftarrow> execute_command (cstr line) s;
           s \<leftarrow> (if exited s then Some s else print_prompt s);
           Some ((line, 0), s) }
         else do {
           ((line, len), echo) \<leftarrow> edit_key character (line, len);
           s \<leftarrow> echo_bytes echo s;
           Some ((line, len), s) }) }) })"

text \<open>\<open>main\<close> never returns: its state after a number of rounds of the loop. The line starts as the caller
  finds it on its stack. \<open>split_words\<close> terminates words inside the line; those positions are written again before
  the next newline, so the rounds keep the line as typed.\<close>

primrec shell_rounds :: "nat \<Rightarrow> u8int list \<times> nat \<Rightarrow> shell \<Rightarrow> ((u8int list \<times> nat) \<times> shell) option" where
  "shell_rounds 0 b s = Some (b, s)"
| "shell_rounds (Suc n) b s = (if exited s then Some (b, s) else do { (b, s) \<leftarrow> shell_round b s; shell_rounds n b s })"

definition shell_main :: "u8int list \<Rightarrow> nat \<Rightarrow> shell \<Rightarrow> ((u8int list \<times> nat) \<times> shell) option" where
  "shell_main line rounds s = do {
     s \<leftarrow> print_line (string_bytes ''Welcome to user mode. Type 'help'.'') s;
     s \<leftarrow> print_prompt s;
     shell_rounds rounds (line, 0) s }"

section \<open>The first process\<close>

text \<open>\<open>mother_process_entry\<close> of \<open>main.c\<close> after the switch to ring 3, up to the final loop, which asks nothing of the kernel.
  In the child a successful \<open>execve\<close> does not return.\<close>

definition mother_process_entry :: "shell \<Rightarrow> shell option" where
  "mother_process_entry s = do {
     (shell_pid, s) \<leftarrow> sys_call Sys_fork s;
     (if answer shell_pid = 0
      then do {
        let shell_argv = [string_bytes ''/bin/shell''];
        (r, s) \<leftarrow> sys_call (Sys_execve (shell_argv ! 0) shell_argv) s;
        (if negative r
         then do {
           (_, s) \<leftarrow> sys_call (Sys_write_text (string_bytes ''PID 2 could not load /bin/shell from initrd.'' @ [0x0A])) s;
           sys_exit 127 s }
         else Some s) }
      else Some s) }"

end
