(* ===== verification/Shell_Properties.thy ===== *)
theory Shell_Properties
  imports Shell IO_Properties
begin

text \<open>
  What the command interpreter does: how a command is cut into words, what the line editor hands to the
  commands, and what \<open>cat\<close> asks of the kernel.
\<close>

section \<open>Words\<close>

text \<open>The words of a text: its longest pieces without a space.\<close>

function text_words :: "u8int list \<Rightarrow> u8int list list" where
  "text_words cs =
     (let ds = dropWhile (\<lambda>b. b = 0x20) cs
      in if ds = [] then [] else takeWhile (\<lambda>b. b \<noteq> 0x20) ds # text_words (dropWhile (\<lambda>b. b \<noteq> 0x20) ds))"
  by pat_completeness auto
termination
proof (relation "measure length")
  fix cs ds :: "u8int list" assume d: "ds = dropWhile (\<lambda>b. b = 0x20) cs" "ds \<noteq> []"
  then have "hd ds \<noteq> 0x20" using hd_dropWhile [of "\<lambda>b. b = 0x20" cs] by simp
  with d(2) have "length (dropWhile (\<lambda>b. b \<noteq> 0x20) ds) < length ds"
    by (cases ds) (auto intro: le_imp_less_Suc length_dropWhile_le)
  also have "\<dots> \<le> length cs" by (simp add: d(1) length_dropWhile_le)
  finally show "(dropWhile (\<lambda>b. b \<noteq> 0x20) ds, cs) \<in> measure length" by simp
qed simp

declare text_words.simps [simp del]

lemma drop_next: "i < length cs \<Longrightarrow> drop i cs = cs ! i # drop (i + 1) cs"
  by (simp add: Cons_nth_drop_Suc)

lemma skip_spaces_drop: "c \<le> length cs \<Longrightarrow> drop (skip_spaces cs c) cs = dropWhile (\<lambda>b. b = 0x20) (drop c cs) \<and> skip_spaces cs c \<le> length cs"
proof (induction cs c rule: skip_spaces.induct)
  case (1 cs c)
  show ?case
  proof (cases "c < length cs")
    case True
    then show ?thesis using 1 drop_next [OF True]
      by (subst (1 2) skip_spaces.simps) (auto simp: byte_at_def)
  next
    case False
    then show ?thesis using 1 by (subst (1 2) skip_spaces.simps) (auto simp: byte_at_def)
  qed
qed

lemma skip_word_length:
  "\<lbrakk>c \<le> length cs; 0 \<notin> set (drop c cs)\<rbrakk> \<Longrightarrow> skip_word cs c = c + length (takeWhile (\<lambda>b. b \<noteq> 0x20) (drop c cs))"
proof (induction cs c rule: skip_word.induct)
  case (1 cs c)
  show ?case
  proof (cases "c < length cs")
    case True
    then show ?thesis using 1 drop_next [OF True] by (subst skip_word.simps) (auto simp: byte_at_def)
  next
    case False
    then show ?thesis using 1 by (subst skip_word.simps) (auto simp: byte_at_def)
  qed
qed

lemma cstr_stop: "0 \<notin> set cs \<Longrightarrow> cstr (cs @ 0 # ds) = cs"
  by (induction cs) (auto simp: cstr_def)

lemma cstr_whole: "0 \<notin> set cs \<Longrightarrow> cstr cs = cs"
  by (simp add: cstr_def) (metis takeWhile_eq_all_conv)

lemma text_words_Nil: "text_words [] = []"
  by (simp add: text_words.simps)

lemma text_words_space: "text_words (0x20 # cs) = text_words cs"
  by (subst (1 2) text_words.simps) simp

text \<open>The bounds of the first word after a position.\<close>

lemma first_word:
  assumes "c \<le> length cs" "0 \<notin> set (drop c cs)" "byte_at cs (skip_spaces cs c) \<noteq> 0"
  obtains start stop w where "skip_spaces cs c = start" "skip_word cs start = stop" "c \<le> start" "stop = start + length w" "stop \<le> length cs"
    "w = take (stop - start) (drop start cs)" "w \<noteq> []" "0 \<notin> set w" "text_words (drop c cs) = w # text_words (drop stop cs)"
    "stop = length cs \<or> cs ! stop = 0x20"
proof -
  define start where "start = skip_spaces cs c"
  define ds where "ds = drop start cs"
  define w where "w = takeWhile (\<lambda>b. b \<noteq> 0x20) ds"
  have ds: "ds = dropWhile (\<lambda>b. b = 0x20) (drop c cs)" and start: "start \<le> length cs" "c \<le> start"
    using skip_spaces_drop [OF assms(1)] skip_le(1) [of c cs] by (simp_all add: start_def ds_def)
  have "set ds \<subseteq> set (drop c cs)" using set_dropWhileD ds by fastforce
  then have nz: "0 \<notin> set ds" using assms(2) by blast
  have ne: "ds \<noteq> []" using assms(3) start by (auto simp: byte_at_def ds_def start_def [symmetric] split: if_splits)
  have wd: "w = take (length w) ds" unfolding w_def by (rule takeWhile_eq_take)
  have stop: "skip_word cs start = start + length w" using skip_word_length [OF start(1)] nz by (simp add: w_def ds_def)
  have rest: "drop (start + length w) cs = dropWhile (\<lambda>b. b \<noteq> 0x20) ds"
    by (simp add: w_def ds_def dropWhile_eq_drop add.commute)
  have le: "start + length w \<le> length cs" using length_takeWhile_le [of "\<lambda>b. b \<noteq> 0x20" ds] start by (simp add: w_def ds_def)
  have fin: "start + length w = length cs \<or> cs ! (start + length w) = 0x20"
  proof (cases "start + length w < length cs")
    case True
    then have "dropWhile (\<lambda>b. b \<noteq> 0x20) ds = cs ! (start + length w) # drop (start + length w + 1) cs" using rest drop_next by metis
    then show ?thesis using hd_dropWhile [of "\<lambda>b. b \<noteq> 0x20" ds] by auto
  qed (use le in simp)
  have hd: "hd ds \<noteq> 0x20" using hd_dropWhile [of "\<lambda>b. b = 0x20" "drop c cs"] ne ds by simp
  show thesis
  proof (rule that [OF start_def [symmetric] stop start(2) refl le])
    show "w = take (start + length w - start) (drop start cs)" using wd by (simp add: ds_def)
    show "w \<noteq> []" using hd ne by (cases ds) (simp_all add: w_def)
    show "0 \<notin> set w" using nz set_takeWhileD by (fastforce simp: w_def)
    show "text_words (drop c cs) = w # text_words (drop (start + length w) cs)"
      using ne text_words.simps [of "drop c cs"] unfolding Let_def ds [symmetric] rest w_def [symmetric] by simp
    show "start + length w = length cs \<or> cs ! (start + length w) = 0x20" by (rule fin)
  qed
qed

lemma cstr_word:
  assumes "take stop cs' = take stop cs" "length cs' = length cs" "stop < length cs \<longrightarrow> cs' ! stop = 0"
    "w = take (stop - start) (drop start cs)" "stop = start + length w" "stop \<le> length cs" "0 \<notin> set w"
  shows "cstr (drop start cs') = w"
proof -
  have "take (length w) (drop start cs') = w"
    using assms(1,4,5) by (metis add_diff_cancel_left' drop_take take_drop)
  then have d: "drop start cs' = w @ drop stop cs'"
    by (metis append_take_drop_id assms(5) drop_drop add.commute)
  show ?thesis
  proof (cases "stop < length cs")
    case True
    then have "drop stop cs' = 0 # drop (stop + 1) cs'" using assms(2,3) drop_next [of stop cs'] by simp
    then show ?thesis using cstr_stop [OF assms(7)] d by simp
  qed (use d assms(2,7) cstr_whole in simp)
qed

lemma split_from_words:
  "\<lbrakk>c \<le> length cs; 0 \<notin> set (drop c cs); length argv \<le> n; split_from cs c argv n = (cs', r)\<rbrakk> \<Longrightarrow>
     length cs' = length cs \<and> take c cs' = take c cs \<and>
     (case r of None \<Rightarrow> n < length argv + length (text_words (drop c cs))
      | Some ps \<Rightarrow> length ps \<le> n \<and> (\<exists>qs. ps = argv @ qs \<and> argument_strings cs' qs = text_words (drop c cs)))"
proof (induction "length cs - c" arbitrary: cs c argv cs' r rule: less_induct)
  case less
  show ?case
  proof (cases "byte_at cs (skip_spaces cs c) = 0")
    case True
    have "0 \<notin> set (drop (skip_spaces cs c) cs)"
      using less.prems(2) skip_spaces_drop [OF less.prems(1)] set_dropWhileD [of 0 "\<lambda>b. b = 0x20" "drop c cs"] by auto
    then have "drop (skip_spaces cs c) cs = []"
      using True drop_next [of "skip_spaces cs c" cs] by (cases "skip_spaces cs c < length cs") (simp_all add: byte_at_def)
    then have "dropWhile (\<lambda>b. b = 0x20) (drop c cs) = []" using skip_spaces_drop [OF less.prems(1)] by simp
    then have "text_words (drop c cs) = []" unfolding text_words.simps [of "drop c cs"] Let_def by simp
    then show ?thesis using less.prems(3,4) True by (subst (asm) split_from.simps) (auto simp: argument_strings_def)
  next
    case False
    obtain start stop w where w: "skip_spaces cs c = start" "skip_word cs start = stop" "c \<le> start" "stop = start + length w" "stop \<le> length cs"
      "w = take (stop - start) (drop start cs)" "w \<noteq> []" "0 \<notin> set w" "text_words (drop c cs) = w # text_words (drop stop cs)"
      "stop = length cs \<or> cs ! stop = 0x20"
      by (rule first_word [OF less.prems(1,2) False])
    show ?thesis
    proof (cases "length argv = n")
      case True
      then show ?thesis using less.prems(4) False w(1,9) by (subst (asm) split_from.simps) auto
    next
      case room: False
      define cs1 where "cs1 = (if stop < length cs then cs[stop := 0] else cs)"
      define c1 where "c1 = (if stop < length cs then stop + 1 else stop)"
      have cs1: "length cs1 = length cs" "drop c1 cs1 = drop c1 cs" "take stop cs1 = take stop cs" by (auto simp: cs1_def c1_def)
      have ss: "start < stop" using w(4,7) by simp
      have c1: "c1 \<le> length cs" "stop \<le> c1" "c < c1" using ss w(3,5) by (auto simp: c1_def)
      have "text_words (drop stop cs) = text_words (drop c1 cs)"
        using w(5,10) drop_next [of stop cs] by (auto simp: c1_def text_words_space)
      then have words: "text_words (drop c cs) = w # text_words (drop c1 cs)" using w(9) by simp
      have lt: "length cs - c1 < length cs - c" using c1(1,3) by linarith
      have nz: "0 \<notin> set (drop c1 cs)" using less.prems(2) c1(3) set_drop_subset_set_drop [of c c1 cs] by auto
      have b: "byte_at cs stop \<noteq> 0 \<longleftrightarrow> stop < length cs" using w(5,10) by (auto simp: byte_at_def)
      have "split_from cs1 c1 (argv @ [start]) n = (cs', r)"
        using less.prems(4) False room b by (subst (asm) split_from.simps) (auto simp: cs1_def c1_def Let_def w(1,2))
      then have IH: "length cs' = length cs1" "take c1 cs' = take c1 cs1"
        "case r of None \<Rightarrow> n < length argv + 1 + length (text_words (drop c1 cs))
         | Some ps \<Rightarrow> length ps \<le> n \<and> (\<exists>qs. ps = (argv @ [start]) @ qs \<and> argument_strings cs' qs = text_words (drop c1 cs))"
        using less.hyps [of cs1 c1 "argv @ [start]" cs' r] cs1(1,2) c1(1) less.prems(3) room nz lt by (auto split: option.splits)
      have stop0: "cs' ! stop = 0" if "stop < length cs"
      proof -
        have "cs' ! stop = take c1 cs' ! stop" using that by (simp add: c1_def)
        also have "\<dots> = cs1 ! stop" unfolding IH(2) using that by (simp add: c1_def)
        finally show ?thesis using that by (simp add: cs1_def)
      qed
      have "take stop cs' = take stop cs" using IH(2) cs1(3) c1(2) by (metis min.absorb1 take_take)
      then have "cstr (drop start cs') = w"
        by (rule cstr_word [OF _ _ _ w(6,4,5,8)]) (use IH(1) cs1(1) stop0 in simp_all)
      moreover have "take c cs' = take c cs"
        using IH(2) cs1(3) c1 w(3,4) by (metis (no_types, opaque_lifting) le_add1 min.absorb1 order_trans take_take)
      ultimately show ?thesis using IH words cs1(1) by (auto simp: argument_strings_def split: option.splits)
    qed
  qed
qed

text \<open>C32. \<open>split_words\<close> on a command line finds exactly its words: with at most as many words as the
  argument vector holds it returns the positions of the words, each of them terminated in place; with more it reports the error.
\<close>
theorem split_words_exact:
  assumes "0 \<notin> set line"
  shows "case split_words line maximum of
      (cutline, None) \<Rightarrow> maximum < length (text_words line)
    | (cutline, Some argv) \<Rightarrow> length argv \<le> maximum \<and> argument_strings cutline argv = text_words line"
proof -
  obtain cutline r where "split_words line maximum = (cutline, r)" by (meson surj_pair)
  with split_from_words [of 0 line "[]" maximum cutline r] assms show ?thesis
    by (auto simp: split_words_def split: option.splits)
qed

theorem split_words_exact_witness:
  "case split_words (string_bytes ''  ls   -l  '') 8 of
      (cutline, None) \<Rightarrow> 8 < length (text_words (string_bytes ''  ls   -l  ''))
    | (cutline, Some argv) \<Rightarrow> length argv \<le> 8 \<and> argument_strings cutline argv = text_words (string_bytes ''  ls   -l  '')"
  by (rule split_words_exact) code_simp

section \<open>The line editor\<close>




















section \<open>Printing a file\<close>

lemma sys_call_Cons: "responses s = r # rs \<Longrightarrow> sys_call q s = Some (r, s\<lparr>responses := rs, requests := requests s @ [q]\<rparr>)"
  by (simp add: sys_call_def)

definition read_answer :: "u8int list \<Rightarrow> response" where
  "read_answer c = \<lparr>answer = of_nat (length c), filled = c\<rparr>"

lemma read_answer_len: "length c < 256 \<Longrightarrow> sint (answer (read_answer c)) = int (length c) \<and> unat (answer (read_answer c)) = length c"
proof -
  assume "length c < 256"
  then have "unat (answer (read_answer c)) = length c" by (simp add: read_answer_def unat_of_nat take_bit_eq_mod)
  then show ?thesis using sint_of_small [of "answer (read_answer c)"] \<open>length c < 256\<close> by simp
qed

lemma cat_loop_chunks:
  assumes "\<forall>(c, w)\<in>set chunks. c \<noteq> [] \<and> length c < 256" "sint (answer last_read) \<le> 0"
    "responses s = concat (map (\<lambda>(c, w). [read_answer c, w]) chunks) @ last_read # rs"
  shows "cat_loop fd final s = Some (last_read, (if chunks = [] then final else last (fst (last chunks))),
    s\<lparr>responses := rs, requests := requests s @ concat (map (\<lambda>(c, w). [Sys_read fd 255, Sys_write 1 c]) chunks) @ [Sys_read fd 255]\<rparr>)"
  using assms
proof (induction chunks arbitrary: final s)
  case Nil
  then show ?case by (subst cat_loop.simps) (simp add: sys_call_Cons SHELL_FILE_BUFFER_SIZE_def)
next
  case (Cons p chunks)
  obtain c w where p: "p = (c, w)" by (cases p)
  then have c: "c \<noteq> []" "length c < 256" using Cons.prems(1) by auto
  define s1 where "s1 = s\<lparr>responses := concat (map (\<lambda>(c, w). [read_answer c, w]) chunks) @ last_read # rs,
    requests := requests s @ [Sys_read fd 255, Sys_write 1 c]\<rparr>"
  have "cat_loop fd final s = cat_loop fd (last c) s1"
    using Cons.prems(3) read_answer_len [OF c(2)] c(1)
    by (subst cat_loop.simps)
      (simp add: p sys_call_def SHELL_FILE_BUFFER_SIZE_def shell_write_bytes_def s1_def read_answer_def last_conv_nth)
  moreover have "cat_loop fd (last c) s1 = Some (last_read, (if chunks = [] then last c else last (fst (last chunks))),
    s1\<lparr>responses := rs, requests := requests s1 @ concat (map (\<lambda>(c, w). [Sys_read fd 255, Sys_write 1 c]) chunks) @ [Sys_read fd 255]\<rparr>)"
    by (rule Cons.IH) (use Cons.prems in \<open>auto simp: s1_def\<close>)
  ultimately show ?case by (simp add: p s1_def)
qed

text \<open>Which branch a line beginning with \<open>cat\<close> and a space takes.\<close>

lemma execute_cat: "0 \<notin> set nm \<Longrightarrow> execute_command (string_bytes ''cat '' @ nm) s = command_cat nm s"
  by (simp add: execute_command_def user_strcmp_eq user_strncmp_eq string_bytes_def arguments_after_def string_length_eq byte_at_def)

text \<open>C34. The shell command \<open>cat NAME\<close>, for a file that the kernel opens and delivers in any number of non-empty
  reads that fit the buffer: the shell opens the name, writes exactly the bytes of each read to standard output before
  the next read, stops at the empty read, closes the descriptor, and adds a newline unless the contents end in one. The
  results of its writes and of the close do not matter.
\<close>
theorem cat_prints_file:
  assumes "nm \<noteq> []" "0 \<notin> set nm" "0 \<le> sint (answer opened)"
    "\<forall>(c, w)\<in>set chunks. c \<noteq> [] \<and> length c < 256" "answer eof = 0"
    "ends_line \<longleftrightarrow> chunks \<noteq> [] \<and> last (fst (last chunks)) = 0x0A"
    "responses s = opened # concat (map (\<lambda>(c, w). [read_answer c, w]) chunks) @ [eof, closed] @ (if ends_line then [] else [put]) @ rs"
  shows "execute_command (string_bytes ''cat '' @ nm) s = Some (s\<lparr>responses := rs, requests := requests s @
      [Sys_open nm 0] @ concat (map (\<lambda>(c, w). [Sys_read (answer opened) 255, Sys_write 1 c]) chunks) @
      [Sys_read (answer opened) 255, Sys_close (answer opened)] @ (if ends_line then [] else [Sys_write 1 [0x0A]])\<rparr>)"
proof -
  let ?fd = "answer opened"
  define s1 where "s1 = s\<lparr>responses := tl (responses s), requests := requests s @ [Sys_open nm 0]\<rparr>"
  define final where "final = (if chunks = [] then 0 else last (fst (last chunks)))"
  have loop: "cat_loop ?fd 0 s1 = Some (eof, final, s1\<lparr>responses := closed # (if ends_line then [] else [put]) @ rs,
      requests := requests s1 @ concat (map (\<lambda>(c, w). [Sys_read ?fd 255, Sys_write 1 c]) chunks) @ [Sys_read ?fd 255]\<rparr>)"
    unfolding final_def by (rule cat_loop_chunks [OF assms(4)]) (use assms(5,7) in \<open>simp_all add: s1_def\<close>)
  have e: "final = 0x0A \<longleftrightarrow> ends_line" using assms(6) by (auto simp: final_def)
  have o: "sys_call (Sys_open nm 0) s = Some (opened, s1)" using assms(7) by (simp add: sys_call_def s1_def)
  show ?thesis unfolding execute_cat [OF assms(2)]
    using assms(1,3,5) by (simp add: command_cat_def o loop sys_call_Cons e shell_putchar_def shell_write_bytes_def Let_def) (simp add: s1_def)
qed

theorem cat_prints_file_witness:
  "execute_command (string_bytes ''cat '' @ string_bytes ''m'')
     \<lparr>responses = \<lparr>answer = 3, filled = []\<rparr> # concat (map (\<lambda>(c, w). [read_answer c, w]) [([0x68, 0x69], \<lparr>answer = 2, filled = []\<rparr>)]) @
        [\<lparr>answer = 0, filled = []\<rparr>, \<lparr>answer = 0, filled = []\<rparr>] @ (if False then [] else [\<lparr>answer = 1, filled = []\<rparr>]) @ [],
      requests = []\<rparr> =
   Some \<lparr>responses = [], requests = [Sys_open (string_bytes ''m'') 0, Sys_read 3 255, Sys_write 1 [0x68, 0x69],
      Sys_read 3 255, Sys_close 3, Sys_write 1 [0x0A]]\<rparr>"
proof -
  let ?s = "\<lparr>responses = \<lparr>answer = 3, filled = []\<rparr> # concat (map (\<lambda>(c, w). [read_answer c, w]) [([0x68, 0x69], \<lparr>answer = 2, filled = []\<rparr>)]) @
        [\<lparr>answer = 0, filled = []\<rparr>, \<lparr>answer = 0, filled = []\<rparr>] @ (if False then [] else [\<lparr>answer = 1, filled = []\<rparr>]) @ [], requests = []\<rparr>"
  show ?thesis
    by (subst cat_prints_file [of _ "\<lparr>answer = 3, filled = []\<rparr>" "[([0x68, 0x69], \<lparr>answer = 2, filled = []\<rparr>)]" "\<lparr>answer = 0, filled = []\<rparr>"
          False ?s "\<lparr>answer = 0, filled = []\<rparr>" "\<lparr>answer = 1, filled = []\<rparr>" "[]"])
      (simp_all add: string_bytes_def)
qed

section \<open>Running a program\<close>

lemma wait_loop_polls:
  "\<lbrakk>\<forall>r\<in>set polls. answer r = 0 \<and> filled r = []; answer reaped \<noteq> 0; responses s = polls @ reaped # rs\<rbrakk> \<Longrightarrow>
     wait_loop pid status s = Some (answer reaped, (if filled reaped = [] then status else bytes_word (filled reaped)),
       s\<lparr>responses := rs, requests := requests s @ replicate (length polls + 1) (Sys_waitpid pid)\<rparr>)"
proof (induction polls arbitrary: s)
  case Nil
  then show ?case by (subst wait_loop.simps) (simp add: sys_call_def)
next
  case (Cons p polls)
  define s1 where "s1 = s\<lparr>responses := polls @ reaped # rs, requests := requests s @ [Sys_waitpid pid]\<rparr>"
  have "wait_loop pid status s = wait_loop pid status s1"
    using Cons.prems by (subst wait_loop.simps) (simp add: sys_call_def s1_def)
  moreover have "wait_loop pid status s1 = Some (answer reaped, (if filled reaped = [] then status else bytes_word (filled reaped)),
       s1\<lparr>responses := rs, requests := requests s1 @ replicate (length polls + 1) (Sys_waitpid pid)\<rparr>)"
    by (rule Cons.IH) (use Cons.prems in \<open>auto simp: s1_def\<close>)
  ultimately show ?case by (simp add: s1_def)
qed

lemma execute_run: "\<lbrakk>0 \<notin> set args; args \<noteq> []\<rbrakk> \<Longrightarrow> execute_command (string_bytes ''run '' @ args) s = command_run args s"
  by (simp add: execute_command_def user_strcmp_eq user_strncmp_eq string_bytes_def)

lemma split_words_few:
  assumes "0 \<notin> set line" "length (text_words line) \<le> n"
  obtains cutline argv where "split_words line n = (cutline, Some argv)" "argument_strings cutline argv = text_words line"
proof -
  obtain cutline r where c: "split_words line n = (cutline, r)" by (meson surj_pair)
  with split_from_words [of 0 line "[]" n cutline r] assms that [of cutline] show thesis
    by (cases r) (auto simp: split_words_def)
qed

text \<open>The shell command \<open>run\<close> with one to eight words, in the parent (the fork answers a positive number): the
  shell announces the child, polls \<open>waitpid\<close> for exactly that child until the answer is not 0, however often that is, and
  prints the status that the kernel stored.
\<close>
theorem run_waits_for_child:
  assumes "0 \<notin> set args" "text_words args \<noteq> []" "length (text_words args) \<le> 8"
    "sint (answer child) > 0" "\<forall>r\<in>set polls. answer r = 0 \<and> filled r = []" "sint (answer reaped) > 0" "filled reaped \<noteq> []"
    "responses s = [child, a, b, c] @ polls @ [reaped, d, e, f] @ rs"
  shows "execute_command (string_bytes ''run '' @ args) s = Some (s\<lparr>responses := rs, requests := requests s @
      [Sys_fork, Sys_write 1 (string_bytes ''run: started child PID ''), Sys_write_dec (answer child), Sys_write 1 [0x0A]] @
      replicate (length polls + 1) (Sys_waitpid (answer child)) @
      [Sys_write 1 (string_bytes ''run: child exited with status ''), Sys_write_dec (bytes_word (filled reaped)), Sys_write 1 [0x0A]]\<rparr>)"
proof -
  have ne: "args \<noteq> []" using assms(2) by (auto simp: text_words_Nil)
  obtain cutline argv where sp: "split_words args 8 = (cutline, Some argv)" "argument_strings cutline argv = text_words args"
    by (rule split_words_few [OF assms(1,3)])
  have argv: "argv \<noteq> []" using sp(2) assms(2) by (auto simp: argument_strings_def)
  have c0: "answer child \<noteq> 0" "answer reaped \<noteq> 0" using assms(4,6) by auto
  define s1 where "s1 = s\<lparr>responses := polls @ reaped # [d, e, f] @ rs, requests := requests s @
      [Sys_fork, Sys_write 1 (string_bytes ''run: started child PID ''), Sys_write_dec (answer child), Sys_write 1 [0x0A]]\<rparr>"
  have w: "wait_loop (answer child) 0 s1 = Some (answer reaped, bytes_word (filled reaped),
      s1\<lparr>responses := [d, e, f] @ rs, requests := requests s1 @ replicate (length polls + 1) (Sys_waitpid (answer child))\<rparr>)"
    using wait_loop_polls [OF assms(5) c0(2), of s1 "[d, e, f] @ rs"] assms(7) by (simp add: s1_def)
  have t: "take (string_length (string_bytes m)) (string_bytes m) = string_bytes m"
    if "m \<in> {''run: started child PID '', ''run: child exited with status ''}" for m
    using that by (auto simp: string_bytes_def string_length_eq)
  have "command_run args s = wait_loop (answer child) 0 s1 \<bind> (\<lambda>(waited, status, s).
      if sint waited < 0 then print_line (string_bytes ''run: waitpid failed'') s
      else do { s \<leftarrow> shell_write (string_bytes ''run: child exited with status '') s; (_, s) \<leftarrow> sys_call (Sys_write_dec status) s; shell_putchar 0x0A s })"
    using assms(4,8) c0(1) argv
    by (simp add: command_run_def run_parent_def sp(1) sys_call_Cons shell_write_def shell_write_bytes_def shell_putchar_def t s1_def Let_def)
  then show ?thesis unfolding execute_run [OF assms(1) ne] w using assms(6)
    by (simp add: sys_call_Cons shell_write_def shell_write_bytes_def shell_putchar_def t) (simp add: s1_def)
qed

theorem run_waits_for_child_witness:
  "execute_command (string_bytes ''run '' @ string_bytes ''a b'')
     \<lparr>responses = [\<lparr>answer = 5, filled = []\<rparr>, \<lparr>answer = 0, filled = []\<rparr>, \<lparr>answer = 0, filled = []\<rparr>, \<lparr>answer = 0, filled = []\<rparr>] @
        [\<lparr>answer = 0, filled = []\<rparr>] @ [\<lparr>answer = 5, filled = [7, 0, 0, 0]\<rparr>, \<lparr>answer = 0, filled = []\<rparr>, \<lparr>answer = 0, filled = []\<rparr>, \<lparr>answer = 0, filled = []\<rparr>] @ [],
      requests = []\<rparr> =
   Some \<lparr>responses = [], requests =
      [Sys_fork, Sys_write 1 (string_bytes ''run: started child PID ''), Sys_write_dec 5, Sys_write 1 [0x0A]] @
      [Sys_waitpid 5, Sys_waitpid 5] @
      [Sys_write 1 (string_bytes ''run: child exited with status ''), Sys_write_dec (bytes_word [7, 0, 0, 0]), Sys_write 1 [0x0A]]\<rparr>"
proof -
  let ?ok = "\<lparr>answer = 0, filled = []\<rparr>" and ?child = "\<lparr>answer = 5, filled = []\<rparr>" and ?reaped = "\<lparr>answer = 5, filled = [7, 0, 0, 0]\<rparr>"
  have w: "text_words (string_bytes ''a b'') = [string_bytes ''a'', string_bytes ''b'']" "0 \<notin> set (string_bytes ''a b'')" by code_simp+
  show ?thesis
    by (subst run_waits_for_child [of "string_bytes ''a b''" ?child "[?ok]" ?reaped _ ?ok ?ok ?ok ?ok ?ok ?ok "[]"])
      (simp_all add: w)
qed

text \<open>In the child of \<open>run\<close> the next request is \<open>execve\<close> of the first word with the vector of all words; when that fails
  the child says so and exits with status 127, and never takes the parent's path. The first process does the same for the shell.\<close>

lemma run_child_executes:
  assumes "0 \<notin> set args" "text_words args \<noteq> []" "length (text_words args) \<le> 8"
    "answer child = 0" "sint (answer failed) < 0" "responses s = [child, failed, a, b] @ rs"
  shows "execute_command (string_bytes ''run '' @ args) s = Some (s\<lparr>responses := rs, requests := requests s @
      [Sys_fork, Sys_execve (hd (text_words args)) (text_words args),
       Sys_write 1 (string_bytes ''run: child could not load executable''), Sys_write 1 [0x0A], Sys_exit 127]\<rparr>)"
proof -
  have ne: "args \<noteq> []" using assms(2) by (auto simp: text_words_Nil)
  obtain cutline argv where sp: "split_words args 8 = (cutline, Some argv)" "argument_strings cutline argv = text_words args"
    by (rule split_words_few [OF assms(1,3)])
  have argv: "argv \<noteq> []" using sp(2) assms(2) by (auto simp: argument_strings_def)
  have t: "take (string_length (string_bytes m)) (string_bytes m) = string_bytes m"
    if "m = ''run: child could not load executable''" for m
    using that by (simp add: string_bytes_def string_length_eq)
  show ?thesis unfolding execute_run [OF assms(1) ne] using assms(4-6) argv
    by (simp add: command_run_def sp sys_call_Cons print_line_def shell_write_def shell_write_bytes_def shell_putchar_def t Let_def sys_exit_def)
qed

lemma mother_starts_shell:
  "\<lbrakk>responses s = child # rs; answer child \<noteq> 0\<rbrakk> \<Longrightarrow>
     mother_process_entry s = Some (s\<lparr>responses := rs, requests := requests s @ [Sys_fork]\<rparr>)"
  "\<lbrakk>responses s = child # failed # a # rs; answer child = 0; sint (answer failed) < 0\<rbrakk> \<Longrightarrow>
     mother_process_entry s = Some (s\<lparr>responses := rs, requests := requests s @
       [Sys_fork, Sys_execve (string_bytes ''/bin/shell'') [string_bytes ''/bin/shell''],
        Sys_write_text (string_bytes ''PID 2 could not load /bin/shell from initrd.'' @ [0x0A]), Sys_exit 127]\<rparr>)"
  by (simp_all add: mother_process_entry_def sys_call_Cons sys_exit_def Let_def)

end
