(* ===== verification/C_Strings.thy ===== *)
theory C_Strings
  imports Kernel_Prelude
begin

text \<open>
  The memory and string routines of the kernel (\<open>src/common.c\<close>) on byte memory. A loop that looks for a terminator
  need not end; its result is then \<open>None\<close>. The lemmas give the result for terminated strings.
\<close>

section \<open>Bytes in memory\<close>

definition bytes_at :: "memory \<Rightarrow> u32int \<Rightarrow> u8int list \<Rightarrow> bool" where
  "bytes_at m a bs \<longleftrightarrow> (\<forall>i < length bs. m (a + of_nat i) = bs ! i)"

lemma bytes_at_Nil [simp]: "bytes_at m a []"
  by (simp add: bytes_at_def)

lemma bytes_at_Cons [simp]: "bytes_at m a (b # bs) \<longleftrightarrow> m a = b \<and> bytes_at m (a + 1) bs"
  unfolding bytes_at_def by (auto simp: nth_Cons less_Suc_eq_0_disj ac_simps split: nat.splits)

lemma bytes_at_append [simp]:
  "bytes_at m a (xs @ ys) \<longleftrightarrow> bytes_at m a xs \<and> bytes_at m (a + of_nat (length xs)) ys"
  by (induction xs arbitrary: a) (auto simp: ac_simps)

lemma bytes_at_map: "bytes_at m a bs \<Longrightarrow> map (\<lambda>i. m (a + of_nat i)) [0..<length bs] = bs"
  by (rule nth_equalityI) (simp_all add: bytes_at_def)

lemma bytes_at_concat:
  "\<lbrakk>bytes_at m a (concat xss); i < length xss\<rbrakk> \<Longrightarrow> bytes_at m (a + of_nat (sum_list (map length (take i xss)))) (xss ! i)"
proof (induction xss arbitrary: a i)
  case (Cons xs xss)
  show ?case
  proof (cases i)
    case (Suc j)
    then show ?thesis using Cons.IH [of "a + of_nat (length xs)" j] Cons.prems by (simp add: ac_simps)
  qed (use Cons.prems in simp)
qed simp

section \<open>The routines\<close>

primrec memcpy :: "nat \<Rightarrow> u32int \<Rightarrow> u32int \<Rightarrow> memory \<Rightarrow> memory" where
  "memcpy 0 dp sp m = m"
| "memcpy (Suc len) dp sp m = memcpy len (dp + 1) (sp + 1) (m(dp := m sp))"

primrec memset :: "nat \<Rightarrow> u32int \<Rightarrow> u8int \<Rightarrow> memory \<Rightarrow> memory" where
  "memset 0 temp v m = m"
| "memset (Suc len) temp v m = memset len (temp + 1) v (m(temp := v))"

text \<open>The loop of \<open>strcmp\<close>: the index at which it stops and whether two characters differed.\<close>

partial_function (option) strcmp_loop :: "memory \<Rightarrow> u32int \<Rightarrow> u32int \<Rightarrow> u32int \<Rightarrow> (u32int \<times> bool) option" where
  "strcmp_loop m str1 str2 i =
     (if m (str1 + i) \<noteq> 0 \<and> m (str2 + i) \<noteq> 0
      then (if m (str1 + i) \<noteq> m (str2 + i) then Some (i, True) else strcmp_loop m str1 str2 (i + 1))
      else Some (i, False))"

definition strcmp :: "memory \<Rightarrow> u32int \<Rightarrow> u32int \<Rightarrow> int option" where
  "strcmp m str1 str2 = do {
     (i, failed) \<leftarrow> strcmp_loop m str1 str2 0;
     let failed = (if (m (str1 + i) = 0 \<and> m (str2 + i) \<noteq> 0) \<or> (m (str1 + i) \<noteq> 0 \<and> m (str2 + i) = 0) then True else failed);
     Some (if failed then 1 else 0) }"

primrec strncmp :: "memory \<Rightarrow> u32int \<Rightarrow> u32int \<Rightarrow> nat \<Rightarrow> int" where
  "strncmp m str1 str2 0 = 0"
| "strncmp m str1 str2 (Suc n) =
     (if m str1 \<noteq> m str2 then 1 else if m str1 = 0 then 0 else strncmp m (str1 + 1) (str2 + 1) n)"

partial_function (option) copy_string :: "u32int \<Rightarrow> u32int \<Rightarrow> memory \<Rightarrow> memory option" where
  "copy_string dest src m =
     (let c = m src; m = m(dest := c) in if c = 0 then Some m else copy_string (dest + 1) (src + 1) m)"

definition strcpy :: "u32int \<Rightarrow> u32int \<Rightarrow> memory \<Rightarrow> memory option" where
  "strcpy dest src m = copy_string dest src m"

partial_function (option) find_end :: "memory \<Rightarrow> u32int \<Rightarrow> u32int option" where
  "find_end m dest = (if m dest \<noteq> 0 then find_end m (dest + 1) else Some dest)"

definition strcat :: "u32int \<Rightarrow> u32int \<Rightarrow> memory \<Rightarrow> memory option" where
  "strcat dest src m = do { e \<leftarrow> find_end m dest; copy_string e src m }"

partial_function (option) strlen_loop :: "memory \<Rightarrow> u32int \<Rightarrow> u32int \<Rightarrow> u32int option" where
  "strlen_loop m src i = (if m src \<noteq> 0 then strlen_loop m (src + 1) (i + 1) else Some i)"

definition strlen :: "memory \<Rightarrow> u32int \<Rightarrow> u32int option" where
  "strlen m src = strlen_loop m src 0"

section \<open>On terminated strings\<close>

definition cstring :: "memory \<Rightarrow> u32int \<Rightarrow> u8int list \<Rightarrow> bool" where
  "cstring m a cs \<longleftrightarrow> bytes_at m a (cs @ [0]) \<and> 0 \<notin> set cs"

lemma cstring_Nil [simp]: "cstring m a [] \<longleftrightarrow> m a = 0"
  by (simp add: cstring_def)

lemma cstring_Cons [simp]: "cstring m a (c # cs) \<longleftrightarrow> m a = c \<and> c \<noteq> 0 \<and> cstring m (a + 1) cs"
  by (auto simp: cstring_def)

lemma strcmp_loop_spec:
  "\<lbrakk>cstring m (a + i) cs; cstring m (b + i) ds\<rbrakk> \<Longrightarrow>
     \<exists>j failed. strcmp_loop m a b i = Some (j, failed) \<and>
       ((if (m (a + j) = 0 \<and> m (b + j) \<noteq> 0) \<or> (m (a + j) \<noteq> 0 \<and> m (b + j) = 0) then True else failed) \<longleftrightarrow> cs \<noteq> ds)"
proof (induction cs arbitrary: i ds)
  case Nil
  then show ?case by (cases ds) (auto simp: strcmp_loop.simps [of m a b i])
next
  case (Cons c cs)
  show ?case
  proof (cases ds)
    case Nil
    then show ?thesis using Cons.prems by (auto simp: strcmp_loop.simps [of m a b i])
  next
    case d: (Cons d ds')
    show ?thesis
    proof (cases "c = d")
      case True
      have "cstring m (a + (i + 1)) cs" "cstring m (b + (i + 1)) ds'" using Cons.prems d by (simp_all add: add.assoc)
      from Cons.IH [OF this] show ?thesis using Cons.prems d True by (auto simp: strcmp_loop.simps [of m a b i])
    next
      case False
      then show ?thesis using Cons.prems d by (auto simp: strcmp_loop.simps [of m a b i])
    qed
  qed
qed

lemma strcmp_spec: "\<lbrakk>cstring m a cs; cstring m b ds\<rbrakk> \<Longrightarrow> strcmp m a b = Some (if cs = ds then 0 else 1)"
  using strcmp_loop_spec [of m a 0 cs b ds] by (auto simp: strcmp_def)

lemma strncmp_spec: "\<lbrakk>cstring m a cs; cstring m b ds\<rbrakk> \<Longrightarrow> strncmp m a b n = (if take n cs = take n ds then 0 else 1)"
proof (induction n arbitrary: a b cs ds)
  case (Suc n)
  show ?case
  proof (cases cs; cases ds)
    fix c cs' d ds' assume "cs = c # cs'" "ds = d # ds'"
    then show ?thesis using Suc by (auto simp: Suc.IH)
  qed (use Suc.prems in auto)
qed simp

lemma strlen_loop_spec: "cstring m a cs \<Longrightarrow> strlen_loop m a i = Some (i + of_nat (length cs))"
  by (induction cs arbitrary: a i) (auto simp: strlen_loop.simps [of m] ac_simps)

lemma strlen_spec: "cstring m a cs \<Longrightarrow> strlen m a = Some (of_nat (length cs))"
  by (simp add: strlen_def strlen_loop_spec)

lemma find_end_spec: "cstring m a cs \<Longrightarrow> find_end m a = Some (a + of_nat (length cs))"
  by (induction cs arbitrary: a) (auto simp: find_end.simps [of m] ac_simps)

section \<open>Copies\<close>

text \<open>\<open>disjoint_ranges d s n\<close>: the \<open>n\<close> bytes from \<open>d\<close> and those from \<open>s\<close> do not overlap and do not wrap around.\<close>

definition disjoint_ranges :: "u32int \<Rightarrow> u32int \<Rightarrow> nat \<Rightarrow> bool" where
  "disjoint_ranges d s n \<longleftrightarrow> unat d + n \<le> 4294967296 \<and> unat s + n \<le> 4294967296 \<and> (unat d + n \<le> unat s \<or> unat s + n \<le> unat d)"

lemma disjoint_ranges_Suc: "disjoint_ranges d s (Suc (Suc n)) \<Longrightarrow> disjoint_ranges (d + 1) (s + 1) (Suc n) \<and> unat (d + 1) = unat d + 1 \<and> unat (s + 1) = unat s + 1"
proof -
  assume a: "disjoint_ranges d s (Suc (Suc n))"
  then have "unat d + 1 < 4294967296" "unat s + 1 < 4294967296" by (auto simp: disjoint_ranges_def)
  then have "unat (d + 1) = unat d + 1" "unat (s + 1) = unat s + 1" by (simp_all add: unat_word_ariths)
  then show ?thesis using a by (auto simp: disjoint_ranges_def)
qed

lemma memcpy_outside:
  "\<lbrakk>disjoint_ranges d s n; unat x < unat d \<or> unat d + n \<le> unat x\<rbrakk> \<Longrightarrow> memcpy n d s m x = m x"
proof (induction n arbitrary: d s m)
  case (Suc n)
  have x: "x \<noteq> d" using Suc.prems(2) by auto
  show ?case
  proof (cases n)
    case (Suc k)
    have a: "disjoint_ranges (d + 1) (s + 1) n" "unat (d + 1) = unat d + 1" using Suc.prems(1) disjoint_ranges_Suc [of d s k] Suc by simp_all
    have "memcpy n (d + 1) (s + 1) (m(d := m s)) x = (m(d := m s)) x"
      by (rule Suc.IH [OF a(1)]) (use Suc.prems(2) a(2) in auto)
    then show ?thesis using x unfolding memcpy.simps by simp
  qed (use x in simp)
qed simp

lemma memcpy_copies: "\<lbrakk>disjoint_ranges d s (length bs); bytes_at m s bs\<rbrakk> \<Longrightarrow> bytes_at (memcpy (length bs) d s m) d bs"
proof (induction bs arbitrary: d s m)
  case (Cons b bs)
  show ?case
  proof (cases bs)
    case Nil
    then show ?thesis using Cons.prems by simp
  next
    case (Cons c cs)
    have a: "disjoint_ranges (d + 1) (s + 1) (length bs)" "unat (d + 1) = unat d + 1" "unat (s + 1) = unat s + 1"
      using disjoint_ranges_Suc [of d s "length cs"] Cons.prems(1) Cons by simp_all
    let ?m = "m(d := m s)"
    have same: "?m (s + 1 + of_nat i) = m (s + 1 + of_nat i)" if "i < length bs" for i
    proof -
      have "unat s + 1 + i < 4294967296" using Cons.prems(1) that by (auto simp: disjoint_ranges_def)
      then have "unat (s + 1 + of_nat i) = unat s + 1 + i" using a(3) unat_of_nat32 [of i] by (subst unat_add_lem [THEN iffD1]) simp_all
      then have "s + 1 + of_nat i \<noteq> d" using Cons.prems(1) that by (auto simp: disjoint_ranges_def)
      then show ?thesis by simp
    qed
    then have "bytes_at ?m (s + 1) bs" using Cons.prems(2) unfolding bytes_at_Cons by (simp add: bytes_at_def)
    then have "bytes_at (memcpy (length bs) (d + 1) (s + 1) ?m) (d + 1) bs" by (rule Cons.IH [OF a(1)])
    moreover have "memcpy (length bs) (d + 1) (s + 1) ?m d = b"
      using memcpy_outside [OF a(1), of d ?m] a(2) Cons.prems(2) by simp
    ultimately show ?thesis by simp
  qed
qed simp

lemma memset_spec:
  "unat d + n \<le> 4294967296 \<Longrightarrow> memset n d v m x = (if unat d \<le> unat x \<and> unat x < unat d + n then v else m x)"
proof (induction n arbitrary: d m)
  case (Suc n)
  show ?case
  proof (cases n)
    case 0
    then show ?thesis by (auto simp: word_unat_eq_iff)
  next
    case (Suc k)
    then have d: "unat (d + 1) = unat d + 1" using Suc.prems by (simp add: unat_word_ariths)
    have "memset n (d + 1) v (m(d := v)) x = (if unat d + 1 \<le> unat x \<and> unat x < unat d + 1 + n then v else (m(d := v)) x)"
      by (subst Suc.IH) (use d Suc.prems in simp_all)
    moreover have "x = d \<longleftrightarrow> unat x = unat d" by (simp add: word_unat_eq_iff)
    ultimately show ?thesis by auto
  qed
qed auto

lemma copy_string_memcpy:
  "\<lbrakk>cstring m s cs; disjoint_ranges d s (length cs + 1)\<rbrakk> \<Longrightarrow> copy_string d s m = Some (memcpy (length cs + 1) d s m)"
proof (induction cs arbitrary: d s m)
  case Nil
  then show ?case by (simp add: copy_string.simps [of d] fun_upd_def)
next
  case (Cons c cs)
  have a: "disjoint_ranges (d + 1) (s + 1) (length cs + 1)" "unat (s + 1) = unat s + 1" using disjoint_ranges_Suc [of d s "length cs"] Cons.prems(2) by simp_all
  let ?m = "m(d := m s)"
  have "bytes_at ?m (s + 1) (cs @ [0])"
    unfolding bytes_at_def
  proof (intro allI impI)
    fix i assume i: "i < length (cs @ [0])"
    then have "unat s + 1 + i < 4294967296" using Cons.prems(2) by (auto simp: disjoint_ranges_def)
    then have "unat (s + 1 + of_nat i) = unat s + 1 + i" using a(2) unat_of_nat32 [of i] by (subst unat_add_lem [THEN iffD1]) simp_all
    then have "s + 1 + of_nat i \<noteq> d" using Cons.prems(2) i by (auto simp: disjoint_ranges_def)
    then show "?m (s + 1 + of_nat i) = (cs @ [0]) ! i" using Cons.prems(1) i unfolding cstring_Cons by (simp add: cstring_def bytes_at_def [of m "s + 1"] del: bytes_at_append)
  qed
  then have "cstring ?m (s + 1) cs" using Cons.prems(1) unfolding cstring_def by (simp only: list.set insert_iff) blast
  then have "copy_string (d + 1) (s + 1) ?m = Some (memcpy (length cs + 1) (d + 1) (s + 1) ?m)" by (rule Cons.IH [OF _ a(1)])
  moreover have "copy_string d s m = copy_string (d + 1) (s + 1) ?m" using Cons.prems(1) by (simp add: copy_string.simps [of d] Let_def)
  moreover have "memcpy (length (c # cs) + 1) d s m = memcpy (length cs + 1) (d + 1) (s + 1) ?m" by (simp del: memcpy.simps) (rule memcpy.simps)
  ultimately show ?case by simp
qed

lemma strcpy_spec:
  assumes "cstring m s cs" "disjoint_ranges d s (length cs + 1)"
  shows "\<exists>m'. strcpy d s m = Some m' \<and> cstring m' d cs \<and> (\<forall>x. unat x < unat d \<or> unat d + length cs + 1 \<le> unat x \<longrightarrow> m' x = m x)"
  using copy_string_memcpy [OF assms] memcpy_copies [of d s "cs @ [0]" m] memcpy_outside [OF assms(2)] assms
  by (auto simp: strcpy_def cstring_def)

lemma strcat_spec:
  assumes "cstring m d ds" "cstring m s cs" "unat d + length ds + length cs < 4294967296" "disjoint_ranges (d + of_nat (length ds)) s (length cs + 1)"
  shows "\<exists>m'. strcat d s m = Some m' \<and> cstring m' d (ds @ cs) \<and>
    (\<forall>x. unat x < unat d + length ds \<or> unat d + length ds + length cs + 1 \<le> unat x \<longrightarrow> m' x = m x)"
proof -
  let ?e = "d + of_nat (length ds)"
  have u: "unat ?e = unat d + length ds" using assms(3) unat_of_nat32 [of "length ds"] by (subst unat_add_lem [THEN iffD1]) simp_all
  obtain m' where m': "copy_string ?e s m = Some m'" "cstring m' ?e cs" "\<And>x. unat x < unat ?e \<or> unat ?e + length cs + 1 \<le> unat x \<Longrightarrow> m' x = m x"
    using strcpy_spec [OF assms(2,4)] by (auto simp: strcpy_def)
  have "m' (d + of_nat i) = ds ! i" if i: "i < length ds" for i
  proof -
    have "unat (d + of_nat i) = unat d + i" using assms(3) i unat_of_nat32 [of i] by (subst unat_add_lem [THEN iffD1]) simp_all
    then have "m' (d + of_nat i) = m (d + of_nat i)" using m'(3) u i by simp
    also have "\<dots> = ds ! i" using assms(1) i by (auto simp: cstring_def bytes_at_def nth_append)
    finally show ?thesis .
  qed
  then have "cstring m' d (ds @ cs)" using m'(2) assms(1,2) by (auto simp: cstring_def bytes_at_def [of m' d ds])
  then show ?thesis using m'(1,3) u find_end_spec [OF assms(1)] by (auto simp: strcat_def add.assoc)
qed

section \<open>Correctness\<close>

text \<open>C36. The string routines of the kernel return on terminated strings. \<open>strcmp\<close> gives 0 for equal
  strings and 1 for every other pair, \<open>strncmp\<close> the same for the prefixes of \<open>count\<close> bytes: both only test equality. The comment above
  \<open>strcmp\<close> announces -1 when the first string is the smaller one, a result that the code never gives. \<open>strlen\<close> is the length; into a
  range that does not overlap the source \<open>strcpy\<close> leaves a copy and \<open>strcat\<close> the concatenation, each terminated, and no byte
  outside the destination changes.\<close>

theorem kernel_strings:
  assumes "cstring m a cs" "cstring m b ds"
    "disjoint_ranges d b (length ds + 1)"
    "unat a + length cs + length ds < 4294967296" "disjoint_ranges (a + of_nat (length cs)) b (length ds + 1)"
  shows "strcmp m a b = Some (if cs = ds then 0 else 1) \<and>
    strncmp m a b n = (if take n cs = take n ds then 0 else 1) \<and>
    strlen m a = Some (of_nat (length cs)) \<and>
    (\<exists>m'. strcpy d b m = Some m' \<and> cstring m' d ds \<and> (\<forall>x. unat x < unat d \<or> unat d + length ds + 1 \<le> unat x \<longrightarrow> m' x = m x)) \<and>
    (\<exists>m'. strcat a b m = Some m' \<and> cstring m' a (cs @ ds) \<and>
       (\<forall>x. unat x < unat a + length cs \<or> unat a + length cs + length ds + 1 \<le> unat x \<longrightarrow> m' x = m x))"
  using strcmp_spec [OF assms(1,2)] strncmp_spec [OF assms(1,2)] strlen_spec [OF assms(1)]
    strcpy_spec [OF assms(2,3)] strcat_spec [OF assms(1,2,4,5)] by simp

definition demo_text :: memory where
  "demo_text = (\<lambda>x. if x = 100 then 0x61 else if x = 200 then 0x62 else 0)"

theorem kernel_strings_witness:
  "strcmp demo_text 100 200 = Some (if [0x61] = [0x62 :: u8int] then 0 else 1) \<and>
    strncmp demo_text 100 200 1 = (if take 1 [0x61] = take 1 [0x62 :: u8int] then 0 else 1) \<and>
    strlen demo_text 100 = Some (of_nat (length [0x61 :: u8int])) \<and>
    (\<exists>m'. strcpy 300 200 demo_text = Some m' \<and> cstring m' 300 [0x62] \<and>
       (\<forall>x. unat x < unat (300 :: u32int) \<or> unat (300 :: u32int) + length [0x62 :: u8int] + 1 \<le> unat x \<longrightarrow> m' x = demo_text x)) \<and>
    (\<exists>m'. strcat 100 200 demo_text = Some m' \<and> cstring m' 100 ([0x61] @ [0x62]) \<and>
       (\<forall>x. unat x < unat (100 :: u32int) + length [0x61 :: u8int] \<or> unat (100 :: u32int) + length [0x61 :: u8int] + length [0x62 :: u8int] + 1 \<le> unat x \<longrightarrow>
          m' x = demo_text x))"
  by (rule kernel_strings) (simp_all add: demo_text_def disjoint_ranges_def)

end
