(* ===== verification/Make_Initrd.thy ===== *)
theory Make_Initrd
  imports FS_Properties Syscall Signal_Frames C_Strings "HOL-Library.Sublist"
begin

text \<open>
  The host-side builder of the boot archive (\<open>src/make_initrd.c\<close>). The host's files are a function from
  names to contents, \<open>None\<close> for a file that cannot be opened; the second pass opens them again and may
  find other contents. \<open>accepts n\<close> says that the output file can be brought to \<open>n\<close> bytes (\<open>accepts 0\<close>: it can
  be created), \<open>closes\<close> that closing it succeeds. The result is the image, or \<open>None\<close> where the tool prints an error
  and returns 1. The lemmas here describe the image; that the kernel mounts it is in the last section.
\<close>

section \<open>The tool\<close>

definition MAX_INITRD_FILES :: nat where "MAX_INITRD_FILES = 64"

record initrd_header =
  im_magic :: u8int
  im_name :: "u8int list"
  im_offset :: u32int
  im_length :: u32int

text \<open>An entry of the table before it is filled.\<close>

definition zero_header :: initrd_header where
  "zero_header = \<lparr>im_magic = 0, im_name = replicate 64 0, im_offset = 0, im_length = 0\<rparr>"

text \<open>The structure as it lies in memory: the words are aligned to 4.\<close>

definition header_bytes :: "initrd_header \<Rightarrow> u8int list" where
  "header_bytes h = im_magic h # im_name h @ [0, 0, 0] @ word_bytes (im_offset h) @ word_bytes (im_length h)"

definition bad_component :: "string \<Rightarrow> bool" where
  "bad_component c \<longleftrightarrow> length c = 0 \<or> (length c = 1 \<and> c ! 0 = CHR ''.'') \<or> (length c = 2 \<and> c ! 0 = CHR ''.'' \<and> c ! 1 = CHR ''.'')"

text \<open>The loop over the characters; the first argument is the component up to the cursor.\<close>

fun scan_components :: "string \<Rightarrow> string \<Rightarrow> bool" where
  "scan_components component [] = (\<not> bad_component component)"
| "scan_components component (c # cs) =
     (if c \<noteq> CHR ''/'' then scan_components (component @ [c]) cs
      else \<not> bad_component component \<and> scan_components [] cs)"

definition valid_image_path :: "string \<Rightarrow> bool" where
  "valid_image_path path =
     (if length path = 0 \<or> path ! 0 = CHR ''/'' \<or> path ! (length path - 1) = CHR ''/'' then False
      else scan_components [] path)"

text \<open>The C string in a name field.\<close>

definition stored_name :: "initrd_header \<Rightarrow> u8int list" where
  "stored_name h = takeWhile (\<lambda>b. b \<noteq> 0) (im_name h)"

text \<open>The first pass: pairs of a host file and its name in the image.\<close>

fun first_pass ::
  "(string \<Rightarrow> u8int list option) \<Rightarrow> (string \<times> string) list \<Rightarrow> initrd_header list \<Rightarrow> u32int \<Rightarrow> initrd_header list option" where
  "first_pass host [] headers next_offset = Some headers"
| "first_pass host ((host_name, image_name) # args) headers next_offset =
     (if length image_name \<ge> 64 then None
      else if \<not> valid_image_path image_name then None
      else if list_ex (\<lambda>h. stored_name h = string_bytes image_name) headers then None
      else (case host host_name of
              None \<Rightarrow> None
            | Some contents \<Rightarrow>
                (if unat next_offset + length contents > 0xFFFFFFFF then None
                 else first_pass host args
                   (headers @ [\<lparr>im_magic = 0xBF, im_name = string_bytes image_name @ replicate (64 - length image_name) 0,
                      im_offset = next_offset, im_length = of_nat (length contents)\<rparr>])
                   (next_offset + of_nat (length contents)))))"

definition write_out :: "(nat \<Rightarrow> bool) \<Rightarrow> u8int list \<Rightarrow> u8int list \<Rightarrow> u8int list option" where
  "write_out accepts bs out = (if accepts (length out + length bs) then Some (out @ bs) else None)"

text \<open>The copy of one file in chunks of 4096 bytes.\<close>

function copy_file :: "(nat \<Rightarrow> bool) \<Rightarrow> nat \<Rightarrow> u8int list \<Rightarrow> u8int list \<Rightarrow> u8int list option" where
  "copy_file accepts remaining input out =
     (if remaining = 0 then Some out
      else (let chunk = (if remaining < 4096 then remaining else 4096)
            in if length input < chunk then None
               else do {
                 out \<leftarrow> write_out accepts (take chunk input) out;
                 copy_file accepts (remaining - chunk) (drop chunk input) out }))"
  by pat_completeness auto
termination by (relation "measure (\<lambda>(accepts, remaining, input, out). remaining)") auto

declare copy_file.simps [simp del]

text \<open>The second pass.\<close>

fun second_pass ::
  "(nat \<Rightarrow> bool) \<Rightarrow> (string \<Rightarrow> u8int list option) \<Rightarrow> (string \<times> initrd_header) list \<Rightarrow> u8int list \<Rightarrow> u8int list option" where
  "second_pass accepts host [] out = Some out"
| "second_pass accepts host ((host_name, h) # rest) out = do {
     input \<leftarrow> host host_name;
     out \<leftarrow> copy_file accepts (unat (im_length h)) input out;
     second_pass accepts host rest out }"

fun pair_up :: "string list \<Rightarrow> (string \<times> string) list" where
  "pair_up (a # b # r) = (a, b) # pair_up r"
| "pair_up _ = []"

text \<open>\<open>main\<close>; the arguments do not include the name of the program.\<close>

definition make_initrd ::
  "(string \<Rightarrow> u8int list option) \<Rightarrow> (string \<Rightarrow> u8int list option) \<Rightarrow> (nat \<Rightarrow> bool) \<Rightarrow> bool \<Rightarrow> string list \<Rightarrow> u8int list option" where
  "make_initrd host reopened accepts closes args =
     (if length args + 1 < 3 \<or> length args mod 2 \<noteq> 0 then None
      else (let file_count = length args div 2
            in if file_count > MAX_INITRD_FILES then None
               else do {
                 headers \<leftarrow> first_pass host (pair_up args) [] (4 + 64 * 76);
                 out \<leftarrow> (if accepts 0 then Some [] else None);
                 out \<leftarrow> write_out accepts (word_bytes (of_nat file_count)) out;
                 out \<leftarrow> write_out accepts (concat (map header_bytes (headers @ replicate (MAX_INITRD_FILES - length headers) zero_header))) out;
                 out \<leftarrow> second_pass accepts reopened (zip (map fst (pair_up args)) headers) out;
                 (if closes then Some out else None) }))"

section \<open>Names\<close>

lemma bad_component_iff: "bad_component c \<longleftrightarrow> c = [] \<or> c = ''.'' \<or> c = ''..''"
  by (cases c rule: remdups_adj.cases) (auto simp: bad_component_def)

lemma split_slash_append:
  "CHR ''/'' \<notin> set a \<Longrightarrow> split_slash (a @ CHR ''/'' # b) = a # split_slash b"
  "CHR ''/'' \<notin> set a \<Longrightarrow> split_slash a = [a]"
  by (induction a) auto

lemma scan_components_iff:
  "CHR ''/'' \<notin> set a \<Longrightarrow> scan_components a p \<longleftrightarrow> (\<forall>c \<in> set (split_slash (a @ p)). \<not> bad_component c)"
proof (induction p arbitrary: a)
  case (Cons c p)
  show ?case
  proof (cases "c = CHR ''/''")
    case True
    then show ?thesis using Cons.IH [of "[]"] split_slash_append(1) [OF Cons.prems] by simp
  next
    case False
    then show ?thesis using Cons.IH [of "a @ [c]"] Cons.prems by auto
  qed
qed (simp add: split_slash_append)

lemma join_split: "join_slash (split_slash p) = p"
proof (induction p)
  case (Cons c p)
  obtain d ds where s: "split_slash p = d # ds" by (cases "split_slash p") auto
  show ?case
  proof (cases "c = CHR ''/''")
    case True
    then show ?thesis using Cons.IH s by simp
  next
    case False
    have "join_slash ((c # d) # ds) = c # join_slash (d # ds)" by (cases ds) simp_all
    then show ?thesis using Cons.IH False s by simp
  qed
qed simp

lemma split_slash_lengths: "sum_list (map (\<lambda>c. length c + 1) (split_slash p)) = length p + 1"
proof (induction p)
  case (Cons c p)
  then show ?case by (cases "split_slash p") auto
qed simp

text \<open>A name that the tool accepts is a list of components that the kernel accepts.\<close>

lemma valid_image_path_names:
  assumes "valid_image_path p" "length p < 64"
  shows "join_slash (path_names p) = p" "path_names p \<noteq> []" "length (path_names p) \<le> MAX_PATH_COMPONENTS"
    "\<forall>c \<in> set (path_names p). good_name c"
proof -
  have ok: "\<forall>c \<in> set (split_slash p). \<not> bad_component c"
    using assms(1) scan_components_iff [of "[]" p] by (auto simp: valid_image_path_def split: if_splits)
  then have s: "path_names p = split_slash p" by (auto simp: path_names_def bad_component_iff filter_id_conv)
  show "join_slash (path_names p) = p" "path_names p \<noteq> []" by (simp_all add: s join_split)
  have len: "length c < 128" if "c \<in> set (split_slash p)" for c
  proof -
    have "length c + 1 \<le> sum_list (map (\<lambda>c. length c + 1) (split_slash p))"
      using that by (intro member_le_sum_list) auto
    then show ?thesis using assms(2) unfolding split_slash_lengths by simp
  qed
  show "\<forall>c \<in> set (path_names p). good_name c"
    using ok len path_names_no_slash [of _ p] by (auto simp: good_name_def s bad_component_iff)
  have "sum_list (map (\<lambda>c. 2) (split_slash p)) \<le> sum_list (map (\<lambda>c. length c + 1) (split_slash p))"
  proof (rule sum_list_mono)
    fix c assume "c \<in> set (split_slash p)"
    then have "c \<noteq> []" using ok unfolding bad_component_iff by blast
    then show "2 \<le> length c + 1" by (cases c) simp_all
  qed
  then have "2 * length (split_slash p) \<le> length p + 1" unfolding split_slash_lengths by (simp add: sum_list_triv)
  then show "length (path_names p) \<le> MAX_PATH_COMPONENTS" using assms(2) by (simp add: s MAX_PATH_COMPONENTS_def)
qed

section \<open>The image in memory\<close>

lemma load32_bytes_at: "bytes_at m a (word_bytes w) \<Longrightarrow> load32 m a = w"
  using bytes_word_bytes [of w] by (simp add: word_bytes_def load32_def bytes_word_def add.assoc)

lemma length_header_bytes: "length (im_name h) = 64 \<Longrightarrow> length (header_bytes h) = 76"
  by (simp add: header_bytes_def)

lemma read_header_bytes_at:
  assumes "bytes_at m a (header_bytes h)" "length (im_name h) = 64"
  shows "read_file_header m a = \<lparr>magic = im_magic h, hname = im_name h, offset = im_offset h, hlength = im_length h\<rparr>"
proof -
  have b: "m a = im_magic h" "bytes_at m (a + 1) (im_name h)" "bytes_at m (a + 68) (word_bytes (im_offset h))"
      "bytes_at m (a + 72) (word_bytes (im_length h))"
    using assms by (simp_all add: header_bytes_def add.assoc del: bytes_at_Cons) (simp_all add: add.assoc)
  have "map (\<lambda>i. m (a + 1 + of_nat i)) [0..<64] = im_name h" using bytes_at_map [OF b(2)] assms(2) by simp
  then show ?thesis using b(1) load32_bytes_at [OF b(3)] load32_bytes_at [OF b(4)] by (simp add: read_file_header_def)
qed

section \<open>What the passes produce\<close>

definition header_for :: "string \<Rightarrow> u32int \<Rightarrow> nat \<Rightarrow> initrd_header" where
  "header_for nm off n = \<lparr>im_magic = 0xBF, im_name = string_bytes nm @ replicate (64 - length nm) 0, im_offset = off, im_length = of_nat n\<rparr>"

fun header_table :: "u32int \<Rightarrow> (string \<times> nat) list \<Rightarrow> initrd_header list" where
  "header_table off [] = []"
| "header_table off ((nm, n) # r) = header_for nm off n # header_table (off + of_nat n) r"

lemma length_header_table [simp]: "length (header_table off xs) = length xs"
  by (induction off xs rule: header_table.induct) auto

lemma header_table_nth:
  "i < length xs \<Longrightarrow> header_table off xs ! i = header_for (fst (xs ! i)) (off + of_nat (sum_list (map snd (take i xs)))) (snd (xs ! i))"
proof (induction off xs arbitrary: i rule: header_table.induct)
  case (2 off nm n r)
  then show ?case by (cases i) (simp_all add: ac_simps)
qed simp

lemma length_string_bytes [simp]: "length (string_bytes cs) = length cs"
  by (simp add: string_bytes_def)

lemma char_byte: "char_of (unat (of_nat (of_char c) :: u8int)) = c"
proof -
  have "unat (of_nat (of_char c) :: u8int) = of_char c mod 256" by (simp add: unat_of_nat)
  then show ?thesis by simp
qed

lemma string_bytes_inj: "string_bytes a = string_bytes b \<Longrightarrow> a = b"
  unfolding string_bytes_def by (rule map_injective) (auto simp: inj_def dest!: arg_cong [where f = "\<lambda>b. char_of (unat b)"] simp: char_byte)

lemma string_bytes_zero: "CHR 0x00 \<notin> set cs \<Longrightarrow> 0 \<notin> set (string_bytes cs)"
proof
  assume c: "CHR 0x00 \<notin> set cs" "0 \<in> set (string_bytes cs)"
  then obtain x where x: "x \<in> set cs" "(of_nat (of_char x) :: u8int) = 0" by (auto simp: string_bytes_def)
  then have "x = char_of (unat (0 :: u8int))" using char_byte [of x] by simp
  moreover have "char_of (0 :: nat) = CHR 0x00" by code_simp
  ultimately show False using x(1) c(1) by simp
qed

lemma stored_name_header_for: "CHR 0x00 \<notin> set nm \<Longrightarrow> stored_name (header_for nm off n) = string_bytes nm"
  using string_bytes_zero [of nm] by (auto simp: stored_name_def header_for_def takeWhile_append takeWhile_eq_all_conv)

lemma first_pass_ok:
  assumes "first_pass host ps hs0 off = Some hs" "\<forall>p \<in> set ps. CHR 0x00 \<notin> set (snd p)"
  shows "(\<forall>p \<in> set ps. host (fst p) \<noteq> None \<and> valid_image_path (snd p) \<and> length (snd p) < 64) \<and>
    hs = hs0 @ header_table off (map (\<lambda>p. (snd p, length (the (host (fst p))))) ps) \<and>
    unat off + sum_list (map (\<lambda>p. length (the (host (fst p)))) ps) \<le> 0xFFFFFFFF \<and>
    distinct (map snd ps) \<and> (\<forall>h \<in> set hs0. \<forall>p \<in> set ps. stored_name h \<noteq> string_bytes (snd p))"
  using assms
proof (induction host ps hs0 off rule: first_pass.induct)
  case (1 host hs0 off)
  then show ?case using unat_lt_2_32 [of off] by simp
next
  case (2 host hn nm ps hs0 off)
  obtain c where c: "host hn = Some c" using 2(2) by (auto split: if_splits option.splits)
  have g: "length nm < 64" "valid_image_path nm" "\<forall>h \<in> set hs0. stored_name h \<noteq> string_bytes nm" "unat off + length c \<le> 0xFFFFFFFF"
      "first_pass host ps (hs0 @ [header_for nm off (length c)]) (off + of_nat (length c)) = Some hs"
    using 2(2) c by (auto simp: header_for_def list_ex_iff split: if_splits)
  have u: "unat (off + of_nat (length c)) = unat off + length c"
    using g(4) unat_of_nat32 [of "length c"] by (subst unat_add_lem [THEN iffD1]) simp_all
  have ih: "(\<forall>p \<in> set ps. host (fst p) \<noteq> None \<and> valid_image_path (snd p) \<and> length (snd p) < 64) \<and>
    hs = (hs0 @ [header_for nm off (length c)]) @ header_table (off + of_nat (length c)) (map (\<lambda>p. (snd p, length (the (host (fst p))))) ps) \<and>
    unat (off + of_nat (length c)) + sum_list (map (\<lambda>p. length (the (host (fst p)))) ps) \<le> 0xFFFFFFFF \<and>
    distinct (map snd ps) \<and> (\<forall>h \<in> set (hs0 @ [header_for nm off (length c)]). \<forall>p \<in> set ps. stored_name h \<noteq> string_bytes (snd p))"
    using 2(1) [OF _ _ _ c] g 2(3) by (simp add: header_for_def list_ex_iff not_less not_le)
  have "nm \<notin> set (map snd ps)"
    using ih stored_name_header_for [of nm off "length c"] 2(3) by auto
  then show ?case using ih g c u by auto
qed

lemma copy_file_ok:
  "copy_file accepts n input out = Some out' \<Longrightarrow> n \<le> length input \<and> out' = out @ take n input"
proof (induction accepts n input out rule: copy_file.induct)
  case (1 accepts n input out)
  show ?case
  proof (cases "n = 0")
    case True
    then show ?thesis using 1(2) by (simp add: copy_file.simps)
  next
    case False
    define k where "k = (if n < 4096 then n else 4096)"
    have k: "k \<le> length input" "copy_file accepts (n - k) (drop k input) (out @ take k input) = Some out'" "k \<le> n" "accepts (length out + k)"
      using 1(2) False by (subst (asm) copy_file.simps, auto simp: k_def Let_def write_out_def bind_Some_iff split: if_splits)+
    have "n - k \<le> length (drop k input) \<and> out' = (out @ take k input) @ take (n - k) (drop k input)"
      using k(1,2,4) by (intro 1(1) [OF False k_def]) (auto simp: write_out_def)
    then show ?thesis using k(1,3) take_add [of k "n - k" input] by auto
  qed
qed

lemma second_pass_ok:
  "second_pass accepts host xs out = Some out' \<Longrightarrow>
     (\<forall>x \<in> set xs. host (fst x) \<noteq> None) \<and> out' = out @ concat (map (\<lambda>x. take (unat (im_length (snd x))) (the (host (fst x)))) xs)"
proof (induction xs arbitrary: out)
  case (Cons x xs)
  obtain input out1 where i: "host (fst x) = Some input" "copy_file accepts (unat (im_length (snd x))) input out = Some out1"
      "second_pass accepts host xs out1 = Some out'"
    using Cons.prems by (cases x) (auto simp: bind_Some_iff)
  then show ?case using Cons.IH [OF i(3)] copy_file_ok [OF i(2)] by simp
qed simp

text \<open>The image: the number of files, the table of headers, the contents one after the other.\<close>

lemma pair_up_length: "length args mod 2 = 0 \<Longrightarrow> length (pair_up args) = length args div 2"
  by (induction args rule: pair_up.induct) auto

lemma pair_up_set: "p \<in> set (pair_up args) \<Longrightarrow> fst p \<in> set args \<and> snd p \<in> set args"
  by (induction args rule: pair_up.induct) auto

lemma make_initrd_image:
  assumes mk: "make_initrd host host accepts closes args = Some img" and nul: "\<forall>a \<in> set args. CHR 0x00 \<notin> set a"
  defines "ps \<equiv> pair_up args"
  defines "cs \<equiv> map (\<lambda>p. the (host (fst p))) ps"
  defines "hs \<equiv> header_table 4868 (map (\<lambda>p. (snd p, length (the (host (fst p))))) ps)"
  shows "0 < length ps" "length ps \<le> 64" "distinct (map snd ps)" "4868 + length (concat cs) \<le> 0xFFFFFFFF"
    "\<And>p. p \<in> set ps \<Longrightarrow> host (fst p) \<noteq> None \<and> valid_image_path (snd p) \<and> length (snd p) < 64"
    "img = word_bytes (of_nat (length ps)) @ concat (map header_bytes (hs @ replicate (64 - length ps) zero_header)) @ concat cs"
proof -
  have ev: "length args mod 2 = 0" "2 \<le> length args" "length args div 2 \<le> 64"
    using mk by (auto simp: make_initrd_def MAX_INITRD_FILES_def Let_def split: if_splits)
  then have n: "length ps = length args div 2" unfolding ps_def by (intro pair_up_length)
  show "0 < length ps" "length ps \<le> 64" using n ev by linarith+
  obtain t where t: "first_pass host ps [] (4 + 64 * 76) = Some t"
      "second_pass accepts host (zip (map fst ps) t)
         (word_bytes (of_nat (length ps)) @ concat (map header_bytes (t @ replicate (64 - length t) zero_header))) = Some img"
    using mk n unfolding ps_def
    by (auto simp: make_initrd_def MAX_INITRD_FILES_def Let_def write_out_def bind_Some_iff split: if_splits)
  have "\<forall>p \<in> set ps. CHR 0x00 \<notin> set (snd p)" using nul pair_up_set unfolding ps_def by blast
  from first_pass_ok [OF t(1) this]
  have f: "\<forall>p \<in> set ps. host (fst p) \<noteq> None \<and> valid_image_path (snd p) \<and> length (snd p) < 64" "t = hs"
      "4868 + sum_list (map length cs) \<le> 0xFFFFFFFF" "distinct (map snd ps)"
    by (simp_all add: hs_def cs_def comp_def)
  show "distinct (map snd ps)" "4868 + length (concat cs) \<le> 0xFFFFFFFF"
    "\<And>p. p \<in> set ps \<Longrightarrow> host (fst p) \<noteq> None \<and> valid_image_path (snd p) \<and> length (snd p) < 64"
    using f by (auto simp: length_concat)
  have l: "length t = length ps" by (simp add: f(2) hs_def)
  have "map (\<lambda>x. take (unat (im_length (snd x))) (the (host (fst x)))) (zip (map fst ps) t) = cs"
  proof (rule nth_equalityI)
    fix i assume "i < length (map (\<lambda>x. take (unat (im_length (snd x))) (the (host (fst x)))) (zip (map fst ps) t))"
    then have i: "i < length ps" using l by simp
    have "cs ! i \<in> set cs" using i by (simp add: cs_def)
    then have "length (cs ! i) \<le> sum_list (map length cs)" by (intro member_le_sum_list) auto
    then have "unat (of_nat (length (cs ! i)) :: u32int) = length (cs ! i)" using f(3) by (intro unat_of_nat32) linarith
    then show "map (\<lambda>x. take (unat (im_length (snd x))) (the (host (fst x)))) (zip (map fst ps) t) ! i = cs ! i"
      using i l by (simp add: f(2) hs_def header_table_nth header_for_def cs_def)
  qed (simp add: l cs_def)
  then show "img = word_bytes (of_nat (length ps)) @ concat (map header_bytes (hs @ replicate (64 - length ps) zero_header)) @ concat cs"
    using second_pass_ok [OF t(2)] l f(2) by simp
qed

section \<open>The name space\<close>

lemma path_freeI:
  "\<lbrakk>cs \<noteq> []; \<And>k. \<lbrakk>0 < k; k < length cs\<rbrakk> \<Longrightarrow> v (ds @ take k cs) \<in> {None, Some Dir}; v (ds @ cs) = None\<rbrakk> \<Longrightarrow> path_free v ds cs"
proof (induction v ds cs rule: path_free.induct)
  case (3 v ds c d cs)
  have v: "v (ds @ [c]) \<in> {None, Some Dir}" using 3(3) [of 1] by simp
  have "path_free (v(ds @ [c] \<mapsto> Dir)) (ds @ [c]) (d # cs)"
  proof (rule 3(1))
    fix k assume "0 < k" "k < length (d # cs)"
    then show "(v(ds @ [c] \<mapsto> Dir)) ((ds @ [c]) @ take k (d # cs)) \<in> {None, Some Dir}" using 3(3) [of "Suc k"] by auto
  qed (use 3(4) in auto)
  then show ?case using v by simp
qed auto

lemma add_path_eq:
  "cs \<noteq> [] \<Longrightarrow> add_path v ds cs i p =
     (if p = ds @ cs then Some (File i) else if \<exists>k. 0 < k \<and> k < length cs \<and> p = ds @ take k cs then Some Dir else v p)"
proof (induction v ds cs i rule: add_path.induct)
  case (3 v ds c d cs i)
  have e: "(\<exists>k. 0 < k \<and> k < length (c # d # cs) \<and> p = ds @ take k (c # d # cs)) \<longleftrightarrow>
      p = ds @ [c] \<or> (\<exists>k. 0 < k \<and> k < length (d # cs) \<and> p = (ds @ [c]) @ take k (d # cs))" (is "?l \<longleftrightarrow> ?r")
  proof
    assume ?l
    then obtain k where "0 < k" "k < length (c # d # cs)" "p = ds @ take k (c # d # cs)" by blast
    then show ?r by (cases k; cases "k - 1") auto
  next
    assume ?r
    then show ?l
    proof
      assume "p = ds @ [c]"
      then show ?l by (intro exI [of _ 1]) simp
    next
      assume "\<exists>k. 0 < k \<and> k < length (d # cs) \<and> p = (ds @ [c]) @ take k (d # cs)"
      then obtain k where "0 < k" "k < length (d # cs)" "p = (ds @ [c]) @ take k (d # cs)" by blast
      then show ?l by (intro exI [of _ "Suc k"]) simp
    qed
  qed
  have "add_path (v(ds @ [c] \<mapsto> Dir)) (ds @ [c]) (d # cs) i p =
     (if p = (ds @ [c]) @ d # cs then Some (File i)
      else if \<exists>k. 0 < k \<and> k < length (d # cs) \<and> p = (ds @ [c]) @ take k (d # cs) then Some Dir else (v(ds @ [c] \<mapsto> Dir)) p)"
    by (rule 3(1)) simp
  then show ?case unfolding e by auto
qed auto

text \<open>Paths of which none continues another can be added one after the other.\<close>

lemma all_freeI:
  assumes "sorted_wrt (\<lambda>a b. \<not> prefix a b \<and> \<not> prefix b a) css" "\<forall>cs \<in> set css. cs \<noteq> [] \<and> v cs = None"
    "\<forall>cs \<in> set css. \<forall>k. 0 < k \<and> k < length cs \<longrightarrow> v (take k cs) \<in> {None, Some Dir}"
  shows "all_free v css i"
  using assms
proof (induction css arbitrary: v i)
  case (Cons cs css v i)
  have cs: "cs \<noteq> []" "v cs = None" using Cons.prems(2) by simp_all
  have "path_free v [] cs" using Cons.prems(3) cs by (intro path_freeI) auto
  moreover have "all_free (add_path v [] cs i) css (Suc i)"
  proof (rule Cons.IH)
    show "\<forall>ds \<in> set css. ds \<noteq> [] \<and> add_path v [] cs i ds = None"
    proof
      fix ds assume d: "ds \<in> set css"
      have "\<not> prefix ds cs" using Cons.prems(1) d by simp
      then have "ds \<noteq> cs" "ds \<noteq> take k cs" for k by (auto simp: take_is_prefix)
      then show "ds \<noteq> [] \<and> add_path v [] cs i ds = None" using Cons.prems(2) d cs(1) by (simp add: add_path_eq)
    qed
    show "\<forall>ds \<in> set css. \<forall>k. 0 < k \<and> k < length ds \<longrightarrow> add_path v [] cs i (take k ds) \<in> {None, Some Dir}"
    proof (intro ballI allI impI)
      fix ds k assume d: "ds \<in> set css" "0 < k \<and> k < length ds"
      have "\<not> prefix cs ds" using Cons.prems(1) d(1) by simp
      then have "take k ds \<noteq> cs" using take_is_prefix [of k ds] by auto
      then show "add_path v [] cs i (take k ds) \<in> {None, Some Dir}"
        using Cons.prems(3) d cs(1) by (auto simp: add_path_eq)
    qed
  qed (use Cons.prems(1) in simp)
  ultimately show ?case by simp
qed simp

section \<open>Mounting the image\<close>

lemma im_name_table: "h \<in> set (header_table off (map (\<lambda>p. (snd p, f p)) ps)) \<Longrightarrow> \<forall>p \<in> set ps. length (snd p) < 64 \<Longrightarrow> length (im_name h) = 64"
  by (induction ps arbitrary: off) (auto simp: header_for_def)

lemma sum_lengths: "\<forall>x \<in> set xs. length x = w \<Longrightarrow> sum_list (map length xs) = w * length xs"
  by (induction xs) auto

lemma concat_piece: "i < length xss \<Longrightarrow> sum_list (map length (take i xss)) + length (xss ! i) \<le> length (concat xss)"
proof (induction xss arbitrary: i)
  case (Cons xs xss)
  then show ?case by (cases i) (auto simp: ac_simps)
qed simp

text \<open>What the kernel reads from the image: the count, the headers and the contents.\<close>

lemma image_read:
  assumes mk: "make_initrd host host accepts closes args = Some img" and nul: "\<forall>a \<in> set args. CHR 0x00 \<notin> set a"
    and m: "bytes_at m location img" and j: "j < length (pair_up args)"
  defines "p \<equiv> pair_up args ! j"
  defines "c \<equiv> the (host (fst p))"
  defines "h \<equiv> read_file_header m (location + 4 + of_nat j * 76)"
  shows "load32 m location = of_nat (length (pair_up args))"
    "magic h = 0xBF" "header_path h = snd p" "unat (offset h) + length c \<le> length img" "hlength h = of_nat (length c)"
    "length c < 4294967296" "bytes_at m (location + offset h) c"
proof -
  let ?ps = "pair_up args"
  let ?cs = "map (\<lambda>p. the (host (fst p))) ?ps"
  let ?xs = "map (\<lambda>p. (snd p, length (the (host (fst p))))) ?ps"
  let ?hs = "header_table 4868 ?xs"
  define tab where "tab = ?hs @ replicate (64 - length ?ps) zero_header"
  let ?off = "sum_list (map length (take j ?cs))"
  note im = make_initrd_image [OF mk nul, folded tab_def]
  have n64: "\<forall>x \<in> set tab. length (im_name x) = 64"
    using im_name_table [of _ 4868 "\<lambda>p. length (the (host (fst p)))" ?ps] im(5) by (auto simp: zero_header_def tab_def)
  then have w: "\<forall>x \<in> set (map header_bytes tab). length x = 76" by (auto simp: length_header_bytes)
  have len: "length tab = 64" using im(2) by (simp add: tab_def)
  have sums: "sum_list (map length (take k (map header_bytes tab))) = 76 * k" if "k \<le> 64" for k
  proof -
    have "\<forall>x \<in> set (take k (map header_bytes tab)). length x = 76" by (rule ballI) (rule w [rule_format, OF in_set_takeD])
    from sum_lengths [OF this] show ?thesis using that len by (simp only: length_take length_map min_absorb2)
  qed
  have lh: "length (concat (map header_bytes tab)) = 4864" using sums [of 64] len by (simp add: length_concat)
  have b: "bytes_at m location (word_bytes (of_nat (length ?ps)))" "bytes_at m (location + 4) (concat (map header_bytes tab))"
      "bytes_at m (location + 4868) (concat ?cs)"
    using m im(6) lh by (simp_all add: add.assoc)
  show "load32 m location = of_nat (length ?ps)" by (rule load32_bytes_at [OF b(1)])
  have j64: "j < 64" using j im(2) by linarith
  have hj: "tab ! j = header_for (snd p) (4868 + of_nat ?off) (length c)"
    using j by (simp add: tab_def nth_append header_table_nth p_def c_def take_map comp_def)
  have "bytes_at m (location + 4 + of_nat (76 * j)) (map header_bytes tab ! j)"
    using bytes_at_concat [OF b(2), of j] sums [of j] j64 len by simp
  then have "bytes_at m (location + 4 + of_nat j * 76) (header_bytes (tab ! j))" using j64 len by (simp add: mult.commute)
  from read_header_bytes_at [OF this] have h: "h = \<lparr>magic = 0xBF, hname = im_name (tab ! j), offset = 4868 + of_nat ?off, hlength = of_nat (length c)\<rparr>"
    unfolding h_def using n64 [rule_format, OF nth_mem, of j] j64 len by (simp add: hj header_for_def)
  show "magic h = 0xBF" "hlength h = of_nat (length c)" by (simp_all add: h)
  have "CHR 0x00 \<notin> set (snd p)" using nul pair_up_set [of p args] j by (auto simp: p_def)
  from stored_name_header_for [OF this] show "header_path h = snd p"
    by (simp add: h hj header_path_def stored_name_def) (simp add: string_bytes_def comp_def char_byte)
  have cj: "?cs ! j = c" "j < length ?cs" using j by (simp_all add: c_def p_def)
  have tot: "?off + length c \<le> length (concat ?cs)"
    using concat_piece [OF cj(2)] cj(1) by simp
  then have le: "?off + length c + 4868 \<le> 0xFFFFFFFF" using im(4) by linarith
  then have uo: "unat (4868 + of_nat ?off :: u32int) = 4868 + ?off"
    using unat_of_nat32 [of "4868 + ?off"] by simp
  have "length img = 4868 + length (concat ?cs)" using im(6) lh by simp
  then show "unat (offset h) + length c \<le> length img" "length c < 4294967296" using uo tot le by (simp_all add: h)
  show "bytes_at m (location + offset h) c"
    using bytes_at_concat [OF b(3) cj(2)] cj(1) by (simp add: h add.assoc)
qed

lemma image_length:
  assumes mk: "make_initrd host host accepts closes args = Some img" and nul: "\<forall>a \<in> set args. CHR 0x00 \<notin> set a"
  shows "length img = 4868 + sum_list (map (\<lambda>p. length (the (host (fst p)))) (pair_up args))"
proof -
  note im = make_initrd_image [OF mk nul]
  let ?hs = "header_table 4868 (map (\<lambda>p. (snd p, length (the (host (fst p))))) (pair_up args))"
  have "\<forall>x \<in> set ?hs. length (im_name x) = 64"
    using im_name_table [of _ 4868 "\<lambda>p. length (the (host (fst p)))" "pair_up args"] im(5) by blast
  then have "sum_list (map length (map header_bytes ?hs)) = 76 * length (map header_bytes ?hs)"
    by (intro sum_lengths) (auto simp: length_header_bytes)
  moreover have "length (header_bytes zero_header) = 76" by (simp add: length_header_bytes zero_header_def)
  ultimately show ?thesis using im(2) unfolding im(6)
    by (simp add: length_concat sum_list_replicate comp_def)
qed

lemma file_bytes_image:
  assumes mk: "make_initrd host host accepts closes args = Some img" and nul: "\<forall>a \<in> set args. CHR 0x00 \<notin> set a"
    and m: "bytes_at m location img" and j: "j < length (pair_up args)"
    and same: "same_on m (mem s') 0 (unat location + length img)" and loc: "initrd_location s' = location"
  shows "file_bytes s' (read_file_header m (location + 4 + of_nat j * 76)) = the (host (fst (pair_up args ! j)))"
proof -
  let ?c = "the (host (fst (pair_up args ! j)))" and ?h = "read_file_header m (location + 4 + of_nat j * 76)"
  note r = image_read [OF mk nul m j]
  have "mem s' (location + offset ?h + of_nat i) = ?c ! i" if i: "i < length ?c" for i
  proof -
    have e: "location + offset ?h + of_nat i = of_nat (unat location + unat (offset ?h) + i)" by simp
    have "mem s' (of_nat (unat location + unat (offset ?h) + i)) = m (of_nat (unat location + unat (offset ?h) + i))"
      by (rule same [unfolded same_on_def, rule_format]) (use r(4) i in linarith)
    then show ?thesis using r(7) i unfolding e [symmetric] bytes_at_def by simp
  qed
  moreover have "unat (hlength ?h) = length ?c" using r(5,6) unat_of_nat32 by simp
  ultimately show ?thesis unfolding file_bytes_def loc by (intro nth_equalityI) simp_all
qed

text \<open>The names that the tool accepts, as the kernel takes them apart.\<close>

lemma image_names:
  assumes mk: "make_initrd host host accepts closes args = Some img" and nul: "\<forall>a \<in> set args. CHR 0x00 \<notin> set a"
    and p: "p \<in> set (pair_up args)"
  shows "join_slash (path_names (snd p)) = snd p" "path_names (snd p) \<noteq> []" "length (path_names (snd p)) \<le> MAX_PATH_COMPONENTS"
    "\<forall>c \<in> set (path_names (snd p)). good_name c" "length (snd p) < 64" "host (fst p) \<noteq> None"
  using make_initrd_image(5) [OF mk nul p] valid_image_path_names [of "snd p"] by blast+

lemma image_headers_ok:
  assumes mk: "make_initrd host host accepts closes args = Some img" and nul: "\<forall>a \<in> set args. CHR 0x00 \<notin> set a"
    and m: "bytes_at m location img" and j: "j < length (pair_up args)" and len: "length img < 4294967296"
  shows "header_ok (of_nat (length img)) (read_file_header m (location + 4 + of_nat j * 76)) (path_names (snd (pair_up args ! j)))"
proof -
  let ?h = "read_file_header m (location + 4 + of_nat j * 76)"
  note r = image_read(2-6) [OF mk nul m j] and nm = image_names [OF mk nul nth_mem [OF j]]
  have u: "unat (of_nat (length img) :: u32int) = length img" by (rule unat_of_nat32 [OF len])
  have "unat (hlength ?h) = length (the (host (fst (pair_up args ! j))))" using r(4,5) unat_of_nat32 by simp
  then have "unat (offset ?h) + unat (hlength ?h) \<le> length img" using r(3) by simp
  then have "offset ?h \<le> of_nat (length img)" "hlength ?h \<le> of_nat (length img) - offset ?h"
    using u unat_sub32 [of "offset ?h" "of_nat (length img)"] by (simp_all add: word_le_nat_alt)
  then show ?thesis unfolding header_ok_def using r(1,2) nm by simp
qed

lemma image_names_free:
  assumes mk: "make_initrd host host accepts closes args = Some img" and nul: "\<forall>a \<in> set args. CHR 0x00 \<notin> set a"
    and apart: "\<forall>p \<in> set (pair_up args). \<forall>q \<in> set (pair_up args). \<not> strict_prefix (path_names (snd p)) (path_names (snd q))"
      "\<forall>p \<in> set (pair_up args). snd p \<noteq> ''dev''"
  shows "all_free [[] \<mapsto> Dir, [''dev''] \<mapsto> Dir] (map (\<lambda>p. path_names (snd p)) (pair_up args)) 0"
proof (rule all_freeI)
  let ?ps = "pair_up args"
  let ?css = "map (\<lambda>p. path_names (snd p)) ?ps"
  note nm = image_names [OF mk nul]
  show "sorted_wrt (\<lambda>a b. \<not> prefix a b \<and> \<not> prefix b a) ?css"
    unfolding sorted_wrt_iff_nth_less
  proof (intro allI impI)
    fix i j assume ij: "i < j" "j < length ?css"
    then have m: "?ps ! i \<in> set ?ps" "?ps ! j \<in> set ?ps" by simp_all
    have "snd (?ps ! i) \<noteq> snd (?ps ! j)" using nth_eq_iff_index_eq [OF make_initrd_image(3) [OF mk nul], of i j] ij by simp
    then have "path_names (snd (?ps ! i)) \<noteq> path_names (snd (?ps ! j))" using nm(1) [OF m(1)] nm(1) [OF m(2)] by auto
    then show "\<not> prefix (?css ! i) (?css ! j) \<and> \<not> prefix (?css ! j) (?css ! i)"
      using apart(1) [rule_format, OF m] apart(1) [rule_format, OF m(2,1)] ij by (auto simp: strict_prefix_def)
  qed
  show "\<forall>cs \<in> set ?css. cs \<noteq> [] \<and> [[] \<mapsto> Dir, [''dev''] \<mapsto> Dir] cs = None"
  proof
    fix cs assume "cs \<in> set ?css"
    then obtain p where p: "p \<in> set ?ps" "cs = path_names (snd p)" by auto
    have "cs \<noteq> [''dev'']" using nm(1) [OF p(1)] apart(2) p by auto
    then show "cs \<noteq> [] \<and> [[] \<mapsto> Dir, [''dev''] \<mapsto> Dir] cs = None" using nm(2) [OF p(1)] p(2) by simp
  qed
qed auto

text \<open>C6. The build tool and the kernel agree on the format of the boot archive. When \<open>make_initrd\<close> produces an image and the boot
  loader puts it anywhere below the kernel heap, the kernel mounts it, provided that no file is
  used as a directory by another one and none is called \<open>dev\<close>: every file given on the command line, looked up by its
  name in the image, reads back exactly its bytes on the host.\<close>

theorem archive_roundtrip:
  fixes s :: "'a fstate_scheme"
  assumes mk: "make_initrd host host accepts closes args = Some img" and nul: "\<forall>a \<in> set args. CHR 0x00 \<notin> set a"
    and apart: "\<forall>p \<in> set (pair_up args). \<forall>q \<in> set (pair_up args). \<not> strict_prefix (path_names (snd p)) (path_names (snd q))"
      "\<forall>p \<in> set (pair_up args). snd p \<noteq> ''dev''"
    and module: "bytes_at (mem s) location img" "kheap s = Some h" "unat location + length img \<le> unat (start_address h)"
    and boot: "fs_nodes s = Map.empty" "heap_ready (sum_list (map (\<lambda>p. length (path_names (snd p))) (pair_up args)) + 2) s"
  shows "\<exists>root s'. initialise_initrd (kmalloc (kernel_alloc (Suc k))) location (location + of_nat (length img)) s = Some (root, s') \<and>
    fs_wf (fs_nodes s') root \<and>
    (\<forall>p \<in> set (pair_up args). \<exists>c. host (fst p) = Some c \<and>
       (\<forall>off sz. let bs = take (unat sz) (drop (unat off) c)
          in read_fs (find_path_fs (fs_nodes s') root (CHR ''/'' # snd p)) off sz False s' = Some (of_nat (length bs), bs)))"
proof -
  let ?ps = "pair_up args" and ?stop = "location + of_nat (length img)"
  define css where "css = map (\<lambda>p. path_names (snd p)) ?ps"
  define hs where "hs = map (\<lambda>i. read_file_header (mem s) (location + 4 + of_nat i * 76)) [0..<INITRD_HEADER_SLOTS]"
  note im = make_initrd_image [OF mk nul] and nm = image_names [OF mk nul]
  have lt: "unat location + length img < 4294967296" using module(3) unat_lt_2_32 [of "start_address h"] by linarith
  have u: "unat (of_nat (length img) :: u32int) = length img" by (rule unat_of_nat32) (use lt in linarith)
  have ue: "unat ?stop = unat location + length img" using lt u by (subst unat_add_lem [THEN iffD1]) simp_all
  have loc: "location < ?stop" "4 + of_nat INITRD_HEADER_SLOTS * 76 \<le> ?stop - location"
    using image_length [OF mk nul] u ue by (auto simp: word_less_nat_alt word_le_nat_alt INITRD_HEADER_SLOTS_def)
  have hj: "hs ! j = read_file_header (mem s) (location + 4 + of_nat j * 76)" if "j < length ?ps" for j
    using that im(2) by (simp add: hs_def INITRD_HEADER_SLOTS_def)
  have n: "unat (load32 (mem s) location) = length css" "length css \<le> INITRD_HEADER_SLOTS"
    using image_read(1) [OF mk nul module(1) im(1)] im(1,2) unat_of_nat32 [of "length ?ps"]
    by (simp_all add: css_def INITRD_HEADER_SLOTS_def)
  have ok: "\<forall>j < length css. header_ok (?stop - location) (hs ! j) (css ! j)"
    using image_headers_ok [OF mk nul module(1)] hj lt by (simp add: css_def)
  have free: "all_free [[] \<mapsto> Dir, [''dev''] \<mapsto> Dir] css 0" unfolding css_def by (rule image_names_free [OF mk nul apart])
  have ready: "module_ready (mem s) (unat location + length img) (sum_list (map length css) + 2) s"
    using boot(2) module(2,3) by (auto simp: module_ready_def css_def comp_def)
  obtain root s' where s': "initialise_initrd (kmalloc (kernel_alloc (Suc k))) location ?stop s = Some (root, s')"
      "fs_wf (fs_nodes s') root" "files_wf (fs_nodes s') hs" "file_headers s' = hs" "initrd_location s' = location"
      "fs_view (fs_nodes s') root = add_all [[] \<mapsto> Dir, [''dev''] \<mapsto> Dir] css 0"
      "module_ready (mem s) (unat location + length img) 0 s'"
    using module_nodes.initialise_initrd_ok [OF loc hs_def n ok free boot(1) ready, of k] by blast
  have same: "same_on (mem s) (mem s') 0 (unat location + length img)" using s'(7) by (simp add: module_ready_def)
  have "\<exists>c. host (fst p) = Some c \<and> (\<forall>off sz. let bs = take (unat sz) (drop (unat off) c)
          in read_fs (find_path_fs (fs_nodes s') root (CHR ''/'' # snd p)) off sz False s' = Some (of_nat (length bs), bs))"
    if p: "p \<in> set ?ps" for p
  proof -
    obtain j where j: "j < length ?ps" "?ps ! j = p" using p by (auto simp: in_set_conv_nth)
    obtain c where c: "host (fst p) = Some c" using nm(6) [OF p] by auto
    have f: "file_bytes s' (hs ! j) = c"
      using file_bytes_image [OF mk nul module(1) j(1) same s'(5)] hj [OF j(1)] c j(2) by simp
    have v: "fs_view (fs_nodes s') root (path_names (snd p)) = Some (File j)"
      using s'(6) add_all_nth [OF free, of j] j by (simp add: css_def)
    show ?thesis
      using mounted_file_read [OF s'(2-4) v nm(4) [OF p], of "take (unat sz) (drop (unat off) c)" sz off for sz off]
      unfolding f nm(1) [OF p] using c by (auto simp: Let_def)
  qed
  then show ?thesis using s'(1,2) by blast
qed

theorem archive_roundtrip_witness:
  "\<exists>(s :: fstate) root s' img. make_initrd [''f'' \<mapsto> [0x68, 0x69]] [''f'' \<mapsto> [0x68, 0x69]] (\<lambda>_. True) True [''f'', ''motd''] = Some img \<and>
     initialise_initrd (kmalloc (kernel_alloc (Suc 0))) 0x100000 (0x100000 + of_nat (length img)) s = Some (root, s') \<and>
     read_fs (find_path_fs (fs_nodes s') root ''/motd'') 1 9 False s' = Some (1, [0x69])"
proof -
  let ?host = "[''f'' \<mapsto> [0x68, 0x69 :: u8int]]" and ?args = "[''f'', ''motd'']"
  have v: "valid_image_path ''motd''" by (simp add: valid_image_path_def bad_component_def)
  obtain img where mk: "make_initrd ?host ?host (\<lambda>_. True) True ?args = Some img"
    using v by (simp add: make_initrd_def MAX_INITRD_FILES_def write_out_def copy_file.simps Let_def)
  have nul: "\<forall>a \<in> set ?args. CHR 0x00 \<notin> set a" by simp
  have len: "length img = 4870" using image_length [OF mk nul] by simp
  have pn: "path_names ''motd'' = [''motd'']" by (simp add: path_names_def)
  obtain s :: fstate and h where s: "heap_ready 3 s" "fs_nodes s = Map.empty"
      "\<And>a. a < 0xC0000000 \<Longrightarrow> mem s a = img ! unat (a - 0x100000)" "kheap s = Some h" "start_address h = 0xC0080000"
    by (rule demo_boot_exists [of "\<lambda>a. img ! unat (a - 0x100000)"]) blast
  have m: "bytes_at (mem s) 0x100000 img"
    unfolding bytes_at_def
  proof (intro allI impI)
    fix i assume "i < length img"
    then have i: "unat (of_nat i :: u32int) = i" "i < 4870" using len by (auto intro: unat_of_nat32)
    have "unat (0x100000 + of_nat i :: u32int) = 0x100000 + i" using i by (subst unat_add_lem [THEN iffD1]) simp_all
    then have "(0x100000 + of_nat i :: u32int) < 0xC0000000" using i(2) by (simp add: word_less_nat_alt)
    then show "mem s (0x100000 + of_nat i) = img ! i" using s(3) i(1) by simp
  qed
  from archive_roundtrip [OF mk nul _ _ m s(4) _ s(2), of 0] s(1,5) len obtain root s' where
    r: "initialise_initrd (kmalloc (kernel_alloc (Suc 0))) 0x100000 (0x100000 + of_nat (length img)) s = Some (root, s')"
      "\<And>off sz. let bs = take (unat sz) (drop (unat off) [0x68, 0x69])
          in read_fs (find_path_fs (fs_nodes s') root ''/motd'') off sz False s' = Some (of_nat (length bs), bs)"
    by (auto simp: pn numeral_3_eq_3)
  from r(2) [of "9" "1"] have "read_fs (find_path_fs (fs_nodes s') root ''/motd'') 1 9 False s' = Some (1, [0x69])" by simp
  then show ?thesis using mk r(1) by blast
qed

end
