(* ===== verification/Spec2Isabelle.thy ===== *)
theory Spec2Isabelle
  imports User_Properties Shell_Properties Make_Initrd
begin

text \<open>
  Verification of a small 32-bit x86 operating system written in C: the kernel (\<open>src/src\<close>), the user libraries and the
  shell (\<open>src/user\<close>), and the tool that builds the boot archive (\<open>src/make_initrd.c\<close>).

  \<^bold>\<open>The program.\<close> GRUB starts \<open>main\<close> (\<open>main.c\<close>), which sets up the descriptor tables, the console, the clock, paging with
  the kernel heap, tasking, the boot archive as root file system, the system calls and the keyboard, and
  creates the first user process. From then on the kernel runs only when it is entered: by
  \<open>int 0x80\<close>, by an exception, by the clock or by the keyboard (\<open>isr.c\<close>, \<open>syscall.c\<close>, \<open>timer.c\<close>, \<open>keyboard.c\<close>).
  System calls reach processes and signals (\<open>task.c\<close>, \<open>signal.c\<close>), program loading (\<open>exec.c\<close>), files (\<open>fs.c\<close>,
  \<open>initrd.c\<close>) and the console (\<open>monitor.c\<close>); all of these allocate through \<open>kheap.c\<close>, whose pages come from \<open>paging.c\<close>,
  which itself allocates page tables through \<open>kheap.c\<close>.

  \<^bold>\<open>State.\<close> The global variables are one record, built in layers that follow the dependencies: \<open>pstate\<close> (byte
  memory, heap, page directories, frames), \<open>fstate\<close> (nodes of the file system, the archive), \<open>tstate\<close> (tasks, ready queue),
  \<open>mstate\<close> (screen, cursor, ring of keys, handler table, tick, log of port writes), \<open>dstate\<close> (descriptor tables). Every operation is
  polymorphic in the layers above its own, and the framing lemmas say that it leaves them alone. Integers keep
  their width as words. An operation that can stop the machine (\<open>ASSERT\<close>, \<open>PANIC\<close>, an access outside an array or through
  a null pointer, a page fault in the kernel) has an option result, and \<open>None\<close> is that stop; error returns of the code are values.

  \<^bold>\<open>Memory.\<close> The kernel heap lives in \<open>mem\<close>, a byte function of the virtual address, with headers and footers at their
  C offsets. Page tables, directories, nodes and task structures are typed objects keyed by their address: the
  code never reads them as bytes. User memory is \<open>pmem\<close>, physical bytes behind \<open>translate\<close>, the walk through the page
  tables, so that two processes, or a process and its copy, can be told apart. Strings passed by a
  process are read whole before they are looked up.

  \<^bold>\<open>Theories and sources.\<close>
  \<^item> \<open>Kernel_Prelude\<close>: word and memory vocabulary, \<open>ASSERT\<close> and \<open>PANIC\<close> (\<open>common.h\<close>), generic lemmas.
  \<^item> \<open>Ordered_Array\<close> (\<open>ordered_array.c\<close>): the sorted pointer array and the contract \<open>ordered_index\<close>.
  \<^item> \<open>KHeap\<close> (\<open>kheap.c\<close>): the heap; \<open>KHeap_Layout\<close> its invariant, \<open>KHeap_Validate\<close> the run-time validator, \<open>KHeap_Alloc\<close>,
    \<open>KHeap_Grow\<close>, \<open>KHeap_Create\<close>, \<open>KHeap_Correct\<close>, \<open>KHeap_Free\<close>, \<open>KHeap_Short_Tail\<close>, \<open>KHeap_Total\<close> the operations against it. The pages the heap needs are the contracts
    \<open>quiet_mapper\<close>, \<open>paged_mapper\<close> and \<open>page_releaser\<close>.
  \<^item> \<open>Frames\<close>, \<open>Paging\<close>, \<open>Paging_Frames\<close>, \<open>Paging_Clone\<close> (\<open>paging.c\<close>): bitmap of frames, page tables, ownership of frames, copies of
    address spaces. \<open>Kernel_Memory\<close> interprets the contracts of the heap on paging, \<open>Memory_Properties\<close> holds the statements.
  \<^item> \<open>FS\<close> (\<open>fs.c\<close>, \<open>initrd.c\<close>), \<open>FS_Paths\<close> (path names), \<open>FS_Tree\<close> (the tree as a name space), \<open>FS_Archive\<close> and \<open>FS_Build\<close> (mounting, \<open>mkdir\<close>, on the
    contract \<open>node_allocator\<close>), \<open>FS_Properties\<close>.
  \<^item> \<open>Task\<close>, \<open>Signal\<close>, \<open>Process\<close> (\<open>task.c\<close>, \<open>signal.c\<close>); \<open>Framing\<close> (what memory management leaves alone), \<open>Scheduler\<close>, \<open>Process_Invariant\<close>, \<open>Process_Life\<close>,
    \<open>Signal_Frames\<close>, \<open>Task_Properties\<close>.
  \<^item> \<open>Exec\<close> (\<open>exec.c\<close>, \<open>elf.h\<close>), \<open>Exec_Life\<close> (the transaction), \<open>Exec_Check\<close> (the ELF checks), \<open>Exec_Stack\<close> (the argument block), \<open>Exec_Properties\<close>.
  \<^item> \<open>Console\<close> (\<open>monitor.c\<close>), \<open>Keyboard\<close> (\<open>keyboard.c\<close>, on the contract \<open>bounded_queue\<close>), \<open>Descriptor_Tables\<close> (\<open>descriptor_tables.c\<close>), \<open>IO_Properties\<close>.
  \<^item> \<open>Syscall\<close> (\<open>syscall.c\<close>), \<open>Interrupts\<close> (\<open>isr.c\<close>, \<open>timer.c\<close>, \<open>main.c\<close>), \<open>Kernel_Life\<close> (every entry keeps the process invariant), \<open>Syscall_Properties\<close>.
  \<^item> \<open>C_Strings\<close> (\<open>common.c\<close>): the memory and string routines on byte memory. Kernel structures that are typed objects do not use them.
  \<^item> \<open>Make_Initrd\<close> (\<open>make_initrd.c\<close>): the builder of the archive, and that the kernel mounts what it builds.
  \<^item> \<open>User_ABI\<close> (\<open>user/libc/syscall.c\<close>, \<open>user/newlib/syscalls.c\<close>, the wrappers of \<open>syscall.c\<close>), \<open>Userlib\<close> (\<open>user/libc/print.c\<close>), \<open>Shell\<close>
    (\<open>user/programs/shell.c\<close>, the first process of \<open>main.c\<close>), \<open>User_Properties\<close>, \<open>Shell_Properties\<close>. A user program is what it asks of the kernel: the
    wrappers as the way they load the registers, the shell as a function from the responses of the kernel to its requests.

  \<^bold>\<open>What is shown.\<close>
  \<^item> Heap: \<open>alloc\<close> is best fit and \<open>free\<close> joins neighbours, both keep the boundary tags and the index exact and every other block intact,
    they return, and the run-time validator accepts exactly the valid heaps. The panic of \<open>free\<close> on a tail of 1 to 19 bytes is a theorem too.
  \<^item> Paging: no frame backs two pages, the least free frame is taken, a copied page table has equal contents in fresh frames.
  \<^item> Files: mounting an archive gives a well-formed tree in which every file reads back; path lookup is a walk in the tree and stays
    inside it; \<open>mkdir\<close> and path printing are exact; an image of \<open>make_initrd\<close> reads back what was put in.
  \<^item> Processes: every kernel entry keeps the invariant of the process table; the scheduler picks the next runnable task and is fair; \<open>fork\<close>, \<open>exit\<close>,
    \<open>waitpid\<close>, \<open>sbrk\<close>, signal delivery and return do what they promise on every branch.
  \<^item> Programs: the ELF checks accept exactly the safe tables, \<open>execve\<close> is a transaction, and the arguments arrive on the new stack.
  \<^item> Devices: the console stays on its screen, numbers print as numerals, keys come out in order and wake readers, the descriptor tables decode to
    what was meant.
  \<^item> User side: libraries and kernel agree on the system-call interface, errors reach \<open>errno\<close>, the shell cuts words, edits lines and copies files correctly.

  \<^bold>\<open>Recursion and bounds.\<close> The heap allocates page tables through itself; \<open>kernel_alloc\<close> ties this knot by the depth of nested calls, and the
  theorem on \<open>kmalloc\<close> shows that four are enough whenever the heap has room. Loops with a bound in the code are structural or have a measure.
  Loops that may run for ever (\<open>waitpid\<close> polling, reading until end of file, searching a terminator) are partial
  functions with an option result; each has a theorem that it returns under the condition the code relies on. The main loop of the shell is
  its state after any number of rounds.

  \<^bold>\<open>Not modelled.\<close> The assembly stubs (\<open>boot.s\<close>, \<open>gdt.s\<close>, \<open>interrupt.s\<close>, \<open>process.s\<close>, \<open>crt0.s\<close>, \<open>signal.s\<close>): their effect appears where C code relies on it, as
  the saved registers, the copied page or the loaded selector. The inline assembly of \<open>switch_to_user_mode\<close>. The contents of a kernel stack while a task
  is preempted inside the kernel: a task continues where its saved frame says. Port reads have no state: the scan code is an argument
  of the interrupt. Interrupts during boot, between \<open>sti\<close> and the idle loop. TLB and caches. The demonstration programs
  (\<open>hello\<close>, \<open>args\<close>, \<open>sigdemo\<close> and the like) print fixed messages through the library calls that are modelled.
\<close>

end
